(* ===== verification/Prelude.thy ===== *)
theory Prelude
  imports Main "HOL-Library.Word"
begin

text \<open>
  Shared vocabulary of the development: the error values that stand for the assertions, exceptions
  and undefined memory accesses of the C++ code, the sequencing of fallible operations, indexed
  access to the fixed-size buffers of the runtime, and the conversions between the signed and
  unsigned 32-bit integers.
\<close>

section \<open>Errors and sequencing\<close>

text \<open>
  An \<open>assert\<close> that does not hold is \<open>AssertFail\<close>, an access outside a buffer (undefined in C++)
  is \<open>OutOfBounds\<close>, an allocation of a negative size is \<open>OutOfMemory\<close>, a
  \<open>std::runtime_error\<close> is \<open>RuntimeError\<close>, a \<open>std::out_of_range\<close> of a container's
  \<open>at\<close> is \<open>OutOfRange\<close>, a \<open>std::invalid_argument\<close> is \<open>InvalidArgument\<close>, and a \<open>fread\<close> that finds fewer bytes than it asks for (its result is never
  checked by the code, which then goes on with indeterminate bytes) is \<open>ShortRead\<close>.  An exception
  that leaves a destructor ends the process (\<open>std::terminate\<close>): this is \<open>Terminated\<close>.
\<close>

datatype error =
    AssertFail string | OutOfBounds | OutOfMemory | RuntimeError string | OutOfRange | InvalidArgument | ShortRead | Terminated

type_synonym 'a res = "error + 'a"

text \<open>When a fallible computation returns: the rules that take a successful result apart.\<close>

named_theorems res_iff

definition bindE :: "'a res \<Rightarrow> ('a \<Rightarrow> 'b res) \<Rightarrow> 'b res" where
  "bindE m f = (case m of Inl e \<Rightarrow> Inl e | Inr x \<Rightarrow> f x)"

definition assertE :: "bool \<Rightarrow> string \<Rightarrow> unit res" where
  "assertE b msg = (if b then Inr () else Inl (AssertFail msg))"

lemma bindE_Inr [simp]: "bindE (Inr x) f = f x"
  by (simp add: bindE_def)

lemma bindE_Inl [simp]: "bindE (Inl e) f = Inl e"
  by (simp add: bindE_def)

lemma bindE_assoc: "bindE (bindE m f) g = bindE m (\<lambda>x. bindE (f x) g)"
  by (simp add: bindE_def split: sum.split)

lemma bindE_eq_Inr_iff [res_iff]: "bindE m f = Inr y \<longleftrightarrow> (\<exists>x. m = Inr x \<and> f x = Inr y)"
  by (cases m) auto

lemma bindE_eq_Inl_iff: "bindE m f = Inl e \<longleftrightarrow> m = Inl e \<or> (\<exists>x. m = Inr x \<and> f x = Inl e)"
  by (cases m) auto

lemma bindE_cong [fundef_cong]:
  "m = m' \<Longrightarrow> (\<And>x. m' = Inr x \<Longrightarrow> f x = f' x) \<Longrightarrow> bindE m f = bindE m' f'"
  by (cases m') simp_all

lemma assertE_True [simp]: "assertE True msg = Inr ()"
  by (simp add: assertE_def)

lemma assertE_False [simp]: "assertE False msg = Inl (AssertFail msg)"
  by (simp add: assertE_def)

lemma assertE_eq_Inr_iff [res_iff]: "assertE b msg = Inr u \<longleftrightarrow> b"
  by (simp add: assertE_def)

text \<open>
  Executable forms of ``returns a value satisfying \<open>P\<close>'', for results that may be errors and for
  loops that may not return.
\<close>

definition okE :: "('a \<Rightarrow> bool) \<Rightarrow> 'a res \<Rightarrow> bool" where
  "okE P r = (case r of Inl _ \<Rightarrow> False | Inr x \<Rightarrow> P x)"

definition okOE :: "('a \<Rightarrow> bool) \<Rightarrow> 'a res option \<Rightarrow> bool" where
  "okOE P r = (case r of None \<Rightarrow> False | Some m \<Rightarrow> okE P m)"

lemma okE_iff: "okE P r \<longleftrightarrow> (\<exists>x. r = Inr x \<and> P x)"
  by (auto simp: okE_def split: sum.split)

lemma okOE_iff: "okOE P r \<longleftrightarrow> (\<exists>x. r = Some (Inr x) \<and> P x)"
  by (auto simp: okOE_def okE_iff split: option.split)

definition bindOE :: "'a res option \<Rightarrow> ('a \<Rightarrow> 'b res option) \<Rightarrow> 'b res option" where
  "bindOE m f = (case m of None \<Rightarrow> None | Some (Inl e) \<Rightarrow> Some (Inl e) | Some (Inr x) \<Rightarrow> f x)"

lemma bindOE_simps [simp]:
  "bindOE None f = None" "bindOE (Some (Inl e)) f = Some (Inl e)" "bindOE (Some (Inr x)) f = f x"
  by (simp_all add: bindOE_def)

lemma bindOE_eq_Inr_iff: "bindOE m f = Some (Inr y) \<longleftrightarrow> (\<exists>x. m = Some (Inr x) \<and> f x = Some (Inr y))"
  by (auto simp: bindOE_def split: option.splits sum.splits)

section \<open>Fixed-size buffers\<close>

text \<open>
  A buffer \<open>T* ptr\<close> of the runtime is a list; \<open>ptr[i]\<close> with a signed index is \<open>get_at\<close>, and an
  assignment through a reference to \<open>ptr[i]\<close> is \<open>upd_at\<close>.
\<close>

definition in_range :: "'a list \<Rightarrow> int \<Rightarrow> bool" where
  "in_range xs i \<longleftrightarrow> 0 \<le> i \<and> i < int (length xs)"

definition at :: "'a list \<Rightarrow> int \<Rightarrow> 'a" where
  "at xs i = xs ! nat i"

definition get_at :: "'a list \<Rightarrow> int \<Rightarrow> 'a res" where
  "get_at xs i = (if in_range xs i then Inr (at xs i) else Inl OutOfBounds)"

definition set_at :: "'a list \<Rightarrow> int \<Rightarrow> 'a \<Rightarrow> 'a list" where
  "set_at xs i v = xs[nat i := v]"

definition upd_at :: "'a list \<Rightarrow> int \<Rightarrow> ('a \<Rightarrow> 'a) \<Rightarrow> 'a list res" where
  "upd_at xs i f = (if in_range xs i then Inr (set_at xs i (f (at xs i))) else Inl OutOfBounds)"

lemma get_at_in [simp]: "in_range xs i \<Longrightarrow> get_at xs i = Inr (at xs i)"
  by (simp add: get_at_def)

lemma upd_at_in [simp]: "in_range xs i \<Longrightarrow> upd_at xs i f = Inr (set_at xs i (f (at xs i)))"
  by (simp add: upd_at_def)

lemma get_at_eq_Inr_iff [res_iff]: "get_at xs i = Inr x \<longleftrightarrow> in_range xs i \<and> x = at xs i"
  by (auto simp: get_at_def)

lemma upd_at_eq_Inr_iff:
  "upd_at xs i f = Inr ys \<longleftrightarrow> in_range xs i \<and> ys = set_at xs i (f (at xs i))"
  by (auto simp: upd_at_def)

lemma length_set_at [simp]: "length (set_at xs i v) = length xs"
  by (simp add: set_at_def)

lemma in_range_set_at [simp]: "in_range (set_at xs i v) j = in_range xs j"
  by (simp add: in_range_def)

lemma in_range_nonneg: "in_range xs i \<Longrightarrow> 0 \<le> i"
  by (simp add: in_range_def)

lemma at_set_at:
  "in_range xs i \<Longrightarrow> in_range xs j \<Longrightarrow> at (set_at xs i v) j = (if i = j then v else at xs j)"
  by (auto simp: at_def set_at_def in_range_def nth_list_update nat_eq_iff)

lemma at_set_at_same [simp]: "in_range xs i \<Longrightarrow> at (set_at xs i v) i = v"
  by (simp add: at_set_at)

lemma at_set_at_other [simp]:
  "in_range xs i \<Longrightarrow> in_range xs j \<Longrightarrow> i \<noteq> j \<Longrightarrow> at (set_at xs i v) j = at xs j"
  by (simp add: at_set_at)

lemma at_set_at_other_nonneg [simp]:
  "0 \<le> i \<Longrightarrow> 0 \<le> j \<Longrightarrow> i \<noteq> j \<Longrightarrow> at (set_at xs i v) j = at xs j"
  by (simp add: at_def set_at_def nat_eq_iff)

lemma set_at_twice [simp]: "set_at (set_at xs i v) i w = set_at xs i w"
  by (simp add: set_at_def)

lemma set_at_same [simp]: "set_at xs i (at xs i) = xs"
  by (simp add: set_at_def at_def)

text \<open>\<open>memcpy\<close> of some bytes into a buffer at an offset.\<close>

definition patch :: "'a list \<Rightarrow> nat \<Rightarrow> 'a list \<Rightarrow> 'a list" where
  "patch xs off ys = take off xs @ ys @ drop (off + length ys) xs"

definition segment :: "'a list \<Rightarrow> nat \<Rightarrow> nat \<Rightarrow> 'a list" where
  "segment xs off len = take len (drop off xs)"

lemma length_patch [simp]: "off + length ys \<le> length xs \<Longrightarrow> length (patch xs off ys) = length xs"
  by (simp add: patch_def)

lemma length_segment [simp]: "off + len \<le> length xs \<Longrightarrow> length (segment xs off len) = len"
  by (simp add: segment_def)

lemma nth_segment: "i < len \<Longrightarrow> off + len \<le> length xs \<Longrightarrow> segment xs off len ! i = xs ! (off + i)"
  by (simp add: segment_def)

lemma nth_patch:
  assumes "off + length ys \<le> length xs"
  shows "patch xs off ys ! i = (if off \<le> i \<and> i < off + length ys then ys ! (i - off) else xs ! i)"
proof -
  consider "i < off" | "off \<le> i" "i < off + length ys" | "off + length ys \<le> i" by linarith
  then show ?thesis
  proof cases
    case 3
    then have "i - off \<ge> length ys" "off + length ys + (i - off - length ys) = i" by simp_all
    with 3 assms show ?thesis by (simp add: patch_def nth_append)
  next
    case 2
    then have "i - off < length ys" by linarith
    with 2 assms show ?thesis by (simp add: patch_def nth_append)
  qed (use assms in \<open>simp add: patch_def nth_append\<close>)
qed

lemma segment_patch_disjoint:
  assumes "off + length ys \<le> length xs" and "off' + len \<le> length xs"
    and "off' + len \<le> off \<or> off + length ys \<le> off'"
  shows "segment (patch xs off ys) off' len = segment xs off' len"
  using assms by (intro nth_equalityI) (auto simp: nth_segment nth_patch)

lemma segment_patch_inside:
  assumes "off' + len \<le> length xs" and "off' \<le> off" and "off + length ys \<le> off' + len"
  shows "segment (patch xs off ys) off' len = patch (segment xs off' len) (off - off') ys"
  using assms by (intro nth_equalityI) (auto simp: nth_segment nth_patch add.commute)

section \<open>32-bit integers\<close>

definition to_i32 :: "int \<Rightarrow> int" where
  "to_i32 x = (x + 2 ^ 31) mod 2 ^ 32 - 2 ^ 31"

definition to_u32 :: "int \<Rightarrow> int" where
  "to_u32 x = x mod 2 ^ 32"

definition is_i32 :: "int \<Rightarrow> bool" where
  "is_i32 x \<longleftrightarrow> - (2 ^ 31) \<le> x \<and> x < 2 ^ 31"

definition is_u32 :: "int \<Rightarrow> bool" where
  "is_u32 x \<longleftrightarrow> 0 \<le> x \<and> x < 2 ^ 32"

lemma to_i32_id [simp]: "is_i32 x \<Longrightarrow> to_i32 x = x"
  by (simp add: is_i32_def to_i32_def)

lemma to_u32_id [simp]: "is_u32 x \<Longrightarrow> to_u32 x = x"
  by (simp add: is_u32_def to_u32_def)

lemma is_i32_to_i32 [simp]: "is_i32 (to_i32 x)"
  by (simp add: is_i32_def to_i32_def)

lemma is_u32_to_u32 [simp]: "is_u32 (to_u32 x)"
  by (simp add: is_u32_def to_u32_def)

lemma to_i32_to_u32 [simp]: "to_i32 (to_u32 x) = to_i32 x"
  by (simp add: to_i32_def to_u32_def mod_add_left_eq)

lemma to_u32_to_i32 [simp]: "to_u32 (to_i32 x) = to_u32 x"
  by (simp add: to_i32_def to_u32_def mod_diff_left_eq)

abbreviation GRAPH_NONE :: int where
  "GRAPH_NONE \<equiv> - 1"

end
