(* ===== verification/Xsd_Types.thy ===== *)
theory Xsd_Types
  imports Prelude "HOL-Library.AList"
begin

text \<open>
  The XSD datatype tags of \<open>include/gengodb/semantics/Datatypes.h\<close>: the enumeration, its integer
  encoding, the tables between tags and local names, and the classification of a datatype IRI.
  An \<open>rdf4cpp::IRI\<close> enters through what the code reads of it, whether it is null and its identifier.
\<close>

section \<open>The enumeration and its integer values\<close>

datatype (plugins only: code size) xsd_type =
    T_Unspecified | T_String | T_Boolean | T_Decimal | T_Float | T_Double | T_Duration
  | T_DateTime | T_Time | T_Date | T_GYearMonth | T_GYear | T_GMonthDay | T_GDay | T_GMonth
  | T_HexBinary | T_Base64Binary | T_AnyURI | T_QName | T_Notation | T_NormalizedString
  | T_Token | T_Language | T_NMTOKEN | T_NMTOKENS | T_Name | T_NCName | T_ID | T_IDREF
  | T_IDREFS | T_ENTITY | T_ENTITIES | T_Integer | T_NonPositiveInteger | T_NegativeInteger
  | T_Long | T_Int | T_Short | T_Byte | T_NonNegativeInteger | T_UnsignedLong
  | T_UnsignedInt | T_UnsignedShort | T_UnsignedByte | T_PositiveInteger | T_Node
  | T_LangString | T_AnyIRI | T_AnyLiteralNode | T_AnyLiteralScalar | T_Edge

primrec to_int32 :: "xsd_type \<Rightarrow> int" where
  "to_int32 T_Unspecified = 0"
| "to_int32 T_String = 1"
| "to_int32 T_Boolean = 2"
| "to_int32 T_Decimal = 3"
| "to_int32 T_Float = 4"
| "to_int32 T_Double = 5"
| "to_int32 T_Duration = 6"
| "to_int32 T_DateTime = 7"
| "to_int32 T_Time = 8"
| "to_int32 T_Date = 9"
| "to_int32 T_GYearMonth = 10"
| "to_int32 T_GYear = 11"
| "to_int32 T_GMonthDay = 12"
| "to_int32 T_GDay = 13"
| "to_int32 T_GMonth = 14"
| "to_int32 T_HexBinary = 15"
| "to_int32 T_Base64Binary = 16"
| "to_int32 T_AnyURI = 17"
| "to_int32 T_QName = 18"
| "to_int32 T_Notation = 19"
| "to_int32 T_NormalizedString = 100"
| "to_int32 T_Token = 101"
| "to_int32 T_Language = 102"
| "to_int32 T_NMTOKEN = 103"
| "to_int32 T_NMTOKENS = 104"
| "to_int32 T_Name = 105"
| "to_int32 T_NCName = 106"
| "to_int32 T_ID = 107"
| "to_int32 T_IDREF = 108"
| "to_int32 T_IDREFS = 109"
| "to_int32 T_ENTITY = 110"
| "to_int32 T_ENTITIES = 111"
| "to_int32 T_Integer = 200"
| "to_int32 T_NonPositiveInteger = 201"
| "to_int32 T_NegativeInteger = 202"
| "to_int32 T_Long = 203"
| "to_int32 T_Int = 204"
| "to_int32 T_Short = 205"
| "to_int32 T_Byte = 206"
| "to_int32 T_NonNegativeInteger = 207"
| "to_int32 T_UnsignedLong = 208"
| "to_int32 T_UnsignedInt = 209"
| "to_int32 T_UnsignedShort = 210"
| "to_int32 T_UnsignedByte = 211"
| "to_int32 T_PositiveInteger = 212"
| "to_int32 T_Node = 1000"
| "to_int32 T_LangString = 1001"
| "to_int32 T_AnyIRI = 1002"
| "to_int32 T_AnyLiteralNode = 1003"
| "to_int32 T_AnyLiteralScalar = 1004"
| "to_int32 T_Edge = 1005"

text \<open>The enumerator whose underlying value is the given one, for \<open>static_cast<Type>(value)\<close>.\<close>

definition enumerators :: "xsd_type list" where
  "enumerators = [
    T_Unspecified, T_String, T_Boolean, T_Decimal, T_Float, T_Double, T_Duration, T_DateTime
    , T_Time, T_Date, T_GYearMonth, T_GYear, T_GMonthDay, T_GDay, T_GMonth, T_HexBinary
    , T_Base64Binary, T_AnyURI, T_QName, T_Notation, T_NormalizedString, T_Token, T_Language
    , T_NMTOKEN, T_NMTOKENS, T_Name, T_NCName, T_ID, T_IDREF, T_IDREFS, T_ENTITY, T_ENTITIES
    , T_Integer, T_NonPositiveInteger, T_NegativeInteger, T_Long, T_Int, T_Short, T_Byte
    , T_NonNegativeInteger, T_UnsignedLong, T_UnsignedInt, T_UnsignedShort, T_UnsignedByte
    , T_PositiveInteger, T_Node, T_LangString, T_AnyIRI, T_AnyLiteralNode
    , T_AnyLiteralScalar, T_Edge]"

definition cast_type :: "int \<Rightarrow> xsd_type option" where
  "cast_type v = find (\<lambda>t. to_int32 t = v) enumerators"

definition from_int32_cases :: "xsd_type list" where
  "from_int32_cases = [
    T_Unspecified, T_String, T_Boolean, T_Decimal, T_Float, T_Double, T_Duration, T_DateTime
    , T_Time, T_Date, T_GYearMonth, T_GYear, T_GMonthDay, T_GDay, T_GMonth, T_HexBinary
    , T_Base64Binary, T_AnyURI, T_QName, T_Notation, T_NormalizedString, T_Token, T_Language
    , T_NMTOKEN, T_NMTOKENS, T_Name, T_NCName, T_ID, T_IDREF, T_IDREFS, T_ENTITY, T_ENTITIES
    , T_Integer, T_NonPositiveInteger, T_NegativeInteger, T_Long, T_Int, T_Short, T_Byte
    , T_NonNegativeInteger, T_UnsignedLong, T_UnsignedInt, T_UnsignedShort, T_UnsignedByte
    , T_PositiveInteger, T_LangString, T_AnyLiteralNode, T_AnyLiteralScalar]"

definition from_int32 :: "int \<Rightarrow> xsd_type option" where
  "from_int32 v = (case cast_type v of
       Some t \<Rightarrow> if t \<in> set from_int32_cases then Some t else None
     | None \<Rightarrow> None)"

section \<open>Names\<close>

definition xsd_names :: "(xsd_type \<times> string) list" where
  "xsd_names = [
    (T_Unspecified, ''unspecified''), (T_String, ''string''), (T_Boolean, ''boolean'')
    , (T_Decimal, ''decimal''), (T_Float, ''float''), (T_Double, ''double'')
    , (T_Duration, ''duration''), (T_DateTime, ''dateTime''), (T_Time, ''time'')
    , (T_Date, ''date''), (T_GYearMonth, ''gYearMonth''), (T_GYear, ''gYear'')
    , (T_GMonthDay, ''gMonthDay''), (T_GDay, ''gDay''), (T_GMonth, ''gMonth'')
    , (T_HexBinary, ''hexBinary''), (T_Base64Binary, ''base64Binary'')
    , (T_AnyURI, ''anyURI''), (T_QName, ''QName''), (T_Notation, ''NOTATION'')
    , (T_NormalizedString, ''normalizedString''), (T_Token, ''token'')
    , (T_Language, ''language''), (T_NMTOKEN, ''NMTOKEN''), (T_NMTOKENS, ''NMTOKENS'')
    , (T_Name, ''Name''), (T_NCName, ''NCName''), (T_ID, ''ID''), (T_IDREF, ''IDREF'')
    , (T_IDREFS, ''IDREFS''), (T_ENTITY, ''ENTITY''), (T_ENTITIES, ''ENTITIES'')
    , (T_Integer, ''integer''), (T_NonPositiveInteger, ''nonPositiveInteger'')
    , (T_NegativeInteger, ''negativeInteger''), (T_Long, ''long''), (T_Int, ''int'')
    , (T_Short, ''short''), (T_Byte, ''byte'')
    , (T_NonNegativeInteger, ''nonNegativeInteger''), (T_UnsignedLong, ''unsignedLong'')
    , (T_UnsignedInt, ''unsignedInt''), (T_UnsignedShort, ''unsignedShort'')
    , (T_UnsignedByte, ''unsignedByte''), (T_PositiveInteger, ''positiveInteger'')
    , (T_LangString, ''langString''), (T_AnyLiteralNode, ''anyLiteralNode'')
    , (T_AnyLiteralScalar, ''anyLiteralScalar'')]"

definition to_string :: "xsd_type \<Rightarrow> string res" where
  "to_string t = (case map_of xsd_names t of Some s \<Rightarrow> Inr s | None \<Rightarrow> Inl OutOfRange)"

definition xsd_lookup :: "(string \<times> xsd_type) list" where
  "xsd_lookup = [
    (''unspecified'', T_Unspecified), (''string'', T_String), (''boolean'', T_Boolean)
    , (''decimal'', T_Decimal), (''float'', T_Float), (''double'', T_Double)
    , (''duration'', T_Duration), (''dateTime'', T_DateTime), (''time'', T_Time)
    , (''date'', T_Date), (''gYearMonth'', T_GYearMonth), (''gYear'', T_GYear)
    , (''gMonthDay'', T_GMonthDay), (''gDay'', T_GDay), (''gMonth'', T_GMonth)
    , (''hexBinary'', T_HexBinary), (''base64Binary'', T_Base64Binary)
    , (''anyURI'', T_AnyURI), (''QName'', T_QName), (''NOTATION'', T_Notation)
    , (''normalizedString'', T_NormalizedString), (''token'', T_Token)
    , (''language'', T_Language), (''NMTOKEN'', T_NMTOKEN), (''NMTOKENS'', T_NMTOKENS)
    , (''Name'', T_Name), (''NCName'', T_NCName), (''ID'', T_ID), (''IDREF'', T_IDREF)
    , (''IDREFS'', T_IDREFS), (''ENTITY'', T_ENTITY), (''ENTITIES'', T_ENTITIES)
    , (''integer'', T_Integer), (''nonPositiveInteger'', T_NonPositiveInteger)
    , (''negativeInteger'', T_NegativeInteger), (''long'', T_Long), (''int'', T_Int)
    , (''short'', T_Short), (''byte'', T_Byte)
    , (''nonNegativeInteger'', T_NonNegativeInteger), (''unsignedLong'', T_UnsignedLong)
    , (''unsignedInt'', T_UnsignedInt), (''unsignedShort'', T_UnsignedShort)
    , (''unsignedByte'', T_UnsignedByte), (''positiveInteger'', T_PositiveInteger)
    , (''langString'', T_LangString), (''anyLiteralNode'', T_AnyLiteralNode)
    , (''anyLiteralScalar'', T_AnyLiteralScalar)]"

definition from_string :: "string \<Rightarrow> xsd_type option" where
  "from_string name = map_of xsd_lookup name"

section \<open>Datatype IRIs\<close>

definition kXsdNamespace :: string where
  "kXsdNamespace = ''http://www.w3.org/2001/XMLSchema#''"

definition kRdfLangStringIri :: string where
  "kRdfLangStringIri = ''http://www.w3.org/1999/02/22-rdf-syntax-ns#langString''"

definition starts_with :: "'a list \<Rightarrow> 'a list \<Rightarrow> bool" where
  "starts_with s p \<longleftrightarrow> take (length p) s = p"

text \<open>\<^term>\<open>None\<close> is the null IRI, \<^term>\<open>Some i\<close> an IRI with identifier \<open>i\<close>.\<close>

definition from_iri :: "string option \<Rightarrow> xsd_type" where
  "from_iri iri = (case iri of
       None \<Rightarrow> T_Unspecified
     | Some i \<Rightarrow>
         if i = kRdfLangStringIri then T_LangString
         else if \<not> starts_with i kXsdNamespace then T_AnyLiteralNode
         else let local_name = drop (length kXsdNamespace) i in
           if local_name = [] then T_AnyLiteralNode
           else case from_string local_name of Some t \<Rightarrow> t | None \<Rightarrow> T_AnyLiteralNode)"

section \<open>The tables are consistent\<close>

lemma enumerators_complete: "t \<in> set enumerators"
  by (cases t) (simp_all add: enumerators_def)

lemma enumerators_distinct: "distinct (map to_int32 enumerators)"
  by code_simp

lemma to_int32_inject [simp]: "to_int32 s = to_int32 t \<longleftrightarrow> s = t"
  using enumerators_distinct enumerators_complete by (auto simp: distinct_map inj_on_def)

lemma cast_type_iff [simp]: "cast_type v = Some t \<longleftrightarrow> to_int32 t = v"
proof
  show "cast_type v = Some t \<Longrightarrow> to_int32 t = v"
    by (auto simp: cast_type_def find_Some_iff)
  show "to_int32 t = v \<Longrightarrow> cast_type v = Some t"
    using enumerators_complete [of t]
    by (cases "cast_type v") (auto simp: cast_type_def find_Some_iff find_None_iff)
qed

lemma from_int32_cases_iff: "t \<in> set from_int32_cases \<longleftrightarrow> t \<notin> {T_Node, T_AnyIRI, T_Edge}"
  by (cases t) (simp_all add: from_int32_cases_def)

lemma from_int32_iff:
  "from_int32 v = Some t \<longleftrightarrow> to_int32 t = v \<and> t \<notin> {T_Node, T_AnyIRI, T_Edge}"
  unfolding from_int32_def from_int32_cases_iff [symmetric]
  by (auto split: option.split simp flip: cast_type_iff)

lemma xsd_lookup_swap: "xsd_lookup = map prod.swap xsd_names"
  by (simp add: xsd_lookup_def xsd_names_def)

lemma distinct_xsd_names: "distinct (map fst xsd_names)"
  by code_simp

lemma distinct_xsd_lookup: "distinct (map fst xsd_lookup)"
  by code_simp

lemma from_string_iff: "from_string s = Some t \<longleftrightarrow> (t, s) \<in> set xsd_names"
  unfolding from_string_def map_of_eq_Some_iff [OF distinct_xsd_lookup]
  by (auto simp: xsd_lookup_swap)

lemma to_string_iff: "to_string t = Inr s \<longleftrightarrow> (t, s) \<in> set xsd_names"
proof -
  have "to_string t = Inr s \<longleftrightarrow> map_of xsd_names t = Some s"
    by (cases "map_of xsd_names t") (simp_all add: to_string_def)
  also have "\<dots> \<longleftrightarrow> (t, s) \<in> set xsd_names"
    using distinct_xsd_names by (rule map_of_eq_Some_iff)
  finally show ?thesis .
qed

lemma xsd_names_dom: "(\<exists>s. (t, s) \<in> set xsd_names) \<longleftrightarrow> t \<notin> {T_Node, T_AnyIRI, T_Edge}"
  by (cases t) (auto simp: xsd_names_def)

lemma xsd_names_nonempty: "(t, s) \<in> set xsd_names \<Longrightarrow> s \<noteq> []"
  by (auto simp: xsd_names_def)

lemma xsd_iri_not_lang: "kXsdNamespace @ n \<noteq> kRdfLangStringIri"
  by (simp add: kXsdNamespace_def kRdfLangStringIri_def)

instantiation xsd_type :: linorder
begin

definition less_eq_xsd_type :: "xsd_type \<Rightarrow> xsd_type \<Rightarrow> bool" where
  "less_eq_xsd_type s t \<longleftrightarrow> to_int32 s \<le> to_int32 t"

definition less_xsd_type :: "xsd_type \<Rightarrow> xsd_type \<Rightarrow> bool" where
  "less_xsd_type s t \<longleftrightarrow> to_int32 s < to_int32 t"

instance
  by standard (auto simp: less_eq_xsd_type_def less_xsd_type_def)

end

section \<open>Properties\<close>

text \<open>
  Decoding a stored datatype tag is exact: \<open>from_int32\<close> returns a tag for a value if and only if
  the value is the tag's own encoding and the tag is not one of \<open>Node\<close>, \<open>AnyIRI\<close> and \<open>Edge\<close>. So no two
  tags share a value, every accepted value round-trips through \<open>to_int32\<close>, and these three
  enumerators, which \<open>to_int32\<close> does encode, are rejected on the way back.
\<close>

theorem from_int32_exact:
  "from_int32 v = Some t \<longleftrightarrow> to_int32 t = v \<and> t \<notin> {T_Node, T_AnyIRI, T_Edge}"
  by (rule from_int32_iff)

text \<open>
  The two name tables are inverse to each other: \<open>from_string\<close> returns a tag for exactly the name
  that \<open>to_string\<close> gives it, and \<open>to_string\<close> throws \<open>std::out_of_range\<close> exactly on the enumerators
  that have no name.
\<close>

theorem xsd_name_round_trip:
  "(from_string s = Some t \<longleftrightarrow> to_string t = Inr s)
   \<and> (to_string t = Inl OutOfRange \<longleftrightarrow> t \<in> {T_Node, T_AnyIRI, T_Edge})"
proof -
  have "to_string t = Inl OutOfRange \<longleftrightarrow> \<not> (\<exists>s. to_string t = Inr s)"
    by (auto simp: to_string_def split: option.split)
  then show ?thesis by (simp only: from_string_iff to_string_iff xsd_names_dom) simp
qed

text \<open>
  A datatype IRI formed from the XSD namespace and the local name of a tag is classified as that
  tag, and every IRI outside the XSD namespace, apart from \<open>rdf:langString\<close>, as a literal backed by a node.
\<close>

theorem from_iri_classifies:
  "(to_string t = Inr n \<longrightarrow> from_iri (Some (kXsdNamespace @ n)) = t)
   \<and> (\<not> starts_with i kXsdNamespace \<and> i \<noteq> kRdfLangStringIri \<longrightarrow> from_iri (Some i) = T_AnyLiteralNode)"
  using xsd_names_nonempty [of t n] from_string_iff [of n t]
  by (auto simp: from_iri_def Let_def starts_with_def xsd_iri_not_lang to_string_iff)

theorem from_iri_classifies_witness:
  "to_string T_Decimal = Inr ''decimal''
   \<and> from_iri (Some (kXsdNamespace @ ''decimal'')) = T_Decimal
   \<and> from_iri (Some ''http://example.org/USD'') = T_AnyLiteralNode"
proof -
  have "to_string T_Decimal = Inr ''decimal''" by code_simp
  moreover have "\<not> starts_with ''http://example.org/USD'' kXsdNamespace
    \<and> ''http://example.org/USD'' \<noteq> kRdfLangStringIri" by code_simp
  ultimately show ?thesis
    using from_iri_classifies [of T_Decimal "''decimal''" "''http://example.org/USD''"] by simp
qed

end
