(* ===== verification/Slot_Pool.thy ===== *)
theory Slot_Pool
  imports Prelude
begin

text \<open>
  The slot allocation shared by the node, relationship and property stores: a high-water mark below
  a capacity, and a stack of freed slots (a \<open>std::vector\<close> used through \<open>back\<close>, \<open>pop_back\<close> and
  \<open>push_back\<close>, so its top is the end of the list). The contract is a locale; its clients learn that
  an allocated slot was not live and that allocation fails only when every slot is live.
\<close>

definition pool_ok :: "int \<Rightarrow> int \<Rightarrow> int list \<Rightarrow> bool" where
  "pool_ok mark cap free \<longleftrightarrow>
     0 \<le> mark \<and> mark \<le> cap \<and> distinct free \<and> set free \<subseteq> {0..<mark}"

definition live :: "int \<Rightarrow> int list \<Rightarrow> int set" where
  "live mark free = {0..<mark} - set free"

lemma live_range: "i \<in> live mark free \<Longrightarrow> 0 \<le> i \<and> i < mark"
  by (simp add: live_def)

lemma live_empty_pool [simp]: "live 0 [] = {}"
  by (simp add: live_def)

lemma pool_ok_empty [simp]: "0 \<le> cap \<Longrightarrow> pool_ok 0 cap []"
  by (simp add: pool_ok_def)

lemma pool_ok_release:
  "pool_ok mark cap free \<Longrightarrow> i \<in> live mark free \<Longrightarrow> pool_ok mark cap (free @ [i])"
  by (auto simp: pool_ok_def live_def)

lemma live_release: "live mark (free @ [i]) = live mark free - {i}"
  by (auto simp: live_def)

lemma card_live: "pool_ok mark cap free \<Longrightarrow> card (live mark free) = nat mark - length free"
  unfolding pool_ok_def live_def
  by (subst card_Diff_subset) (auto simp: distinct_card)

locale slot_pool =
  fixes alloc :: "'s \<Rightarrow> (int \<times> 's) res"
    and mark :: "'s \<Rightarrow> int"
    and cap :: "'s \<Rightarrow> int"
    and free :: "'s \<Rightarrow> int list"
  assumes alloc_reuse: "free s \<noteq> [] \<Longrightarrow>
      \<exists>s'. alloc s = Inr (last (free s), s') \<and> free s' = butlast (free s)
        \<and> mark s' = mark s \<and> cap s' = cap s"
    and alloc_bump: "free s = [] \<Longrightarrow> mark s < cap s \<Longrightarrow>
      \<exists>s'. alloc s = Inr (mark s, s') \<and> free s' = [] \<and> mark s' = mark s + 1 \<and> cap s' = cap s"
    and alloc_full: "free s = [] \<Longrightarrow> \<not> mark s < cap s \<Longrightarrow> \<exists>e. alloc s = Inl e"
begin

lemma alloc_spec:
  assumes "pool_ok (mark s) (cap s) (free s)" and "alloc s = Inr (i, s')"
  shows "i \<notin> live (mark s) (free s)"
    and "live (mark s') (free s') = insert i (live (mark s) (free s))"
    and "pool_ok (mark s') (cap s') (free s')"
    and "0 \<le> i" and "i < mark s'" and "cap s' = cap s" and "mark s \<le> mark s'"
    and "{0..<mark s'} = insert i {0..<mark s}"
proof -
  have "i \<notin> live (mark s) (free s)
    \<and> live (mark s') (free s') = insert i (live (mark s) (free s))
    \<and> pool_ok (mark s') (cap s') (free s')
    \<and> 0 \<le> i \<and> i < mark s' \<and> cap s' = cap s \<and> mark s \<le> mark s'
    \<and> {0..<mark s'} = insert i {0..<mark s}"
  proof (cases "free s = []")
    case True
    with assms(2) alloc_full [of s] have "mark s < cap s" by force
    with True assms alloc_bump [of s] show ?thesis
      by (auto simp: pool_ok_def live_def)
  next
    case False
    then obtain fs x where fs: "free s = fs @ [x]"
      by (cases "free s" rule: rev_cases) auto
    with assms(2) alloc_reuse [of s]
    have s': "i = x" "free s' = fs" "mark s' = mark s" "cap s' = cap s"
      by auto
    from assms(1) fs have "x \<in> {0..<mark s}" "x \<notin> set fs"
      by (auto simp: pool_ok_def)
    with assms(1) fs s' show ?thesis
      by (auto simp: pool_ok_def live_def)
  qed
  then show "i \<notin> live (mark s) (free s)"
    and "live (mark s') (free s') = insert i (live (mark s) (free s))"
    and "pool_ok (mark s') (cap s') (free s')"
    and "0 \<le> i" and "i < mark s'" and "cap s' = cap s" and "mark s \<le> mark s'"
    and "{0..<mark s'} = insert i {0..<mark s}"
    by blast+
qed

lemma alloc_succeeds_iff:
  assumes "pool_ok (mark s) (cap s) (free s)"
  shows "(\<exists>i s'. alloc s = Inr (i, s')) \<longleftrightarrow> live (mark s) (free s) \<noteq> {0..<cap s}"
proof (cases "free s = []")
  case True
  then show ?thesis
    using assms alloc_full [of s] alloc_bump [of s]
    by (cases "mark s < cap s") (auto simp: pool_ok_def live_def)
next
  case False
  then have "last (free s) \<in> set (free s)" by simp
  with assms have "last (free s) \<in> {0..<cap s}" "last (free s) \<notin> live (mark s) (free s)"
    by (auto simp: pool_ok_def live_def)
  with False alloc_reuse [of s] show ?thesis by blast
qed

end

end
