(* ===== verification/Linked_Chain.thy ===== *)
theory Linked_Chain
  imports Prelude
begin

text \<open>
  Doubly linked chains threaded through the entries of a buffer. \<open>chain nxt prv es p c xs\<close> says
  that following \<open>nxt\<close> from \<open>c\<close> visits exactly the indices \<open>xs\<close> and then ends, and that the
  \<open>prv\<close> fields lead back, the first one to \<open>p\<close>. The locale states what the runtime's chains share:
  two link fields that can be written independently. Its lemmas are the effect of inserting an
  entry at the head and of unlinking an entry anywhere, written with the very sequence of buffer
  updates the code performs.
\<close>

fun chain :: "('e \<Rightarrow> int) \<Rightarrow> ('e \<Rightarrow> int) \<Rightarrow> 'e list \<Rightarrow> int \<Rightarrow> int \<Rightarrow> int list \<Rightarrow> bool" where
  "chain nxt prv es p c [] \<longleftrightarrow> c = GRAPH_NONE"
| "chain nxt prv es p c (x # xs) \<longleftrightarrow>
     c = x \<and> in_range es x \<and> prv (at es x) = p \<and> chain nxt prv es x (nxt (at es x)) xs"

lemma chain_in_range: "chain nxt prv es p c xs \<Longrightarrow> x \<in> set xs \<Longrightarrow> in_range es x"
  by (induction xs arbitrary: p c) auto

lemma chain_nonneg: "chain nxt prv es p c xs \<Longrightarrow> x \<in> set xs \<Longrightarrow> 0 \<le> x"
  by (blast dest: chain_in_range in_range_nonneg)

lemma chain_head: "chain nxt prv es p c xs \<Longrightarrow> c = (if xs = [] then GRAPH_NONE else hd xs)"
  by (cases xs) auto

lemma chain_head_None: "chain nxt prv es p c xs \<Longrightarrow> c = GRAPH_NONE \<longleftrightarrow> xs = []"
  by (cases xs) (auto dest: in_range_nonneg)

lemma chain_unique:
  "chain nxt prv es p c xs \<Longrightarrow> chain nxt prv es p c ys \<Longrightarrow> xs = ys"
proof (induction xs arbitrary: p c ys)
  case Nil
  then show ?case by (cases ys) (auto dest: in_range_nonneg)
next
  case (Cons x xs)
  then show ?case by (cases ys) (auto dest: in_range_nonneg)
qed

lemma chain_cong:
  assumes "\<And>x. x \<in> set xs \<Longrightarrow> in_range es x \<Longrightarrow>
      in_range es' x \<and> nxt (at es' x) = nxt (at es x) \<and> prv (at es' x) = prv (at es x)"
    and "chain nxt prv es p c xs"
  shows "chain nxt prv es' p c xs"
  using assms by (induction xs arbitrary: p c) auto

lemma chain_set_at_outside:
  "x \<notin> set xs \<Longrightarrow> 0 \<le> x \<Longrightarrow> chain nxt prv es p c xs \<Longrightarrow> chain nxt prv (set_at es x e) p c xs"
  by (erule chain_cong [rotated]) (metis at_set_at_other_nonneg in_range_nonneg in_range_set_at)

lemma chain_links:
  assumes "chain nxt prv es p c (as @ x # bs)"
  shows "prv (at es x) = (if as = [] then p else last as)"
    and "chain nxt prv es x (nxt (at es x)) bs"
proof -
  have "prv (at es x) = (if as = [] then p else last as) \<and> chain nxt prv es x (nxt (at es x)) bs"
    using assms
  proof (induction as arbitrary: p c)
    case Nil
    then show ?case by simp
  next
    case (Cons a as)
    from Cons.prems have "chain nxt prv es a (nxt (at es a)) (as @ x # bs)" by simp
    from Cons.IH [OF this] show ?case by simp
  qed
  then show "prv (at es x) = (if as = [] then p else last as)"
    and "chain nxt prv es x (nxt (at es x)) bs"
    by simp_all
qed

lemma chain_length:
  assumes "chain nxt prv es p c xs" and "distinct xs"
  shows "length xs \<le> length es"
proof -
  from assms(1) have "set xs \<subseteq> {0..<int (length es)}"
    by (auto dest!: chain_in_range simp: in_range_def)
  then have "card (set xs) \<le> card {0..<int (length es)}"
    by (rule card_mono [rotated]) simp
  with assms(2) show ?thesis by (simp add: distinct_card)
qed

locale linked_entries =
  fixes nxt :: "'e \<Rightarrow> int" and prv :: "'e \<Rightarrow> int"
    and set_nxt :: "int \<Rightarrow> 'e \<Rightarrow> 'e" and set_prv :: "int \<Rightarrow> 'e \<Rightarrow> 'e"
  assumes nxt_set_nxt [simp]: "nxt (set_nxt v e) = v"
    and prv_set_nxt [simp]: "prv (set_nxt v e) = prv e"
    and nxt_set_prv [simp]: "nxt (set_prv v e) = nxt e"
    and prv_set_prv [simp]: "prv (set_prv v e) = v"
begin

lemma chain_relink_head:
  assumes "chain nxt prv es p c xs" and "distinct xs"
  shows "chain nxt prv (if c \<noteq> GRAPH_NONE then set_at es c (set_prv p' (at es c)) else es) p' c xs"
proof (cases xs)
  case Nil
  with assms show ?thesis by simp
next
  case (Cons y ys)
  with assms have "in_range es y" "c = y" "y \<notin> set ys" "chain nxt prv es y (nxt (at es y)) ys"
    by auto
  with Cons show ?thesis
    by (auto dest: in_range_nonneg intro: chain_set_at_outside)
qed

lemma chain_push:
  assumes "chain nxt prv es GRAPH_NONE h xs" and "distinct xs"
    and "in_range es i" and "i \<notin> set xs" and "nxt e = h" and "prv e = GRAPH_NONE"
  shows "chain nxt prv (if h \<noteq> GRAPH_NONE
      then set_at (set_at es i e) h (set_prv i (at (set_at es i e) h)) else set_at es i e)
    GRAPH_NONE i (i # xs)" (is "chain nxt prv ?es GRAPH_NONE i (i # xs)")
proof -
  have "chain nxt prv (set_at es i e) GRAPH_NONE h xs"
    using assms by (auto intro: chain_set_at_outside dest: in_range_nonneg)
  then have rest: "chain nxt prv ?es i h xs"
    by (rule chain_relink_head) (rule assms(2))
  have "h \<noteq> i"
    using assms(1,3,4) by (cases xs) (auto dest: in_range_nonneg)
  moreover have "h \<noteq> GRAPH_NONE \<Longrightarrow> in_range es h"
    using assms(1) by (cases xs) auto
  ultimately have "at ?es i = e"
    using assms(3) by auto
  with assms rest show ?thesis by auto
qed

lemma chain_unlink_split:
  assumes "chain nxt prv es p c (as @ x # bs)" and "distinct (as @ x # bs)"
    and "q = nxt (at es x)" and "P = (if as = [] then p else last as)"
    and "es1 = (if as \<noteq> [] then set_at es P (set_nxt q (at es P)) else es)"
    and "es2 = (if q \<noteq> GRAPH_NONE then set_at es1 q (set_prv P (at es1 q)) else es1)"
  shows "chain nxt prv es2 p (if as = [] then q else c) (as @ bs)"
  using assms
proof (induction as arbitrary: p c)
  case Nil
  have "chain nxt prv es x q bs" "distinct bs" using Nil.prems(1-3) by auto
  moreover have "es2 = (if q \<noteq> GRAPH_NONE then set_at es q (set_prv p (at es q)) else es)"
    unfolding Nil.prems(4-6) by simp
  ultimately have "chain nxt prv es2 p q bs"
    by (simp only: chain_relink_head)
  then show ?case by simp
next
  case (Cons a as)
  have q: "q = (if bs = [] then GRAPH_NONE else hd bs)"
    using chain_links(2) [OF Cons.prems(1)] Cons.prems(3) by (auto dest: chain_head)
  have q_in: "q \<noteq> GRAPH_NONE \<Longrightarrow> q \<in> set bs" by (simp add: q split: if_splits)
  have a: "in_range es a" "prv (at es a) = p" "c = a"
    "chain nxt prv es a (nxt (at es a)) (as @ x # bs)" "a \<notin> set (as @ x # bs)"
    using Cons.prems(1,2) by auto
  have qr: "q \<noteq> GRAPH_NONE \<Longrightarrow> in_range es q \<and> q \<noteq> a"
    using q_in chain_in_range [OF a(4)] a(5) by auto
  show ?case
  proof (cases "as = []")
    case True
    have es1: "es1 = set_at es a (set_nxt q (at es a))"
      using Cons.prems(4,5) True by simp
    have "chain nxt prv es x q bs" using a(4) True Cons.prems(3) by simp
    then have "chain nxt prv es1 x q bs"
      unfolding es1 using a by (auto intro: chain_set_at_outside dest: in_range_nonneg)
    moreover have "P = a" "distinct bs" using Cons.prems(2,4) True by auto
    ultimately have "chain nxt prv es2 a q bs"
      unfolding Cons.prems(6) by (simp only: chain_relink_head)
    moreover have "prv (at es2 a) = p \<and> nxt (at es2 a) = q"
      using Cons.prems(6) a qr es1 by auto
    moreover have "in_range es2 a" using Cons.prems(6) a es1 by simp
    ultimately show ?thesis using True a(3) by simp
  next
    case False
    have "chain nxt prv es2 a (nxt (at es a)) (as @ bs)"
      using Cons.IH [OF a(4)] Cons.prems(2-6) False by simp
    moreover have "P \<in> set as" using Cons.prems(4) False by simp
    then have "P \<noteq> a" "in_range es P"
      using a(5) chain_in_range [OF a(4)] by auto
    then have "at es2 a = at es a" "in_range es2 a"
      using Cons.prems(5,6) False a(1) qr by (auto dest!: in_range_nonneg)
    ultimately show ?thesis using a(2,3) by simp
  qed
qed

lemma chain_unlink:
  assumes ch: "chain nxt prv es GRAPH_NONE h xs" and dist: "distinct xs" and x: "x \<in> set xs"
    and p: "p = prv (at es x)" and q: "q = nxt (at es x)"
    and es1: "es1 = (if p \<noteq> GRAPH_NONE then set_at es p (set_nxt q (at es p)) else es)"
    and es2: "es2 = (if q \<noteq> GRAPH_NONE then set_at es1 q (set_prv p (at es1 q)) else es1)"
  shows "chain nxt prv es2 GRAPH_NONE (if p \<noteq> GRAPH_NONE then h else q) (remove1 x xs)"
    and "p \<noteq> GRAPH_NONE \<Longrightarrow> p \<in> set xs - {x}"
    and "q \<noteq> GRAPH_NONE \<Longrightarrow> q \<in> set xs - {x}"
    and "p \<noteq> q \<or> p = GRAPH_NONE"
proof -
  obtain as bs where xs: "xs = as @ x # bs" using x by (meson split_list)
  note links = chain_links [OF ch [unfolded xs]]
  have p': "p = (if as = [] then GRAPH_NONE else last as)" using links(1) p by simp
  have "as \<noteq> [] \<Longrightarrow> last as \<in> set xs" by (simp add: xs)
  then have as: "as = [] \<longleftrightarrow> p = GRAPH_NONE"
    using p' chain_nonneg [OF ch] by force
  have bs: "q = (if bs = [] then GRAPH_NONE else hd bs)"
    using links(2) q by (auto dest: chain_head)
  have "x \<notin> set as" using dist xs by simp
  then have rm: "remove1 x xs = as @ bs" by (simp add: xs remove1_append)
  have "chain nxt prv es2 GRAPH_NONE (if as = [] then q else h) (as @ bs)"
    by (rule chain_unlink_split [OF ch [unfolded xs] dist [unfolded xs] q p' _ es2])
      (simp only: es1 as)
  then show "chain nxt prv es2 GRAPH_NONE (if p \<noteq> GRAPH_NONE then h else q) (remove1 x xs)"
    unfolding rm as by (cases "p = GRAPH_NONE") simp_all
  show "p \<noteq> GRAPH_NONE \<Longrightarrow> p \<in> set xs - {x}"
    using p' dist xs by (auto split: if_splits)
  show "q \<noteq> GRAPH_NONE \<Longrightarrow> q \<in> set xs - {x}"
    using bs dist xs by (auto split: if_splits)
  show "p \<noteq> q \<or> p = GRAPH_NONE"
    using p' bs dist xs by (metis disjoint_iff distinct.simps(2) distinct_append hd_in_set
        last_in_set set_subset_Cons subsetD)
qed

end

end
