(* ===== verification/Graph_Refine.thy ===== *)
theory Graph_Refine
  imports Graph_Store
begin

text \<open>
  The abstract graph behind \<open>Graph<NodePayload, RelPayload>\<close> and the proof that the linked
  representation implements it: the representation relation \<open>graph_repr\<close>, the effect of linking and
  unlinking one relationship on the chain of one node, and from these the refinement of
  \<open>addNode\<close>, \<open>addRelationship\<close>, \<open>removeRelationship\<close> and \<open>removeNode\<close>.
\<close>

section \<open>Abstract graph\<close>

record ('n, 'r) agraph =
  anode :: "int \<rightharpoonup> 'n"
  arel :: "int \<rightharpoonup> int \<times> int \<times> int \<times> 'r"
  aadj :: "int \<Rightarrow> int list"

definition incident :: "('n, 'r) agraph \<Rightarrow> int \<Rightarrow> int set" where
  "incident a n = {i. \<exists>f t ty p. arel a i = Some (f, t, ty, p) \<and> (n = f \<or> n = t)}"

definition a_empty :: "('n, 'r) agraph" where
  "a_empty = \<lparr>anode = Map.empty, arel = Map.empty, aadj = (\<lambda>_. [])\<rparr>"

definition a_addNode :: "int \<Rightarrow> 'n \<Rightarrow> ('n, 'r) agraph \<Rightarrow> ('n, 'r) agraph" where
  "a_addNode i p a = a\<lparr>anode := (anode a)(i \<mapsto> p), aadj := (aadj a)(i := [])\<rparr>"

definition a_addRel :: "int \<Rightarrow> int \<Rightarrow> int \<Rightarrow> int \<Rightarrow> 'r \<Rightarrow> ('n, 'r) agraph \<Rightarrow> ('n, 'r) agraph" where
  "a_addRel i f t ty p a = a\<lparr>arel := (arel a)(i \<mapsto> (f, t, ty, p)),
     aadj := (\<lambda>n. if n = f \<or> n = t then i # aadj a n else aadj a n)\<rparr>"

definition a_removeRel :: "int \<Rightarrow> ('n, 'r) agraph \<Rightarrow> ('n, 'r) agraph" where
  "a_removeRel i a = a\<lparr>arel := (arel a)(i := None), aadj := (\<lambda>n. removeAll i (aadj a n))\<rparr>"

definition a_removeNode :: "int \<Rightarrow> ('n, 'r) agraph \<Rightarrow> ('n, 'r) agraph" where
  "a_removeNode n a = \<lparr>anode = (anode a)(n := None), arel = arel a |` (- set (aadj a n)),
     aadj = (\<lambda>m. filter (\<lambda>i. i \<notin> set (aadj a n)) (aadj a m))\<rparr>"

section \<open>Representation\<close>

definition rel_core :: "'r rel_entry \<Rightarrow> int \<times> int \<times> int \<times> 'r" where
  "rel_core e = (firstNodeId e, secondNodeId e, typeId e, r_payload e)"

definition touches :: "int \<Rightarrow> 'r rel_entry \<Rightarrow> bool" where
  "touches n e \<longleftrightarrow> firstNodeId e = n \<or> secondNodeId e = n"

definition nchain :: "'r rel_entry list \<Rightarrow> int \<Rightarrow> int \<Rightarrow> int list \<Rightarrow> bool" where
  "nchain rs n h xs \<longleftrightarrow> chain (relNext n) (relPrev n) rs GRAPH_NONE h xs \<and> distinct xs
     \<and> (\<forall>x\<in>set xs. touches n (at rs x))"

definition stores_ok :: "('n, 'r) graph \<Rightarrow> bool" where
  "stores_ok g \<longleftrightarrow> int (length (nodes g)) = nodeCap g \<and> int (length (rels g)) = relCap g
     \<and> pool_ok (nodeMark g) (nodeCap g) (freeNodes g) \<and> pool_ok (relMark g) (relCap g) (freeRels g)"

definition liveNodes :: "('n, 'r) graph \<Rightarrow> int set" where
  "liveNodes g = live (nodeMark g) (freeNodes g)"

definition liveRels :: "('n, 'r) graph \<Rightarrow> int set" where
  "liveRels g = live (relMark g) (freeRels g)"

definition nodes_repr :: "('n, 'r) graph \<Rightarrow> ('n, 'r) agraph \<Rightarrow> bool" where
  "nodes_repr g a \<longleftrightarrow> dom (anode a) = liveNodes g
     \<and> (\<forall>n\<in>liveNodes g. n_inUse (at (nodes g) n) \<and> anode a n = Some (n_payload (at (nodes g) n)))
     \<and> (\<forall>n\<in>set (freeNodes g). \<not> n_inUse (at (nodes g) n))"

definition rels_repr :: "('n, 'r) graph \<Rightarrow> ('n, 'r) agraph \<Rightarrow> bool" where
  "rels_repr g a \<longleftrightarrow> dom (arel a) = liveRels g
     \<and> (\<forall>i\<in>liveRels g. r_inUse (at (rels g) i) \<and> arel a i = Some (rel_core (at (rels g) i))
          \<and> firstNodeId (at (rels g) i) \<in> liveNodes g \<and> secondNodeId (at (rels g) i) \<in> liveNodes g)
     \<and> (\<forall>i\<in>set (freeRels g). \<not> r_inUse (at (rels g) i))"

definition adj_repr :: "('n, 'r) graph \<Rightarrow> ('n, 'r) agraph \<Rightarrow> bool" where
  "adj_repr g a \<longleftrightarrow> (\<forall>n\<in>liveNodes g.
     nchain (rels g) n (firstRelId (at (nodes g) n)) (aadj a n) \<and> set (aadj a n) = incident a n)"

definition graph_repr :: "('n, 'r) graph \<Rightarrow> ('n, 'r) agraph \<Rightarrow> bool" where
  "graph_repr g a \<longleftrightarrow> stores_ok g \<and> nodes_repr g a \<and> rels_repr g a \<and> adj_repr g a"

lemmas repr_defs = graph_repr_def stores_ok_def nodes_repr_def rels_repr_def adj_repr_def

lemma live_node_range: "stores_ok g \<Longrightarrow> n \<in> liveNodes g \<Longrightarrow> in_range (nodes g) n"
  by (auto simp: stores_ok_def liveNodes_def live_def in_range_def pool_ok_def)

lemma live_rel_range: "stores_ok g \<Longrightarrow> i \<in> liveRels g \<Longrightarrow> in_range (rels g) i"
  by (auto simp: stores_ok_def liveRels_def live_def in_range_def pool_ok_def)

lemma incident_rels_repr:
  assumes "rels_repr g a"
  shows "incident a n = {i \<in> liveRels g. touches n (at (rels g) i)}"
proof -
  have "arel a i = Some x \<longleftrightarrow> i \<in> liveRels g \<and> x = rel_core (at (rels g) i)" for i x
    using assms unfolding rels_repr_def by (metis domI option.inject)
  then show ?thesis
    by (auto simp: incident_def rel_core_def touches_def)
qed

section \<open>Updates of the link fields of one node\<close>

definition slot_upd :: "int \<Rightarrow> 'r rel_entry \<Rightarrow> 'r rel_entry \<Rightarrow> bool" where
  "slot_upd n e e' \<longleftrightarrow> e' = e \<or> touches n e \<and> (\<exists>u v. e' = relSetNext n u (relSetPrev n v e))"

lemma relSet_core [simp]:
  "firstNodeId (relSetNext n v e) = firstNodeId e" "secondNodeId (relSetNext n v e) = secondNodeId e"
  "firstNodeId (relSetPrev n v e) = firstNodeId e" "secondNodeId (relSetPrev n v e) = secondNodeId e"
  "rel_core (relSetNext n v e) = rel_core e" "rel_core (relSetPrev n v e) = rel_core e"
  "r_inUse (relSetNext n v e) = r_inUse e" "r_inUse (relSetPrev n v e) = r_inUse e"
  "touches m (relSetNext n v e) = touches m e" "touches m (relSetPrev n v e) = touches m e"
  by (simp_all add: relSetNext_def relSetPrev_def rel_core_def touches_def)

lemma relSet_commute: "relSetPrev n v (relSetNext n u e) = relSetNext n u (relSetPrev n v e)"
  by (simp add: relSetNext_def relSetPrev_def)

lemma relSet_twice [simp]:
  "relSetNext n u (relSetNext n u' e) = relSetNext n u e"
  "relSetPrev n v (relSetPrev n v' e) = relSetPrev n v e"
  by (simp_all add: relSetNext_def relSetPrev_def)

lemma relSet_same [simp]: "relSetNext n (relNext n e) e = e" "relSetPrev n (relPrev n e) e = e"
  by (simp_all add: relSetNext_def relSetPrev_def relNext_def relPrev_def)

lemma slot_upd_refl [simp]: "slot_upd n e e"
  by (simp add: slot_upd_def)

lemma slot_upd_trans:
  assumes "slot_upd n e1 e2" and "slot_upd n e2 e3"
  shows "slot_upd n e1 e3"
  using assms unfolding slot_upd_def by (metis relSet_commute relSet_core(9,10) relSet_twice)

lemma slot_upd_next: "touches n e \<Longrightarrow> slot_upd n e (relSetNext n u e)"
  unfolding slot_upd_def by (metis relSet_same(2))

lemma slot_upd_prev: "touches n e \<Longrightarrow> slot_upd n e (relSetPrev n v e)"
  unfolding slot_upd_def by (metis relSet_same(1))

lemma slot_upd_core:
  "slot_upd n e e' \<Longrightarrow> rel_core e' = rel_core e \<and> r_inUse e' = r_inUse e \<and> touches m e' = touches m e
     \<and> firstNodeId e' = firstNodeId e \<and> secondNodeId e' = secondNodeId e"
  by (auto simp: slot_upd_def)

text \<open>An update of the fields of one node leaves the fields of the other endpoint alone.\<close>

lemma slot_upd_other:
  assumes "slot_upd n e e'" and "m \<noteq> n" and "touches m e"
  shows "relNext m e' = relNext m e" and "relPrev m e' = relPrev m e"
  using assms
  by (auto simp: slot_upd_def touches_def relSetNext_def relSetPrev_def relNext_def relPrev_def)

lemma nchain_other:
  assumes "\<And>j. in_range rs j \<Longrightarrow> in_range rs' j \<and> slot_upd n (at rs j) (at rs' j)"
    and "m \<noteq> n" and "nchain rs m h ys"
  shows "nchain rs' m h ys"
proof -
  have ch: "chain (relNext m) (relPrev m) rs GRAPH_NONE h ys" and t: "\<And>y. y \<in> set ys \<Longrightarrow> touches m (at rs y)"
    using assms(3) by (auto simp: nchain_def)
  have "chain (relNext m) (relPrev m) rs' GRAPH_NONE h ys"
    using ch by (rule chain_cong [rotated]) (use assms(1,2) t slot_upd_other in blast)
  moreover have "touches m (at rs' y)" if "y \<in> set ys" for y
    using t [OF that] assms(1) [OF chain_in_range [OF ch that]] slot_upd_core by blast
  ultimately show ?thesis using assms(3) by (simp add: nchain_def)
qed

lemma nchain_fresh:
  assumes "nchain rs m h ys" and "i \<notin> set ys" and "0 \<le> i"
  shows "nchain (set_at rs i e) m h ys"
  using assms unfolding nchain_def
  by (metis at_set_at_other_nonneg chain_nonneg chain_set_at_outside)

section \<open>Linking and unlinking\<close>

lemma linkRelToNode_spec:
  assumes ch: "nchain (rels g) n (firstRelId (at (nodes g) n)) xs"
    and n: "in_range (nodes g) n" and i: "in_range (rels g) i" "i \<notin> set xs"
    and first: "nodeIsFirst \<longleftrightarrow> firstNodeId (at (rels g) i) = n" and t: "touches n (at (rels g) i)"
  obtains rs where
    "linkRelToNode g i n nodeIsFirst =
       Inr (g\<lparr>rels := rs, nodes := set_at (nodes g) n ((at (nodes g) n)\<lparr>firstRelId := i\<rparr>)\<rparr>)"
    and "length rs = length (rels g)" and "nchain rs n i (i # xs)"
    and "\<And>j. in_range (rels g) j \<Longrightarrow> slot_upd n (at (rels g) j) (at rs j)"
proof -
  let ?h = "firstRelId (at (nodes g) n)" and ?e = "at (rels g) i"
  let ?e' = "relSetNext n ?h (relSetPrev n GRAPH_NONE ?e)"
  let ?rs1 = "set_at (rels g) i ?e'"
  let ?rs = "if ?h \<noteq> GRAPH_NONE then set_at ?rs1 ?h (relSetPrev n i (at ?rs1 ?h)) else ?rs1"
  have chn: "chain (relNext n) (relPrev n) (rels g) GRAPH_NONE ?h xs" "distinct xs"
    and tx: "\<And>x. x \<in> set xs \<Longrightarrow> touches n (at (rels g) x)"
    using ch by (auto simp: nchain_def)
  have h: "?h \<in> set xs" if "?h \<noteq> GRAPH_NONE"
    using chain_head [OF chn(1)] that by (auto split: if_splits)
  have hr: "in_range (rels g) ?h" if "?h \<noteq> GRAPH_NONE"
    using chain_in_range [OF chn(1) h [OF that]] .
  have e': "(if nodeIsFirst then ?e\<lparr>firstNextRelId := ?h, firstPrevRelId := GRAPH_NONE\<rparr>
      else ?e\<lparr>secondNextRelId := ?h, secondPrevRelId := GRAPH_NONE\<rparr>) = ?e'"
    using first by (simp add: relSetNext_def relSetPrev_def)
  have upd: "slot_upd n (at (rels g) j) (at ?rs j)" if "in_range (rels g) j" for j
  proof -
    have 1: "slot_upd n (at (rels g) j) (at ?rs1 j)"
      using that i t by (auto simp: at_set_at slot_upd_def)
    have "slot_upd n (at ?rs1 j) (at ?rs j)"
    proof (cases "?h \<noteq> GRAPH_NONE \<and> j = ?h")
      case True
      then have "touches n (at ?rs1 j)"
        using h hr i tx by (auto simp: at_set_at)
      with True that show ?thesis by (simp add: slot_upd_prev)
    next
      case False
      with that hr show ?thesis by auto
    qed
    with 1 show ?thesis by (rule slot_upd_trans)
  qed
  have len: "length ?rs = length (rels g)" by simp
  have "chain (relNext n) (relPrev n) ?rs GRAPH_NONE i (i # xs)"
    by (rule relChain.chain_push [OF chn i]) simp_all
  moreover have "touches n (at ?rs x)" if "x \<in> set (i # xs)" for x
    using that upd [of x] t tx i(1) chain_in_range [OF chn(1)] slot_upd_core by fastforce
  ultimately have "nchain ?rs n i (i # xs)"
    using chn(2) i(2) by (simp add: nchain_def)
  moreover have "linkRelToNode g i n nodeIsFirst =
       Inr (g\<lparr>rels := ?rs, nodes := set_at (nodes g) n ((at (nodes g) n)\<lparr>firstRelId := i\<rparr>)\<rparr>)"
    using n i hr by (auto simp: linkRelToNode_def upd_rel_def upd_node_def Let_def e')
  ultimately show thesis using that len upd by blast
qed

lemma unlinkRelFromNode_spec:
  assumes ch: "nchain (rels g) n (firstRelId (at (nodes g) n)) xs"
    and n: "in_range (nodes g) n" and i: "i \<in> set xs"
  obtains rs h where
    "unlinkRelFromNode g i n =
       Inr (g\<lparr>rels := rs, nodes := set_at (nodes g) n ((at (nodes g) n)\<lparr>firstRelId := h\<rparr>)\<rparr>)"
    and "length rs = length (rels g)" and "nchain rs n h (remove1 i xs)"
    and "\<And>j. in_range (rels g) j \<Longrightarrow> slot_upd n (at (rels g) j) (at rs j)"
    and "at rs i = at (rels g) i"
proof -
  let ?h = "firstRelId (at (nodes g) n)" and ?e = "at (rels g) i"
  define p where "p = relPrev n ?e"
  define q where "q = relNext n ?e"
  define rs1 where "rs1 = (if p \<noteq> GRAPH_NONE then set_at (rels g) p (relSetNext n q (at (rels g) p)) else rels g)"
  define rs where "rs = (if q \<noteq> GRAPH_NONE then set_at rs1 q (relSetPrev n p (at rs1 q)) else rs1)"
  define h where "h = (if p \<noteq> GRAPH_NONE then ?h else q)"
  have chn: "chain (relNext n) (relPrev n) (rels g) GRAPH_NONE ?h xs" "distinct xs"
    and tx: "\<And>x. x \<in> set xs \<Longrightarrow> touches n (at (rels g) x)"
    using ch by (auto simp: nchain_def)
  note un = relChain.chain_unlink [OF chn i p_def q_def rs1_def rs_def]
  have pr: "in_range (rels g) p \<and> p \<in> set xs \<and> p \<noteq> i" if "p \<noteq> GRAPH_NONE"
    using un(2) [OF that] chain_in_range [OF chn(1)] by blast
  have qr: "in_range (rels g) q \<and> q \<in> set xs \<and> q \<noteq> i" if "q \<noteq> GRAPH_NONE"
    using un(3) [OF that] chain_in_range [OF chn(1)] by blast
  have ir: "in_range (rels g) i" using chain_in_range [OF chn(1) i] .
  have len: "length rs1 = length (rels g)" "length rs = length (rels g)"
    by (simp_all add: rs1_def rs_def)
  have upd1: "slot_upd n (at (rels g) j) (at rs1 j)" if "in_range (rels g) j" for j
    using that pr tx by (auto simp: rs1_def at_set_at slot_upd_next)
  have upd: "slot_upd n (at (rels g) j) (at rs j)" if j: "in_range (rels g) j" for j
  proof (cases "q \<noteq> GRAPH_NONE \<and> j = q")
    case True
    then have "touches n (at rs1 j)" using tx qr upd1 [OF j] slot_upd_core by blast
    then have "slot_upd n (at rs1 j) (at rs j)"
      using True len(1) qr by (simp add: rs_def slot_upd_prev in_range_def)
    with upd1 [OF j] show ?thesis by (rule slot_upd_trans)
  next
    case False
    then have "at rs j = at rs1 j"
      using j qr by (auto simp: rs_def dest!: in_range_nonneg)
    with upd1 [OF j] show ?thesis by simp
  qed
  have "at rs i = at (rels g) i"
    using pr qr ir by (auto simp: rs_def rs1_def dest!: in_range_nonneg)
  moreover have "nchain rs n h (remove1 i xs)"
    using un(1) chn upd tx slot_upd_core set_remove1_subset [of i xs] chain_in_range [OF chn(1)]
    by (auto simp: nchain_def h_def subset_iff; blast)
  moreover have "unlinkRelFromNode g i n =
       Inr (g\<lparr>rels := rs, nodes := set_at (nodes g) n ((at (nodes g) n)\<lparr>firstRelId := h\<rparr>)\<rparr>)"
  proof -
    have "unlinkRelFromNode g i n =
      bindE (if p \<noteq> GRAPH_NONE then upd_rel g p (relSetNext n q)
             else upd_node g n (\<lambda>n. n\<lparr>firstRelId := q\<rparr>)) (\<lambda>g.
      if q \<noteq> GRAPH_NONE then upd_rel g q (relSetPrev n p) else Inr g)"
      by (simp only: unlinkRelFromNode_def get_at_in [OF ir] bindE_Inr Let_def p_def q_def)
    also have "\<dots> = Inr (g\<lparr>rels := rs, nodes := set_at (nodes g) n ((at (nodes g) n)\<lparr>firstRelId := h\<rparr>)\<rparr>)"
      using n pr qr by (auto simp: upd_rel_def upd_node_def rs_def rs1_def h_def)
    finally show ?thesis .
  qed
  ultimately show thesis using that len(2) upd by blast
qed

text \<open>
  The same two facts for the chains of all live nodes at once: \<open>adj_ok g L A\<close> says that every node
  of \<open>L\<close> heads the chain \<open>A\<close> gives it, and \<open>same_data\<close> that two states differ in link fields only.
\<close>

definition adj_ok :: "('n, 'r) graph \<Rightarrow> int set \<Rightarrow> (int \<Rightarrow> int list) \<Rightarrow> bool" where
  "adj_ok g L A \<longleftrightarrow> (\<forall>n\<in>L. nchain (rels g) n (firstRelId (at (nodes g) n)) (A n))"

definition same_data :: "('n, 'r) graph \<Rightarrow> ('n, 'r) graph \<Rightarrow> bool" where
  "same_data g g' \<longleftrightarrow> g' = g\<lparr>nodes := nodes g', rels := rels g'\<rparr>
     \<and> length (nodes g') = length (nodes g) \<and> length (rels g') = length (rels g)
     \<and> (\<forall>n. in_range (nodes g) n \<longrightarrow> n_inUse (at (nodes g') n) = n_inUse (at (nodes g) n)
          \<and> n_payload (at (nodes g') n) = n_payload (at (nodes g) n))
     \<and> (\<forall>i. in_range (rels g) i \<longrightarrow> r_inUse (at (rels g') i) = r_inUse (at (rels g) i)
          \<and> rel_core (at (rels g') i) = rel_core (at (rels g) i))"

lemma same_data_refl [simp]: "same_data g g"
  by (simp add: same_data_def)

lemma same_data_trans: "same_data g1 g2 \<Longrightarrow> same_data g2 g3 \<Longrightarrow> same_data g1 g3"
  unfolding same_data_def in_range_def
  by (intro conjI; (metis (no_types, lifting) graph.surjective graph.update_convs(1,2))?)

lemma same_data_links:
  assumes "in_range (nodes g) n" and "length rs = length (rels g)"
    and "\<And>j. in_range (rels g) j \<Longrightarrow> slot_upd n (at (rels g) j) (at rs j)"
  shows "same_data g (g\<lparr>rels := rs, nodes := set_at (nodes g) n ((at (nodes g) n)\<lparr>firstRelId := h\<rparr>)\<rparr>)"
  using assms slot_upd_core by (fastforce simp: same_data_def at_set_at)

lemma adj_ok_links:
  assumes "adj_ok g L A" and "in_range (nodes g) n" and "\<And>m. m \<in> L \<Longrightarrow> 0 \<le> m"
    and "length rs = length (rels g)" and "nchain rs n h xs"
    and "\<And>j. in_range (rels g) j \<Longrightarrow> slot_upd n (at (rels g) j) (at rs j)"
  shows "adj_ok (g\<lparr>rels := rs, nodes := set_at (nodes g) n ((at (nodes g) n)\<lparr>firstRelId := h\<rparr>)\<rparr>)
    L (A(n := xs))"
  unfolding adj_ok_def
proof
  fix m assume m: "m \<in> L"
  show "nchain (rels (g\<lparr>rels := rs, nodes := set_at (nodes g) n ((at (nodes g) n)\<lparr>firstRelId := h\<rparr>)\<rparr>)) m
    (firstRelId (at (nodes (g\<lparr>rels := rs,
      nodes := set_at (nodes g) n ((at (nodes g) n)\<lparr>firstRelId := h\<rparr>)\<rparr>)) m)) ((A(n := xs)) m)"
  proof (cases "m = n")
    case True
    with assms(2,5) show ?thesis by simp
  next
    case False
    have "nchain rs m (firstRelId (at (nodes g) m)) (A m)"
      by (rule nchain_other [OF _ False, of "rels g"])
        (use assms(1,4,6) m in \<open>auto simp: adj_ok_def in_range_def\<close>)
    with False assms(2,3) m show ?thesis by (simp add: in_range_nonneg)
  qed
qed

lemma linkRelToNode_adj:
  assumes "adj_ok g L A" and "n \<in> L" and "\<And>m. m \<in> L \<Longrightarrow> in_range (nodes g) m"
    and "in_range (rels g) i" and "i \<notin> set (A n)"
    and "nodeIsFirst \<longleftrightarrow> firstNodeId (at (rels g) i) = n" and "touches n (at (rels g) i)"
  obtains g' where "linkRelToNode g i n nodeIsFirst = Inr g'" and "same_data g g'"
    and "adj_ok g' L (A(n := i # A n))"
proof -
  have n: "in_range (nodes g) n" and ch: "nchain (rels g) n (firstRelId (at (nodes g) n)) (A n)"
    using assms by (auto simp: adj_ok_def)
  have pos: "0 \<le> m" if "m \<in> L" for m using assms(3) [OF that] by (rule in_range_nonneg)
  obtain rs where rs: "linkRelToNode g i n nodeIsFirst =
       Inr (g\<lparr>rels := rs, nodes := set_at (nodes g) n ((at (nodes g) n)\<lparr>firstRelId := i\<rparr>)\<rparr>)"
    "length rs = length (rels g)" "nchain rs n i (i # A n)"
    "\<And>j. in_range (rels g) j \<Longrightarrow> slot_upd n (at (rels g) j) (at rs j)"
    using linkRelToNode_spec [OF ch n assms(4-7)] by blast
  show thesis
    using that [OF rs(1)] same_data_links [OF n rs(2,4)] adj_ok_links [OF assms(1) n pos rs(2-4)]
    by blast
qed

lemma unlinkRelFromNode_adj:
  assumes "adj_ok g L A" and "n \<in> L" and "\<And>m. m \<in> L \<Longrightarrow> in_range (nodes g) m"
    and "i \<in> set (A n)"
  obtains g' where "unlinkRelFromNode g i n = Inr g'" and "same_data g g'"
    and "adj_ok g' L (A(n := remove1 i (A n)))"
proof -
  have n: "in_range (nodes g) n" and ch: "nchain (rels g) n (firstRelId (at (nodes g) n)) (A n)"
    using assms by (auto simp: adj_ok_def)
  have pos: "0 \<le> m" if "m \<in> L" for m using assms(3) [OF that] by (rule in_range_nonneg)
  obtain rs h where rs: "unlinkRelFromNode g i n =
       Inr (g\<lparr>rels := rs, nodes := set_at (nodes g) n ((at (nodes g) n)\<lparr>firstRelId := h\<rparr>)\<rparr>)"
    "length rs = length (rels g)" "nchain rs n h (remove1 i (A n))"
    "\<And>j. in_range (rels g) j \<Longrightarrow> slot_upd n (at (rels g) j) (at rs j)"
    using unlinkRelFromNode_spec [OF ch n assms(4)] by blast
  show thesis
    using that [OF rs(1)] same_data_links [OF n rs(2,4)] adj_ok_links [OF assms(1) n pos rs(2-4)]
    by blast
qed

section \<open>The operations refine the abstract graph\<close>

lemma mk_graph_repr: "mk_graph nc rc zn zr = Inr g \<Longrightarrow> graph_repr g a_empty"
  by (auto simp: mk_graph_def repr_defs liveNodes_def liveRels_def a_empty_def incident_def
      split: if_splits)

lemma allocNode_frame:
  "allocNode g = Inr (i, g') \<Longrightarrow> g' = g\<lparr>nodeMark := nodeMark g', freeNodes := freeNodes g'\<rparr>
     \<and> set (freeNodes g') \<subseteq> set (freeNodes g)"
  by (auto simp: allocNode_def bindE_eq_Inr_iff assertE_eq_Inr_iff dest: in_set_butlastD
      split: if_splits)

lemma allocRel_frame:
  "allocRel g = Inr (i, g') \<Longrightarrow> g' = g\<lparr>relMark := relMark g', freeRels := freeRels g'\<rparr>
     \<and> set (freeRels g') \<subseteq> set (freeRels g)"
  by (auto simp: allocRel_def bindE_eq_Inr_iff assertE_eq_Inr_iff dest: in_set_butlastD
      split: if_splits)

lemma addNode_repr:
  assumes r: "graph_repr g a" and room: "liveNodes g \<noteq> {0..<nodeCap g}"
  obtains i g' where "addNode g p = Inr (i, g')" and "i \<notin> liveNodes g"
    and "liveNodes g' = insert i (liveNodes g)" and "graph_repr g' (a_addNode i p a)"
    and "rels g' = rels g" and "liveRels g' = liveRels g"
    and "nodeCap g' = nodeCap g" and "relCap g' = relCap g"
proof -
  have ok: "stores_ok g" "nodes_repr g a" "rels_repr g a" "adj_repr g a"
    and pool: "pool_ok (nodeMark g) (nodeCap g) (freeNodes g)"
    using r by (auto simp: repr_defs)
  obtain i g1 where al: "allocNode g = Inr (i, g1)"
    using nodePool.alloc_succeeds_iff [OF pool] room by (auto simp: liveNodes_def)
  note spec = nodePool.alloc_spec [OF pool al]
  obtain m fs where g1: "g1 = g\<lparr>nodeMark := m, freeNodes := fs\<rparr>" "set fs \<subseteq> set (freeNodes g)"
    using allocNode_frame [OF al] by (metis graph.select_convs(7) graph.update_convs(7))
  define e where "e = (at (nodes g) i)\<lparr>n_inUse := True, firstRelId := GRAPH_NONE, n_payload := p\<rparr>"
  define g' where "g' = g1\<lparr>nodes := set_at (nodes g) i e\<rparr>"
  have live': "liveNodes g' = insert i (liveNodes g)" "i \<notin> liveNodes g" "liveRels g' = liveRels g"
    using spec(1,2) by (simp_all add: liveNodes_def liveRels_def g'_def g1)
  have ir: "in_range (nodes g) i"
    using spec(3,4,5,6) ok(1) by (auto simp: in_range_def stores_ok_def pool_ok_def)
  have add: "addNode g p = Inr (i, g')"
    using al ir by (simp add: addNode_def upd_node_def g'_def e_def g1)
  have other: "at (nodes g') n = at (nodes g) n" if "n \<noteq> i" "0 \<le> n" for n
    using that ir by (simp add: g'_def in_range_nonneg)
  have self: "at (nodes g') i = e" using ir by (simp add: g'_def)
  have nonneg: "0 \<le> n" if "n \<in> liveNodes g" for n
    using that by (simp add: liveNodes_def live_def)
  have fresh: "incident a i = {}"
    using incident_rels_repr [OF ok(3)] ok(3) live'(2) by (auto simp: rels_repr_def touches_def)
  have free: "n \<notin> insert i (liveNodes g) \<and> 0 \<le> n" if "n \<in> set fs" for n
    using that spec(2,3) by (auto simp: g1 liveNodes_def live_def pool_ok_def)
  have rels': "rels g' = rels g" by (simp add: g'_def g1)
  have "stores_ok g'"
    using ok(1) spec(3) by (simp add: stores_ok_def g'_def g1)
  moreover have "nodes_repr g' (a_addNode i p a)"
    using ok(2) free other self nonneg g1 live'
    by (auto simp: nodes_repr_def a_addNode_def e_def g'_def)
  moreover have "rels_repr g' (a_addNode i p a)"
    using ok(3) live' rels' by (auto simp: rels_repr_def a_addNode_def g'_def g1)
  moreover have "adj_repr g' (a_addNode i p a)"
    using ok(4) live' rels' self other nonneg fresh
    by (auto simp: adj_repr_def a_addNode_def incident_def nchain_def e_def)
  ultimately have "graph_repr g' (a_addNode i p a)" by (simp add: graph_repr_def)
  with add live' rels' show thesis using that by (simp add: g'_def g1)
qed

lemma graph_repr_adj_ok:
  "graph_repr g a \<longleftrightarrow> stores_ok g \<and> nodes_repr g a \<and> rels_repr g a
     \<and> adj_ok g (liveNodes g) (aadj a) \<and> (\<forall>n\<in>liveNodes g. set (aadj a n) = incident a n)"
  by (auto simp: graph_repr_def adj_repr_def adj_ok_def)

lemma same_data_stores:
  "same_data g g' \<Longrightarrow> liveNodes g' = liveNodes g \<and> liveRels g' = liveRels g
     \<and> stores_ok g' = stores_ok g \<and> nodeCap g' = nodeCap g \<and> relCap g' = relCap g
     \<and> freeNodes g' = freeNodes g \<and> freeRels g' = freeRels g
     \<and> nodeMark g' = nodeMark g \<and> relMark g' = relMark g"
  unfolding same_data_def liveNodes_def liveRels_def stores_ok_def
  by (metis graph.ext_inject graph.surjective graph.update_convs(1,2))

lemma same_data_nodes_repr:
  assumes "same_data g g'" and "nodes_repr g a" and "stores_ok g"
  shows "nodes_repr g' a"
proof -
  have "set (freeNodes g) \<subseteq> {n. in_range (nodes g) n}" "liveNodes g \<subseteq> {n. in_range (nodes g) n}"
    using assms(3) by (auto simp: stores_ok_def pool_ok_def in_range_def liveNodes_def live_def)
  then show ?thesis
    using assms same_data_stores [OF assms(1)] by (auto simp: nodes_repr_def same_data_def)
qed

lemma rel_core_ends:
  "rel_core e = rel_core e' \<Longrightarrow> firstNodeId e = firstNodeId e' \<and> secondNodeId e = secondNodeId e'"
  by (simp add: rel_core_def)

lemma same_data_rels_repr:
  assumes "same_data g g'" and "rels_repr g a" and "stores_ok g"
  shows "rels_repr g' a"
proof -
  have "set (freeRels g) \<subseteq> {n. in_range (rels g) n}" "liveRels g \<subseteq> {n. in_range (rels g) n}"
    using assms(3) by (auto simp: stores_ok_def pool_ok_def in_range_def liveRels_def live_def)
  then show ?thesis
    using assms same_data_stores [OF assms(1)]
    by (auto simp: rels_repr_def same_data_def subset_iff dest!: rel_core_ends)
qed

lemma addRel_entry_repr:
  assumes r: "graph_repr g a" and al: "allocRel g = Inr (i, g1)"
    and ends: "from \<in> liveNodes g" "to \<in> liveNodes g"
    and e: "rel_core e = (from, to, ty, p)" "r_inUse e"
    and g2: "g2 = g1\<lparr>rels := set_at (rels g1) i e\<rparr>"
  shows "liveRels g2 = insert i (liveRels g)" and "liveNodes g2 = liveNodes g" and "i \<notin> liveRels g"
    and "in_range (rels g1) i" and "in_range (rels g2) i" and "at (rels g2) i = e"
    and "stores_ok g2" and "nodes_repr g2 (a_addRel i from to ty p a)"
    and "rels_repr g2 (a_addRel i from to ty p a)" and "adj_ok g2 (liveNodes g) (aadj a)"
    and "\<And>n. n \<in> liveNodes g \<Longrightarrow> i \<notin> set (aadj a n)"
    and "nodeCap g2 = nodeCap g" and "relCap g2 = relCap g"
proof -
  have ok: "stores_ok g" "nodes_repr g a" "rels_repr g a" "adj_ok g (liveNodes g) (aadj a)"
    and inc: "\<And>n. n \<in> liveNodes g \<Longrightarrow> set (aadj a n) = incident a n"
    and pool: "pool_ok (relMark g) (relCap g) (freeRels g)"
    using r by (auto simp: graph_repr_adj_ok stores_ok_def)
  note spec = relPool.alloc_spec [OF pool al]
  obtain m fs where g1: "g1 = g\<lparr>relMark := m, freeRels := fs\<rparr>" "set fs \<subseteq> set (freeRels g)"
    using allocRel_frame [OF al] by (metis graph.select_convs(8) graph.update_convs(8))
  have rels2: "rels g2 = set_at (rels g) i e" by (simp add: g2 g1)
  show live': "liveRels g2 = insert i (liveRels g)" "i \<notin> liveRels g" "liveNodes g2 = liveNodes g"
    using spec(1,2) by (simp_all add: liveNodes_def liveRels_def g2 g1)
  have ir: "in_range (rels g) i"
    using spec(3,4,5,6) ok(1) by (auto simp: in_range_def stores_ok_def pool_ok_def)
  then show i2: "in_range (rels g1) i" "in_range (rels g2) i" "at (rels g2) i = e"
    by (simp_all add: rels2 g1)
  have other: "at (rels g2) j = at (rels g) j" if "j \<noteq> i" "j \<in> liveRels g \<or> j \<in> set (freeRels g)" for j
    using that ir pool by (auto simp: rels2 liveRels_def live_def pool_ok_def dest!: in_range_nonneg)
  show notin: "i \<notin> set (aadj a n)" if "n \<in> liveNodes g" for n
    using inc [OF that] incident_rels_repr [OF ok(3)] live'(2) by auto
  have free: "j \<noteq> i" if "j \<in> set fs" for j
    using that spec(2) by (auto simp: g1 liveRels_def live_def)
  show "stores_ok g2" using ok(1) spec(3) by (simp add: stores_ok_def g2 g1)
  show "nodes_repr g2 (a_addRel i from to ty p a)"
    using ok(2) live' by (simp add: nodes_repr_def a_addRel_def g2 g1)
  have "r_inUse (at (rels g2) j) \<and> arel (a_addRel i from to ty p a) j = Some (rel_core (at (rels g2) j))
      \<and> firstNodeId (at (rels g2) j) \<in> liveNodes g \<and> secondNodeId (at (rels g2) j) \<in> liveNodes g"
    if "j \<in> liveRels g2" for j
  proof (cases "j = i")
    case True
    with e ends i2 show ?thesis by (simp add: a_addRel_def rel_core_def)
  next
    case False
    with that live' ok(3) other [of j] show ?thesis by (simp add: rels_repr_def a_addRel_def)
  qed
  moreover have "\<not> r_inUse (at (rels g2) j)" if "j \<in> set fs" for j
    using that other [of j] free [OF that] ok(3) g1(2) by (auto simp: rels_repr_def)
  moreover have "dom (arel (a_addRel i from to ty p a)) = liveRels g2"
    using ok(3) live'(1) by (simp add: rels_repr_def a_addRel_def)
  ultimately show "rels_repr g2 (a_addRel i from to ty p a)"
    using live'(3) by (simp add: rels_repr_def g2 g1)
  show "adj_ok g2 (liveNodes g) (aadj a)"
    using ok(4) by (auto simp: adj_ok_def g2 g1 intro!: nchain_fresh notin in_range_nonneg [OF ir])
  show "nodeCap g2 = nodeCap g" "relCap g2 = relCap g" by (simp_all add: g2 g1)
qed

lemma linkRel_both:
  assumes adj: "adj_ok g L A" and L: "\<And>n. n \<in> L \<Longrightarrow> in_range (nodes g) n \<and> i \<notin> set (A n)"
    and ends: "from \<in> L" "to \<in> L"
    and i: "in_range (rels g) i" "firstNodeId (at (rels g) i) = from" "secondNodeId (at (rels g) i) = to"
  obtains g' g'' where "linkRelToNode g i from True = Inr g'"
    and "(if from \<noteq> to then linkRelToNode g' i to False else Inr g') = Inr g''"
    and "same_data g g''"
    and "adj_ok g'' L (\<lambda>n. if n = from \<or> n = to then i # A n else A n)"
proof -
  have nr: "\<And>n. n \<in> L \<Longrightarrow> in_range (nodes g) n" and notin: "\<And>n. n \<in> L \<Longrightarrow> i \<notin> set (A n)"
    using L by auto
  obtain g' where g': "linkRelToNode g i from True = Inr g'" "same_data g g'"
    "adj_ok g' L (A(from := i # A from))"
    using linkRelToNode_adj [OF adj ends(1) nr i(1) notin [OF ends(1)], of True] i(2)
    by (auto simp: touches_def)
  have i': "firstNodeId (at (rels g') i) = from" "secondNodeId (at (rels g') i) = to"
    "in_range (rels g') i" "\<And>n. n \<in> L \<Longrightarrow> in_range (nodes g') n"
    using g'(2) i nr by (auto simp: same_data_def in_range_def dest!: rel_core_ends)
  show thesis
  proof (cases "from = to")
    case True
    then have "A(from := i # A from) = (\<lambda>n. if n = from \<or> n = to then i # A n else A n)" by auto
    with True g' that show ?thesis by simp
  next
    case False
    obtain g'' where g'': "linkRelToNode g' i to False = Inr g''" "same_data g' g''"
      "adj_ok g'' L ((A(from := i # A from))(to := i # A to))"
      using linkRelToNode_adj [OF g'(3) ends(2) i'(4) i'(3), of False] notin [OF ends(2)] i' False
      by (auto simp: touches_def)
    moreover have "(A(from := i # A from))(to := i # A to)
        = (\<lambda>n. if n = from \<or> n = to then i # A n else A n)" by auto
    ultimately show ?thesis using False g'(1) same_data_trans [OF g'(2)] that by auto
  qed
qed

lemma addRelationship_repr:
  assumes r: "graph_repr g a" and room: "liveRels g \<noteq> {0..<relCap g}"
    and ends: "from \<in> liveNodes g" "to \<in> liveNodes g"
  obtains i g' where "addRelationship g from to ty p = Inr (i, g')" and "i \<notin> liveRels g"
    and "liveRels g' = insert i (liveRels g)" and "liveNodes g' = liveNodes g"
    and "graph_repr g' (a_addRel i from to (to_i32 ty) p a)"
    and "nodeCap g' = nodeCap g" and "relCap g' = relCap g"
proof -
  have pool: "pool_ok (relMark g) (relCap g) (freeRels g)"
    and inc: "\<And>n. n \<in> liveNodes g \<Longrightarrow> set (aadj a n) = incident a n"
    using r by (auto simp: repr_defs)
  obtain i g1 where al: "allocRel g = Inr (i, g1)"
    using relPool.alloc_succeeds_iff [OF pool] room by (auto simp: liveRels_def)
  define e where "e = (at (rels g1) i)\<lparr>r_inUse := True, firstNodeId := from, secondNodeId := to,
       typeId := to_i32 ty, firstPrevRelId := GRAPH_NONE, firstNextRelId := GRAPH_NONE,
       secondPrevRelId := GRAPH_NONE, secondNextRelId := GRAPH_NONE, r_payload := p\<rparr>"
  define g2 where "g2 = g1\<lparr>rels := set_at (rels g1) i e\<rparr>"
  let ?a = "a_addRel i from to (to_i32 ty) p a"
  have "rel_core e = (from, to, to_i32 ty, p)" "r_inUse e" by (simp_all add: e_def rel_core_def)
  note en = addRel_entry_repr [OF r al ends this g2_def]
  have "in_range (nodes g2) n \<and> i \<notin> set (aadj a n)" if "n \<in> liveNodes g" for n
    using live_node_range [OF en(7), of n] en(2) en(11) that by simp
  then obtain g3 g4 where g: "linkRelToNode g2 i from True = Inr g3"
    "(if from \<noteq> to then linkRelToNode g3 i to False else Inr g3) = Inr g4" "same_data g2 g4"
    "adj_ok g4 (liveNodes g) (\<lambda>n. if n = from \<or> n = to then i # aadj a n else aadj a n)"
    using linkRel_both [OF en(10) _ ends en(5)] en(6) by (auto simp: e_def)
  have add: "addRelationship g from to ty p = Inr (i, g4)"
    using al en(4) g(1,2) by (simp add: addRelationship_def upd_rel_def g2_def e_def)
  have "set (aadj ?a n) = incident ?a n" if "n \<in> liveNodes g" for n
    using inc [OF that] en(11) [OF that] by (auto simp: a_addRel_def incident_def)
  then have "graph_repr g4 ?a"
    using same_data_stores [OF g(3)] en(2,7) g(4) same_data_nodes_repr [OF g(3) en(8,7)]
      same_data_rels_repr [OF g(3) en(9,7)]
    by (simp add: graph_repr_adj_ok) (simp add: a_addRel_def)
  with add show thesis
    using that en(1,2,3,12,13) same_data_stores [OF g(3)] by simp
qed

lemma unlinkRel_both:
  assumes adj: "adj_ok g L A" and L: "\<And>n. n \<in> L \<Longrightarrow> in_range (nodes g) n"
    and ends: "from \<in> L" "to \<in> L" and i: "i \<in> set (A from)" "i \<in> set (A to)"
  obtains g' g'' where "unlinkRelFromNode g i from = Inr g'"
    and "(if from \<noteq> to then unlinkRelFromNode g' i to else Inr g') = Inr g''"
    and "same_data g g''"
    and "adj_ok g'' L (\<lambda>n. if n = from \<or> n = to then remove1 i (A n) else A n)"
proof -
  obtain g' where g': "unlinkRelFromNode g i from = Inr g'" "same_data g g'"
    "adj_ok g' L (A(from := remove1 i (A from)))"
    using unlinkRelFromNode_adj [OF adj ends(1) L i(1)] by auto
  have nr: "\<And>n. n \<in> L \<Longrightarrow> in_range (nodes g') n"
    using g'(2) L by (auto simp: same_data_def in_range_def)
  show thesis
  proof (cases "from = to")
    case True
    then have "A(from := remove1 i (A from))
        = (\<lambda>n. if n = from \<or> n = to then remove1 i (A n) else A n)" by auto
    with True g' that show ?thesis by simp
  next
    case False
    obtain g'' where g'': "unlinkRelFromNode g' i to = Inr g''" "same_data g' g''"
      "adj_ok g'' L ((A(from := remove1 i (A from)))(to := remove1 i (A to)))"
      using unlinkRelFromNode_adj [OF g'(3) ends(2) nr] i(2) False by auto
    moreover have "(A(from := remove1 i (A from)))(to := remove1 i (A to))
        = (\<lambda>n. if n = from \<or> n = to then remove1 i (A n) else A n)" by auto
    ultimately show ?thesis using False g'(1) same_data_trans [OF g'(2)] that by auto
  qed
qed

lemma live_rel_ends:
  assumes "graph_repr g a" and "i \<in> liveRels g"
  shows "firstNodeId (at (rels g) i) \<in> liveNodes g" and "secondNodeId (at (rels g) i) \<in> liveNodes g"
    and "r_inUse (at (rels g) i)" and "arel a i = Some (rel_core (at (rels g) i))"
    and "\<And>n. n \<in> liveNodes g \<Longrightarrow> i \<in> set (aadj a n) \<longleftrightarrow> touches n (at (rels g) i)"
  using assms incident_rels_repr [of g a] by (auto simp: repr_defs)

lemma adj_distinct: "graph_repr g a \<Longrightarrow> n \<in> liveNodes g \<Longrightarrow> distinct (aadj a n)"
  by (simp add: repr_defs nchain_def)

lemma freeRel_repr:
  assumes "stores_ok g" and "nodes_repr g a" and "rels_repr g a" and "i \<in> liveRels g"
    and "adj_ok g (liveNodes g) A" and "\<And>n. n \<in> liveNodes g \<Longrightarrow> i \<notin> set (A n)"
    and A: "\<And>n. n \<in> liveNodes g \<Longrightarrow> A n = removeAll i (aadj a n)"
    and inc: "\<And>n. n \<in> liveNodes g \<Longrightarrow> set (aadj a n) = incident a n \<and> distinct (aadj a n)"
    and g': "g' = g\<lparr>rels := set_at (rels g) i ((at (rels g) i)\<lparr>r_inUse := False\<rparr>),
      freeRels := freeRels g @ [i]\<rparr>"
  shows "graph_repr g' (a_removeRel i a)" and "liveRels g' = liveRels g - {i}"
    and "liveNodes g' = liveNodes g"
proof -
  show live': "liveRels g' = liveRels g - {i}" "liveNodes g' = liveNodes g"
    by (simp_all add: g' liveRels_def liveNodes_def live_release)
  have ir: "in_range (rels g) i" using assms(1,4) by (rule live_rel_range)
  have st: "stores_ok g'" and nd: "nodes_repr g' (a_removeRel i a)"
    using assms(1,2,4) live'
    by (simp_all add: stores_ok_def nodes_repr_def a_removeRel_def g' pool_ok_release liveRels_def)
  have pos: "0 \<le> j" if "j \<in> liveRels g \<or> j \<in> set (freeRels g)" for j
    using that assms(1) by (auto simp: stores_ok_def pool_ok_def liveRels_def live_def)
  have other: "at (rels g') j = at (rels g) j" if "j \<noteq> i" "j \<in> liveRels g \<or> j \<in> set (freeRels g)" for j
    using that ir pos [of j] by (simp add: g' in_range_nonneg)
  have self: "\<not> r_inUse (at (rels g') i)" "freeRels g' = freeRels g @ [i]" "i \<notin> set (freeRels g)"
    using ir assms(4) by (simp_all add: g' liveRels_def live_def)
  have free: "\<not> r_inUse (at (rels g') j)" if "j \<in> set (freeRels g')" for j
  proof (cases "j = i")
    case False
    with that self(2) have "j \<in> set (freeRels g)" by simp
    with False other [of j] assms(3) show ?thesis by (simp add: rels_repr_def)
  qed (use self in simp)
  have "dom (arel (a_removeRel i a)) = liveRels g - {i}"
    using assms(3) by (simp add: rels_repr_def a_removeRel_def)
  moreover have "j \<in> liveRels g - {i} \<Longrightarrow> arel (a_removeRel i a) j = arel a j" for j
    by (simp add: a_removeRel_def)
  ultimately have "rels_repr g' (a_removeRel i a)"
    using assms(3) free other live' by (simp add: rels_repr_def)
  moreover have "adj_ok g' (liveNodes g) (aadj (a_removeRel i a))"
    using assms(5,6) A
    by (auto simp: adj_ok_def g' a_removeRel_def intro!: nchain_fresh in_range_nonneg [OF ir])
  moreover have "set (aadj (a_removeRel i a) n) = incident (a_removeRel i a) n" if "n \<in> liveNodes g" for n
    using inc [OF that] by (auto simp: a_removeRel_def incident_def)
  ultimately show "graph_repr g' (a_removeRel i a)"
    using live' st nd by (simp add: graph_repr_adj_ok)
qed

lemma removeRelationship_repr:
  assumes r: "graph_repr g a" and i: "i \<in> liveRels g"
  obtains g' where "removeRelationship g i = Inr g'" and "graph_repr g' (a_removeRel i a)"
    and "liveRels g' = liveRels g - {i}" and "liveNodes g' = liveNodes g"
    and "freeRels g' = freeRels g @ [i]" and "freeNodes g' = freeNodes g"
    and "nodeCap g' = nodeCap g" and "relCap g' = relCap g" and "nodeMark g' = nodeMark g"
proof -
  let ?e = "at (rels g) i" and ?L = "liveNodes g"
  let ?f = "firstNodeId ?e" and ?t = "secondNodeId ?e"
  let ?A = "\<lambda>n. if n = ?f \<or> n = ?t then remove1 i (aadj a n) else aadj a n"
  have ok: "stores_ok g" "nodes_repr g a" "rels_repr g a" "adj_ok g ?L (aadj a)"
    and inc: "\<And>n. n \<in> ?L \<Longrightarrow> set (aadj a n) = incident a n"
    using r by (auto simp: graph_repr_adj_ok)
  note ends = live_rel_ends [OF r i]
  have ir: "in_range (rels g) i" using ok(1) i by (rule live_rel_range)
  have mem: "i \<in> set (aadj a ?f)" "i \<in> set (aadj a ?t)"
    using ends(5) ends(1,2) by (simp_all add: touches_def)
  obtain g1 g2 where g: "unlinkRelFromNode g i ?f = Inr g1"
    "(if ?f \<noteq> ?t then unlinkRelFromNode g1 i ?t else Inr g1) = Inr g2" "same_data g g2"
    "adj_ok g2 ?L ?A"
    using unlinkRel_both [OF ok(4) live_node_range [OF ok(1)] ends(1,2) mem] by blast
  note st = same_data_stores [OF g(3)]
  define g3 where "g3 = g2\<lparr>rels := set_at (rels g2) i ((at (rels g2) i)\<lparr>r_inUse := False\<rparr>),
      freeRels := freeRels g2 @ [i]\<rparr>"
  have notin: "i \<notin> set (?A n)" and rm: "?A n = removeAll i (aadj a n)" if "n \<in> ?L" for n
    using ends(5) [OF that] adj_distinct [OF r that]
    by (auto simp: touches_def distinct_remove1_removeAll)
  have fr: "graph_repr g3 (a_removeRel i a)" "liveRels g3 = liveRels g2 - {i}" "liveNodes g3 = liveNodes g2"
    using freeRel_repr [OF _ same_data_nodes_repr [OF g(3) ok(2,1)]
        same_data_rels_repr [OF g(3) ok(3,1)] _ _ _ _ _ g3_def, of ?A]
      st ok(1) i g(4) notin rm inc adj_distinct [OF r] by auto
  have "in_range (rels g2) i" using ir g(3) by (simp add: same_data_def in_range_def)
  then have "removeRelationship g i = Inr g3"
    using ir ends(3) g(1,2) by (simp add: removeRelationship_def upd_rel_def g3_def)
  with fr st show thesis using that by (simp add: g3_def)
qed

lemma fold_removeRel:
  "fold a_removeRel xs a = a\<lparr>arel := arel a |` (- set xs),
     aadj := (\<lambda>m. filter (\<lambda>i. i \<notin> set xs) (aadj a m))\<rparr>"
proof (induction xs arbitrary: a)
  case Nil
  then show ?case by simp
next
  case (Cons x xs)
  have ar: "arel (a_removeRel x a) |` (- set xs) = arel a |` (- set (x # xs))"
    by (auto simp: restrict_map_def fun_eq_iff a_removeRel_def)
  have aa: "filter (\<lambda>i. i \<notin> set xs) (aadj (a_removeRel x a) m) =
      filter (\<lambda>i. i \<notin> set (x # xs)) (aadj a m)" for m
    by (auto simp: a_removeRel_def removeAll_filter_not_eq intro!: filter_cong)
  show ?case unfolding fold_Cons o_apply Cons.IH ar aa by (simp add: a_removeRel_def)
qed

lemma head_of_adj:
  "graph_repr g a \<Longrightarrow> n \<in> liveNodes g \<Longrightarrow>
     firstRelId (at (nodes g) n) = (if aadj a n = [] then GRAPH_NONE else hd (aadj a n))"
  by (auto simp: repr_defs nchain_def dest!: bspec chain_head)

lemma adj_next:
  assumes "graph_repr g a" and "n \<in> liveNodes g" and "aadj a n = x # xs"
  shows "relNext n (at (rels g) x) = (if xs = [] then GRAPH_NONE else hd xs)"
    and "x \<in> liveRels g" and "in_range (rels g) x" and "x \<noteq> GRAPH_NONE" and "x \<notin> set xs"
proof -
  have "nchain (rels g) n (firstRelId (at (nodes g) n)) (aadj a n)" "set (aadj a n) = incident a n"
    using assms(1,2) by (auto simp: graph_repr_def adj_repr_def)
  then have "nchain (rels g) n (firstRelId (at (nodes g) n)) (x # xs)" "x \<in> incident a n"
    using assms(3) by auto
  then show "relNext n (at (rels g) x) = (if xs = [] then GRAPH_NONE else hd xs)"
    "x \<in> liveRels g" "in_range (rels g) x" "x \<noteq> GRAPH_NONE" "x \<notin> set xs"
    using assms(1) incident_rels_repr [of g a n]
    by (auto simp: nchain_def graph_repr_def dest!: chain_head dest: in_range_nonneg)
qed

lemma removeNode_loop_repr:
  assumes "graph_repr g a" and "n \<in> liveNodes g" and "aadj a n = xs"
  shows "\<exists>g'. removeNode_loop g n (firstRelId (at (nodes g) n)) = Some (Inr g')
    \<and> graph_repr g' (fold a_removeRel xs a) \<and> liveNodes g' = liveNodes g
    \<and> liveRels g' = liveRels g - set xs \<and> freeRels g' = freeRels g @ xs
    \<and> freeNodes g' = freeNodes g \<and> nodeMark g' = nodeMark g
    \<and> nodeCap g' = nodeCap g \<and> relCap g' = relCap g"
  using assms
proof (induction xs arbitrary: g a)
  case Nil
  then have "firstRelId (at (nodes g) n) = GRAPH_NONE" using head_of_adj [of g a n] by simp
  with Nil show ?case by (simp add: removeNode_loop.simps)
next
  case (Cons x xs)
  note nx = adj_next [OF Cons.prems]
  obtain g1 where g1: "removeRelationship g x = Inr g1" "graph_repr g1 (a_removeRel x a)"
    "liveRels g1 = liveRels g - {x}" "liveNodes g1 = liveNodes g"
    "freeRels g1 = freeRels g @ [x]" "freeNodes g1 = freeNodes g"
    "nodeCap g1 = nodeCap g" "relCap g1 = relCap g" "nodeMark g1 = nodeMark g"
    using removeRelationship_repr [OF Cons.prems(1) nx(2)] by blast
  have adj: "aadj (a_removeRel x a) n = xs"
    using Cons.prems(3) nx(5) by (simp add: a_removeRel_def)
  have n1: "n \<in> liveNodes g1" using Cons.prems(2) g1(4) by simp
  have "relNext n (at (rels g) x) = firstRelId (at (nodes g1) n)"
    using head_of_adj [OF g1(2) n1] adj nx(1) by simp
  moreover have "firstRelId (at (nodes g) n) = x"
    using head_of_adj [OF Cons.prems(1,2)] Cons.prems(3) by simp
  ultimately have "removeNode_loop g n (firstRelId (at (nodes g) n)) =
      removeNode_loop g1 n (firstRelId (at (nodes g1) n))"
    using nx(3,4) g1(1) by (simp add: removeNode_loop.simps [of g])
  with Cons.IH [OF g1(2) n1 adj] g1 show ?case by auto
qed

lemma dropNode_repr:
  assumes r: "graph_repr g a" and n: "n \<in> liveNodes g" and e: "aadj a n = []"
    and g': "g' = g\<lparr>nodes := set_at (nodes g) n ((at (nodes g) n)\<lparr>n_inUse := False, firstRelId := GRAPH_NONE\<rparr>),
      freeNodes := freeNodes g @ [n]\<rparr>"
  shows "graph_repr g' (a\<lparr>anode := (anode a)(n := None)\<rparr>)"
    and "liveNodes g' = liveNodes g - {n}" and "liveRels g' = liveRels g"
proof -
  let ?a = "a\<lparr>anode := (anode a)(n := None)\<rparr>"
  show live': "liveNodes g' = liveNodes g - {n}" "liveRels g' = liveRels g"
    by (simp_all add: g' liveRels_def liveNodes_def live_release)
  have ok: "stores_ok g" "nodes_repr g a" "rels_repr g a" "adj_repr g a"
    using r by (auto simp: graph_repr_def)
  have nr: "in_range (nodes g) n" using ok(1) n by (rule live_node_range)
  have pos: "0 \<le> m" if "m \<in> liveNodes g \<or> m \<in> set (freeNodes g)" for m
    using that ok(1) by (auto simp: stores_ok_def pool_ok_def liveNodes_def live_def)
  have other: "at (nodes g') m = at (nodes g) m" if "m \<noteq> n" "m \<in> liveNodes g \<or> m \<in> set (freeNodes g)" for m
    using that nr pos [of m] by (simp add: g' in_range_nonneg)
  have self: "\<not> n_inUse (at (nodes g') n)" "freeNodes g' = freeNodes g @ [n]" "rels g' = rels g"
    "freeRels g' = freeRels g" using nr by (simp_all add: g')
  have "stores_ok g'"
    using ok(1) n by (simp add: stores_ok_def g' pool_ok_release liveNodes_def)
  moreover have "\<not> n_inUse (at (nodes g') m)" if "m \<in> set (freeNodes g')" for m
    using that ok(2) self other [of m] by (cases "m = n") (auto simp: nodes_repr_def)
  then have "nodes_repr g' ?a"
    using ok(2) other live' by (simp add: nodes_repr_def)
  moreover have "incident a n = {}" using ok(4) n e by (auto simp: adj_repr_def)
  then have "firstNodeId (at (rels g) i) \<noteq> n \<and> secondNodeId (at (rels g) i) \<noteq> n" if "i \<in> liveRels g" for i
    using that incident_rels_repr [OF ok(3)] by (auto simp: touches_def)
  then have "rels_repr g' ?a" using ok(3) live' self by (simp add: rels_repr_def)
  moreover have "adj_repr g' ?a"
    using ok(4) other live' self by (simp add: adj_repr_def incident_def)
  ultimately show "graph_repr g' ?a" by (simp add: graph_repr_def)
qed

lemma removeNode_repr:
  assumes r: "graph_repr g a" and n: "n \<in> liveNodes g"
  obtains g' where "removeNode g n = Some (Inr g')" and "graph_repr g' (a_removeNode n a)"
    and "liveNodes g' = liveNodes g - {n}" and "liveRels g' = liveRels g - set (aadj a n)"
    and "freeRels g' = freeRels g @ aadj a n" and "freeNodes g' = freeNodes g @ [n]"
    and "nodeCap g' = nodeCap g" and "relCap g' = relCap g"
proof -
  let ?xs = "aadj a n"
  obtain g1 where g1: "removeNode_loop g n (firstRelId (at (nodes g) n)) = Some (Inr g1)"
    "graph_repr g1 (fold a_removeRel ?xs a)" "liveNodes g1 = liveNodes g"
    "liveRels g1 = liveRels g - set ?xs" "freeRels g1 = freeRels g @ ?xs"
    "freeNodes g1 = freeNodes g" "nodeCap g1 = nodeCap g" "relCap g1 = relCap g"
    using removeNode_loop_repr [OF r n refl] by blast
  define g2 where "g2 = g1\<lparr>nodes := set_at (nodes g1) n ((at (nodes g1) n)\<lparr>n_inUse := False,
    firstRelId := GRAPH_NONE\<rparr>), freeNodes := freeNodes g1 @ [n]\<rparr>"
  have n1: "n \<in> liveNodes g1" using n g1(3) by simp
  have "in_range (nodes g) n" "in_range (nodes g1) n" "n_inUse (at (nodes g) n)"
    using r g1(2) n n1 by (auto simp: graph_repr_def nodes_repr_def live_node_range)
  then have rm: "removeNode g n = Some (Inr g2)"
    using g1(1) by (simp add: removeNode_def upd_node_def g2_def)
  have "aadj (fold a_removeRel ?xs a) n = []" by (simp add: fold_removeRel)
  note dr = dropNode_repr [OF g1(2) n1 this g2_def]
  have "(fold a_removeRel ?xs a)\<lparr>anode := (anode (fold a_removeRel ?xs a))(n := None)\<rparr> = a_removeNode n a"
    by (simp add: fold_removeRel a_removeNode_def)
  with rm dr g1 show thesis using that by (simp add: g2_def)
qed

end
