(* ===== verification/Graph_Machine.thy ===== *)
theory Graph_Machine
  imports Graph_Refine
begin

text \<open>
  The graph as a state machine: the public mutators of \<open>Graph\<close> as commands, the states reachable
  from the constructor by commands whose arguments are live identifiers, and the simulation of
  every such sequence of commands by the abstract graph of \<open>Graph_Refine\<close>.
\<close>

datatype ('n, 'r) gcmd =
    AddNode 'n
  | AddRel int int int 'r
  | RemoveRel int
  | RemoveNode int

text \<open>A command returns the identifier it created or removed.\<close>

definition g_exec :: "('n, 'r) graph \<Rightarrow> ('n, 'r) gcmd \<Rightarrow> (int \<times> ('n, 'r) graph) res option" where
  "g_exec g c = (case c of
       AddNode p \<Rightarrow> Some (addNode g p)
     | AddRel f t ty p \<Rightarrow> Some (addRelationship g f t ty p)
     | RemoveRel i \<Rightarrow> Some (bindE (removeRelationship g i) (\<lambda>g. Inr (i, g)))
     | RemoveNode n \<Rightarrow> map_option (\<lambda>r. bindE r (\<lambda>g. Inr (n, g))) (removeNode g n))"

definition node_live :: "('n, 'r) graph \<Rightarrow> int \<Rightarrow> bool" where
  "node_live g n \<longleftrightarrow> 0 \<le> n \<and> n < nodeMark g \<and> n \<notin> set (freeNodes g)"

definition rel_live :: "('n, 'r) graph \<Rightarrow> int \<Rightarrow> bool" where
  "rel_live g i \<longleftrightarrow> 0 \<le> i \<and> i < relMark g \<and> i \<notin> set (freeRels g)"

fun permitted :: "('n, 'r) graph \<Rightarrow> ('n, 'r) gcmd \<Rightarrow> bool" where
  "permitted g (AddNode p) \<longleftrightarrow> freeNodes g \<noteq> [] \<or> nodeMark g < nodeCap g"
| "permitted g (AddRel f t ty p) \<longleftrightarrow>
     node_live g f \<and> node_live g t \<and> (freeRels g \<noteq> [] \<or> relMark g < relCap g)"
| "permitted g (RemoveRel i) \<longleftrightarrow> rel_live g i"
| "permitted g (RemoveNode n) \<longleftrightarrow> node_live g n"

fun a_exec :: "int \<Rightarrow> ('n, 'r) gcmd \<Rightarrow> ('n, 'r) agraph \<Rightarrow> ('n, 'r) agraph" where
  "a_exec i (AddNode p) a = a_addNode i p a"
| "a_exec i (AddRel f t ty p) a = a_addRel i f t (to_i32 ty) p a"
| "a_exec i (RemoveRel _) a = a_removeRel i a"
| "a_exec i (RemoveNode _) a = a_removeNode i a"

fun g_run :: "('n, 'r) graph \<Rightarrow> ('n, 'r) gcmd list \<Rightarrow> (int list \<times> ('n, 'r) graph) res option" where
  "g_run g [] = Some (Inr ([], g))"
| "g_run g (c # cs) = (case g_exec g c of
       None \<Rightarrow> None
     | Some (Inl e) \<Rightarrow> Some (Inl e)
     | Some (Inr (i, g')) \<Rightarrow>
         map_option (\<lambda>r. bindE r (\<lambda>(is, g''). Inr (i # is, g''))) (g_run g' cs))"

fun permitted_run :: "('n, 'r) graph \<Rightarrow> ('n, 'r) gcmd list \<Rightarrow> bool" where
  "permitted_run g [] \<longleftrightarrow> True"
| "permitted_run g (c # cs) \<longleftrightarrow> permitted g c
     \<and> (case g_exec g c of Some (Inr (i, g')) \<Rightarrow> permitted_run g' cs | _ \<Rightarrow> True)"

definition a_run :: "int list \<Rightarrow> ('n, 'r) gcmd list \<Rightarrow> ('n, 'r) agraph \<Rightarrow> ('n, 'r) agraph" where
  "a_run is cs a = fold (\<lambda>(i, c). a_exec i c) (zip is cs) a"

inductive g_reach :: "('n, 'r) graph \<Rightarrow> ('n, 'r) graph \<Rightarrow> bool" for g0 where
  start: "g_reach g0 g0"
| step: "g_reach g0 g \<Longrightarrow> permitted g c \<Longrightarrow> g_exec g c = Some (Inr (i, g')) \<Longrightarrow> g_reach g0 g'"

section \<open>One command\<close>

lemma node_live_iff: "node_live g n \<longleftrightarrow> n \<in> liveNodes g"
  by (auto simp: node_live_def liveNodes_def live_def)

lemma rel_live_iff: "rel_live g i \<longleftrightarrow> i \<in> liveRels g"
  by (auto simp: rel_live_def liveRels_def live_def)

lemma pool_room:
  assumes "pool_ok mark cap free"
  shows "live mark free \<noteq> {0..<cap} \<longleftrightarrow> free \<noteq> [] \<or> mark < cap"
proof (cases free)
  case Nil
  with assms show ?thesis by (auto simp: pool_ok_def live_def)
next
  case (Cons x xs)
  with assms have "x \<in> {0..<cap}" "x \<notin> live mark free" by (auto simp: pool_ok_def live_def)
  with Cons show ?thesis by blast
qed

lemma graph_repr_room:
  assumes "graph_repr g a"
  shows "liveNodes g \<noteq> {0..<nodeCap g} \<longleftrightarrow> freeNodes g \<noteq> [] \<or> nodeMark g < nodeCap g"
    and "liveRels g \<noteq> {0..<relCap g} \<longleftrightarrow> freeRels g \<noteq> [] \<or> relMark g < relCap g"
  using assms pool_room unfolding repr_defs liveNodes_def liveRels_def by blast+

lemma g_exec_repr:
  assumes "graph_repr g a" and "permitted g c"
  shows "\<exists>i g'. g_exec g c = Some (Inr (i, g')) \<and> graph_repr g' (a_exec i c a)
    \<and> nodeCap g' = nodeCap g \<and> relCap g' = relCap g"
proof (cases c)
  case (AddNode p)
  with assms have "liveNodes g \<noteq> {0..<nodeCap g}" by (simp add: graph_repr_room)
  obtain i g' where "addNode g p = Inr (i, g')" "graph_repr g' (a_addNode i p a)"
    "nodeCap g' = nodeCap g" "relCap g' = relCap g"
    using addNode_repr [OF assms(1) \<open>liveNodes g \<noteq> _\<close>, of p] .
  with AddNode show ?thesis by (simp add: g_exec_def)
next
  case (AddRel f t ty p)
  with assms have room: "liveRels g \<noteq> {0..<relCap g}" and ft: "f \<in> liveNodes g" "t \<in> liveNodes g"
    by (simp_all add: graph_repr_room node_live_iff)
  obtain i g' where "addRelationship g f t ty p = Inr (i, g')"
    "graph_repr g' (a_addRel i f t (to_i32 ty) p a)" "nodeCap g' = nodeCap g" "relCap g' = relCap g"
    using addRelationship_repr [OF assms(1) room ft] .
  with AddRel show ?thesis by (simp add: g_exec_def)
next
  case (RemoveRel i)
  with assms have "i \<in> liveRels g" by (simp add: rel_live_iff)
  obtain g' where "removeRelationship g i = Inr g'" "graph_repr g' (a_removeRel i a)"
    "nodeCap g' = nodeCap g" "relCap g' = relCap g"
    using removeRelationship_repr [OF assms(1) \<open>i \<in> liveRels g\<close>] .
  with RemoveRel show ?thesis by (simp add: g_exec_def)
next
  case (RemoveNode n)
  with assms have "n \<in> liveNodes g" by (simp add: node_live_iff)
  obtain g' where "removeNode g n = Some (Inr g')" "graph_repr g' (a_removeNode n a)"
    "nodeCap g' = nodeCap g" "relCap g' = relCap g"
    using removeNode_repr [OF assms(1) \<open>n \<in> liveNodes g\<close>] .
  with RemoveNode show ?thesis by (simp add: g_exec_def)
qed

lemma g_run_repr:
  assumes "graph_repr g a" and "permitted_run g cs"
  shows "\<exists>is g'. g_run g cs = Some (Inr (is, g')) \<and> length is = length cs
    \<and> graph_repr g' (a_run is cs a)"
  using assms
proof (induction cs arbitrary: g a)
  case Nil
  then show ?case by (simp add: a_run_def)
next
  case (Cons c cs)
  then obtain i g1 where g1: "g_exec g c = Some (Inr (i, g1))" "graph_repr g1 (a_exec i c a)"
    using g_exec_repr [of g a c] by auto
  with Cons.prems have "permitted_run g1 cs" by simp
  from Cons.IH [OF g1(2) this] obtain "is" g' where
    "g_run g1 cs = Some (Inr (is, g'))" "length is = length cs"
    "graph_repr g' (a_run is cs (a_exec i c a))" by blast
  with g1 show ?case by (intro exI [of _ "i # is"] exI [of _ g']) (simp add: a_run_def)
qed

lemma g_reach_repr:
  assumes "g_reach g0 g" and "graph_repr g0 a0"
  shows "\<exists>a. graph_repr g a"
  using assms by induction (use g_exec_repr in fastforce)+

lemma g_reach_trans: "g_reach g1 g2 \<Longrightarrow> g_reach g0 g1 \<Longrightarrow> g_reach g0 g2"
  by (induction rule: g_reach.induct) (auto intro: g_reach.step)

lemma g_run_reach:
  "g_run g cs = Some (Inr (is, g')) \<Longrightarrow> permitted_run g cs \<Longrightarrow> g_reach g g'"
proof (induction cs arbitrary: g "is")
  case Nil
  then show ?case by (simp add: g_reach.start)
next
  case (Cons c cs)
  from Cons.prems(1) obtain i g1 js where g1: "g_exec g c = Some (Inr (i, g1))"
    "g_run g1 cs = Some (Inr (js, g'))"
    by (auto simp: bindE_eq_Inr_iff split: option.splits sum.splits prod.splits)
  with Cons.prems(2) have "permitted g c" "permitted_run g1 cs" by simp_all
  with Cons.IH [OF g1(2)] g1(1) show ?case
    by (blast intro: g_reach_trans g_reach.intros)
qed

lemma reachable_repr:
  assumes "mk_graph nc rc zn zr = Inr g0" and "g_reach g0 g"
  obtains a where "graph_repr g a"
  using g_reach_repr [OF assms(2) mk_graph_repr [OF assms(1)]] by blast

lemma graph_repr_incident:
  assumes "graph_repr g a" and "n \<in> liveNodes g"
  shows "nchain (rels g) n (firstRelId (at (nodes g) n)) (aadj a n)"
    and "set (aadj a n) = {i. rel_live g i \<and> touches n (at (rels g) i)}"
  using assms incident_rels_repr [of g a n] by (auto simp: repr_defs rel_live_iff)

lemma graph_repr_core:
  "graph_repr g a \<Longrightarrow> i \<in> liveRels g \<Longrightarrow> arel a i = Some (rel_core (at (rels g) i))"
  by (simp add: graph_repr_def rels_repr_def)

section \<open>Properties\<close>

text \<open>
  C1. Every sequence of \<open>addNode\<close>, \<open>addRelationship\<close>, \<open>removeRelationship\<close> and \<open>removeNode\<close> calls
  on live identifiers and with room left, run on a freshly constructed graph, returns normally
  (no assertion fails, no access leaves a buffer, the loop of \<open>removeNode\<close> ends), and the linked
  representation it leaves is exactly the abstract graph obtained by the same calls: payloads,
  endpoints and types of the live entries, and for every node the chain of its incident
  relationships in the expected order.
\<close>

theorem graph_run_refines:
  assumes "mk_graph nodeCapacity relCapacity zn zr = Inr g" and "permitted_run g cs"
  shows "\<exists>is g'. g_run g cs = Some (Inr (is, g')) \<and> length is = length cs
    \<and> graph_repr g' (a_run is cs a_empty)"
  using g_run_repr [OF mk_graph_repr [OF assms(1)] assms(2)] .

definition sample_cmds :: "(int, int) gcmd list" where
  "sample_cmds = [AddNode 10, AddNode 11, AddRel 0 1 7 5, AddRel 1 1 8 6, AddRel 1 0 9 4,
     RemoveRel 1, AddRel 0 0 3 2, RemoveNode 0, AddNode 12]"

lemma sample_cmds_permitted: "okE (\<lambda>g. permitted_run g sample_cmds) (mk_graph 2 3 0 0)"
  by code_simp

theorem graph_run_refines_witness:
  "\<exists>g is g'. mk_graph 2 3 0 0 = Inr g \<and> permitted_run g sample_cmds
    \<and> g_run g sample_cmds = Some (Inr (is, g')) \<and> graph_repr g' (a_run is sample_cmds a_empty)"
proof -
  obtain g where "mk_graph 2 3 0 0 = Inr g" "permitted_run g sample_cmds"
    using sample_cmds_permitted by (auto simp: okE_iff)
  with graph_run_refines [OF this] show ?thesis by blast
qed

text \<open>
  C14. In every reachable graph, following the links of a live node from \<open>firstRelId\<close> visits each
  relationship incident to the node exactly once and nothing else, and then ends; the previous
  links lead back along the same path. This is what a neighbourhood scan relies on, although every
  relationship entry is shared by the chains of its two endpoints.
\<close>

theorem neighbourhood_scan:
  assumes "mk_graph nodeCapacity relCapacity zn zr = Inr g0" and "g_reach g0 g" and "node_live g n"
  shows "\<exists>xs. chain (relNext n) (relPrev n) (rels g) GRAPH_NONE (firstRelId (at (nodes g) n)) xs
    \<and> distinct xs \<and> set xs = {i. rel_live g i \<and> touches n (at (rels g) i)}"
proof -
  obtain a where a: "graph_repr g a" using reachable_repr [OF assms(1,2)] .
  have "n \<in> liveNodes g" using assms(3) by (simp add: node_live_iff)
  from graph_repr_incident [OF a this] show ?thesis by (auto simp: nchain_def)
qed

text \<open>
  C9. \<open>removeNode\<close> of a live node of a reachable graph returns; afterwards the node is free, every
  other node is as live as before, exactly the relationships that touched the node are gone, and
  the remaining ones keep endpoints, type and payload.
\<close>

theorem removeNode_detaches:
  assumes "mk_graph nodeCapacity relCapacity zn zr = Inr g0" and "g_reach g0 g" and "node_live g n"
  shows "\<exists>g'. removeNode g n = Some (Inr g') \<and> (\<forall>m. node_live g' m = (node_live g m \<and> m \<noteq> n))
    \<and> (\<forall>i. rel_live g' i = (rel_live g i \<and> \<not> touches n (at (rels g) i)))
    \<and> (\<forall>i. rel_live g' i \<longrightarrow> rel_core (at (rels g') i) = rel_core (at (rels g) i))"
proof -
  obtain a where a: "graph_repr g a" using reachable_repr [OF assms(1,2)] .
  have n: "n \<in> liveNodes g" using assms(3) by (simp add: node_live_iff)
  note inc = graph_repr_incident(2) [OF a n]
  obtain g' where g': "removeNode g n = Some (Inr g')" "graph_repr g' (a_removeNode n a)"
    "liveNodes g' = liveNodes g - {n}" "liveRels g' = liveRels g - set (aadj a n)"
    using removeNode_repr [OF a n] .
  have "rel_core (at (rels g') i) = rel_core (at (rels g) i)" if "i \<in> liveRels g'" for i
    using that g'(4) graph_repr_core [OF a] graph_repr_core [OF g'(2) that]
    by (auto simp: a_removeNode_def)
  with g' inc show ?thesis by (auto simp: node_live_iff rel_live_iff)
qed

definition sample_prefix :: "(int, int) gcmd list" where
  "sample_prefix = [AddNode 10, AddNode 11, AddRel 0 1 7 5]"

lemma sample_reach:
  "\<exists>g0 g :: (int, int) graph. mk_graph 2 3 0 0 = Inr g0 \<and> g_reach g0 g \<and> node_live g 1 \<and> rel_live g 0"
proof -
  have "okE (\<lambda>g0 :: (int, int) graph. permitted_run g0 sample_prefix
      \<and> okOE (\<lambda>(is, g). node_live g 1 \<and> rel_live g 0) (g_run g0 sample_prefix)) (mk_graph 2 3 0 0)"
    by code_simp
  then show ?thesis by (auto simp: okE_iff okOE_iff dest: g_run_reach)
qed

theorem neighbourhood_scan_witness:
  "\<exists>g0 g :: (int, int) graph. \<exists>xs. mk_graph 2 3 0 0 = Inr g0 \<and> g_reach g0 g \<and> node_live g 1
    \<and> chain (relNext 1) (relPrev 1) (rels g) GRAPH_NONE (firstRelId (at (nodes g) 1)) xs"
proof -
  obtain g0 g :: "(int, int) graph" where g: "mk_graph 2 3 0 0 = Inr g0" "g_reach g0 g" "node_live g 1"
    using sample_reach by blast
  from neighbourhood_scan [OF this] g show ?thesis by blast
qed

theorem removeNode_detaches_witness:
  "\<exists>g0 g g' :: (int, int) graph. mk_graph 2 3 0 0 = Inr g0 \<and> g_reach g0 g \<and> node_live g 1
    \<and> removeNode g 1 = Some (Inr g') \<and> \<not> node_live g' 1"
proof -
  obtain g0 g :: "(int, int) graph" where g: "mk_graph 2 3 0 0 = Inr g0" "g_reach g0 g" "node_live g 1"
    using sample_reach by blast
  from removeNode_detaches [OF this] g show ?thesis by blast
qed

end
