(* ===== verification/Byte_Codec.thy ===== *)
theory Byte_Codec
  imports Prelude
begin

text \<open>
  Byte-level encodings of what the persistence code writes with \<open>fwrite\<close> and reads back with
  \<open>fread\<close>. A file is a list of bytes, a reader consumes a prefix of it. The contract \<open>codec\<close> says
  that reading what was written gives the value back and leaves the rest of the file; fields,
  records and counted vectors are built from it.
\<close>

type_synonym byte = "8 word"

type_synonym 'a reader = "byte list \<Rightarrow> ('a \<times> byte list) res"

definition fread :: "nat \<Rightarrow> byte list reader" where
  "fread n f = (if length f < n then Inl ShortRead else Inr (take n f, drop n f))"

definition bindR :: "('a \<times> byte list) res \<Rightarrow> ('a \<Rightarrow> 'b reader) \<Rightarrow> ('b \<times> byte list) res" where
  "bindR m k = bindE m (\<lambda>(x, f). k x f)"

lemma bindR_Inr [simp]: "bindR (Inr (x, f)) k = k x f"
  by (simp add: bindR_def)

lemma fread_append [simp]: "length bs = n \<Longrightarrow> fread n (bs @ rest) = Inr (bs, rest)"
  by (simp add: fread_def)

section \<open>Little-endian integers\<close>

primrec le_bytes :: "nat \<Rightarrow> int \<Rightarrow> byte list" where
  "le_bytes 0 x = []"
| "le_bytes (Suc n) x = word_of_int x # le_bytes n (x div 256)"

primrec le_int :: "byte list \<Rightarrow> int" where
  "le_int [] = 0"
| "le_int (b # bs) = uint b + 256 * le_int bs"

lemma length_le_bytes [simp]: "length (le_bytes n x) = n"
  by (induction n arbitrary: x) simp_all

lemma le_int_bytes: "le_int (le_bytes n x) = x mod 256 ^ n"
proof (induction n arbitrary: x)
  case 0
  then show ?case by simp
next
  case (Suc n)
  have "le_int (le_bytes (Suc n) x) = x mod 256 + 256 * (x div 256 mod 256 ^ n)"
    by (simp add: Suc uint_word_of_int)
  also have "\<dots> = x mod (256 * 256 ^ n)"
    by (simp add: zmod_zmult2_eq)
  finally show ?case by simp
qed

lemma le_int_range: "0 \<le> le_int bs \<and> le_int bs < 256 ^ length bs"
proof (induction bs)
  case Nil
  then show ?case by simp
next
  case (Cons b bs)
  have "0 \<le> uint b" "uint b < 256"
    using uint_range_size [of b] by (simp_all add: word_size)
  with Cons show ?case by auto
qed

definition u32_bytes :: "int \<Rightarrow> byte list" where
  "u32_bytes x = le_bytes 4 x"

definition read_u32 :: "int reader" where
  "read_u32 f = bindR (fread 4 f) (\<lambda>bs f. Inr (le_int bs, f))"

definition read_i32 :: "int reader" where
  "read_i32 f = bindR (fread 4 f) (\<lambda>bs f. Inr (to_i32 (le_int bs), f))"

definition u64_bytes :: "64 word \<Rightarrow> byte list" where
  "u64_bytes x = le_bytes 8 (uint x)"

definition read_u64 :: "64 word reader" where
  "read_u64 f = bindR (fread 8 f) (\<lambda>bs f. Inr (word_of_int (le_int bs), f))"

definition u8_bytes :: "byte \<Rightarrow> byte list" where
  "u8_bytes x = [x]"

definition read_u8 :: "byte reader" where
  "read_u8 f = bindR (fread 1 f) (\<lambda>bs f. Inr (hd bs, f))"

definition bool_bytes :: "bool \<Rightarrow> byte list" where
  "bool_bytes b = [if b then 1 else 0]"

definition read_bool :: "bool reader" where
  "read_bool f = bindR (fread 1 f) (\<lambda>bs f. Inr (hd bs \<noteq> 0, f))"

section \<open>The contract of an encoding\<close>

primrec read_n :: "'a reader \<Rightarrow> nat \<Rightarrow> 'a list reader" where
  "read_n rd 0 f = Inr ([], f)"
| "read_n rd (Suc n) f = bindR (rd f) (\<lambda>x f. bindR (read_n rd n f) (\<lambda>xs f. Inr (x # xs, f)))"

definition write_vec :: "('a \<Rightarrow> byte list) \<Rightarrow> 'a list \<Rightarrow> byte list" where
  "write_vec wr xs = u32_bytes (int (length xs)) @ concat (map wr xs)"

definition read_vec :: "'a reader \<Rightarrow> 'a list reader" where
  "read_vec rd f = bindR (read_u32 f) (\<lambda>n f. read_n rd (nat n) f)"

text \<open>
  \<open>view\<close> is what reading gives back; it is the identity where nothing is lost, and forgets for
  instance the spare capacity of a buffer where the code does not store it.
\<close>

locale codec =
  fixes wr :: "'a \<Rightarrow> byte list"
    and rd :: "'b reader"
    and ok :: "'a \<Rightarrow> bool"
    and view :: "'a \<Rightarrow> 'b"
  assumes rd_wr: "ok x \<Longrightarrow> rd (wr x @ rest) = Inr (view x, rest)"
begin

lemma read_n_wr:
  "list_all ok xs \<Longrightarrow> read_n rd (length xs) (concat (map wr xs) @ rest) = Inr (map view xs, rest)"
  by (induction xs arbitrary: rest) (simp_all add: rd_wr)

lemma wr_prefix_free: "ok x \<Longrightarrow> ok y \<Longrightarrow> wr x @ r = wr y @ s \<Longrightarrow> view x = view y \<and> r = s"
  by (metis prod.inject rd_wr sum.inject(2))

lemma read_vec_wr:
  assumes "list_all ok xs" and "int (length xs) < 2 ^ 32"
    and u32: "\<And>n r. is_u32 n \<Longrightarrow> read_u32 (u32_bytes n @ r) = Inr (n, r)"
  shows "read_vec rd (write_vec wr xs @ rest) = Inr (map view xs, rest)"
  using assms(1,2) read_n_wr [OF assms(1), of rest]
  by (simp add: read_vec_def write_vec_def u32 is_u32_def)

end

interpretation u32: codec u32_bytes read_u32 is_u32 "\<lambda>x. x"
  by unfold_locales (simp add: u32_bytes_def read_u32_def le_int_bytes is_u32_def)

interpretation i32: codec u32_bytes read_i32 is_i32 "\<lambda>x. x"
proof
  fix x rest assume "is_i32 x"
  then have "to_i32 (x mod 256 ^ 4) = x"
    using to_i32_to_u32 [of x] by (simp add: to_u32_def)
  then show "read_i32 (u32_bytes x @ rest) = Inr (x, rest)"
    by (simp add: u32_bytes_def read_i32_def le_int_bytes)
qed

interpretation u64: codec u64_bytes read_u64 "\<lambda>_. True" "\<lambda>x. x"
proof
  fix x :: "64 word" and rest
  have "uint x mod 256 ^ 8 = uint x"
    using uint_range_size [of x] by (simp add: word_size)
  then show "read_u64 (u64_bytes x @ rest) = Inr (x, rest)"
    by (simp add: u64_bytes_def read_u64_def le_int_bytes)
qed

interpretation u8: codec u8_bytes read_u8 "\<lambda>_. True" "\<lambda>x. x"
  by unfold_locales (simp add: u8_bytes_def read_u8_def fread_def)

interpretation bool: codec bool_bytes read_bool "\<lambda>_. True" "\<lambda>x. x"
  by unfold_locales (simp add: bool_bytes_def read_bool_def fread_def)

interpretation u64_vec: codec "write_vec u64_bytes" "read_vec read_u64"
    "\<lambda>xs. int (length xs) < 2 ^ 32" "\<lambda>xs. xs"
proof
  fix xs :: "64 word list" and rest assume "int (length xs) < 2 ^ 32"
  then show "read_vec read_u64 (write_vec u64_bytes xs @ rest) = Inr (xs, rest)"
    using u64.read_vec_wr [OF _ _ u32.rd_wr] by (simp add: list_all_length)
qed

end
