(* ===== verification/Blob_Table.thy ===== *)
theory Blob_Table
  imports Byte_Codec
begin

text \<open>
  \<open>BlobTable\<close> of \<open>include/gengodb/runtime/BuiltinGraphs.h\<close>: variable-length values bump-allocated in
  one fixed-size byte buffer. A blob pointer is modelled by its offset from \<open>blobData_.ptr\<close>. The
  abstract view \<open>contents\<close> is the list of the byte strings of the blobs; allocation appends one,
  storing into one changes that one only.
\<close>

record blob_table =
  bt_blobs :: "(nat \<times> nat) list"
  blobData :: "byte list"
  bt_cap :: nat

definition mk_blobTable :: "nat \<Rightarrow> blob_table" where
  "mk_blobTable cap = \<lparr>bt_blobs = [], blobData = replicate cap 0, bt_cap = cap\<rparr>"

definition usedBytes :: "blob_table \<Rightarrow> nat" where
  "usedBytes t = (if bt_blobs t = [] then 0 else fst (last (bt_blobs t)) + snd (last (bt_blobs t)))"

definition bt_alloc :: "blob_table \<Rightarrow> nat \<Rightarrow> ((nat \<times> int) \<times> blob_table) res" where
  "bt_alloc t len =
     (let ptr = (if bt_blobs t \<noteq> [] then fst (last (bt_blobs t)) + snd (last (bt_blobs t)) else 0) in
      bindE (assertE (ptr + len \<le> bt_cap t)
        ''blob table capacity exceeded; increase the `capacity` SPARQL settings directive'') (\<lambda>_.
      let t = t\<lparr>bt_blobs := bt_blobs t @ [(ptr, len)]\<rparr>;
          index = length (bt_blobs t) - 1 in
      bindE (assertE (int index \<le> 2147483647) ''exceeded int32_t index range'') (\<lambda>_.
      Inr ((ptr, int index), t))))"

definition bt_get :: "blob_table \<Rightarrow> int \<Rightarrow> (nat \<times> nat) res" where
  "bt_get t idx = get_at (bt_blobs t) idx"

definition blobCount :: "blob_table \<Rightarrow> nat" where
  "blobCount t = length (bt_blobs t)"

text \<open>\<open>memcpy(ptr, src, n)\<close> into the buffer, as \<open>store\<close> and the callers of \<open>add_blob\<close> do.\<close>

definition bt_memcpy :: "blob_table \<Rightarrow> nat \<Rightarrow> byte list \<Rightarrow> blob_table res" where
  "bt_memcpy t ptr bs =
     (if ptr + length bs \<le> length (blobData t)
      then Inr (t\<lparr>blobData := patch (blobData t) ptr bs\<rparr>) else Inl OutOfBounds)"

definition bt_store :: "blob_table \<Rightarrow> int \<Rightarrow> byte list \<Rightarrow> blob_table res" where
  "bt_store t idx value = bindE (bt_get t idx) (\<lambda>(ptr, len).
     bindE (assertE (length value \<le> len) ''value size exceeds allocated blob length'') (\<lambda>_.
     bt_memcpy t ptr value))"

definition bt_getValue :: "blob_table \<Rightarrow> int \<Rightarrow> nat \<Rightarrow> byte list res" where
  "bt_getValue t idx sz = bindE (bt_get t idx) (\<lambda>(ptr, len).
     bindE (assertE (sz \<le> len) ''value size exceeds allocated blob length'') (\<lambda>_.
     if ptr + sz \<le> length (blobData t) then Inr (segment (blobData t) ptr sz)
     else Inl OutOfBounds))"

fun layout :: "nat \<Rightarrow> nat list \<Rightarrow> (nat \<times> nat) list" where
  "layout off [] = []"
| "layout off (len # lens) = (off, len) # layout (off + len) lens"

definition bt_restore :: "blob_table \<Rightarrow> byte list \<Rightarrow> nat list \<Rightarrow> blob_table res" where
  "bt_restore t raw lengths =
     bindE (if length raw > 0 then bt_memcpy t 0 raw else Inr t) (\<lambda>t.
     Inr (t\<lparr>bt_blobs := bt_blobs t @ layout 0 lengths\<rparr>))"

section \<open>Well-formed tables and their contents\<close>

definition bt_ok :: "blob_table \<Rightarrow> bool" where
  "bt_ok t \<longleftrightarrow> length (blobData t) = bt_cap t \<and> bt_blobs t = layout 0 (map snd (bt_blobs t))
     \<and> sum_list (map snd (bt_blobs t)) \<le> bt_cap t \<and> int (length (bt_blobs t)) \<le> 2 ^ 31"

definition contents :: "blob_table \<Rightarrow> byte list list" where
  "contents t = map (\<lambda>(off, len). segment (blobData t) off len) (bt_blobs t)"

lemma length_layout [simp]: "length (layout off ls) = length ls"
  by (induction ls arbitrary: off) simp_all

lemma map_snd_layout [simp]: "map snd (layout off ls) = ls"
  by (induction ls arbitrary: off) simp_all

lemma layout_eq_Nil [simp]: "layout off ls = [] \<longleftrightarrow> ls = []"
  by (cases ls) simp_all

lemma layout_append: "layout off (ls @ ms) = layout off ls @ layout (off + sum_list ls) ms"
  by (induction ls arbitrary: off) (simp_all add: add.assoc)

lemma nth_layout: "i < length ls \<Longrightarrow> layout off ls ! i = (off + sum_list (take i ls), ls ! i)"
proof (induction ls arbitrary: off i)
  case Nil
  then show ?case by simp
next
  case (Cons l ls)
  then show ?case by (cases i) simp_all
qed

lemma layout_end: "ls \<noteq> [] \<Longrightarrow> fst (last (layout off ls)) + snd (last (layout off ls)) = off + sum_list ls"
  by (induction ls arbitrary: off) (auto simp: add.assoc)

lemma sum_list_take_Suc: "i < length ls \<Longrightarrow> sum_list (take (Suc i) ls) = sum_list (take i ls) + (ls ! i :: nat)"
  by (simp add: take_Suc_conv_app_nth)

lemma sum_list_take_mono: "i \<le> j \<Longrightarrow> sum_list (take i ls) \<le> sum_list (take j (ls :: nat list))"
  by (metis le_add1 le_Suc_ex sum_list.append take_add)

lemma sum_list_take_le: "sum_list (take i ls) \<le> sum_list (ls :: nat list)"
  by (metis le_add1 append_take_drop_id sum_list.append)

lemma bt_ok_blob:
  assumes "bt_ok t" and "i < length (bt_blobs t)" and "bt_blobs t ! i = (off, len)"
  shows "off = sum_list (take i (map snd (bt_blobs t)))" and "len = map snd (bt_blobs t) ! i"
    and "off + len \<le> length (blobData t)" and "off + len = sum_list (take (Suc i) (map snd (bt_blobs t)))"
proof -
  let ?ls = "map snd (bt_blobs t)"
  have e: "bt_blobs t = layout 0 ?ls" using assms(1) by (simp add: bt_ok_def)
  have "layout 0 ?ls ! i = (sum_list (take i ?ls), ?ls ! i)" using assms(2) by (simp add: nth_layout)
  with e assms(3) have *: "off = sum_list (take i ?ls)" "len = ?ls ! i" by auto
  then show "off = sum_list (take i ?ls)" "len = ?ls ! i" by blast+
  show suc: "off + len = sum_list (take (Suc i) ?ls)"
    using assms(2) * by (simp add: sum_list_take_Suc del: take_map)
  then show "off + len \<le> length (blobData t)"
    using assms(1) sum_list_take_le [of "Suc i" ?ls] by (simp add: bt_ok_def)
qed

lemma usedBytes_sum: "bt_ok t \<Longrightarrow> usedBytes t = sum_list (map snd (bt_blobs t))"
  using layout_end [of "map snd (bt_blobs t)" 0] by (auto simp: bt_ok_def usedBytes_def)

lemma blobs_disjoint:
  assumes "bt_ok t" and "i < j" and "j < length (bt_blobs t)"
    and "bt_blobs t ! i = (off, len)" and "bt_blobs t ! j = (off', len')"
  shows "off + len \<le> off'"
  using bt_ok_blob [OF assms(1) _ assms(4)] bt_ok_blob [OF assms(1,3,5)] assms(2,3)
    sum_list_take_mono [of "Suc i" j "map snd (bt_blobs t)"] by simp

lemma mk_blobTable_ok: "bt_ok (mk_blobTable cap)" "contents (mk_blobTable cap) = []"
  by (simp_all add: mk_blobTable_def bt_ok_def contents_def)

lemma bt_alloc_ok:
  assumes "bt_ok t" and "bt_alloc t len = Inr ((ptr, idx), t')"
  shows "bt_ok t'" and "idx = int (length (bt_blobs t))" and "ptr = usedBytes t"
    and "blobData t' = blobData t" and "bt_cap t' = bt_cap t"
    and "bt_blobs t' = bt_blobs t @ [(ptr, len)]"
    and "contents t' = contents t @ [segment (blobData t) ptr len]"
proof -
  have ptr: "ptr = usedBytes t" and t': "t' = t\<lparr>bt_blobs := bt_blobs t @ [(ptr, len)]\<rparr>"
    and room: "ptr + len \<le> bt_cap t" and idx: "idx = int (length (bt_blobs t))"
    and cnt: "int (length (bt_blobs t)) \<le> 2147483647"
    using assms(2) by (auto simp: bt_alloc_def usedBytes_def Let_def bindE_eq_Inr_iff assertE_eq_Inr_iff)
  have "ptr = sum_list (map snd (bt_blobs t))" using ptr usedBytes_sum [OF assms(1)] by simp
  moreover have "bt_blobs t @ [(ptr, len)] = layout 0 (map snd (bt_blobs t) @ [len])"
    using assms(1) calculation by (simp add: layout_append bt_ok_def)
  ultimately show "bt_ok t'"
    using assms(1) room cnt by (simp add: bt_ok_def t')
  show "idx = int (length (bt_blobs t))" "ptr = usedBytes t" "blobData t' = blobData t"
    "bt_cap t' = bt_cap t" "bt_blobs t' = bt_blobs t @ [(ptr, len)]"
    "contents t' = contents t @ [segment (blobData t) ptr len]"
    using ptr idx by (simp_all add: t' contents_def)
qed

text \<open>A write inside blob \<open>i\<close> changes the content of that blob alone.\<close>

lemma bt_memcpy_contents:
  assumes ok: "bt_ok t" and i: "i < length (bt_blobs t)" and b: "bt_blobs t ! i = (off, len)"
    and len: "length bs \<le> len"
  shows "\<exists>t'. bt_memcpy t off bs = Inr t' \<and> bt_ok t' \<and> bt_blobs t' = bt_blobs t \<and> bt_cap t' = bt_cap t
    \<and> contents t' = (contents t)[i := patch (contents t ! i) 0 bs]"
proof -
  let ?t' = "t\<lparr>blobData := patch (blobData t) off bs\<rparr>"
  have fit: "off + len \<le> length (blobData t)" using bt_ok_blob(3) [OF ok i b] .
  then have room: "off + length bs \<le> length (blobData t)" using len by simp
  have "contents ?t' ! j = (contents t)[i := patch (contents t ! i) 0 bs] ! j"
    if j: "j < length (bt_blobs t)" for j
  proof -
    obtain o' l' where b': "bt_blobs t ! j = (o', l')" by (cases "bt_blobs t ! j")
    note fit' = bt_ok_blob(3) [OF ok j b']
    consider "j = i" | "j < i" | "i < j" by linarith
    then show ?thesis
    proof cases
      case 1
      then show ?thesis
        using b i fit len segment_patch_inside [of off len "blobData t" off bs] by (simp add: contents_def)
    next
      case 2
      then have "o' + l' \<le> off" using blobs_disjoint [OF ok _ i b' b] by simp
      with 2 show ?thesis
        using b' j fit' room by (simp add: contents_def segment_patch_disjoint)
    next
      case 3
      then have "off + len \<le> o'" using blobs_disjoint [OF ok _ j b b'] by simp
      with 3 show ?thesis
        using b' j fit' room len by (simp add: contents_def segment_patch_disjoint)
    qed
  qed
  then have "contents ?t' = (contents t)[i := patch (contents t ! i) 0 bs]"
    by (intro nth_equalityI) (simp_all add: contents_def)
  with room ok show ?thesis by (auto simp: bt_memcpy_def bt_ok_def)
qed

lemma bt_getValue_contents:
  assumes ok: "bt_ok t" and i: "i < length (bt_blobs t)" and sz: "sz \<le> length (contents t ! i)"
  shows "bt_getValue t (int i) sz = Inr (take sz (contents t ! i))"
proof -
  obtain off len where b: "bt_blobs t ! i = (off, len)" by (cases "bt_blobs t ! i")
  have fit: "off + len \<le> length (blobData t)" using bt_ok_blob(3) [OF ok i b] .
  have c: "contents t ! i = segment (blobData t) off len" using i b by (simp add: contents_def)
  then have "sz \<le> len" using sz fit by simp
  moreover have "segment (blobData t) off sz = take sz (contents t ! i)"
    using c \<open>sz \<le> len\<close> by (simp add: segment_def)
  ultimately show ?thesis
    using i b fit by (simp add: bt_getValue_def bt_get_def get_at_def in_range_def at_def)
qed

end
