(* ===== verification/Prop_Data.thy ===== *)
theory Prop_Data
  imports Blob_Table "HOL-Library.AList"
begin

text \<open>
  \<open>PropertyGraph::PropertyData\<close> (\<open>BuiltinGraphs.h\<close>, \<open>BuiltinGraphs.cpp\<close>): the out-of-line property
  values, 64-bit values in vectors and variable-length ones in one blob table per datatype, and
  their file format. The datatype keys are the underlying integers of \<open>xsd::Type\<close>; the
  \<open>unordered_map\<close> of tables is an association list whose order is the map's iteration order.
  A \<open>double\<close> is its 64-bit pattern.
\<close>

record prop_data =
  blobCapacity :: nat
  lst_i64 :: "64 word list"
  lst_ui64 :: "64 word list"
  lst_double :: "64 word list"
  pd_blobs :: "(int \<times> blob_table) list"

definition mk_propData :: prop_data where
  "mk_propData = \<lparr>blobCapacity = 1024 * 1024, lst_i64 = [], lst_ui64 = [], lst_double = [], pd_blobs = []\<rparr>"

definition get_i64 :: "prop_data \<Rightarrow> int \<Rightarrow> 64 word res" where
  "get_i64 pd idx = get_at (lst_i64 pd) idx"

definition add_i64 :: "prop_data \<Rightarrow> 64 word \<Rightarrow> int \<times> prop_data" where
  "add_i64 pd v = (let pd = pd\<lparr>lst_i64 := lst_i64 pd @ [v]\<rparr> in (to_i32 (int (length (lst_i64 pd)) - 1), pd))"

definition get_ui64 :: "prop_data \<Rightarrow> int \<Rightarrow> 64 word res" where
  "get_ui64 pd idx = get_at (lst_ui64 pd) idx"

definition add_ui64 :: "prop_data \<Rightarrow> 64 word \<Rightarrow> int \<times> prop_data" where
  "add_ui64 pd v = (let pd = pd\<lparr>lst_ui64 := lst_ui64 pd @ [v]\<rparr> in (to_i32 (int (length (lst_ui64 pd)) - 1), pd))"

definition get_double :: "prop_data \<Rightarrow> int \<Rightarrow> 64 word res" where
  "get_double pd idx = get_at (lst_double pd) idx"

definition add_double :: "prop_data \<Rightarrow> 64 word \<Rightarrow> int \<times> prop_data" where
  "add_double pd v = (let pd = pd\<lparr>lst_double := lst_double pd @ [v]\<rparr> in (to_i32 (int (length (lst_double pd)) - 1), pd))"

definition blob_at :: "prop_data \<Rightarrow> int \<Rightarrow> blob_table res" where
  "blob_at pd t = (case map_of (pd_blobs pd) t of Some tab \<Rightarrow> Inr tab | None \<Rightarrow> Inl OutOfRange)"

definition get_blob :: "prop_data \<Rightarrow> int \<Rightarrow> int \<Rightarrow> (nat \<times> nat) res" where
  "get_blob pd t idx = bindE (blob_at pd t) (\<lambda>tab. bt_get tab idx)"

definition add_blob :: "prop_data \<Rightarrow> int \<Rightarrow> nat \<Rightarrow> ((nat \<times> int) \<times> prop_data) res" where
  "add_blob pd t len =
     (let pd = (if t \<in> fst ` set (pd_blobs pd) then pd
                else pd\<lparr>pd_blobs := pd_blobs pd @ [(t, mk_blobTable (max (blobCapacity pd) len))]\<rparr>) in
      bindE (blob_at pd t) (\<lambda>tab.
      bindE (bt_alloc tab len) (\<lambda>(r, tab).
      Inr (r, pd\<lparr>pd_blobs := AList.update t tab (pd_blobs pd)\<rparr>))))"

text \<open>The copy into a blob by the code that asked for it, and the bytes a blob pointer gives access to.\<close>

definition write_blob :: "prop_data \<Rightarrow> int \<Rightarrow> nat \<Rightarrow> byte list \<Rightarrow> prop_data res" where
  "write_blob pd t ptr bs = bindE (blob_at pd t) (\<lambda>tab. bindE (bt_memcpy tab ptr bs) (\<lambda>tab.
     Inr (pd\<lparr>pd_blobs := AList.update t tab (pd_blobs pd)\<rparr>)))"

definition blob_bytes :: "prop_data \<Rightarrow> int \<Rightarrow> int \<Rightarrow> byte list res" where
  "blob_bytes pd t idx = bindE (blob_at pd t) (\<lambda>tab. bindE (bt_get tab idx) (\<lambda>(ptr, len).
     if ptr + len \<le> length (blobData tab) then Inr (segment (blobData tab) ptr len) else Inl OutOfBounds))"

definition setBlobCapacity :: "prop_data \<Rightarrow> nat \<Rightarrow> prop_data" where
  "setBlobCapacity pd bytes = pd\<lparr>blobCapacity := bytes\<rparr>"

section \<open>File format\<close>

definition write_table :: "int \<times> blob_table \<Rightarrow> byte list" where
  "write_table kt = (case kt of (k, t) \<Rightarrow>
     u32_bytes k @ u32_bytes (int (blobCount t))
     @ concat (map (\<lambda>(ptr, len). u32_bytes (int len)) (bt_blobs t))
     @ le_bytes 8 (int (usedBytes t)) @ take (usedBytes t) (blobData t))"

definition pd_flush :: "prop_data \<Rightarrow> byte list" where
  "pd_flush pd = write_vec u64_bytes (lst_i64 pd) @ write_vec u64_bytes (lst_ui64 pd)
     @ write_vec u64_bytes (lst_double pd)
     @ u32_bytes (int (length (pd_blobs pd))) @ concat (map write_table (pd_blobs pd))"

definition read_table :: "(int \<times> blob_table) reader" where
  "read_table f =
     bindR (read_u32 f) (\<lambda>typeVal f.
     bindR (read_u32 f) (\<lambda>blobCount f.
     bindR (read_n read_u32 (nat blobCount) f) (\<lambda>lengths f.
     bindR (read_u64 f) (\<lambda>used f.
     bindR (fread (unat used) f) (\<lambda>raw f.
     bindE (bt_restore (mk_blobTable (max (unat used) 1024)) raw (map nat lengths)) (\<lambda>table.
     Inr ((to_i32 typeVal, table), f)))))))"

definition emplace :: "(int \<times> 'v) list \<Rightarrow> int \<times> 'v \<Rightarrow> (int \<times> 'v) list" where
  "emplace m kv = (if fst kv \<in> fst ` set m then m else m @ [kv])"

definition pd_load :: "prop_data \<Rightarrow> prop_data reader" where
  "pd_load pd f =
     bindR (read_vec read_u64 f) (\<lambda>i64 f.
     bindR (read_vec read_u64 f) (\<lambda>ui64 f.
     bindR (read_vec read_u64 f) (\<lambda>double f.
     bindR (read_u32 f) (\<lambda>typeCount f.
     bindR (read_n read_table (nat typeCount) f) (\<lambda>tables f.
     Inr (pd\<lparr>lst_i64 := i64, lst_ui64 := ui64, lst_double := double,
             pd_blobs := foldl emplace (pd_blobs pd) tables\<rparr>, f))))))"

section \<open>Well-formed property data\<close>

definition table_ok :: "int \<times> blob_table \<Rightarrow> bool" where
  "table_ok kt \<longleftrightarrow> is_i32 (fst kt) \<and> bt_ok (snd kt)
     \<and> list_all (\<lambda>(ptr, len). int len < 2 ^ 32) (bt_blobs (snd kt)) \<and> int (usedBytes (snd kt)) < 2 ^ 64"

definition pd_ok :: "prop_data \<Rightarrow> bool" where
  "pd_ok pd \<longleftrightarrow> int (length (lst_i64 pd)) < 2 ^ 32 \<and> int (length (lst_ui64 pd)) < 2 ^ 32
     \<and> int (length (lst_double pd)) < 2 ^ 32 \<and> int (length (pd_blobs pd)) < 2 ^ 32
     \<and> distinct (map fst (pd_blobs pd)) \<and> list_all table_ok (pd_blobs pd)"

text \<open>A table as it comes back from the file: the same blobs, a buffer of the used bytes or 1024.\<close>

definition reloaded :: "int \<times> blob_table \<Rightarrow> int \<times> blob_table" where
  "reloaded kt = (let t = snd kt; u = usedBytes t in (fst kt,
     \<lparr>bt_blobs = bt_blobs t, blobData = take u (blobData t) @ replicate (max u 1024 - u) 0,
      bt_cap = max u 1024\<rparr>))"

lemma usedBytes_le: "bt_ok t \<Longrightarrow> usedBytes t \<le> length (blobData t)"
  by (simp add: usedBytes_sum bt_ok_def)

lemma bt_restore_reloaded:
  assumes "bt_ok t"
  shows "bt_restore (mk_blobTable (max (usedBytes t) 1024)) (take (usedBytes t) (blobData t)) (map snd (bt_blobs t)) =
    Inr (snd (reloaded (k, t)))"
proof -
  let ?u = "usedBytes t"
  have len: "length (take ?u (blobData t)) = ?u" using usedBytes_le [OF assms] by simp
  have "bt_blobs t = layout 0 (map snd (bt_blobs t))" using assms by (simp add: bt_ok_def)
  moreover have "?u = 0 \<or> bt_memcpy (mk_blobTable (max ?u 1024)) 0 (take ?u (blobData t)) =
      Inr (mk_blobTable (max ?u 1024)\<lparr>blobData := take ?u (blobData t) @ replicate (max ?u 1024 - ?u) 0\<rparr>)"
    using len by (simp add: bt_memcpy_def mk_blobTable_def patch_def min_def)
  ultimately show ?thesis
    using len by (cases "?u = 0") (simp_all add: bt_restore_def reloaded_def Let_def mk_blobTable_def)
qed

interpretation table: codec write_table read_table table_ok reloaded
proof
  fix kt :: "int \<times> blob_table" and rest assume a: "table_ok kt"
  obtain k t where kt: "kt = (k, t)" by (cases kt)
  from a have k: "is_i32 k" and t: "bt_ok t" and u: "int (usedBytes t) < 2 ^ 64"
    and lens: "list_all (\<lambda>(ptr, len). int len < 2 ^ 32) (bt_blobs t)" by (simp_all add: table_ok_def kt)
  let ?ls = "map snd (bt_blobs t)" and ?u = "usedBytes t"
  have key: "read_u32 (u32_bytes k @ r) = Inr (to_u32 k, r)" for r
    by (simp add: read_u32_def u32_bytes_def le_int_bytes to_u32_def)
  have cnt: "is_u32 (int (blobCount t))" using t by (simp add: is_u32_def blobCount_def bt_ok_def)
  have "concat (map (\<lambda>(ptr, len). u32_bytes (int len)) (bt_blobs t)) = concat (map u32_bytes (map int ?ls))"
    by (simp add: case_prod_unfold comp_def)
  moreover have "list_all is_u32 (map int ?ls)"
    using lens by (auto simp: list_all_iff is_u32_def)
  ultimately have lens': "read_n read_u32 (blobCount t)
      (concat (map (\<lambda>(ptr, len). u32_bytes (int len)) (bt_blobs t)) @ r) = Inr (map int ?ls, r)" for r
    using u32.read_n_wr [of "map int ?ls" r] by (simp add: blobCount_def)
  have un: "unat (word_of_nat ?u :: 64 word) = ?u"
    using u by (simp add: unat_of_nat take_bit_nat_eq_self)
  then have "uint (word_of_nat ?u :: 64 word) = int ?u" by (metis int_nat_eq uint_nat)
  then have used: "read_u64 (le_bytes 8 (int ?u) @ r) = Inr (word_of_nat ?u, r)" for r
    using u64.rd_wr [of "word_of_nat ?u" r] by (simp add: u64_bytes_def)
  have raw: "length (take ?u (blobData t)) = ?u" using usedBytes_le [OF t] by simp
  have restore: "bt_restore (mk_blobTable (max ?u 1024)) (take ?u (blobData t)) ?ls = Inr (snd (reloaded kt))"
    using bt_restore_reloaded [OF t] kt by simp
  show "read_table (write_table kt @ rest) = Inr (reloaded kt, rest)"
    using key cnt lens' used un raw restore k
    by (simp add: read_table_def write_table_def kt u32.rd_wr comp_def)
       (simp add: reloaded_def Let_def)
qed

section \<open>Reading property data back\<close>

lemma segment_take_append:
  "off + len \<le> u \<Longrightarrow> u \<le> length d \<Longrightarrow> segment (take u d @ z) off len = segment d off len"
  by (intro nth_equalityI) (auto simp: nth_segment nth_append)

lemma reloaded_ok:
  assumes "bt_ok t"
  shows "bt_ok (snd (reloaded (k, t)))" and "contents (snd (reloaded (k, t))) = contents t"
proof -
  let ?t' = "snd (reloaded (k, t))"
  have u: "usedBytes t \<le> length (blobData t)" by (rule usedBytes_le [OF assms])
  with assms show ok': "bt_ok ?t'"
    by (simp add: bt_ok_def reloaded_def Let_def usedBytes_sum [OF assms, symmetric])
  have "segment (blobData ?t') (fst (bt_blobs t ! i)) (snd (bt_blobs t ! i)) =
      segment (blobData t) (fst (bt_blobs t ! i)) (snd (bt_blobs t ! i))" if i: "i < length (bt_blobs t)" for i
    using bt_ok_blob(4) [OF assms i] sum_list_take_le [of "Suc i" "map snd (bt_blobs t)"]
      usedBytes_sum [OF assms] u
    by (simp add: reloaded_def Let_def segment_take_append del: take_map)
  then show "contents ?t' = contents t"
    by (intro nth_equalityI) (simp_all add: contents_def case_prod_unfold reloaded_def Let_def)
qed

lemma fst_reloaded [simp]: "fst (reloaded kt) = fst kt"
  by (simp add: reloaded_def Let_def)

lemma foldl_emplace:
  "distinct (map fst ts) \<Longrightarrow> fst ` set m \<inter> fst ` set ts = {} \<Longrightarrow> foldl emplace m ts = m @ ts"
proof (induction ts arbitrary: m)
  case Nil
  then show ?case by simp
next
  case (Cons t ts)
  then have "emplace m t = m @ [t]" "fst ` set (m @ [t]) \<inter> fst ` set ts = {}"
    by (auto simp: emplace_def)
  with Cons show ?case by simp
qed

lemma pd_load_flush:
  assumes "pd_ok pd" and "pd_blobs pd0 = []"
  shows "pd_load pd0 (pd_flush pd @ rest) = Inr (pd0\<lparr>lst_i64 := lst_i64 pd, lst_ui64 := lst_ui64 pd,
    lst_double := lst_double pd, pd_blobs := map reloaded (pd_blobs pd)\<rparr>, rest)"
proof -
  have "foldl emplace [] (map reloaded (pd_blobs pd)) = map reloaded (pd_blobs pd)"
    using assms(1) by (subst foldl_emplace) (simp_all add: pd_ok_def comp_def)
  moreover have "read_n read_table (length (pd_blobs pd)) (concat (map write_table (pd_blobs pd)) @ rest) =
      Inr (map reloaded (pd_blobs pd), rest)"
    using assms(1) by (intro table.read_n_wr) (simp add: pd_ok_def)
  ultimately show ?thesis
    using assms by (simp add: pd_load_def pd_flush_def u64_vec.rd_wr u32.rd_wr pd_ok_def is_u32_def)
qed

lemma blob_bytes_contents:
  assumes "bt_ok t" and "map_of (pd_blobs pd) k = Some t"
  shows "blob_bytes pd k idx =
    (if in_range (bt_blobs t) idx then Inr (contents t ! nat idx) else Inl OutOfBounds)"
proof (cases "in_range (bt_blobs t) idx")
  case True
  then have "nat idx < length (bt_blobs t)" by (simp add: in_range_def nat_less_iff)
  moreover obtain off len where "bt_blobs t ! nat idx = (off, len)" by (cases "bt_blobs t ! nat idx")
  ultimately show ?thesis
    using True assms bt_ok_blob(3) [of t "nat idx" off len]
    by (simp add: blob_bytes_def blob_at_def bt_get_def at_def contents_def)
next
  case False
  with assms show ?thesis by (simp add: blob_bytes_def blob_at_def bt_get_def get_at_def)
qed

lemma map_of_map_snd:
  assumes "\<And>kt. fst (f kt) = fst kt"
  shows "map_of (map f xs) k = map_option (\<lambda>v. snd (f (k, v))) (map_of xs k)"
proof (induction xs)
  case Nil
  then show ?case by simp
next
  case (Cons x xs)
  then show ?case using assms [of x] by (cases x, cases "f x") auto
qed

lemma blob_bytes_reloaded:
  assumes "list_all (\<lambda>kt. bt_ok (snd kt)) (pd_blobs pd)"
  shows "blob_bytes (pd0\<lparr>pd_blobs := map reloaded (pd_blobs pd)\<rparr>) k idx = blob_bytes pd k idx"
proof (cases "map_of (pd_blobs pd) k")
  case None
  then show ?thesis by (simp add: blob_bytes_def blob_at_def map_of_map_snd)
next
  case (Some t)
  with assms have t: "bt_ok t" by (auto simp: list_all_iff dest!: map_of_SomeD)
  have "map_of (map reloaded (pd_blobs pd)) k = Some (snd (reloaded (k, t)))"
    using Some by (simp add: map_of_map_snd)
  then have "blob_bytes (pd0\<lparr>pd_blobs := map reloaded (pd_blobs pd)\<rparr>) k idx =
      (if in_range (bt_blobs (snd (reloaded (k, t)))) idx then Inr (contents t ! nat idx) else Inl OutOfBounds)"
    using reloaded_ok [OF t, of k] by (simp add: blob_bytes_contents [of "snd (reloaded (k, t))"])
  moreover have "bt_blobs (snd (reloaded (k, t))) = bt_blobs t" by (simp add: reloaded_def Let_def)
  ultimately show ?thesis using blob_bytes_contents [OF t Some] by simp
qed

section \<open>Storing a blob\<close>

definition tables_ok :: "prop_data \<Rightarrow> bool" where
  "tables_ok pd \<longleftrightarrow> list_all (\<lambda>kt. bt_ok (snd kt)) (pd_blobs pd)"

lemma tables_ok_lookup: "tables_ok pd \<Longrightarrow> map_of (pd_blobs pd) k = Some t \<Longrightarrow> bt_ok t"
  by (auto simp: tables_ok_def list_all_iff dest!: map_of_SomeD)

lemma set_update_subset: "set (AList.update k v xs) \<subseteq> insert (k, v) (set xs)"
  by (induction xs) auto

lemma tables_ok_update: "tables_ok pd \<Longrightarrow> bt_ok t \<Longrightarrow> tables_ok (pd\<lparr>pd_blobs := AList.update k t (pd_blobs pd)\<rparr>)"
  using set_update_subset [of k t "pd_blobs pd"] by (auto simp: tables_ok_def list_all_iff)

lemma add_blob_spec:
  assumes ok: "tables_ok pd" and add: "add_blob pd k len = Inr ((ptr, idx), pd1)"
  obtains t t1 where "bt_ok t" and "map_of (pd_blobs pd) k = Some t \<or> map_of (pd_blobs pd) k = None \<and> bt_blobs t = []"
    and "bt_alloc t len = Inr ((ptr, idx), t1)" and "map_of (pd_blobs pd1) = (map_of (pd_blobs pd))(k \<mapsto> t1)"
    and "tables_ok pd1"
proof -
  define pd' where "pd' = (if k \<in> fst ` set (pd_blobs pd) then pd
    else pd\<lparr>pd_blobs := pd_blobs pd @ [(k, mk_blobTable (max (blobCapacity pd) len))]\<rparr>)"
  from add obtain t t1 where t: "blob_at pd' k = Inr t" "bt_alloc t len = Inr ((ptr, idx), t1)"
    "pd1 = pd'\<lparr>pd_blobs := AList.update k t1 (pd_blobs pd')\<rparr>"
    by (auto simp: add_blob_def Let_def bindE_eq_Inr_iff pd'_def)
  have ok': "tables_ok pd'"
    using ok mk_blobTable_ok(1) by (simp add: pd'_def tables_ok_def)
  have lk: "map_of (pd_blobs pd') k = Some t" using t(1) by (simp add: blob_at_def split: option.splits)
  note tok = tables_ok_lookup [OF ok' lk]
  have "map_of (pd_blobs pd) k = Some t \<or> map_of (pd_blobs pd) k = None \<and> bt_blobs t = []"
    using lk by (auto simp: pd'_def map_of_eq_None_iff map_add_def mk_blobTable_def split: if_splits option.splits)
  moreover have "map_of (pd_blobs pd1) = (map_of (pd_blobs pd))(k \<mapsto> t1)"
    by (auto simp: t(3) update_conv' pd'_def fun_eq_iff map_add_def split: option.split)
  moreover have "tables_ok pd1"
    unfolding t(3) by (rule tables_ok_update [OF ok' bt_alloc_ok(1) [OF tok t(2)]])
  ultimately show thesis using that tok t(2) by blast
qed

lemma blob_bytes_frame:
  "map_of (pd_blobs pd1) k = map_of (pd_blobs pd) k \<Longrightarrow> blob_bytes pd1 k i = blob_bytes pd k i"
  by (simp add: blob_bytes_def blob_at_def)

lemma store_blob:
  assumes ok: "tables_ok pd" and add: "add_blob pd k (length bs) = Inr ((ptr, idx), pd1)"
  shows "\<exists>pd2. write_blob pd1 k ptr bs = Inr pd2 \<and> tables_ok pd2 \<and> blob_bytes pd2 k idx = Inr bs
    \<and> (\<forall>k' i b. blob_bytes pd k' i = Inr b \<longrightarrow> blob_bytes pd2 k' i = Inr b)"
proof -
  obtain t t1 where t: "bt_ok t" "bt_alloc t (length bs) = Inr ((ptr, idx), t1)" "tables_ok pd1"
    and old: "map_of (pd_blobs pd) k = Some t \<or> map_of (pd_blobs pd) k = None \<and> bt_blobs t = []"
    and m1: "map_of (pd_blobs pd1) = (map_of (pd_blobs pd))(k \<mapsto> t1)"
    using add_blob_spec [OF ok add] by metis
  note al = bt_alloc_ok [OF t(1,2)]
  let ?i = "length (bt_blobs t)"
  have i: "?i < length (bt_blobs t1)" "bt_blobs t1 ! ?i = (ptr, length bs)" by (simp_all add: al(6))
  obtain t2 where t2: "bt_memcpy t1 ptr bs = Inr t2" "bt_ok t2" "bt_blobs t2 = bt_blobs t1"
    "contents t2 = (contents t1)[?i := patch (contents t1 ! ?i) 0 bs]"
    using bt_memcpy_contents [OF al(1) i order_refl] by blast
  have len: "length (contents t) = ?i" by (simp add: contents_def)
  have "patch (segment (blobData t) ptr (length bs)) 0 bs = bs"
    using bt_ok_blob(3) [OF al(1) i] al(4) by (simp add: patch_def)
  then have c2: "contents t2 = contents t @ [bs]"
    using t2(4) al(7) by (simp add: nth_append list_update_append flip: len)
  define pd2 where "pd2 = pd1\<lparr>pd_blobs := AList.update k t2 (pd_blobs pd1)\<rparr>"
  have w: "write_blob pd1 k ptr bs = Inr pd2"
    using m1 t2(1) by (simp add: write_blob_def blob_at_def pd2_def)
  have m2: "map_of (pd_blobs pd2) = (map_of (pd_blobs pd))(k \<mapsto> t2)"
    by (simp add: pd2_def update_conv' m1)
  have b2: "blob_bytes pd2 k j = (if in_range (bt_blobs t2) j then Inr ((contents t @ [bs]) ! nat j) else Inl OutOfBounds)" for j
    using blob_bytes_contents [OF t2(2), of pd2 k j] m2 c2 by simp
  have "blob_bytes pd2 k idx = Inr bs"
    using b2 [of idx] al(2) t2(3) i len by (simp add: in_range_def nth_append)
  moreover have "blob_bytes pd2 k' j = Inr b" if b: "blob_bytes pd k' j = Inr b" for k' j b
  proof (cases "k' = k")
    case False
    with m2 b show ?thesis by (simp add: blob_bytes_frame [of pd2 k' pd])
  next
    case True
    then have "map_of (pd_blobs pd) k = Some t"
      using b old by (auto simp: blob_bytes_def blob_at_def)
    with b True have "in_range (bt_blobs t) j" "b = contents t ! nat j"
      by (simp_all add: blob_bytes_contents [OF t(1)] split: if_splits)
    with True show ?thesis
      using b2 [of j] t2(3) al(6) len by (simp add: in_range_def nth_append nat_less_iff)
  qed
  moreover have "tables_ok pd2"
    unfolding pd2_def by (rule tables_ok_update [OF t(3) t2(2)])
  ultimately show ?thesis using w by blast
qed

section \<open>Properties\<close>

text \<open>
  C24. Property data survive the file: loading what \<open>flush\<close> wrote, into a graph that has no blob table
  yet, consumes exactly the bytes written, restores the three value vectors, and gives the same
  bytes (or the same error) for every datatype and blob index.
\<close>

theorem prop_data_round_trip:
  assumes "pd_ok pd" and "pd_blobs pd0 = []"
  shows "\<exists>pd'. pd_load pd0 (pd_flush pd @ rest) = Inr (pd', rest) \<and> lst_i64 pd' = lst_i64 pd
    \<and> lst_ui64 pd' = lst_ui64 pd \<and> lst_double pd' = lst_double pd
    \<and> (\<forall>k i. blob_bytes pd' k i = blob_bytes pd k i)"
proof -
  have "list_all (\<lambda>kt. bt_ok (snd kt)) (pd_blobs pd)"
    using assms(1) by (auto simp: pd_ok_def table_ok_def list_all_iff)
  then show ?thesis
    using pd_load_flush [OF assms] by (simp add: blob_bytes_reloaded)
qed

text \<open>
  Storing a value out of line: when \<open>add_blob\<close> succeeds for the length of a value, copying the value
  to the returned pointer stays inside the buffer, reading the returned index gives the value
  back, and every blob of every datatype that could be read before still has the same bytes.
\<close>

theorem blob_store_lookup:
  assumes "tables_ok pd" and "add_blob pd k (length bs) = Inr ((ptr, idx), pd1)"
  shows "\<exists>pd2. write_blob pd1 k ptr bs = Inr pd2 \<and> tables_ok pd2 \<and> blob_bytes pd2 k idx = Inr bs
    \<and> (\<forall>k' i b. blob_bytes pd k' i = Inr b \<longrightarrow> blob_bytes pd2 k' i = Inr b)"
  using store_blob [OF assms] .

text \<open>Sample property data: two strings and one 64-bit value, with a small blob capacity.\<close>

definition sample_pd :: "prop_data res" where
  "sample_pd =
     bindE (add_blob (snd (add_i64 \<lparr>blobCapacity = 8, lst_i64 = [5], lst_ui64 = [], lst_double = [],
       pd_blobs = []\<rparr> 77)) 1 3) (\<lambda>((p, i), pd).
     bindE (write_blob pd 1 p [1, 2, 3]) (\<lambda>pd.
     bindE (add_blob pd 1 2) (\<lambda>((p, i), pd). write_blob pd 1 p [4, 5])))"

lemma sample_pd_ok: "okE (\<lambda>pd. pd_ok pd \<and> tables_ok pd \<and> okE (\<lambda>_. True) (add_blob pd 1 3)) sample_pd"
  by code_simp

theorem prop_data_round_trip_witness:
  "\<exists>pd pd'. sample_pd = Inr pd \<and> pd_ok pd \<and> pd_load mk_propData (pd_flush pd @ [9]) = Inr (pd', [9])
    \<and> (\<forall>k i. blob_bytes pd' k i = blob_bytes pd k i)"
proof -
  obtain pd where "sample_pd = Inr pd" "pd_ok pd" using sample_pd_ok by (auto simp: okE_iff)
  with prop_data_round_trip [of pd mk_propData "[9]"] show ?thesis by (auto simp: mk_propData_def)
qed

theorem blob_store_lookup_witness:
  "\<exists>pd ptr idx pd1 pd2. sample_pd = Inr pd \<and> tables_ok pd \<and> add_blob pd 1 3 = Inr ((ptr, idx), pd1)
    \<and> write_blob pd1 1 ptr [7, 8, 9] = Inr pd2 \<and> blob_bytes pd2 1 idx = Inr [7, 8, 9]"
proof -
  obtain pd ptr idx pd1 where "sample_pd = Inr pd" "tables_ok pd" "add_blob pd 1 3 = Inr ((ptr, idx), pd1)"
    using sample_pd_ok by (auto simp: okE_iff)
  with blob_store_lookup [of pd 1 "[7, 8, 9]" ptr idx pd1] show ?thesis by (auto simp: numeral_3_eq_3)
qed

end
