(* ===== verification/Prop_Graph.thy ===== *)
theory Prop_Graph
  imports Graph_Machine Prop_Data
begin

text \<open>
  \<open>PropertyGraph\<close> (\<open>BuiltinGraphs.h\<close>, \<open>BuiltinGraphs.cpp\<close>): a graph whose node and relationship
  payloads are heads of property chains in a third store. Removing a relationship or a node
  releases the chains it owns.
\<close>

section \<open>State\<close>

record prop_record =
  nextPropId :: int
  prevPropId :: int
  p_key :: int
  p_type :: int
  p_value :: int
  p_inUse :: bool

record pgraph =
  base :: "(int, int) graph"
  props :: "prop_record list"
  propMark :: int
  propCap :: int
  freeProps :: "int list"
  pg_nodeCap :: int
  pg_relCap :: int
  propData :: prop_data
  persists :: bool

definition zero_prop :: prop_record where
  "zero_prop = \<lparr>nextPropId = 0, prevPropId = 0, p_key = 0, p_type = 0, p_value = 0, p_inUse = False\<rparr>"

definition mk_pgraph :: "int \<Rightarrow> int \<Rightarrow> int \<Rightarrow> pgraph res" where
  "mk_pgraph nodeCapacity relCapacity propCapacity =
     bindE (mk_graph nodeCapacity relCapacity 0 0) (\<lambda>g.
     if propCapacity < 0 then Inl OutOfMemory
     else Inr \<lparr>base = g, props = replicate (nat propCapacity) zero_prop, propMark = 0,
       propCap = propCapacity, freeProps = [], pg_nodeCap = nodeCapacity, pg_relCap = relCapacity,
       propData = setBlobCapacity mk_propData (max (1024 * 1024) (nat propCapacity * 256)),
       persists = False\<rparr>)"

section \<open>Operations\<close>

definition prop_at :: "pgraph \<Rightarrow> int \<Rightarrow> prop_record res" where
  "prop_at g i = bindE (assertE (i \<ge> 0 \<and> i < propMark g) ''id >= 0 && id < propMark_'')
     (\<lambda>_. get_at (props g) i)"

definition newProp :: "pgraph \<Rightarrow> (int \<times> pgraph) res" where
  "newProp g = bindE (assertE (propMark g < propCap g) ''prop capacity exceeded'')
     (\<lambda>_. Inr (propMark g, g\<lparr>propMark := propMark g + 1\<rparr>))"

definition upd_prop :: "pgraph \<Rightarrow> int \<Rightarrow> (prop_record \<Rightarrow> prop_record) \<Rightarrow> pgraph res" where
  "upd_prop g i f = bindE (upd_at (props g) i f) (\<lambda>ps. Inr (g\<lparr>props := ps\<rparr>))"

text \<open>Assignments through \<open>node(id)\<close> and \<open>rel(id)\<close>, which check the identifier.\<close>

definition pg_upd_node :: "pgraph \<Rightarrow> int \<Rightarrow> (int node_entry \<Rightarrow> int node_entry) \<Rightarrow> pgraph res" where
  "pg_upd_node g i f = bindE (node (base g) i) (\<lambda>_.
     bindE (upd_node (base g) i f) (\<lambda>h. Inr (g\<lparr>base := h\<rparr>)))"

definition pg_upd_rel :: "pgraph \<Rightarrow> int \<Rightarrow> (int rel_entry \<Rightarrow> int rel_entry) \<Rightarrow> pgraph res" where
  "pg_upd_rel g i f = bindE (rel (base g) i) (\<lambda>_.
     bindE (upd_rel (base g) i f) (\<lambda>h. Inr (g\<lparr>base := h\<rparr>)))"

definition pg_addNode :: "pgraph \<Rightarrow> (int \<times> pgraph) res" where
  "pg_addNode g = bindE (addNode (base g) GRAPH_NONE) (\<lambda>(i, h).
     bindE (pg_upd_node (g\<lparr>base := h\<rparr>) i (\<lambda>n. n\<lparr>n_inUse := True\<rparr>)) (\<lambda>g. Inr (i, g)))"

definition pg_addRelationship :: "pgraph \<Rightarrow> int \<Rightarrow> int \<Rightarrow> int \<Rightarrow> (int \<times> pgraph) res" where
  "pg_addRelationship g from to tyId =
     bindE (addRelationship (base g) from to tyId GRAPH_NONE) (\<lambda>(i, h). Inr (i, g\<lparr>base := h\<rparr>))"

text \<open>The loop that releases a property chain; it returns only if the chain ends.\<close>

partial_function (option) freeChain :: "pgraph \<Rightarrow> int \<Rightarrow> pgraph res option" where
  "freeChain g p =
     (if p = GRAPH_NONE then Some (Inr g)
      else case get_at (props g) p of
        Inl e \<Rightarrow> Some (Inl e)
      | Inr r \<Rightarrow>
          freeChain (g\<lparr>props := set_at (props g) p (r\<lparr>p_inUse := False\<rparr>),
            freeProps := freeProps g @ [p]\<rparr>) (nextPropId r))"

declare freeChain.simps [code]

partial_function (option) freeRelChains :: "pgraph \<Rightarrow> int \<Rightarrow> int \<Rightarrow> pgraph res option" where
  "freeRelChains g nodeId cur =
     (if cur = GRAPH_NONE then Some (Inr g)
      else case rel (base g) cur of
        Inl e \<Rightarrow> Some (Inl e)
      | Inr r \<Rightarrow>
          (case freeChain g (r_payload r) of
             None \<Rightarrow> None
           | Some (Inl e) \<Rightarrow> Some (Inl e)
           | Some (Inr g) \<Rightarrow>
               (case pg_upd_rel g cur (\<lambda>r. r\<lparr>r_payload := GRAPH_NONE\<rparr>) of
                  Inl e \<Rightarrow> Some (Inl e)
                | Inr g \<Rightarrow> freeRelChains g nodeId (relNext nodeId r))))"

declare freeRelChains.simps [code]

definition pg_removeNode :: "pgraph \<Rightarrow> int \<Rightarrow> pgraph res option" where
  "pg_removeNode g nodeId =
     bindOE (Some (node (base g) nodeId)) (\<lambda>n.
     bindOE (freeRelChains g nodeId (firstRelId n)) (\<lambda>g.
     bindOE (freeChain g (n_payload n)) (\<lambda>g.
     bindOE (Some (pg_upd_node g nodeId (\<lambda>n. n\<lparr>n_payload := GRAPH_NONE\<rparr>))) (\<lambda>g.
     bindOE (removeNode (base g) nodeId) (\<lambda>h.
     Some (Inr (g\<lparr>base := h\<rparr>)))))))"

definition pg_removeRelationship :: "pgraph \<Rightarrow> int \<Rightarrow> pgraph res option" where
  "pg_removeRelationship g relId =
     bindOE (Some (rel (base g) relId)) (\<lambda>r.
     bindOE (freeChain g (r_payload r)) (\<lambda>g.
     bindOE (Some (removeRelationship (base g) relId)) (\<lambda>h.
     Some (Inr (g\<lparr>base := h\<rparr>)))))"

definition allocProp :: "pgraph \<Rightarrow> (int \<times> pgraph) res" where
  "allocProp g =
     (if freeProps g \<noteq> [] then Inr (last (freeProps g), g\<lparr>freeProps := butlast (freeProps g)\<rparr>)
      else bindE (assertE (propMark g < propCap g) ''prop capacity exceeded'')
        (\<lambda>_. Inr (propMark g, g\<lparr>propMark := propMark g + 1\<rparr>)))"

text \<open>The chain head is passed by reference: its new value is part of the result.\<close>

definition addPropertyToChain :: "pgraph \<Rightarrow> int \<Rightarrow> int \<Rightarrow> int \<Rightarrow> int \<Rightarrow> ((int \<times> int) \<times> pgraph) res" where
  "addPropertyToChain g chainHead key ty val =
     bindE (allocProp g) (\<lambda>(i, g).
     bindE (upd_prop g i (\<lambda>p. p\<lparr>p_inUse := True, p_key := key, p_type := ty, p_value := val,
       prevPropId := GRAPH_NONE, nextPropId := chainHead\<rparr>)) (\<lambda>g.
     bindE (if chainHead \<noteq> GRAPH_NONE then upd_prop g chainHead (\<lambda>p. p\<lparr>prevPropId := i\<rparr>) else Inr g) (\<lambda>g.
     Inr ((i, i), g))))"

definition addNodeProperty :: "pgraph \<Rightarrow> int \<Rightarrow> int \<Rightarrow> int \<Rightarrow> int \<Rightarrow> (int \<times> pgraph) res" where
  "addNodeProperty g nodeId key ty val =
     bindE (node (base g) nodeId) (\<lambda>n.
     bindE (addPropertyToChain g (n_payload n) key ty val) (\<lambda>((i, chainHead), g).
     bindE (pg_upd_node g nodeId (\<lambda>n. n\<lparr>n_payload := chainHead\<rparr>)) (\<lambda>g. Inr (i, g))))"

definition addRelProperty :: "pgraph \<Rightarrow> int \<Rightarrow> int \<Rightarrow> int \<Rightarrow> int \<Rightarrow> (int \<times> pgraph) res" where
  "addRelProperty g relId key ty val =
     bindE (rel (base g) relId) (\<lambda>r.
     bindE (addPropertyToChain g (r_payload r) key ty val) (\<lambda>((i, chainHead), g).
     bindE (pg_upd_rel g relId (\<lambda>r. r\<lparr>r_payload := chainHead\<rparr>)) (\<lambda>g. Inr (i, g))))"

definition setPropertyValue :: "pgraph \<Rightarrow> int \<Rightarrow> int \<Rightarrow> pgraph res" where
  "setPropertyValue g i val = upd_prop g i (\<lambda>p. p\<lparr>p_value := val\<rparr>)"

definition removeProperty :: "pgraph \<Rightarrow> int \<Rightarrow> int \<Rightarrow> (int \<times> pgraph) res" where
  "removeProperty g i chainHead =
     bindE (get_at (props g) i) (\<lambda>p.
     bindE (assertE (p_inUse p) ''p.inUse'') (\<lambda>_.
     bindE (if prevPropId p \<noteq> GRAPH_NONE
            then bindE (upd_prop g (prevPropId p) (\<lambda>q. q\<lparr>nextPropId := nextPropId p\<rparr>)) (\<lambda>g. Inr (chainHead, g))
            else Inr (nextPropId p, g)) (\<lambda>(chainHead, g).
     bindE (if nextPropId p \<noteq> GRAPH_NONE
            then upd_prop g (nextPropId p) (\<lambda>q. q\<lparr>prevPropId := prevPropId p\<rparr>) else Inr g) (\<lambda>g.
     bindE (upd_prop g i (\<lambda>p. p\<lparr>p_inUse := False\<rparr>)) (\<lambda>g.
     Inr (chainHead, g\<lparr>freeProps := freeProps g @ [i]\<rparr>))))))"

text \<open>\<open>removeProperty(id, node(n).payload)\<close> and \<open>removeProperty(id, rel(r).payload)\<close>.\<close>

definition removeNodeProperty :: "pgraph \<Rightarrow> int \<Rightarrow> int \<Rightarrow> pgraph res" where
  "removeNodeProperty g nodeId i =
     bindE (node (base g) nodeId) (\<lambda>n.
     bindE (removeProperty g i (n_payload n)) (\<lambda>(chainHead, g).
     pg_upd_node g nodeId (\<lambda>n. n\<lparr>n_payload := chainHead\<rparr>)))"

definition removeRelProperty :: "pgraph \<Rightarrow> int \<Rightarrow> int \<Rightarrow> pgraph res" where
  "removeRelProperty g relId i =
     bindE (rel (base g) relId) (\<lambda>r.
     bindE (removeProperty g i (r_payload r)) (\<lambda>(chainHead, g).
     pg_upd_rel g relId (\<lambda>r. r\<lparr>r_payload := chainHead\<rparr>)))"

definition pg_clear :: "pgraph \<Rightarrow> pgraph" where
  "pg_clear g = g\<lparr>base := clear (base g), propMark := 0, freeProps := []\<rparr>"

interpretation propPool: slot_pool allocProp propMark propCap freeProps
  by unfold_locales (auto simp: allocProp_def)

interpretation propChain: linked_entries nextPropId prevPropId
    "\<lambda>v p. p\<lparr>nextPropId := v\<rparr>" "\<lambda>v p. p\<lparr>prevPropId := v\<rparr>"
  by unfold_locales simp_all

end
