(* ===== verification/Prop_Refine.thy ===== *)
theory Prop_Refine
  imports Prop_Graph
begin

text \<open>
  The property chains of a \<open>PropertyGraph\<close>. Every node and relationship owns one chain; the chains
  partition the live property records. First the effect of the store operations on such a
  partition, then the refinement of the operations of \<open>PropertyGraph\<close> to an abstract graph
  with a list of properties per owner.
\<close>

section \<open>A partition of the property store into chains\<close>

datatype owner = NodeOwner int | RelOwner int

definition liveProps :: "pgraph \<Rightarrow> int set" where
  "liveProps g = live (propMark g) (freeProps g)"

abbreviation pchain :: "prop_record list \<Rightarrow> int \<Rightarrow> int list \<Rightarrow> bool" where
  "pchain ps h xs \<equiv> chain nextPropId prevPropId ps GRAPH_NONE h xs"

definition pool_inv :: "pgraph \<Rightarrow> bool" where
  "pool_inv g \<longleftrightarrow> int (length (props g)) = propCap g \<and> pool_ok (propMark g) (propCap g) (freeProps g)
     \<and> (\<forall>i\<in>liveProps g. p_inUse (at (props g) i)) \<and> (\<forall>i\<in>set (freeProps g). \<not> p_inUse (at (props g) i))"

definition chains_ok :: "pgraph \<Rightarrow> owner set \<Rightarrow> (owner \<Rightarrow> int) \<Rightarrow> (owner \<Rightarrow> int list) \<Rightarrow> bool" where
  "chains_ok g W h P \<longleftrightarrow> (\<forall>w\<in>W. pchain (props g) (h w) (P w) \<and> distinct (P w))
     \<and> (\<forall>w\<in>W. \<forall>w'\<in>W. w \<noteq> w' \<longrightarrow> set (P w) \<inter> set (P w') = {})
     \<and> (\<Union>w\<in>W. set (P w)) = liveProps g"

definition pdata :: "pgraph \<Rightarrow> int \<Rightarrow> int \<times> int \<times> int" where
  "pdata g i = (p_key (at (props g) i), p_type (at (props g) i), p_value (at (props g) i))"

lemma live_prop_range: "pool_inv g \<Longrightarrow> i \<in> liveProps g \<Longrightarrow> in_range (props g) i"
  by (auto simp: pool_inv_def liveProps_def live_def in_range_def pool_ok_def)

lemma live_prop_nonneg: "i \<in> liveProps g \<Longrightarrow> 0 \<le> i"
  by (simp add: liveProps_def live_def)

lemma chains_ok_new:
  assumes "chains_ok g W h P" and "w \<notin> W"
  shows "chains_ok g (insert w W) (h(w := GRAPH_NONE)) (P(w := []))"
proof -
  have "(\<Union>v\<in>W. set ((P(w := [])) v)) = (\<Union>v\<in>W. set (P v))"
    using assms(2) by (intro SUP_cong) auto
  with assms show ?thesis by (simp add: chains_ok_def)
qed

lemma chains_ok_cong:
  assumes "chains_ok g W h P" and "\<And>w. w \<in> W \<Longrightarrow> h' w = h w" and "\<And>w. w \<in> W \<Longrightarrow> P' w = P w"
  shows "chains_ok g W h' P'"
  using assms by (simp add: chains_ok_def)

lemma chains_ok_rebase:
  assumes "props g' = props g" "propMark g' = propMark g" "freeProps g' = freeProps g"
  shows "chains_ok g' W h P = chains_ok g W h P"
  by (simp add: chains_ok_def assms liveProps_def)

lemma pool_inv_rebase:
  assumes "props g' = props g" "propMark g' = propMark g" "freeProps g' = freeProps g" "propCap g' = propCap g"
  shows "pool_inv g' = pool_inv g"
  by (simp add: pool_inv_def assms liveProps_def)

section \<open>Releasing a chain\<close>

definition released :: "pgraph \<Rightarrow> int list \<Rightarrow> pgraph" where
  "released g xs = g\<lparr>props := fold (\<lambda>i ps. set_at ps i ((at ps i)\<lparr>p_inUse := False\<rparr>)) xs (props g),
     freeProps := freeProps g @ xs\<rparr>"

lemma released_Nil [simp]: "released g [] = g"
  by (simp add: released_def)

lemma released_Cons:
  "released g (x # xs) = released (g\<lparr>props := set_at (props g) x ((at (props g) x)\<lparr>p_inUse := False\<rparr>),
     freeProps := freeProps g @ [x]\<rparr>) xs"
  by (simp add: released_def)

lemma freeChain_released:
  assumes "chain nextPropId prevPropId (props g) p c xs" and "distinct xs"
  shows "freeChain g c = Some (Inr (released g xs))"
  using assms
proof (induction xs arbitrary: g p c)
  case Nil
  then show ?case by (simp add: freeChain.simps)
next
  case (Cons x xs)
  let ?r = "at (props g) x"
  let ?g = "g\<lparr>props := set_at (props g) x (?r\<lparr>p_inUse := False\<rparr>), freeProps := freeProps g @ [x]\<rparr>"
  have x: "c = x" "in_range (props g) x" "x \<notin> set xs" "0 \<le> x"
    and rest: "chain nextPropId prevPropId (props g) x (nextPropId ?r) xs"
    using Cons.prems by (auto dest: in_range_nonneg)
  have "chain nextPropId prevPropId (props ?g) x (nextPropId ?r) xs"
    using chain_set_at_outside [OF x(3,4) rest] by simp
  with Cons.IH [of ?g] Cons.prems(2) have "freeChain ?g (nextPropId ?r) = Some (Inr (released ?g xs))"
    by simp
  with x show ?case by (simp add: freeChain.simps [of g] released_Cons)
qed

lemma fold_unuse:
  "(\<forall>i\<in>set xs. in_range ps i) \<Longrightarrow>
     length (fold (\<lambda>i ps. set_at ps i ((at ps i)\<lparr>p_inUse := False\<rparr>)) xs ps) = length ps
     \<and> (\<forall>j\<ge>0. at (fold (\<lambda>i ps. set_at ps i ((at ps i)\<lparr>p_inUse := False\<rparr>)) xs ps) j =
          (if j \<in> set xs then (at ps j)\<lparr>p_inUse := False\<rparr> else at ps j))"
proof (induction xs arbitrary: ps)
  case Nil
  then show ?case by simp
next
  case (Cons x xs)
  let ?ps = "set_at ps x ((at ps x)\<lparr>p_inUse := False\<rparr>)"
  have "in_range ps x" "\<forall>i\<in>set xs. in_range ?ps i" using Cons.prems by simp_all
  moreover from this Cons.IH [of ?ps] have
    "length (fold (\<lambda>i ps. set_at ps i ((at ps i)\<lparr>p_inUse := False\<rparr>)) xs ?ps) = length ps"
    "\<And>j. 0 \<le> j \<Longrightarrow> at (fold (\<lambda>i ps. set_at ps i ((at ps i)\<lparr>p_inUse := False\<rparr>)) xs ?ps) j =
          (if j \<in> set xs then (at ?ps j)\<lparr>p_inUse := False\<rparr> else at ?ps j)"
    by simp_all
  moreover have "at ?ps j = (if j = x then (at ps x)\<lparr>p_inUse := False\<rparr> else at ps j)" if "0 \<le> j" for j
    using that Cons.prems by (auto dest: in_range_nonneg)
  ultimately show ?case by auto
qed

lemma released_simps:
  assumes "\<forall>i\<in>set xs. in_range (props g) i"
  shows "length (props (released g xs)) = length (props g)"
    and "0 \<le> j \<Longrightarrow> at (props (released g xs)) j =
      (if j \<in> set xs then (at (props g) j)\<lparr>p_inUse := False\<rparr> else at (props g) j)"
  using fold_unuse [OF assms] by (simp_all add: released_def)

lemma released_frame [simp]:
  "base (released g xs) = base g" "propMark (released g xs) = propMark g"
  "propCap (released g xs) = propCap g" "freeProps (released g xs) = freeProps g @ xs"
  "propData (released g xs) = propData g" "persists (released g xs) = persists g"
  "pg_nodeCap (released g xs) = pg_nodeCap g" "pg_relCap (released g xs) = pg_relCap g"
  by (simp_all add: released_def)

lemma liveProps_released [simp]: "liveProps (released g xs) = liveProps g - set xs"
  by (auto simp: liveProps_def live_def)

lemma pchain_released:
  assumes "\<forall>i\<in>set xs. in_range (props g) i" and "pchain (props g) h ys"
  shows "pchain (props (released g xs)) h ys"
proof (rule chain_cong [OF _ assms(2)])
  fix y assume "y \<in> set ys" "in_range (props g) y"
  then show "in_range (props (released g xs)) y
    \<and> nextPropId (at (props (released g xs)) y) = nextPropId (at (props g) y)
    \<and> prevPropId (at (props (released g xs)) y) = prevPropId (at (props g) y)"
    using released_simps [OF assms(1)] by (simp add: in_range_def)
qed

lemma released_pool_inv:
  assumes g: "pool_inv g" and xs: "set xs \<subseteq> liveProps g" "distinct xs"
  shows "pool_inv (released g xs)"
proof -
  have r: "\<forall>i\<in>set xs. in_range (props g) i" using live_prop_range [OF g] xs by blast
  have "pool_ok (propMark g) (propCap g) (freeProps g @ xs)"
    using g xs by (auto simp: pool_inv_def pool_ok_def liveProps_def live_def)
  moreover have "p_inUse (at (props (released g xs)) i)" if "i \<in> liveProps g - set xs" for i
    using that g released_simps(2) [OF r, of i] by (auto simp: pool_inv_def liveProps_def live_def)
  moreover have "\<not> p_inUse (at (props (released g xs)) i)" if "i \<in> set (freeProps g @ xs)" for i
  proof -
    have "0 \<le> i" using that g r by (auto simp: pool_inv_def pool_ok_def dest: in_range_nonneg)
    with that g released_simps(2) [OF r, of i] show ?thesis by (auto simp: pool_inv_def)
  qed
  ultimately show ?thesis using g released_simps(1) [OF r] by (simp add: pool_inv_def)
qed

lemma freeChain_ok:
  assumes g: "pool_inv g" and c: "chains_ok g W h P" and w: "w \<in> W"
  shows "freeChain g (h w) = Some (Inr (released g (P w)))"
    and "pool_inv (released g (P w))" and "chains_ok (released g (P w)) (W - {w}) h P"
    and "i \<in> liveProps (released g (P w)) \<Longrightarrow> pdata (released g (P w)) i = pdata g i"
proof -
  have cw: "pchain (props g) (h w) (P w)" "distinct (P w)" "set (P w) \<subseteq> liveProps g"
    using c w by (auto simp: chains_ok_def)
  show "freeChain g (h w) = Some (Inr (released g (P w)))"
    by (rule freeChain_released [OF cw(1,2)])
  show "pool_inv (released g (P w))"
    by (rule released_pool_inv [OF g cw(3,2)])
  have r: "\<forall>i\<in>set (P w). in_range (props g) i" using live_prop_range [OF g] cw(3) by blast
  show "i \<in> liveProps (released g (P w)) \<Longrightarrow> pdata (released g (P w)) i = pdata g i"
    using released_simps(2) [OF r, of i] by (auto simp: pdata_def liveProps_def live_def)
  have "(\<Union>v\<in>W - {w}. set (P v)) = liveProps g - set (P w)"
    using c w by (fastforce simp: chains_ok_def)
  then show "chains_ok (released g (P w)) (W - {w}) h P"
    using c pchain_released [OF r] by (simp add: chains_ok_def)
qed

section \<open>Adding and removing one property\<close>

lemma allocProp_frame:
  "allocProp g = Inr (i, g') \<Longrightarrow> g' = g\<lparr>propMark := propMark g', freeProps := freeProps g'\<rparr>
     \<and> set (freeProps g') \<subseteq> set (freeProps g)"
  by (auto simp: allocProp_def bindE_eq_Inr_iff assertE_eq_Inr_iff dest: in_set_butlastD split: if_splits)

lemma chain_head_in: "chain nxt prv es p c xs \<Longrightarrow> c \<noteq> GRAPH_NONE \<Longrightarrow> c \<in> set xs"
  by (cases xs) auto

text \<open>Two updates of the buffer, at a new slot and at the old head, seen from the other slots.\<close>

lemma push_entries:
  assumes i: "in_range ps i" and q: "q \<noteq> GRAPH_NONE \<Longrightarrow> in_range ps q \<and> q \<noteq> i"
    and es: "es = (if q \<noteq> GRAPH_NONE
      then set_at (set_at ps i e) q ((at (set_at ps i e) q)\<lparr>prevPropId := i\<rparr>) else set_at ps i e)"
  shows "at es i = e" and "length es = length ps"
    and "0 \<le> j \<Longrightarrow> j \<noteq> i \<Longrightarrow> at es j = (if j = q then (at ps j)\<lparr>prevPropId := i\<rparr> else at ps j)"
proof -
  have "0 \<le> i" "q \<noteq> GRAPH_NONE \<Longrightarrow> 0 \<le> q" using i q by (auto dest: in_range_nonneg)
  then show "at es i = e" "length es = length ps"
    "0 \<le> j \<Longrightarrow> j \<noteq> i \<Longrightarrow> at es j = (if j = q then (at ps j)\<lparr>prevPropId := i\<rparr> else at ps j)"
    using i q by (auto simp: es)
qed

lemma push_chains_ok:
  assumes g: "pool_inv g" and c: "chains_ok g W h P" and w: "w \<in> W" and i: "in_range (props g) i" "i \<notin> liveProps g"
    and e: "nextPropId e = h w" "prevPropId e = GRAPH_NONE"
    and ps: "props g' = (if h w \<noteq> GRAPH_NONE then set_at (set_at (props g) i e) (h w)
      ((at (set_at (props g) i e) (h w))\<lparr>prevPropId := i\<rparr>) else set_at (props g) i e)"
    and live': "liveProps g' = insert i (liveProps g)"
  shows "chains_ok g' W (h(w := i)) (P(w := i # P w))"
proof -
  have cw: "pchain (props g) (h w) (P w)" "distinct (P w)" "set (P w) \<subseteq> liveProps g"
    using c w by (auto simp: chains_ok_def)
  have q: "in_range (props g) (h w) \<and> h w \<noteq> i" if "h w \<noteq> GRAPH_NONE"
    using chain_head_in [OF cw(1) that] cw(3) i(2) live_prop_range [OF g] by blast
  note pe = push_entries [OF i(1) q ps]
  have "pchain (props g') i (i # P w)"
    unfolding ps using cw i e by (intro propChain.chain_push) auto
  moreover have "pchain (props g') (h w') (P w')" if "w' \<in> W" "w' \<noteq> w" for w'
  proof (rule chain_cong [of "P w'" "props g"])
    show "pchain (props g) (h w') (P w')" using c that by (simp add: chains_ok_def)
    fix y assume y: "y \<in> set (P w')" "in_range (props g) y"
    have "y \<in> liveProps g" "set (P w') \<inter> set (P w) = {}" using c that w y by (auto simp: chains_ok_def)
    then have "y \<noteq> i" "y \<noteq> h w"
      using y i(2) chain_head_in [OF cw(1)] in_range_nonneg [OF y(2)] by auto
    with y pe(2) pe(3) [of y] show "in_range (props g') y \<and> nextPropId (at (props g') y) = nextPropId (at (props g) y)
      \<and> prevPropId (at (props g') y) = prevPropId (at (props g) y)" by (simp add: in_range_def)
  qed
  moreover have "set (P w') \<inter> set (P w'') = {}" "i \<notin> set (P w')" if "w' \<in> W" "w'' \<in> W" "w' \<noteq> w''" for w' w''
    using c that i(2) by (auto simp: chains_ok_def)
  moreover have "(\<Union>v\<in>W. set ((P(w := i # P w)) v)) = insert i (\<Union>v\<in>W. set (P v))"
    using w by (auto split: if_splits)
  ultimately show ?thesis
    using c cw live' i(2) by (auto simp: chains_ok_def)
qed

lemma addPropertyToChain_ok:
  assumes g: "pool_inv g" and c: "chains_ok g W h P" and w: "w \<in> W"
    and room: "liveProps g \<noteq> {0..<propCap g}"
  obtains i g' where "addPropertyToChain g (h w) k t v = Inr ((i, i), g')" and "i \<notin> liveProps g"
    and "liveProps g' = insert i (liveProps g)" and "pool_inv g'"
    and "chains_ok g' W (h(w := i)) (P(w := i # P w))" and "pdata g' i = (k, t, v)"
    and "\<forall>j\<in>liveProps g. pdata g' j = pdata g j" and "base g' = base g"
    and "propCap g' = propCap g" and "propData g' = propData g"
proof -
  have pool: "pool_ok (propMark g) (propCap g) (freeProps g)" using g by (simp add: pool_inv_def)
  obtain i g1 where al: "allocProp g = Inr (i, g1)"
    using propPool.alloc_succeeds_iff [OF pool] room by (auto simp: liveProps_def)
  note spec = propPool.alloc_spec [OF pool al]
  obtain m fs where g1: "g1 = g\<lparr>propMark := m, freeProps := fs\<rparr>" "set fs \<subseteq> set (freeProps g)"
    using allocProp_frame [OF al] by (metis pgraph.select_convs(5) pgraph.update_convs(5))
  define e where "e = (at (props g) i)\<lparr>p_inUse := True, p_key := k, p_type := t, p_value := v,
     prevPropId := GRAPH_NONE, nextPropId := h w\<rparr>"
  define ps where "ps = (if h w \<noteq> GRAPH_NONE then set_at (set_at (props g) i e) (h w)
     ((at (set_at (props g) i e) (h w))\<lparr>prevPropId := i\<rparr>) else set_at (props g) i e)"
  define g' where "g' = g1\<lparr>props := ps\<rparr>"
  have live': "liveProps g' = insert i (liveProps g)" "i \<notin> liveProps g"
    using spec(1,2) by (simp_all add: liveProps_def g'_def g1)
  have i: "in_range (props g) i"
    using spec(3,4,5,6) g by (auto simp: in_range_def pool_inv_def pool_ok_def)
  have "pchain (props g) (h w) (P w)" "set (P w) \<subseteq> liveProps g" using c w by (auto simp: chains_ok_def)
  then have q: "in_range (props g) (h w) \<and> h w \<noteq> i" if "h w \<noteq> GRAPH_NONE"
    using chain_head_in [OF _ that] live'(2) live_prop_range [OF g] by blast
  note pe = push_entries [OF i q ps_def]
  have add: "addPropertyToChain g (h w) k t v = Inr ((i, i), g')"
    using al i q by (simp add: addPropertyToChain_def upd_prop_def g'_def ps_def e_def g1)
  have pool': "pool_inv g'"
  proof -
    have "p_inUse (at ps j)" if "j \<in> insert i (liveProps g)" for j
      using that g pe(1) pe(3) [of j] live_prop_nonneg [of j g]
      by (cases "j = i") (auto simp: e_def pool_inv_def)
    moreover have "\<not> p_inUse (at ps j)" if "j \<in> set fs" for j
    proof -
      have "0 \<le> j" "j \<noteq> i" using that spec(2,3) by (auto simp: g1 pool_ok_def live_def)
      with that g g1(2) pe(3) [of j] show ?thesis by (auto simp: pool_inv_def)
    qed
    ultimately show ?thesis
      using g spec(3) pe(2) live'(1) by (simp add: pool_inv_def g'_def g1)
  qed
  have "chains_ok g' W (h(w := i)) (P(w := i # P w))"
    using push_chains_ok [OF g c w i live'(2), of e g'] live'(1) by (simp add: e_def g'_def ps_def)
  moreover have "pdata g' i = (k, t, v)" using pe(1) by (simp add: pdata_def g'_def e_def)
  moreover have "pdata g' j = pdata g j" if "j \<in> liveProps g" for j
  proof -
    have "j \<noteq> i" using that live'(2) by blast
    with pe(3) [of j] live_prop_nonneg [OF that] show ?thesis by (simp add: pdata_def g'_def)
  qed
  ultimately show thesis using that add live' pool' by (simp add: g'_def g1)
qed

text \<open>Unlinking: the neighbours' links and the \<open>inUse\<close> flag change, nothing else.\<close>

lemma unlink_entries:
  assumes i: "in_range ps i" and p: "p \<noteq> GRAPH_NONE \<Longrightarrow> in_range ps p \<and> p \<noteq> i"
    and q: "q \<noteq> GRAPH_NONE \<Longrightarrow> in_range ps q \<and> q \<noteq> i" and pq: "p \<noteq> q \<or> p = GRAPH_NONE"
    and es1: "es1 = (if p \<noteq> GRAPH_NONE then set_at ps p ((at ps p)\<lparr>nextPropId := q\<rparr>) else ps)"
    and es2: "es2 = (if q \<noteq> GRAPH_NONE then set_at es1 q ((at es1 q)\<lparr>prevPropId := p\<rparr>) else es1)"
  shows "length es2 = length ps" and "at es2 i = at ps i"
    and "0 \<le> j \<Longrightarrow> j \<noteq> p \<Longrightarrow> j \<noteq> q \<Longrightarrow> at es2 j = at ps j"
    and "0 \<le> j \<Longrightarrow> p_inUse (at es2 j) = p_inUse (at ps j) \<and> p_key (at es2 j) = p_key (at ps j)
      \<and> p_type (at es2 j) = p_type (at ps j) \<and> p_value (at es2 j) = p_value (at ps j)"
proof -
  have n: "0 \<le> i" "p \<noteq> GRAPH_NONE \<Longrightarrow> 0 \<le> p" "q \<noteq> GRAPH_NONE \<Longrightarrow> 0 \<le> q"
    using i p q by (auto dest: in_range_nonneg)
  show "length es2 = length ps" by (simp add: es1 es2)
  show eq: "0 \<le> j \<Longrightarrow> j \<noteq> p \<Longrightarrow> j \<noteq> q \<Longrightarrow> at es2 j = at ps j" for j
    using n by (auto simp: es1 es2)
  show "at es2 i = at ps i" using eq [of i] n p q by fastforce
  show "0 \<le> j \<Longrightarrow> p_inUse (at es2 j) = p_inUse (at ps j) \<and> p_key (at es2 j) = p_key (at ps j)
      \<and> p_type (at es2 j) = p_type (at ps j) \<and> p_value (at es2 j) = p_value (at ps j)"
    using n p q pq by (cases "j = p"; cases "j = q") (auto simp: es1 es2)
qed

lemma unlink_chains_ok:
  assumes c: "chains_ok g W h P" and w: "w \<in> W" and i: "i \<in> set (P w)"
    and es: "pchain es h' (remove1 i (P w))"
    and eq: "\<And>j. 0 \<le> j \<Longrightarrow> j \<notin> set (P w) \<Longrightarrow> at (props g') j = at (props g) j"
    and lnk: "\<And>j. 0 \<le> j \<Longrightarrow> nextPropId (at (props g') j) = nextPropId (at es j)
        \<and> prevPropId (at (props g') j) = prevPropId (at es j)"
    and len: "length es = length (props g)" "length (props g') = length (props g)"
    and live': "liveProps g' = liveProps g - {i}"
  shows "chains_ok g' W (h(w := h')) (P(w := removeAll i (P w)))"
proof -
  have d: "distinct (P w)" "removeAll i (P w) = remove1 i (P w)"
    using c w by (auto simp: chains_ok_def distinct_remove1_removeAll)
  have "pchain (props g') h' (removeAll i (P w))"
    using chain_cong [OF _ es] lnk len d(2) by (simp add: in_range_def)
  moreover have "pchain (props g') (h v) (P v)" if v: "v \<in> W" "v \<noteq> w" for v
  proof (rule chain_cong [of "P v" "props g"])
    show "pchain (props g) (h v) (P v)" using c v by (simp add: chains_ok_def)
    fix y assume y: "y \<in> set (P v)" "in_range (props g) y"
    have "set (P v) \<inter> set (P w) = {}" using c v w by (auto simp: chains_ok_def)
    then have "y \<notin> set (P w)" using y(1) by blast
    with y show "in_range (props g') y \<and> nextPropId (at (props g') y) = nextPropId (at (props g) y)
      \<and> prevPropId (at (props g') y) = prevPropId (at (props g) y)"
      using eq [of y] len by (auto simp: in_range_def)
  qed
  moreover have dj: "set (P v) \<inter> set (P v') = {}" if "v \<in> W" "v' \<in> W" "v \<noteq> v'" for v v'
    using c that by (auto simp: chains_ok_def)
  moreover have "set ((P(w := removeAll i (P w))) v) = set (P v) - {i}" if "v \<in> W" for v
    using dj [OF that w] i by (cases "v = w") auto
  then have "(\<Union>v\<in>W. set ((P(w := removeAll i (P w))) v)) = (\<Union>v\<in>W. set (P v)) - {i}"
    by auto
  ultimately show ?thesis
    using c d live' w by (auto simp: chains_ok_def)
qed

lemma removeProperty_ok:
  assumes g: "pool_inv g" and c: "chains_ok g W h P" and w: "w \<in> W" and i: "i \<in> set (P w)"
  obtains h' g' where "removeProperty g i (h w) = Inr (h', g')" and "pool_inv g'"
    and "chains_ok g' W (h(w := h')) (P(w := removeAll i (P w)))" and "liveProps g' = liveProps g - {i}"
    and "\<forall>j\<in>liveProps g'. pdata g' j = pdata g j" and "base g' = base g"
    and "freeProps g' = freeProps g @ [i]" and "propCap g' = propCap g" and "propData g' = propData g"
proof -
  define p where "p = prevPropId (at (props g) i)"
  define q where "q = nextPropId (at (props g) i)"
  define es1 where "es1 = (if p \<noteq> GRAPH_NONE then set_at (props g) p ((at (props g) p)\<lparr>nextPropId := q\<rparr>) else props g)"
  define es2 where "es2 = (if q \<noteq> GRAPH_NONE then set_at es1 q ((at es1 q)\<lparr>prevPropId := p\<rparr>) else es1)"
  define es3 where "es3 = set_at es2 i ((at es2 i)\<lparr>p_inUse := False\<rparr>)"
  define g' where "g' = g\<lparr>props := es3, freeProps := freeProps g @ [i]\<rparr>"
  let ?h = "if p \<noteq> GRAPH_NONE then h w else q"
  have cw: "pchain (props g) (h w) (P w)" "distinct (P w)" "set (P w) \<subseteq> liveProps g"
    using c w by (auto simp: chains_ok_def)
  note un = propChain.chain_unlink [OF cw(1,2) i p_def q_def es1_def es2_def]
  have range: "in_range (props g) j" if "j \<in> set (P w)" for j
    using that cw(3) live_prop_range [OF g] by blast
  have ir: "in_range (props g) i" "p_inUse (at (props g) i)" "i \<in> liveProps g"
    using range i cw(3) g by (auto simp: pool_inv_def)
  have pr: "p \<noteq> GRAPH_NONE \<Longrightarrow> in_range (props g) p \<and> p \<noteq> i" "q \<noteq> GRAPH_NONE \<Longrightarrow> in_range (props g) q \<and> q \<noteq> i"
    using un(2,3) range by auto
  note ue = unlink_entries [OF ir(1) pr un(4) es1_def es2_def]
  have len: "length es1 = length (props g)" by (simp add: es1_def)
  then have rm: "removeProperty g i (h w) = Inr (?h, g')"
    using ir(1,2) pr ue(1) by (simp add: removeProperty_def upd_prop_def g'_def es3_def es2_def es1_def
        p_def [symmetric] q_def [symmetric] in_range_def)
  have live': "liveProps g' = liveProps g - {i}" by (simp add: g'_def liveProps_def live_release)
  have i2: "in_range es2 i" "0 \<le> i" using ir(1) ue(1) by (simp_all add: in_range_def)
  have e3: "at es3 j = (if j = i then (at (props g) i)\<lparr>p_inUse := False\<rparr> else at es2 j)" if "0 \<le> j" for j
    using that i2 ue(2) by (auto simp: es3_def)
  have "chains_ok g' W (h(w := ?h)) (P(w := removeAll i (P w)))"
  proof (rule unlink_chains_ok [OF c w i un(1)])
    show "at (props g') j = at (props g) j" if "0 \<le> j" "j \<notin> set (P w)" for j
    proof -
      have "j \<noteq> i" "j \<noteq> p" "j \<noteq> q" using that i un(2,3) by auto
      with that ue(3) [of j] e3 [of j] show ?thesis by (simp add: g'_def)
    qed
  qed (use e3 ue(1,2) live' in \<open>auto simp: g'_def es3_def\<close>)
  moreover have "pool_inv g'"
  proof -
    have "p_inUse (at es3 j)" if "j \<in> liveProps g - {i}" for j
      using that g e3 [of j] ue(4) [of j] live_prop_nonneg [of j g] by (auto simp: pool_inv_def)
    moreover have "\<not> p_inUse (at es3 j)" if "j \<in> set (freeProps g @ [i])" for j
    proof -
      have "0 \<le> j" using that g i2 by (auto simp: pool_inv_def pool_ok_def)
      with that g e3 [of j] ue(4) [of j] show ?thesis by (auto simp: pool_inv_def)
    qed
    ultimately show ?thesis
      using g ir(3) live' ue(1) by (simp add: pool_inv_def g'_def es3_def pool_ok_release liveProps_def)
  qed
  moreover have "pdata g' j = pdata g j" if "j \<in> liveProps g'" for j
    using that live' live_prop_nonneg [OF that] e3 [of j] ue(4) [of j] by (auto simp: pdata_def g'_def)
  ultimately show thesis using that [OF rm] live' by (simp add: g'_def)
qed

end
