(* ===== verification/Pg_Refine.thy ===== *)
theory Pg_Refine
  imports Prop_Refine
begin

text \<open>
  The operations of \<open>PropertyGraph\<close> against an abstract property graph: a graph without payloads,
  the list of property identifiers of every node and relationship, and the key, type and value of
  every property.
\<close>

section \<open>Payload updates\<close>

lemma setNodePayload_repr:
  assumes r: "graph_repr g b" and n: "n \<in> liveNodes g"
    and g': "g' = g\<lparr>nodes := set_at (nodes g) n ((at (nodes g) n)\<lparr>n_payload := p\<rparr>)\<rparr>"
  shows "graph_repr g' (b\<lparr>anode := (anode b)(n \<mapsto> p)\<rparr>)"
proof -
  have ok: "stores_ok g" "nodes_repr g b" "rels_repr g b" "adj_repr g b" using r by (simp_all add: graph_repr_def)
  have nr: "in_range (nodes g) n" by (rule live_node_range [OF ok(1) n])
  have live: "liveNodes g' = liveNodes g" "liveRels g' = liveRels g" "rels g' = rels g"
    "freeNodes g' = freeNodes g" "freeRels g' = freeRels g"
    by (simp_all add: g' liveNodes_def liveRels_def)
  have at': "at (nodes g') m = (if m = n then (at (nodes g) n)\<lparr>n_payload := p\<rparr> else at (nodes g) m)" if "0 \<le> m" for m
    using that nr by (auto simp: g' dest: in_range_nonneg)
  have pos: "0 \<le> m" if "m \<in> liveNodes g \<or> m \<in> set (freeNodes g)" for m
    using that ok(1) by (auto simp: stores_ok_def pool_ok_def liveNodes_def live_def)
  have "stores_ok g'" using ok(1) by (simp add: stores_ok_def g')
  moreover have "nodes_repr g' (b\<lparr>anode := (anode b)(n \<mapsto> p)\<rparr>)"
    using ok(2) n pos at' live by (auto simp: nodes_repr_def)
  moreover have "rels_repr g' (b\<lparr>anode := (anode b)(n \<mapsto> p)\<rparr>)"
    using ok(3) live by (simp add: rels_repr_def)
  moreover have "adj_repr g' (b\<lparr>anode := (anode b)(n \<mapsto> p)\<rparr>)"
    using ok(4) live at' pos by (simp add: adj_repr_def incident_def)
  ultimately show ?thesis by (simp add: graph_repr_def)
qed

lemma setRelPayload_repr:
  assumes r: "graph_repr g b" and i: "arel b i = Some (f, t, ty, q)"
    and g': "g' = g\<lparr>rels := set_at (rels g) i ((at (rels g) i)\<lparr>r_payload := p\<rparr>)\<rparr>"
  shows "graph_repr g' (b\<lparr>arel := (arel b)(i \<mapsto> (f, t, ty, p))\<rparr>)"
proof -
  let ?b = "b\<lparr>arel := (arel b)(i \<mapsto> (f, t, ty, p))\<rparr>"
  have ok: "stores_ok g" "nodes_repr g b" "rels_repr g b" "adj_repr g b" using r by (simp_all add: graph_repr_def)
  have il: "i \<in> liveRels g" using ok(3) i by (auto simp: rels_repr_def)
  have ir: "in_range (rels g) i" by (rule live_rel_range [OF ok(1) il])
  have core: "rel_core (at (rels g) i) = (f, t, ty, q)" using ok(3) i il by (auto simp: rels_repr_def)
  have live: "liveNodes g' = liveNodes g" "liveRels g' = liveRels g" "nodes g' = nodes g"
    "freeNodes g' = freeNodes g" "freeRels g' = freeRels g"
    by (simp_all add: g' liveNodes_def liveRels_def)
  have at': "at (rels g') m = (if m = i then (at (rels g) i)\<lparr>r_payload := p\<rparr> else at (rels g) m)" if "0 \<le> m" for m
    using that ir by (auto simp: g' dest: in_range_nonneg)
  have pos: "0 \<le> m" if "m \<in> liveRels g \<or> m \<in> set (freeRels g)" for m
    using that ok(1) by (auto simp: stores_ok_def pool_ok_def liveRels_def live_def)
  have "stores_ok g'" using ok(1) by (simp add: stores_ok_def g')
  moreover have "nodes_repr g' ?b" using ok(2) live by (simp add: nodes_repr_def)
  moreover have "rels_repr g' ?b"
    using ok(3) il pos at' live core by (auto simp: rels_repr_def rel_core_def)
  moreover have inc: "incident ?b n = incident b n" for n
    using i by (auto simp: incident_def)
  have "nchain (rels g') n h xs" if "nchain (rels g) n h xs" for n h xs
  proof -
    have "chain (relNext n) (relPrev n) (rels g') GRAPH_NONE h xs"
      by (rule chain_cong [of xs "rels g"])
         (use that at' g' in \<open>auto simp: nchain_def in_range_def relNext_def relPrev_def\<close>)
    moreover have "touches n (at (rels g') x)" if x: "x \<in> set xs" for x
    proof -
      have "touches n (at (rels g) x)" "0 \<le> x"
        using x \<open>nchain (rels g) n h xs\<close> by (auto simp: nchain_def dest: chain_nonneg)
      with at' [of x] show ?thesis by (cases "x = i") (simp_all add: touches_def)
    qed
    ultimately show ?thesis using that by (simp add: nchain_def)
  qed
  then have "adj_repr g' ?b" using ok(4) live inc by (simp add: adj_repr_def)
  ultimately show ?thesis by (simp add: graph_repr_def)
qed

section \<open>Abstract property graph\<close>

record apgraph =
  ag :: "(unit, unit) agraph"
  aprops :: "owner \<Rightarrow> int list"
  apval :: "int \<Rightarrow> int \<times> int \<times> int"

definition forget :: "('n, 'r) agraph \<Rightarrow> (unit, unit) agraph" where
  "forget b = \<lparr>anode = (\<lambda>n. map_option (\<lambda>_. ()) (anode b n)),
     arel = (\<lambda>i. map_option (\<lambda>(f, t, ty, p). (f, t, ty, ())) (arel b i)), aadj = aadj b\<rparr>"

definition owners :: "('n, 'r) agraph \<Rightarrow> owner set" where
  "owners b = NodeOwner ` dom (anode b) \<union> RelOwner ` dom (arel b)"

fun head :: "(int, int) agraph \<Rightarrow> owner \<Rightarrow> int" where
  "head b (NodeOwner n) = (case anode b n of Some p \<Rightarrow> p | None \<Rightarrow> GRAPH_NONE)"
| "head b (RelOwner i) = (case arel b i of Some (f, t, ty, p) \<Rightarrow> p | None \<Rightarrow> GRAPH_NONE)"

definition pg_repr :: "pgraph \<Rightarrow> apgraph \<Rightarrow> bool" where
  "pg_repr g A \<longleftrightarrow> pool_inv g
     \<and> (\<exists>b. graph_repr (base g) b \<and> forget b = ag A \<and> chains_ok g (owners b) (head b) (aprops A))
     \<and> (\<forall>i\<in>liveProps g. apval A i = pdata g i)"

definition ap_empty :: apgraph where
  "ap_empty = \<lparr>ag = a_empty, aprops = (\<lambda>_. []), apval = (\<lambda>_. (0, 0, 0))\<rparr>"

definition ap_addNode :: "int \<Rightarrow> apgraph \<Rightarrow> apgraph" where
  "ap_addNode i A = A\<lparr>ag := a_addNode i () (ag A), aprops := (aprops A)(NodeOwner i := [])\<rparr>"

definition ap_addRel :: "int \<Rightarrow> int \<Rightarrow> int \<Rightarrow> int \<Rightarrow> apgraph \<Rightarrow> apgraph" where
  "ap_addRel i f t ty A = A\<lparr>ag := a_addRel i f t ty () (ag A), aprops := (aprops A)(RelOwner i := [])\<rparr>"

definition ap_addProp :: "owner \<Rightarrow> int \<Rightarrow> int \<times> int \<times> int \<Rightarrow> apgraph \<Rightarrow> apgraph" where
  "ap_addProp w i kv A = A\<lparr>aprops := (aprops A)(w := i # aprops A w), apval := (apval A)(i := kv)\<rparr>"

definition ap_removeProp :: "owner \<Rightarrow> int \<Rightarrow> apgraph \<Rightarrow> apgraph" where
  "ap_removeProp w i A = A\<lparr>aprops := (aprops A)(w := removeAll i (aprops A w))\<rparr>"

definition ap_setValue :: "int \<Rightarrow> int \<Rightarrow> apgraph \<Rightarrow> apgraph" where
  "ap_setValue i v A = A\<lparr>apval := (apval A)(i := (case apval A i of (k, t, _) \<Rightarrow> (k, t, v)))\<rparr>"

definition ap_removeRel :: "int \<Rightarrow> apgraph \<Rightarrow> apgraph" where
  "ap_removeRel i A = A\<lparr>ag := a_removeRel i (ag A)\<rparr>"

definition ap_removeNode :: "int \<Rightarrow> apgraph \<Rightarrow> apgraph" where
  "ap_removeNode n A = A\<lparr>ag := a_removeNode n (ag A)\<rparr>"

lemma forget_simps:
  "forget a_empty = a_empty"
  "forget (a_addNode i p b) = a_addNode i () (forget b)"
  "forget (a_addRel i f t ty q b) = a_addRel i f t ty () (forget b)"
  "forget (a_removeRel i b) = a_removeRel i (forget b)"
  "forget (a_removeNode n b) = a_removeNode n (forget b)"
  by (auto simp: forget_def a_empty_def a_addNode_def a_addRel_def a_removeRel_def a_removeNode_def
      fun_eq_iff restrict_map_def)

lemma forget_payload:
  "anode b n = Some p' \<Longrightarrow> forget (b\<lparr>anode := (anode b)(n \<mapsto> p)\<rparr>) = forget b"
  "arel b i = Some (f, t, ty, q') \<Longrightarrow> forget (b\<lparr>arel := (arel b)(i \<mapsto> (f, t, ty, q))\<rparr>) = forget b"
  by (auto simp: forget_def fun_eq_iff)

lemma owners_forget: "owners (forget b) = owners b"
  by (force simp: owners_def forget_def dom_def)

lemma owners_iff [simp]:
  "NodeOwner n \<in> owners b \<longleftrightarrow> n \<in> dom (anode b)" "RelOwner i \<in> owners b \<longleftrightarrow> i \<in> dom (arel b)"
  by (auto simp: owners_def)

lemma repr_doms: "graph_repr g b \<Longrightarrow> dom (anode b) = liveNodes g \<and> dom (arel b) = liveRels g"
  by (simp add: repr_defs)

lemma node_live_in: "graph_repr h b \<Longrightarrow> n \<in> liveNodes h \<Longrightarrow> node h n = Inr (at (nodes h) n)"
  using live_node_range [of h n]
  by (auto simp: node_def graph_repr_def liveNodes_def live_def)

lemma rel_live_in: "graph_repr h b \<Longrightarrow> i \<in> liveRels h \<Longrightarrow> rel h i = Inr (at (rels h) i)"
  using live_rel_range [of h i] by (auto simp: rel_def graph_repr_def liveRels_def live_def)

lemma node_payload: "graph_repr h b \<Longrightarrow> n \<in> liveNodes h \<Longrightarrow> n_payload (at (nodes h) n) = head b (NodeOwner n)"
  by (simp add: graph_repr_def nodes_repr_def)

lemma rel_payload: "graph_repr h b \<Longrightarrow> i \<in> liveRels h \<Longrightarrow> r_payload (at (rels h) i) = head b (RelOwner i)"
  by (simp add: graph_repr_def rels_repr_def rel_core_def)

section \<open>Refinement of the operations\<close>

lemma pg_reprE:
  assumes "pg_repr g A"
  obtains b where "pool_inv g" "graph_repr (base g) b" "forget b = ag A"
    "chains_ok g (owners b) (head b) (aprops A)" "\<And>i. i \<in> liveProps g \<Longrightarrow> apval A i = pdata g i"
  using assms by (auto simp: pg_repr_def)

lemma pg_reprI:
  "pool_inv g \<Longrightarrow> graph_repr (base g) b \<Longrightarrow> forget b = ag A \<Longrightarrow> chains_ok g (owners b) (head b) (aprops A)
   \<Longrightarrow> (\<And>i. i \<in> liveProps g \<Longrightarrow> apval A i = pdata g i) \<Longrightarrow> pg_repr g A"
  by (auto simp: pg_repr_def)

lemma props_rebase [simp]:
  "pool_inv (g\<lparr>base := h\<rparr>) = pool_inv g" "chains_ok (g\<lparr>base := h\<rparr>) W f P = chains_ok g W f P"
  "liveProps (g\<lparr>base := h\<rparr>) = liveProps g" "pdata (g\<lparr>base := h\<rparr>) = pdata g"
  by (simp_all add: pool_inv_def chains_ok_def liveProps_def pdata_def fun_eq_iff)

lemma head_update [simp]:
  "head (a_addNode i p b) = (head b)(NodeOwner i := p)"
  "head (a_addRel i f t ty p b) = (head b)(RelOwner i := p)"
  "head (b\<lparr>anode := (anode b)(i \<mapsto> p)\<rparr>) = (head b)(NodeOwner i := p)"
  "head (b\<lparr>arel := (arel b)(i \<mapsto> (f, t, ty, p))\<rparr>) = (head b)(RelOwner i := p)"
proof -
  have "f = g" if "\<And>n. f (NodeOwner n) = g (NodeOwner n)" "\<And>i. f (RelOwner i) = g (RelOwner i)"
    for f g :: "owner \<Rightarrow> int" using that by (metis owner.exhaust ext)
  note eq = this
  show "head (a_addNode i p b) = (head b)(NodeOwner i := p)"
    "head (a_addRel i f t ty p b) = (head b)(RelOwner i := p)"
    "head (b\<lparr>anode := (anode b)(i \<mapsto> p)\<rparr>) = (head b)(NodeOwner i := p)"
    "head (b\<lparr>arel := (arel b)(i \<mapsto> (f, t, ty, p))\<rparr>) = (head b)(RelOwner i := p)"
    by (rule eq; simp add: a_addNode_def a_addRel_def)+
qed

lemma owners_update [simp]:
  "owners (a_addNode i p b) = insert (NodeOwner i) (owners b)"
  "owners (a_addRel i f t ty p b) = insert (RelOwner i) (owners b)"
  "owners (b\<lparr>anode := (anode b)(i \<mapsto> p)\<rparr>) = insert (NodeOwner i) (owners b)"
  "owners (b\<lparr>arel := (arel b)(i \<mapsto> (f, t, ty, p))\<rparr>) = insert (RelOwner i) (owners b)"
  by (auto simp: owners_def a_addNode_def a_addRel_def)

lemma owners_empty [simp]: "owners a_empty = {}"
  by (simp add: owners_def a_empty_def)

lemma mk_pgraph_repr: "mk_pgraph nc rc pc = Inr g \<Longrightarrow> pg_repr g ap_empty"
  by (rule pg_reprI [of _ a_empty])
    (auto simp: mk_pgraph_def bindE_eq_Inr_iff mk_graph_repr pool_inv_def liveProps_def ap_empty_def
      forget_simps chains_ok_def split: if_splits)

lemma pg_addNode_repr:
  assumes "pg_repr g A" and room: "liveNodes (base g) \<noteq> {0..<nodeCap (base g)}"
  obtains i g' where "pg_addNode g = Inr (i, g')" and "pg_repr g' (ap_addNode i A)"
proof -
  obtain b where b: "pool_inv g" "graph_repr (base g) b" "forget b = ag A"
    "chains_ok g (owners b) (head b) (aprops A)" "\<And>i. i \<in> liveProps g \<Longrightarrow> apval A i = pdata g i"
    using pg_reprE [OF assms(1)] by blast
  obtain i h where h: "addNode (base g) GRAPH_NONE = Inr (i, h)" "i \<notin> liveNodes (base g)"
    "liveNodes h = insert i (liveNodes (base g))" "graph_repr h (a_addNode i GRAPH_NONE b)"
    using addNode_repr [OF b(2) room] by metis
  have i: "i \<in> liveNodes h" using h(3) by simp
  have "n_inUse (at (nodes h) i)" using h(4) i by (simp add: graph_repr_def nodes_repr_def)
  then have noop: "(at (nodes h) i)\<lparr>n_inUse := True\<rparr> = at (nodes h) i" by simp
  have add: "pg_addNode g = Inr (i, g\<lparr>base := h\<rparr>)"
    using h(1) node_live_in [OF h(4) i] live_node_range [OF _ i] h(4) noop
    by (simp add: pg_addNode_def pg_upd_node_def upd_node_def graph_repr_def)
  have "NodeOwner i \<notin> owners b" using h(2) repr_doms [OF b(2)] by simp
  from chains_ok_new [OF b(4) this] have "pg_repr (g\<lparr>base := h\<rparr>) (ap_addNode i A)"
    using b(1,3,5) h(4) by (intro pg_reprI [of _ "a_addNode i GRAPH_NONE b"]) (simp_all add: ap_addNode_def forget_simps)
  with add show thesis using that by blast
qed

lemma pg_addRelationship_repr:
  assumes "pg_repr g A" and room: "liveRels (base g) \<noteq> {0..<relCap (base g)}"
    and ends: "from \<in> liveNodes (base g)" "to \<in> liveNodes (base g)"
  obtains i g' where "pg_addRelationship g from to ty = Inr (i, g')"
    and "pg_repr g' (ap_addRel i from to (to_i32 ty) A)"
proof -
  obtain b where b: "pool_inv g" "graph_repr (base g) b" "forget b = ag A"
    "chains_ok g (owners b) (head b) (aprops A)" "\<And>i. i \<in> liveProps g \<Longrightarrow> apval A i = pdata g i"
    using pg_reprE [OF assms(1)] by blast
  obtain i h where h: "addRelationship (base g) from to ty GRAPH_NONE = Inr (i, h)" "i \<notin> liveRels (base g)"
    "graph_repr h (a_addRel i from to (to_i32 ty) GRAPH_NONE b)"
    using addRelationship_repr [OF b(2) room ends] by metis
  let ?b = "a_addRel i from to (to_i32 ty) GRAPH_NONE b"
  have add: "pg_addRelationship g from to ty = Inr (i, g\<lparr>base := h\<rparr>)"
    using h(1) by (simp add: pg_addRelationship_def)
  have "RelOwner i \<notin> owners b" using h(2) repr_doms [OF b(2)] by simp
  from chains_ok_new [OF b(4) this] have "pg_repr (g\<lparr>base := h\<rparr>) (ap_addRel i from to (to_i32 ty) A)"
    using b(1,3,5) h(3) by (intro pg_reprI [of _ ?b]) (simp_all add: ap_addRel_def forget_simps)
  with add show thesis using that by blast
qed

text \<open>Storing a new chain head in the payload of the owner.\<close>

lemma pg_upd_node_payload:
  assumes "graph_repr (base g) b" and "n \<in> liveNodes (base g)"
  obtains h where "pg_upd_node g n (\<lambda>e. e\<lparr>n_payload := p\<rparr>) = Inr (g\<lparr>base := h\<rparr>)"
    and "graph_repr h (b\<lparr>anode := (anode b)(n \<mapsto> p)\<rparr>)"
    and "rels h = rels (base g)" and "liveNodes h = liveNodes (base g)"
proof -
  let ?h = "(base g)\<lparr>nodes := set_at (nodes (base g)) n ((at (nodes (base g)) n)\<lparr>n_payload := p\<rparr>)\<rparr>"
  have "in_range (nodes (base g)) n" using assms live_node_range by (auto simp: graph_repr_def)
  then have "pg_upd_node g n (\<lambda>e. e\<lparr>n_payload := p\<rparr>) = Inr (g\<lparr>base := ?h\<rparr>)"
    using node_live_in [OF assms] by (simp add: pg_upd_node_def upd_node_def)
  moreover have "graph_repr ?h (b\<lparr>anode := (anode b)(n \<mapsto> p)\<rparr>)"
    by (rule setNodePayload_repr [OF assms refl])
  ultimately show thesis using that by (simp add: liveNodes_def)
qed

lemma pg_upd_rel_payload:
  assumes "graph_repr (base g) b" and "arel b i = Some (f, t, ty, q)"
  obtains h where "pg_upd_rel g i (\<lambda>e. e\<lparr>r_payload := p\<rparr>) = Inr (g\<lparr>base := h\<rparr>)"
    and "graph_repr h (b\<lparr>arel := (arel b)(i \<mapsto> (f, t, ty, p))\<rparr>)"
    and "h = (base g)\<lparr>rels := set_at (rels (base g)) i ((at (rels (base g)) i)\<lparr>r_payload := p\<rparr>)\<rparr>"
proof -
  let ?h = "(base g)\<lparr>rels := set_at (rels (base g)) i ((at (rels (base g)) i)\<lparr>r_payload := p\<rparr>)\<rparr>"
  have i: "i \<in> liveRels (base g)" using assms(2) repr_doms [OF assms(1)] by (metis domI)
  then have "in_range (rels (base g)) i" using assms live_rel_range by (auto simp: graph_repr_def)
  then have "pg_upd_rel g i (\<lambda>e. e\<lparr>r_payload := p\<rparr>) = Inr (g\<lparr>base := ?h\<rparr>)"
    using rel_live_in [OF assms(1) i] by (simp add: pg_upd_rel_def upd_rel_def)
  moreover have "graph_repr ?h (b\<lparr>arel := (arel b)(i \<mapsto> (f, t, ty, p))\<rparr>)"
    by (rule setRelPayload_repr [OF assms refl])
  ultimately show thesis using that by blast
qed

lemma addNodeProperty_repr:
  assumes "pg_repr g A" and room: "liveProps g \<noteq> {0..<propCap g}" and n: "n \<in> liveNodes (base g)"
  obtains i g' where "addNodeProperty g n k t v = Inr (i, g')" and "i \<notin> liveProps g"
    and "pg_repr g' (ap_addProp (NodeOwner n) i (k, t, v) A)"
proof -
  obtain b where b: "pool_inv g" "graph_repr (base g) b" "forget b = ag A"
    "chains_ok g (owners b) (head b) (aprops A)" "\<And>i. i \<in> liveProps g \<Longrightarrow> apval A i = pdata g i"
    using pg_reprE [OF assms(1)] by blast
  have w: "NodeOwner n \<in> owners b" using repr_doms [OF b(2)] n by simp
  obtain i g1 where g1: "addPropertyToChain g (head b (NodeOwner n)) k t v = Inr ((i, i), g1)"
    "i \<notin> liveProps g" "liveProps g1 = insert i (liveProps g)" "pool_inv g1"
    "chains_ok g1 (owners b) ((head b)(NodeOwner n := i)) ((aprops A)(NodeOwner n := i # aprops A (NodeOwner n)))"
    "pdata g1 i = (k, t, v)" "\<forall>j\<in>liveProps g. pdata g1 j = pdata g j" "base g1 = base g"
    "propCap g1 = propCap g" "propData g1 = propData g"
    using addPropertyToChain_ok [OF b(1,4) w room, of k t v] .
  obtain h where h: "pg_upd_node g1 n (\<lambda>e. e\<lparr>n_payload := i\<rparr>) = Inr (g1\<lparr>base := h\<rparr>)"
    "graph_repr h (b\<lparr>anode := (anode b)(n \<mapsto> i)\<rparr>)"
    using pg_upd_node_payload [of g1 b n i] b(2) n g1(8) by auto
  have "addNodeProperty g n k t v = Inr (i, g1\<lparr>base := h\<rparr>)"
    using g1(1) h(1) node_live_in [OF b(2) n] node_payload [OF b(2) n] by (simp add: addNodeProperty_def)
  moreover have "forget (b\<lparr>anode := (anode b)(n \<mapsto> i)\<rparr>) = forget b" using w forget_payload(1) by fastforce
  then have "pg_repr (g1\<lparr>base := h\<rparr>) (ap_addProp (NodeOwner n) i (k, t, v) A)"
    using b(3,5) w g1(2-7) h(2)
    by (intro pg_reprI [of _ "b\<lparr>anode := (anode b)(n \<mapsto> i)\<rparr>"]) (auto simp: ap_addProp_def insert_absorb)
  ultimately show thesis using that g1(2) by blast
qed

lemma addRelProperty_repr:
  assumes "pg_repr g A" and room: "liveProps g \<noteq> {0..<propCap g}" and r: "r \<in> liveRels (base g)"
  obtains i g' where "addRelProperty g r k t v = Inr (i, g')" and "i \<notin> liveProps g"
    and "pg_repr g' (ap_addProp (RelOwner r) i (k, t, v) A)"
proof -
  obtain b where b: "pool_inv g" "graph_repr (base g) b" "forget b = ag A"
    "chains_ok g (owners b) (head b) (aprops A)" "\<And>i. i \<in> liveProps g \<Longrightarrow> apval A i = pdata g i"
    using pg_reprE [OF assms(1)] by blast
  have w: "RelOwner r \<in> owners b" using repr_doms [OF b(2)] r by simp
  then obtain f u ty q where ar: "arel b r = Some (f, u, ty, q)" by auto
  obtain i g1 where g1: "addPropertyToChain g (head b (RelOwner r)) k t v = Inr ((i, i), g1)"
    "i \<notin> liveProps g" "liveProps g1 = insert i (liveProps g)" "pool_inv g1"
    "chains_ok g1 (owners b) ((head b)(RelOwner r := i)) ((aprops A)(RelOwner r := i # aprops A (RelOwner r)))"
    "pdata g1 i = (k, t, v)" "\<forall>j\<in>liveProps g. pdata g1 j = pdata g j" "base g1 = base g"
    "propCap g1 = propCap g" "propData g1 = propData g"
    using addPropertyToChain_ok [OF b(1,4) w room, of k t v] .
  obtain h where h: "pg_upd_rel g1 r (\<lambda>e. e\<lparr>r_payload := i\<rparr>) = Inr (g1\<lparr>base := h\<rparr>)"
    "graph_repr h (b\<lparr>arel := (arel b)(r \<mapsto> (f, u, ty, i))\<rparr>)"
    using pg_upd_rel_payload [of g1 b r f u ty q i] b(2) ar g1(8) by auto
  have "addRelProperty g r k t v = Inr (i, g1\<lparr>base := h\<rparr>)"
    using g1(1) h(1) rel_live_in [OF b(2) r] rel_payload [OF b(2) r] by (simp add: addRelProperty_def)
  moreover have "pg_repr (g1\<lparr>base := h\<rparr>) (ap_addProp (RelOwner r) i (k, t, v) A)"
    using b(3,5) w g1(2-7) h(2) forget_payload(2) [OF ar]
    by (intro pg_reprI [of _ "b\<lparr>arel := (arel b)(r \<mapsto> (f, u, ty, i))\<rparr>"]) (auto simp: ap_addProp_def insert_absorb)
  ultimately show thesis using that g1(2) by blast
qed

lemma removeNodeProperty_repr:
  assumes "pg_repr g A" and n: "n \<in> liveNodes (base g)" and i: "i \<in> set (aprops A (NodeOwner n))"
  obtains g' where "removeNodeProperty g n i = Inr g'" and "pg_repr g' (ap_removeProp (NodeOwner n) i A)"
    and "freeProps g' = freeProps g @ [i]"
proof -
  obtain b where b: "pool_inv g" "graph_repr (base g) b" "forget b = ag A"
    "chains_ok g (owners b) (head b) (aprops A)" "\<And>i. i \<in> liveProps g \<Longrightarrow> apval A i = pdata g i"
    using pg_reprE [OF assms(1)] by blast
  have w: "NodeOwner n \<in> owners b" using repr_doms [OF b(2)] n by simp
  obtain c g1 where g1: "removeProperty g i (head b (NodeOwner n)) = Inr (c, g1)" "pool_inv g1"
    "chains_ok g1 (owners b) ((head b)(NodeOwner n := c)) ((aprops A)(NodeOwner n := removeAll i (aprops A (NodeOwner n))))"
    "liveProps g1 = liveProps g - {i}" "\<forall>j\<in>liveProps g1. pdata g1 j = pdata g j" "base g1 = base g"
    "freeProps g1 = freeProps g @ [i]"
    using removeProperty_ok [OF b(1,4) w i] .
  obtain h where h: "pg_upd_node g1 n (\<lambda>e. e\<lparr>n_payload := c\<rparr>) = Inr (g1\<lparr>base := h\<rparr>)"
    "graph_repr h (b\<lparr>anode := (anode b)(n \<mapsto> c)\<rparr>)"
    using pg_upd_node_payload [of g1 b n c] b(2) n g1(6) by auto
  have "removeNodeProperty g n i = Inr (g1\<lparr>base := h\<rparr>)"
    using g1(1) h(1) node_live_in [OF b(2) n] node_payload [OF b(2) n] by (simp add: removeNodeProperty_def)
  moreover have "forget (b\<lparr>anode := (anode b)(n \<mapsto> c)\<rparr>) = forget b" using w forget_payload(1) by fastforce
  then have "pg_repr (g1\<lparr>base := h\<rparr>) (ap_removeProp (NodeOwner n) i A)"
    using b(3,5) w g1(2-5) h(2)
    by (intro pg_reprI [of _ "b\<lparr>anode := (anode b)(n \<mapsto> c)\<rparr>"]) (auto simp: ap_removeProp_def insert_absorb)
  ultimately show thesis using that g1(7) by simp
qed

lemma removeRelProperty_repr:
  assumes "pg_repr g A" and r: "r \<in> liveRels (base g)" and i: "i \<in> set (aprops A (RelOwner r))"
  obtains g' where "removeRelProperty g r i = Inr g'" and "pg_repr g' (ap_removeProp (RelOwner r) i A)"
    and "freeProps g' = freeProps g @ [i]"
proof -
  obtain b where b: "pool_inv g" "graph_repr (base g) b" "forget b = ag A"
    "chains_ok g (owners b) (head b) (aprops A)" "\<And>i. i \<in> liveProps g \<Longrightarrow> apval A i = pdata g i"
    using pg_reprE [OF assms(1)] by blast
  have w: "RelOwner r \<in> owners b" using repr_doms [OF b(2)] r by simp
  then obtain f u ty q where ar: "arel b r = Some (f, u, ty, q)" by auto
  obtain c g1 where g1: "removeProperty g i (head b (RelOwner r)) = Inr (c, g1)" "pool_inv g1"
    "chains_ok g1 (owners b) ((head b)(RelOwner r := c)) ((aprops A)(RelOwner r := removeAll i (aprops A (RelOwner r))))"
    "liveProps g1 = liveProps g - {i}" "\<forall>j\<in>liveProps g1. pdata g1 j = pdata g j" "base g1 = base g"
    "freeProps g1 = freeProps g @ [i]"
    using removeProperty_ok [OF b(1,4) w i] .
  obtain h where h: "pg_upd_rel g1 r (\<lambda>e. e\<lparr>r_payload := c\<rparr>) = Inr (g1\<lparr>base := h\<rparr>)"
    "graph_repr h (b\<lparr>arel := (arel b)(r \<mapsto> (f, u, ty, c))\<rparr>)"
    using pg_upd_rel_payload [of g1 b r f u ty q c] b(2) ar g1(6) by auto
  have "removeRelProperty g r i = Inr (g1\<lparr>base := h\<rparr>)"
    using g1(1) h(1) rel_live_in [OF b(2) r] rel_payload [OF b(2) r] by (simp add: removeRelProperty_def)
  moreover have "pg_repr (g1\<lparr>base := h\<rparr>) (ap_removeProp (RelOwner r) i A)"
    using b(3,5) w g1(2-5) h(2) forget_payload(2) [OF ar]
    by (intro pg_reprI [of _ "b\<lparr>arel := (arel b)(r \<mapsto> (f, u, ty, c))\<rparr>"]) (auto simp: ap_removeProp_def insert_absorb)
  ultimately show thesis using that g1(7) by simp
qed

lemma setPropertyValue_repr:
  assumes "pg_repr g A" and i: "i \<in> liveProps g"
  obtains g' where "setPropertyValue g i v = Inr g'" and "pg_repr g' (ap_setValue i v A)"
proof -
  obtain b where b: "pool_inv g" "graph_repr (base g) b" "forget b = ag A"
    "chains_ok g (owners b) (head b) (aprops A)" "\<And>i. i \<in> liveProps g \<Longrightarrow> apval A i = pdata g i"
    using pg_reprE [OF assms(1)] by blast
  define g' where "g' = g\<lparr>props := set_at (props g) i ((at (props g) i)\<lparr>p_value := v\<rparr>)\<rparr>"
  have ir: "in_range (props g) i" by (rule live_prop_range [OF b(1) i])
  then have "setPropertyValue g i v = Inr g'" by (simp add: setPropertyValue_def upd_prop_def g'_def)
  moreover have at': "at (props g') j = (if j = i then (at (props g) i)\<lparr>p_value := v\<rparr> else at (props g) j)" if "0 \<le> j" for j
    using that ir by (auto simp: g'_def dest: in_range_nonneg)
  have fr: "liveProps g' = liveProps g" "base g' = base g" "freeProps g' = freeProps g" "propMark g' = propMark g"
    "propCap g' = propCap g" "length (props g') = length (props g)" by (simp_all add: g'_def liveProps_def)
  have pos: "0 \<le> j" if "j \<in> liveProps g \<or> j \<in> set (freeProps g)" for j
    using that b(1) by (auto simp: pool_inv_def pool_ok_def liveProps_def live_def)
  have "pool_inv g'" using b(1) at' fr pos by (simp add: pool_inv_def)
  moreover have "pchain (props g') h xs" if "pchain (props g) h xs" for h xs
    by (rule chain_cong [OF _ that]) (use at' fr in \<open>auto simp: in_range_def\<close>)
  then have "chains_ok g' (owners b) (head b) (aprops A)" using b(4) fr by (simp add: chains_ok_def)
  moreover have "apval (ap_setValue i v A) j = pdata g' j" if "j \<in> liveProps g'" for j
    using that b(5) at' [of j] fr pos [of j] by (cases "j = i") (auto simp: ap_setValue_def pdata_def)
  ultimately show thesis
    using that pg_reprI [of g' b "ap_setValue i v A"] b(2,3) fr by (simp add: ap_setValue_def)
qed

lemma pg_removeRelationship_repr:
  assumes "pg_repr g A" and r: "r \<in> liveRels (base g)"
  obtains g' where "pg_removeRelationship g r = Some (Inr g')" and "pg_repr g' (ap_removeRel r A)"
    and "freeProps g' = freeProps g @ aprops A (RelOwner r)"
proof -
  obtain b where b: "pool_inv g" "graph_repr (base g) b" "forget b = ag A"
    "chains_ok g (owners b) (head b) (aprops A)" "\<And>i. i \<in> liveProps g \<Longrightarrow> apval A i = pdata g i"
    using pg_reprE [OF assms(1)] by blast
  have w: "RelOwner r \<in> owners b" using repr_doms [OF b(2)] r by simp
  define g1 where "g1 = released g (aprops A (RelOwner r))"
  note fc = freeChain_ok [OF b(1,4) w, folded g1_def]
  obtain h where h: "removeRelationship (base g) r = Inr h" "graph_repr h (a_removeRel r b)"
    using removeRelationship_repr [OF b(2) r] .
  have "pg_removeRelationship g r = Some (Inr (g1\<lparr>base := h\<rparr>))"
    using fc(1) h(1) rel_live_in [OF b(2) r] rel_payload [OF b(2) r]
    by (simp add: pg_removeRelationship_def g1_def)
  moreover have "owners (a_removeRel r b) = owners b - {RelOwner r}"
    by (auto simp: owners_def a_removeRel_def)
  moreover have "head (a_removeRel r b) w' = head b w'" if "w' \<in> owners b - {RelOwner r}" for w'
    using that by (cases w') (auto simp: a_removeRel_def)
  ultimately have "chains_ok g1 (owners (a_removeRel r b)) (head (a_removeRel r b)) (aprops A)"
    using chains_ok_cong [OF fc(3)] by simp
  then have "pg_repr (g1\<lparr>base := h\<rparr>) (ap_removeRel r A)"
    using b(3,5) fc(2,4) h(2)
    by (intro pg_reprI [of _ "a_removeRel r b"]) (auto simp: ap_removeRel_def forget_simps g1_def)
  with \<open>pg_removeRelationship g r = _\<close> show thesis using that by (simp add: g1_def)
qed

text \<open>The first loop of \<open>removeNode\<close> releases the chains of the incident relationships.\<close>

lemma freeRelChains_ok:
  assumes "graph_repr (base g) b" and "pool_inv g" and "chains_ok g W (head b) P"
    and "RelOwner ` set xs \<subseteq> W" and "set xs \<subseteq> dom (arel b)" and "distinct xs"
    and "chain (relNext n) (relPrev n) (rels (base g)) p cur xs"
  shows "\<exists>g' b'. freeRelChains g n cur = Some (Inr g') \<and> graph_repr (base g') b' \<and> forget b' = forget b
    \<and> anode b' = anode b \<and> pool_inv g' \<and> chains_ok g' (W - RelOwner ` set xs) (head b') P
    \<and> (\<forall>i\<in>liveProps g'. i \<in> liveProps g \<and> pdata g' i = pdata g i)
    \<and> freeProps g' = freeProps g @ concat (map (\<lambda>x. P (RelOwner x)) xs)"
  using assms
proof (induction xs arbitrary: g b p cur W)
  case Nil
  then show ?case by (auto simp: freeRelChains.simps)
next
  case (Cons x xs)
  have w: "RelOwner x \<in> W" and x: "cur = x" "x \<notin> set xs" "in_range (rels (base g)) x" "distinct xs" "0 \<le> x"
    and rest: "chain (relNext n) (relPrev n) (rels (base g)) x (relNext n (at (rels (base g)) x)) xs"
    using Cons.prems(4,6,7) by (auto dest: in_range_nonneg)
  obtain f t ty q where ar: "arel b x = Some (f, t, ty, q)" using Cons.prems(5) by auto
  have xl: "x \<in> liveRels (base g)" using Cons.prems(5) repr_doms [OF Cons.prems(1)] by auto
  define g1 where "g1 = released g (P (RelOwner x))"
  note fc = freeChain_ok [OF Cons.prems(2,3) w, folded g1_def]
  let ?b = "b\<lparr>arel := (arel b)(x \<mapsto> (f, t, ty, GRAPH_NONE))\<rparr>"
  obtain h where h: "pg_upd_rel g1 x (\<lambda>e. e\<lparr>r_payload := GRAPH_NONE\<rparr>) = Inr (g1\<lparr>base := h\<rparr>)" "graph_repr h ?b"
    "h = (base g1)\<lparr>rels := set_at (rels (base g1)) x ((at (rels (base g1)) x)\<lparr>r_payload := GRAPH_NONE\<rparr>)\<rparr>"
    using pg_upd_rel_payload [of g1 b x f t ty q GRAPH_NONE] Cons.prems(1) ar by (auto simp: g1_def)
  let ?g = "g1\<lparr>base := h\<rparr>"
  have step: "freeRelChains g n cur = freeRelChains ?g n (relNext n (at (rels (base g)) x))"
    using x(1,5) fc(1) h(1) rel_live_in [OF Cons.prems(1) xl] rel_payload [OF Cons.prems(1) xl]
    by (simp add: freeRelChains.simps [of g])
  have "chains_ok g1 (W - {RelOwner x}) ((head b)(RelOwner x := GRAPH_NONE)) P"
    by (rule chains_ok_cong [OF fc(3)]) auto
  then have ch: "chains_ok ?g (W - {RelOwner x}) (head ?b) P" by simp
  have "rels h = set_at (rels (base g)) x ((at (rels (base g)) x)\<lparr>r_payload := GRAPH_NONE\<rparr>)"
    by (simp add: h(3) g1_def)
  then have rest': "chain (relNext n) (relPrev n) (rels (base ?g)) x (relNext n (at (rels (base g)) x)) xs"
    using chain_set_at_outside [OF x(2,5) rest] by simp
  have sub: "RelOwner ` set xs \<subseteq> W - {RelOwner x}" "set xs \<subseteq> dom (arel ?b)"
    using Cons.prems(4,5) x(2) by auto
  obtain g' b' where g': "freeRelChains ?g n (relNext n (at (rels (base g)) x)) = Some (Inr g')"
    "graph_repr (base g') b'" "forget b' = forget ?b" "anode b' = anode b" "pool_inv g'"
    "chains_ok g' (W - {RelOwner x} - RelOwner ` set xs) (head b') P"
    "\<forall>i\<in>liveProps g'. i \<in> liveProps g1 \<and> pdata g' i = pdata g1 i"
    "freeProps g' = freeProps g1 @ concat (map (\<lambda>x. P (RelOwner x)) xs)"
    using Cons.IH [OF _ _ ch sub x(4) rest'] h(2) fc(2) by auto
  moreover have "W - RelOwner ` set (x # xs) = W - {RelOwner x} - RelOwner ` set xs" by auto
  moreover have "forget ?b = forget b" by (rule forget_payload(2) [OF ar])
  moreover have "\<forall>i\<in>liveProps g1. i \<in> liveProps g \<and> pdata g1 i = pdata g i"
    using fc(4) by (simp add: g1_def)
  ultimately show ?case
    using step by (intro exI [of _ g'] exI [of _ b']) (simp add: g1_def)
qed

lemma forget_sel [simp]: "aadj (forget b) = aadj b" "dom (arel (forget b)) = dom (arel b)" "dom (anode (forget b)) = dom (anode b)"
  by (auto simp: forget_def)

lemma removeNode_base:
  assumes f: "forget b1 = forget b" and a: "anode b1 = anode b"
    and b3: "b3 = a_removeNode n (b1\<lparr>anode := (anode b1)(n \<mapsto> p)\<rparr>)"
  shows "owners b3 = owners b - RelOwner ` set (aadj b n) - {NodeOwner n}"
    and "w \<in> owners b3 \<Longrightarrow> head b3 w = head b1 w"
    and "n \<in> dom (anode b) \<Longrightarrow> forget b3 = a_removeNode n (forget b)"
proof -
  have adj: "aadj b1 = aadj b" "dom (arel b1) = dom (arel b)" using f by (metis forget_sel(1), metis forget_sel(2))
  show own: "owners b3 = owners b - RelOwner ` set (aadj b n) - {NodeOwner n}"
    using adj a by (auto simp: owners_def b3 a_removeNode_def)
  show "w \<in> owners b3 \<Longrightarrow> head b3 w = head b1 w"
    unfolding own by (cases w) (auto simp: b3 a_removeNode_def adj restrict_map_def)
  assume "n \<in> dom (anode b)"
  then obtain q where "anode b1 n = Some q" using a by auto
  then show "forget b3 = a_removeNode n (forget b)"
    unfolding b3 forget_simps using forget_payload(1) [of b1 n q p] f by simp
qed

lemma pg_removeNode_repr:
  assumes "pg_repr g A" and n: "n \<in> liveNodes (base g)"
  obtains g' where "pg_removeNode g n = Some (Inr g')" and "pg_repr g' (ap_removeNode n A)"
    and "freeProps g' = freeProps g @ concat (map (\<lambda>x. aprops A (RelOwner x)) (aadj (ag A) n)) @ aprops A (NodeOwner n)"
proof -
  obtain b where b: "pool_inv g" "graph_repr (base g) b" "forget b = ag A"
    "chains_ok g (owners b) (head b) (aprops A)" "\<And>i. i \<in> liveProps g \<Longrightarrow> apval A i = pdata g i"
    using pg_reprE [OF assms(1)] by blast
  let ?xs = "aadj b n"
  have xs: "chain (relNext n) (relPrev n) (rels (base g)) GRAPH_NONE (firstRelId (at (nodes (base g)) n)) ?xs"
    "distinct ?xs" "set ?xs \<subseteq> dom (arel b)"
    using graph_repr_incident [OF b(2) n] repr_doms [OF b(2)] by (auto simp: nchain_def rel_live_iff)
  have own: "RelOwner ` set ?xs \<subseteq> owners b" "NodeOwner n \<in> owners b - RelOwner ` set ?xs"
    using xs(3) repr_doms [OF b(2)] n by auto
  obtain g1 b1 where g1: "freeRelChains g n (firstRelId (at (nodes (base g)) n)) = Some (Inr g1)"
    "graph_repr (base g1) b1" "forget b1 = forget b" "anode b1 = anode b" "pool_inv g1"
    "chains_ok g1 (owners b - RelOwner ` set ?xs) (head b1) (aprops A)"
    "\<forall>i\<in>liveProps g1. i \<in> liveProps g \<and> pdata g1 i = pdata g i"
    "freeProps g1 = freeProps g @ concat (map (\<lambda>x. aprops A (RelOwner x)) ?xs)"
    using freeRelChains_ok [OF b(2,1,4) own(1) xs(3,2,1)] by blast
  define g2 where "g2 = released g1 (aprops A (NodeOwner n))"
  note fc = freeChain_ok [OF g1(5,6) own(2), folded g2_def]
  have n1: "n \<in> liveNodes (base g1)" using repr_doms [OF g1(2)] repr_doms [OF b(2)] g1(4) n by simp
  then have n2: "n \<in> liveNodes (base g2)" by (simp add: g2_def)
  let ?b2 = "b1\<lparr>anode := (anode b1)(n \<mapsto> GRAPH_NONE)\<rparr>"
  obtain h where h: "pg_upd_node g2 n (\<lambda>e. e\<lparr>n_payload := GRAPH_NONE\<rparr>) = Inr (g2\<lparr>base := h\<rparr>)" "graph_repr h ?b2"
    "rels h = rels (base g2)" "liveNodes h = liveNodes (base g2)"
    using pg_upd_node_payload [of g2 b1 n GRAPH_NONE] g1(2) n1 by (auto simp: g2_def)
  obtain k where k: "removeNode h n = Some (Inr k)" "graph_repr k (a_removeNode n ?b2)"
    using removeNode_repr [OF h(2)] n2 h(4) by metis
  have "n_payload (at (nodes (base g)) n) = head b1 (NodeOwner n)"
    using node_payload [OF b(2) n] g1(4) by simp
  then have rm: "pg_removeNode g n = Some (Inr (g2\<lparr>base := k\<rparr>))"
    using node_live_in [OF b(2) n] g1(1) fc(1) h(1) k(1) by (simp add: pg_removeNode_def g2_def)
  let ?b3 = "a_removeNode n ?b2"
  note rb = removeNode_base [OF g1(3,4), of ?b3 n GRAPH_NONE, OF refl]
  have "chains_ok g2 (owners ?b3) (head ?b3) (aprops A)"
    using chains_ok_cong [OF fc(3)] rb(1,2) by simp
  moreover have "forget ?b3 = a_removeNode n (ag A)" using rb(3) own(2) b(3) by simp
  ultimately have "pg_repr (g2\<lparr>base := k\<rparr>) (ap_removeNode n A)"
    using b(5) fc(2,4) k(2) g1(7)
    by (intro pg_reprI [of _ ?b3]) (auto simp: ap_removeNode_def g2_def)
  moreover have "aadj (ag A) n = ?xs" using forget_sel(1) [of b] b(3) by simp
  ultimately show thesis using that [OF rm] g1(8) by (simp add: g2_def)
qed

end
