(* ===== verification/Pg_Machine.thy ===== *)
theory Pg_Machine
  imports Pg_Refine
begin

text \<open>
  The property graph as a state machine: its public mutators as commands, and the simulation of
  every sequence of calls on live arguments by the abstract property graph.
\<close>

datatype pcmd =
    PAddNode
  | PAddRel int int int
  | PRemoveNode int
  | PRemoveRel int
  | PAddNodeProp int int int int
  | PAddRelProp int int int int
  | PSetValue int int
  | PRemoveNodeProp int int
  | PRemoveRelProp int int

definition p_exec :: "pgraph \<Rightarrow> pcmd \<Rightarrow> (int \<times> pgraph) res option" where
  "p_exec g c = (case c of
       PAddNode \<Rightarrow> Some (pg_addNode g)
     | PAddRel f t ty \<Rightarrow> Some (pg_addRelationship g f t ty)
     | PRemoveNode n \<Rightarrow> map_option (\<lambda>r. bindE r (\<lambda>g. Inr (n, g))) (pg_removeNode g n)
     | PRemoveRel i \<Rightarrow> map_option (\<lambda>r. bindE r (\<lambda>g. Inr (i, g))) (pg_removeRelationship g i)
     | PAddNodeProp n k t v \<Rightarrow> Some (addNodeProperty g n k t v)
     | PAddRelProp r k t v \<Rightarrow> Some (addRelProperty g r k t v)
     | PSetValue i v \<Rightarrow> Some (bindE (setPropertyValue g i v) (\<lambda>g. Inr (i, g)))
     | PRemoveNodeProp n i \<Rightarrow> Some (bindE (removeNodeProperty g n i) (\<lambda>g. Inr (i, g)))
     | PRemoveRelProp r i \<Rightarrow> Some (bindE (removeRelProperty g r i) (\<lambda>g. Inr (i, g))))"

text \<open>The identifiers on a property chain, read with the store size as a bound.\<close>

fun chain_ids :: "nat \<Rightarrow> prop_record list \<Rightarrow> int \<Rightarrow> int list" where
  "chain_ids 0 ps p = []"
| "chain_ids (Suc k) ps p = (if in_range ps p then p # chain_ids k ps (nextPropId (at ps p)) else [])"

definition node_props :: "pgraph \<Rightarrow> int \<Rightarrow> int list" where
  "node_props g n = chain_ids (length (props g)) (props g) (n_payload (at (nodes (base g)) n))"

definition rel_props :: "pgraph \<Rightarrow> int \<Rightarrow> int list" where
  "rel_props g r = chain_ids (length (props g)) (props g) (r_payload (at (rels (base g)) r))"

definition prop_live :: "pgraph \<Rightarrow> int \<Rightarrow> bool" where
  "prop_live g i \<longleftrightarrow> 0 \<le> i \<and> i < propMark g \<and> i \<notin> set (freeProps g)"

definition prop_room :: "pgraph \<Rightarrow> bool" where
  "prop_room g \<longleftrightarrow> freeProps g \<noteq> [] \<or> propMark g < propCap g"

fun p_permitted :: "pgraph \<Rightarrow> pcmd \<Rightarrow> bool" where
  "p_permitted g PAddNode \<longleftrightarrow> freeNodes (base g) \<noteq> [] \<or> nodeMark (base g) < nodeCap (base g)"
| "p_permitted g (PAddRel f t ty) \<longleftrightarrow> node_live (base g) f \<and> node_live (base g) t
     \<and> (freeRels (base g) \<noteq> [] \<or> relMark (base g) < relCap (base g))"
| "p_permitted g (PRemoveNode n) \<longleftrightarrow> node_live (base g) n"
| "p_permitted g (PRemoveRel i) \<longleftrightarrow> rel_live (base g) i"
| "p_permitted g (PAddNodeProp n k t v) \<longleftrightarrow> node_live (base g) n \<and> prop_room g"
| "p_permitted g (PAddRelProp r k t v) \<longleftrightarrow> rel_live (base g) r \<and> prop_room g"
| "p_permitted g (PSetValue i v) \<longleftrightarrow> prop_live g i"
| "p_permitted g (PRemoveNodeProp n i) \<longleftrightarrow> node_live (base g) n \<and> i \<in> set (node_props g n)"
| "p_permitted g (PRemoveRelProp r i) \<longleftrightarrow> rel_live (base g) r \<and> i \<in> set (rel_props g r)"

fun ap_exec :: "int \<Rightarrow> pcmd \<Rightarrow> apgraph \<Rightarrow> apgraph" where
  "ap_exec i PAddNode A = ap_addNode i A"
| "ap_exec i (PAddRel f t ty) A = ap_addRel i f t (to_i32 ty) A"
| "ap_exec i (PRemoveNode n) A = ap_removeNode n A"
| "ap_exec i (PRemoveRel r) A = ap_removeRel r A"
| "ap_exec i (PAddNodeProp n k t v) A = ap_addProp (NodeOwner n) i (k, t, v) A"
| "ap_exec i (PAddRelProp r k t v) A = ap_addProp (RelOwner r) i (k, t, v) A"
| "ap_exec i (PSetValue p v) A = ap_setValue p v A"
| "ap_exec i (PRemoveNodeProp n p) A = ap_removeProp (NodeOwner n) p A"
| "ap_exec i (PRemoveRelProp r p) A = ap_removeProp (RelOwner r) p A"

fun p_run :: "pgraph \<Rightarrow> pcmd list \<Rightarrow> (int list \<times> pgraph) res option" where
  "p_run g [] = Some (Inr ([], g))"
| "p_run g (c # cs) = bindOE (p_exec g c) (\<lambda>(i, g). bindOE (p_run g cs) (\<lambda>(is, g). Some (Inr (i # is, g))))"

fun p_permitted_run :: "pgraph \<Rightarrow> pcmd list \<Rightarrow> bool" where
  "p_permitted_run g [] \<longleftrightarrow> True"
| "p_permitted_run g (c # cs) \<longleftrightarrow> p_permitted g c
     \<and> (case p_exec g c of Some (Inr (i, g')) \<Rightarrow> p_permitted_run g' cs | _ \<Rightarrow> True)"

definition ap_run :: "int list \<Rightarrow> pcmd list \<Rightarrow> apgraph \<Rightarrow> apgraph" where
  "ap_run is cs A = fold (\<lambda>(i, c). ap_exec i c) (zip is cs) A"

section \<open>Simulation\<close>

lemma chain_ids_chain:
  "chain nextPropId prevPropId ps p c xs \<Longrightarrow> length xs \<le> k \<Longrightarrow> chain_ids k ps c = xs"
proof (induction xs arbitrary: p c k)
  case Nil
  then show ?case by (cases k) (simp_all add: in_range_def)
next
  case (Cons x xs)
  then show ?case by (cases k) auto
qed

lemma pg_repr_props:
  assumes "pg_repr g A"
  shows "node_live (base g) n \<Longrightarrow> node_props g n = aprops A (NodeOwner n)"
    and "rel_live (base g) r \<Longrightarrow> rel_props g r = aprops A (RelOwner r)"
proof -
  obtain b where b: "pool_inv g" "graph_repr (base g) b" "forget b = ag A"
    "chains_ok g (owners b) (head b) (aprops A)" "\<And>i. i \<in> liveProps g \<Longrightarrow> apval A i = pdata g i"
    using pg_reprE [OF assms(1)] by blast
  have ids: "chain_ids (length (props g)) (props g) (head b w) = aprops A w" if "w \<in> owners b" for w
  proof -
    have c: "pchain (props g) (head b w) (aprops A w)" "distinct (aprops A w)"
      using b(4) that by (simp_all add: chains_ok_def)
    show ?thesis by (rule chain_ids_chain [OF c(1) chain_length [OF c]])
  qed
  show "node_live (base g) n \<Longrightarrow> node_props g n = aprops A (NodeOwner n)"
    using ids [of "NodeOwner n"] node_payload [OF b(2)] repr_doms [OF b(2)] by (simp add: node_props_def node_live_iff)
  show "rel_live (base g) r \<Longrightarrow> rel_props g r = aprops A (RelOwner r)"
    using ids [of "RelOwner r"] rel_payload [OF b(2)] repr_doms [OF b(2)] by (simp add: rel_props_def rel_live_iff)
qed

lemma pg_repr_room:
  assumes "pg_repr g A"
  shows "liveNodes (base g) \<noteq> {0..<nodeCap (base g)} \<longleftrightarrow> freeNodes (base g) \<noteq> [] \<or> nodeMark (base g) < nodeCap (base g)"
    and "liveRels (base g) \<noteq> {0..<relCap (base g)} \<longleftrightarrow> freeRels (base g) \<noteq> [] \<or> relMark (base g) < relCap (base g)"
    and "liveProps g \<noteq> {0..<propCap g} \<longleftrightarrow> prop_room g"
    and "prop_live g i \<longleftrightarrow> i \<in> liveProps g"
proof -
  obtain b where b: "pool_inv g" "graph_repr (base g) b" using pg_reprE [OF assms] by blast
  show "liveNodes (base g) \<noteq> {0..<nodeCap (base g)} \<longleftrightarrow> freeNodes (base g) \<noteq> [] \<or> nodeMark (base g) < nodeCap (base g)"
    "liveRels (base g) \<noteq> {0..<relCap (base g)} \<longleftrightarrow> freeRels (base g) \<noteq> [] \<or> relMark (base g) < relCap (base g)"
    by (rule graph_repr_room [OF b(2)])+
  show "liveProps g \<noteq> {0..<propCap g} \<longleftrightarrow> prop_room g"
    using b(1) pool_room unfolding pool_inv_def liveProps_def prop_room_def by blast
  show "prop_live g i \<longleftrightarrow> i \<in> liveProps g" by (auto simp: prop_live_def liveProps_def live_def)
qed

lemma p_exec_repr:
  assumes A: "pg_repr g A" and "p_permitted g c"
  shows "\<exists>i g'. p_exec g c = Some (Inr (i, g')) \<and> pg_repr g' (ap_exec i c A)"
proof (cases c)
  case PAddNode
  then have pre: "liveNodes (base g) \<noteq> {0..<nodeCap (base g)}" using assms by (simp add: pg_repr_room)
  obtain i g' where "pg_addNode g = Inr (i, g')" "pg_repr g' (ap_addNode i A)"
    using pg_addNode_repr [OF A pre] by metis
  with PAddNode show ?thesis by (simp add: p_exec_def)
next
  case (PAddRel f t ty)
  then have pre: "liveRels (base g) \<noteq> {0..<relCap (base g)}" "f \<in> liveNodes (base g)" "t \<in> liveNodes (base g)"
    using assms by (simp_all add: pg_repr_room node_live_iff)
  obtain i g' where "pg_addRelationship g f t ty = Inr (i, g')" "pg_repr g' (ap_addRel i f t (to_i32 ty) A)"
    using pg_addRelationship_repr [OF A pre, of ty] by metis
  with PAddRel show ?thesis by (simp add: p_exec_def)
next
  case (PRemoveNode n)
  then have pre: "n \<in> liveNodes (base g)" using assms by (simp add: node_live_iff)
  obtain g' where "pg_removeNode g n = Some (Inr g')" "pg_repr g' (ap_removeNode n A)"
    using pg_removeNode_repr [OF A pre] by metis
  with PRemoveNode show ?thesis by (simp add: p_exec_def)
next
  case (PRemoveRel r)
  then have pre: "r \<in> liveRels (base g)" using assms by (simp add: rel_live_iff)
  obtain g' where "pg_removeRelationship g r = Some (Inr g')" "pg_repr g' (ap_removeRel r A)"
    using pg_removeRelationship_repr [OF A pre] by metis
  with PRemoveRel show ?thesis by (simp add: p_exec_def)
next
  case (PAddNodeProp n k t v)
  then have pre: "liveProps g \<noteq> {0..<propCap g}" "n \<in> liveNodes (base g)"
    using assms by (simp_all add: pg_repr_room node_live_iff)
  obtain i g' where "addNodeProperty g n k t v = Inr (i, g')" "pg_repr g' (ap_addProp (NodeOwner n) i (k, t, v) A)"
    using addNodeProperty_repr [OF A pre, of k t v] by metis
  with PAddNodeProp show ?thesis by (simp add: p_exec_def)
next
  case (PAddRelProp r k t v)
  then have pre: "liveProps g \<noteq> {0..<propCap g}" "r \<in> liveRels (base g)"
    using assms by (simp_all add: pg_repr_room rel_live_iff)
  obtain i g' where "addRelProperty g r k t v = Inr (i, g')" "pg_repr g' (ap_addProp (RelOwner r) i (k, t, v) A)"
    using addRelProperty_repr [OF A pre, of k t v] by metis
  with PAddRelProp show ?thesis by (simp add: p_exec_def)
next
  case (PSetValue i v)
  then have pre: "i \<in> liveProps g" using assms by (simp add: pg_repr_room)
  obtain g' where "setPropertyValue g i v = Inr g'" "pg_repr g' (ap_setValue i v A)"
    using setPropertyValue_repr [OF A pre, of v] by metis
  with PSetValue show ?thesis by (simp add: p_exec_def)
next
  case (PRemoveNodeProp n i)
  then have pre: "n \<in> liveNodes (base g)" "i \<in> set (aprops A (NodeOwner n))"
    using assms pg_repr_props(1) [OF A, of n] by (auto simp: node_live_iff)
  obtain g' where "removeNodeProperty g n i = Inr g'" "pg_repr g' (ap_removeProp (NodeOwner n) i A)"
    using removeNodeProperty_repr [OF A pre] by metis
  with PRemoveNodeProp show ?thesis by (simp add: p_exec_def)
next
  case (PRemoveRelProp r i)
  then have pre: "r \<in> liveRels (base g)" "i \<in> set (aprops A (RelOwner r))"
    using assms pg_repr_props(2) [OF A, of r] by (auto simp: rel_live_iff)
  obtain g' where "removeRelProperty g r i = Inr g'" "pg_repr g' (ap_removeProp (RelOwner r) i A)"
    using removeRelProperty_repr [OF A pre] by metis
  with PRemoveRelProp show ?thesis by (simp add: p_exec_def)
qed

lemma p_run_repr:
  assumes "pg_repr g A" and "p_permitted_run g cs"
  shows "\<exists>is g'. p_run g cs = Some (Inr (is, g')) \<and> length is = length cs \<and> pg_repr g' (ap_run is cs A)"
  using assms
proof (induction cs arbitrary: g A)
  case Nil
  then show ?case by (simp add: ap_run_def)
next
  case (Cons c cs)
  then obtain i g1 where g1: "p_exec g c = Some (Inr (i, g1))" "pg_repr g1 (ap_exec i c A)"
    using p_exec_repr [of g A c] by auto
  with Cons.prems have "p_permitted_run g1 cs" by simp
  from Cons.IH [OF g1(2) this] obtain "is" g' where
    "p_run g1 cs = Some (Inr (is, g'))" "length is = length cs" "pg_repr g' (ap_run is cs (ap_exec i c A))"
    by blast
  with g1 show ?case by (intro exI [of _ "i # is"] exI [of _ g']) (simp add: ap_run_def)
qed

section \<open>Properties\<close>

text \<open>
  C2. Every sequence of \<open>PropertyGraph\<close> calls on live arguments with room left, run on a freshly
  constructed property graph, returns normally, and the three linked stores represent exactly the
  abstract property graph of the same calls: nodes, relationships and incidence lists, the properties of every
  node and relationship in order, and the key, type and value of every property. In particular
  the property chains of distinct owners never share a record and together are exactly the live
  records, so nothing leaks and nothing is freed twice.
\<close>

theorem property_graph_run_refines:
  assumes "mk_pgraph nodeCapacity relCapacity propCapacity = Inr g" and "p_permitted_run g cs"
  shows "\<exists>is g'. p_run g cs = Some (Inr (is, g')) \<and> length is = length cs
    \<and> pg_repr g' (ap_run is cs ap_empty)"
  using p_run_repr [OF mk_pgraph_repr [OF assms(1)] assms(2)] .

text \<open>
  C12. \<open>PropertyGraph::removeNode\<close> of a live node, in any state that represents an abstract property graph, returns and hands
  back exactly the property records of its incident relationships, in chain order, followed by
  those of the node itself; the result represents the graph without the node.
\<close>

theorem removeNode_releases_properties:
  assumes "pg_repr g A" and "node_live (base g) n"
  shows "\<exists>g'. pg_removeNode g n = Some (Inr g') \<and> pg_repr g' (ap_removeNode n A)
    \<and> freeProps g' = freeProps g @ concat (map (\<lambda>r. aprops A (RelOwner r)) (aadj (ag A) n)) @ aprops A (NodeOwner n)"
  using pg_removeNode_repr [OF assms(1)] assms(2) unfolding node_live_iff by metis

definition sample_pcmds :: "pcmd list" where
  "sample_pcmds = [PAddNode, PAddNode, PAddRel 0 1 7, PAddNodeProp 0 1 2 3, PAddNodeProp 0 4 5 6,
     PAddRelProp 0 7 8 9, PSetValue 1 42, PRemoveNodeProp 0 0, PAddRelProp 0 1 1 1, PRemoveNode 1,
     PAddNodeProp 0 9 9 9]"

text \<open>The sample evaluated from the constructed state, whatever its blob capacity.\<close>

lemma sample_pcmds_permitted:
  "okE (\<lambda>h. p_permitted_run \<lparr>base = h, props = replicate 3 zero_prop, propMark = 0, propCap = 3, freeProps = [],
     pg_nodeCap = 2, pg_relCap = 2, propData = pd, persists = False\<rparr> sample_pcmds) (mk_graph 2 2 0 0)"
  by code_simp

lemma sample_pgraph:
  obtains g where "mk_pgraph 2 2 3 = Inr g" and "p_permitted_run g sample_pcmds"
  using sample_pcmds_permitted [of "setBlobCapacity mk_propData 1048576"] by (auto simp: mk_pgraph_def okE_iff)

theorem property_graph_run_refines_witness:
  "\<exists>g is g'. mk_pgraph 2 2 3 = Inr g \<and> p_permitted_run g sample_pcmds
    \<and> p_run g sample_pcmds = Some (Inr (is, g')) \<and> pg_repr g' (ap_run is sample_pcmds ap_empty)"
proof -
  obtain g where g: "mk_pgraph 2 2 3 = Inr g" "p_permitted_run g sample_pcmds" using sample_pgraph .
  with property_graph_run_refines [OF g] show ?thesis by blast
qed

lemma sample_prefix_live:
  "okE (\<lambda>h. p_permitted_run \<lparr>base = h, props = replicate 3 zero_prop, propMark = 0, propCap = 3, freeProps = [],
     pg_nodeCap = 2, pg_relCap = 2, propData = pd, persists = False\<rparr> (take 9 sample_pcmds)
    \<and> okOE (\<lambda>(is, g). node_live (base g) 1 \<and> nodeCap (base g) = 2 \<and> relCap (base g) = 2
       \<and> pg_nodeCap g = 2 \<and> pg_relCap g = 2 \<and> propCap g = 3) (p_run \<lparr>base = h, props = replicate 3 zero_prop, propMark = 0,
     propCap = 3, freeProps = [], pg_nodeCap = 2, pg_relCap = 2, propData = pd, persists = False\<rparr> (take 9 sample_pcmds)))
    (mk_graph 2 2 0 0)"
  by code_simp

lemma sample_state:
  obtains g A where "pg_repr g A" "node_live (base g) 1" "nodeCap (base g) = 2" "relCap (base g) = 2"
    "pg_nodeCap g = 2" "pg_relCap g = 2" "propCap g = 3"
proof -
  obtain g0 "is" g where g: "mk_pgraph 2 2 3 = Inr g0" "p_permitted_run g0 (take 9 sample_pcmds)"
    "p_run g0 (take 9 sample_pcmds) = Some (Inr (is, g))"
    and st: "node_live (base g) 1" "nodeCap (base g) = 2" "relCap (base g) = 2" "pg_nodeCap g = 2" "pg_relCap g = 2" "propCap g = 3"
    using sample_prefix_live [of "setBlobCapacity mk_propData 1048576"] by (auto simp: mk_pgraph_def okE_iff okOE_iff)
  then have "pg_repr g (ap_run is (take 9 sample_pcmds) ap_empty)"
    using p_run_repr [OF mk_pgraph_repr [OF g(1)] g(2)] by simp
  with st show thesis using that by blast
qed

theorem removeNode_releases_properties_witness:
  "\<exists>g A g'. pg_repr g A \<and> node_live (base g) 1 \<and> pg_removeNode g 1 = Some (Inr g')
    \<and> pg_repr g' (ap_removeNode 1 A)"
proof -
  obtain g A where g: "pg_repr g A" "node_live (base g) 1" using sample_state by metis
  with removeNode_releases_properties [OF g] show ?thesis by blast
qed

end
