(* ===== verification/Neo4J_Format.thy ===== *)
theory Neo4J_Format
  imports Pg_Machine
begin

text \<open>
  The persistent form of a property graph, \<open>Neo4JGraph\<close> of \<open>GraphData.h\<close>: packed node,
  relationship and property records, the conversion from and to the in-memory stores
  (\<open>GraphData::serialize\<close>, \<open>GraphData::deserialize\<close>) and the byte layout of the records.
\<close>

section \<open>Packed records\<close>

record neo_prop =
  np_inUse :: bool
  np_nextPropId :: int
  np_prevPropId :: int
  np_key :: int
  np_type :: int
  np_value :: int

record neo_node =
  nn_inUse :: bool
  nn_firstRelId :: int
  nn_firstPropId :: int
  nn_labels :: "byte list"
  nn_extra :: byte

record neo_rel =
  nr_inUse :: bool
  nr_firstNodeId :: int
  nr_secondNodeId :: int
  nr_typeId :: int
  nr_firstPrevRelId :: int
  nr_firstNextRelId :: int
  nr_secondPrevRelId :: int
  nr_secondNextRelId :: int
  nr_firstPropId :: int
  nr_firstInChainMarker :: byte

record neo_graph =
  neo_nodes :: "neo_node list"
  neo_rels :: "neo_rel list"
  neo_props :: "neo_prop list"

section \<open>Conversion\<close>

definition pack_node :: "int node_entry \<Rightarrow> neo_node" where
  "pack_node src = \<lparr>nn_inUse = n_inUse src, nn_firstRelId = firstRelId src,
     nn_firstPropId = to_u32 (n_payload src), nn_labels = labels src, nn_extra = extra src\<rparr>"

definition pack_rel :: "int rel_entry \<Rightarrow> neo_rel" where
  "pack_rel src = \<lparr>nr_inUse = r_inUse src, nr_firstNodeId = firstNodeId src,
     nr_secondNodeId = secondNodeId src, nr_typeId = typeId src, nr_firstPrevRelId = firstPrevRelId src,
     nr_firstNextRelId = firstNextRelId src, nr_secondPrevRelId = secondPrevRelId src,
     nr_secondNextRelId = secondNextRelId src, nr_firstPropId = to_u32 (r_payload src),
     nr_firstInChainMarker = firstInChainMarker src\<rparr>"

definition pack_prop :: "prop_record \<Rightarrow> neo_prop" where
  "pack_prop src = \<lparr>np_inUse = p_inUse src, np_nextPropId = nextPropId src, np_prevPropId = prevPropId src,
     np_key = p_key src, np_type = p_type src, np_value = p_value src\<rparr>"

text \<open>The loops read the entries below the high-water marks, past the end of the buffer undefined.\<close>

definition first_entries :: "'e list \<Rightarrow> int \<Rightarrow> 'e list res" where
  "first_entries es mark = (if nat mark \<le> length es then Inr (take (nat mark) es) else Inl OutOfBounds)"

definition gd_serialize :: "pgraph \<Rightarrow> neo_graph res" where
  "gd_serialize pg =
     bindE (first_entries (nodes (base pg)) (nodeMark (base pg))) (\<lambda>ns.
     bindE (first_entries (rels (base pg)) (relMark (base pg))) (\<lambda>rs.
     bindE (first_entries (props pg) (propMark pg)) (\<lambda>ps.
     Inr \<lparr>neo_nodes = map pack_node ns, neo_rels = map pack_rel rs, neo_props = map pack_prop ps\<rparr>)))"

definition unpack_node :: "neo_node \<Rightarrow> int node_entry" where
  "unpack_node src = \<lparr>firstRelId = nn_firstRelId src, n_inUse = nn_inUse src, labels = nn_labels src,
     extra = nn_extra src, n_payload = to_i32 (nn_firstPropId src)\<rparr>"

definition unpack_rel :: "neo_rel \<Rightarrow> int rel_entry" where
  "unpack_rel src = \<lparr>firstNodeId = nr_firstNodeId src, secondNodeId = nr_secondNodeId src,
     typeId = nr_typeId src, firstPrevRelId = nr_firstPrevRelId src, firstNextRelId = nr_firstNextRelId src,
     secondPrevRelId = nr_secondPrevRelId src, secondNextRelId = nr_secondNextRelId src,
     r_inUse = nr_inUse src, firstInChainMarker = nr_firstInChainMarker src,
     r_payload = to_i32 (nr_firstPropId src)\<rparr>"

definition unpack_prop :: "neo_prop \<Rightarrow> prop_record" where
  "unpack_prop src = \<lparr>nextPropId = np_nextPropId src, prevPropId = np_prevPropId src, p_key = np_key src,
     p_type = np_type src, p_value = np_value src, p_inUse = np_inUse src\<rparr>"

text \<open>One iteration of each loop: a new slot, every field of which is then assigned.\<close>

definition load_node :: "pgraph \<Rightarrow> neo_node \<Rightarrow> pgraph res" where
  "load_node pg src = bindE (newNode (base pg)) (\<lambda>(i, g).
     bindE (upd_node g i (\<lambda>_. unpack_node src)) (\<lambda>g. Inr (pg\<lparr>base := g\<rparr>)))"

definition load_rel :: "pgraph \<Rightarrow> neo_rel \<Rightarrow> pgraph res" where
  "load_rel pg src = bindE (newRel (base pg)) (\<lambda>(i, g).
     bindE (upd_rel g i (\<lambda>_. unpack_rel src)) (\<lambda>g. Inr (pg\<lparr>base := g\<rparr>)))"

definition load_prop :: "pgraph \<Rightarrow> neo_prop \<Rightarrow> pgraph res" where
  "load_prop pg src = bindE (newProp pg) (\<lambda>(i, pg). upd_prop pg i (\<lambda>_. unpack_prop src))"

primrec foldE :: "('s \<Rightarrow> 'x \<Rightarrow> 's res) \<Rightarrow> 's \<Rightarrow> 'x list \<Rightarrow> 's res" where
  "foldE f s [] = Inr s"
| "foldE f s (x # xs) = bindE (f s x) (\<lambda>s. foldE f s xs)"

definition gd_deserialize :: "pgraph \<Rightarrow> neo_graph \<Rightarrow> pgraph res" where
  "gd_deserialize pg g =
     bindE (foldE load_node (pg_clear pg) (neo_nodes g)) (\<lambda>pg.
     bindE (foldE load_rel pg (neo_rels g)) (\<lambda>pg.
     foldE load_prop pg (neo_props g)))"

section \<open>Byte layout\<close>

definition node_bytes :: "neo_node \<Rightarrow> byte list" where
  "node_bytes n = bool_bytes (nn_inUse n) @ u32_bytes (nn_firstRelId n) @ u32_bytes (nn_firstPropId n)
     @ nn_labels n @ u8_bytes (nn_extra n)"

definition read_node :: "neo_node reader" where
  "read_node f = bindR (read_bool f) (\<lambda>u f. bindR (read_i32 f) (\<lambda>r f. bindR (read_u32 f) (\<lambda>p f.
     bindR (fread 5 f) (\<lambda>ls f. bindR (read_u8 f) (\<lambda>e f.
     Inr (\<lparr>nn_inUse = u, nn_firstRelId = r, nn_firstPropId = p, nn_labels = ls, nn_extra = e\<rparr>, f))))))"

definition rel_bytes :: "neo_rel \<Rightarrow> byte list" where
  "rel_bytes r = bool_bytes (nr_inUse r) @ u32_bytes (nr_firstNodeId r) @ u32_bytes (nr_secondNodeId r)
     @ u32_bytes (nr_typeId r) @ u32_bytes (nr_firstPrevRelId r) @ u32_bytes (nr_firstNextRelId r)
     @ u32_bytes (nr_secondPrevRelId r) @ u32_bytes (nr_secondNextRelId r) @ u32_bytes (nr_firstPropId r)
     @ u8_bytes (nr_firstInChainMarker r)"

definition read_rel :: "neo_rel reader" where
  "read_rel f = bindR (read_bool f) (\<lambda>u f. bindR (read_i32 f) (\<lambda>a f. bindR (read_i32 f) (\<lambda>b f.
     bindR (read_i32 f) (\<lambda>t f. bindR (read_i32 f) (\<lambda>fp f. bindR (read_i32 f) (\<lambda>fn f.
     bindR (read_i32 f) (\<lambda>sp f. bindR (read_i32 f) (\<lambda>sn f. bindR (read_u32 f) (\<lambda>p f.
     bindR (read_u8 f) (\<lambda>m f.
     Inr (\<lparr>nr_inUse = u, nr_firstNodeId = a, nr_secondNodeId = b, nr_typeId = t, nr_firstPrevRelId = fp,
       nr_firstNextRelId = fn, nr_secondPrevRelId = sp, nr_secondNextRelId = sn, nr_firstPropId = p,
       nr_firstInChainMarker = m\<rparr>, f)))))))))))"

definition prop_bytes :: "neo_prop \<Rightarrow> byte list" where
  "prop_bytes p = bool_bytes (np_inUse p) @ u32_bytes (np_nextPropId p) @ u32_bytes (np_prevPropId p)
     @ u32_bytes (np_key p) @ u32_bytes (np_type p) @ u32_bytes (np_value p)"

definition read_prop :: "neo_prop reader" where
  "read_prop f = bindR (read_bool f) (\<lambda>u f. bindR (read_i32 f) (\<lambda>n f. bindR (read_i32 f) (\<lambda>p f.
     bindR (read_u32 f) (\<lambda>k f. bindR (read_u32 f) (\<lambda>t f. bindR (read_u32 f) (\<lambda>v f.
     Inr (\<lparr>np_inUse = u, np_nextPropId = n, np_prevPropId = p, np_key = k, np_type = t, np_value = v\<rparr>, f)))))))"

text \<open>Records whose fields have the values their C++ types allow.\<close>

definition neo_node_ok :: "neo_node \<Rightarrow> bool" where
  "neo_node_ok n \<longleftrightarrow> is_i32 (nn_firstRelId n) \<and> is_u32 (nn_firstPropId n) \<and> length (nn_labels n) = 5"

definition neo_rel_ok :: "neo_rel \<Rightarrow> bool" where
  "neo_rel_ok r \<longleftrightarrow> is_i32 (nr_firstNodeId r) \<and> is_i32 (nr_secondNodeId r) \<and> is_i32 (nr_typeId r)
     \<and> is_i32 (nr_firstPrevRelId r) \<and> is_i32 (nr_firstNextRelId r) \<and> is_i32 (nr_secondPrevRelId r)
     \<and> is_i32 (nr_secondNextRelId r) \<and> is_u32 (nr_firstPropId r)"

definition neo_prop_ok :: "neo_prop \<Rightarrow> bool" where
  "neo_prop_ok p \<longleftrightarrow> is_i32 (np_nextPropId p) \<and> is_i32 (np_prevPropId p) \<and> is_u32 (np_key p)
     \<and> is_u32 (np_type p) \<and> is_u32 (np_value p)"

interpretation neo_node: codec node_bytes read_node neo_node_ok "\<lambda>n. n"
  by unfold_locales
    (simp add: node_bytes_def read_node_def neo_node_ok_def bool.rd_wr i32.rd_wr u32.rd_wr u8.rd_wr)

interpretation neo_rel: codec rel_bytes read_rel neo_rel_ok "\<lambda>r. r"
  by unfold_locales
    (simp add: rel_bytes_def read_rel_def neo_rel_ok_def bool.rd_wr i32.rd_wr u32.rd_wr u8.rd_wr)

interpretation neo_prop: codec prop_bytes read_prop neo_prop_ok "\<lambda>p. p"
  by unfold_locales
    (simp add: prop_bytes_def read_prop_def neo_prop_ok_def bool.rd_wr i32.rd_wr u32.rd_wr u8.rd_wr)

lemma record_sizes:
  "neo_node_ok n \<Longrightarrow> length (node_bytes n) = 15" "length (rel_bytes r) = 34" "length (prop_bytes p) = 21"
  by (simp_all add: node_bytes_def rel_bytes_def prop_bytes_def neo_node_ok_def bool_bytes_def u8_bytes_def
      u32_bytes_def)

section \<open>Reading the stores back\<close>

lemma patch_Nil [simp]: "patch xs m [] = xs"
  by (simp add: patch_def)

lemma patch_Cons:
  assumes "m + length (y # ys) \<le> length xs"
  shows "patch (xs[m := y]) (Suc m) ys = patch xs m (y # ys)"
proof (rule nth_equalityI)
  show "length (patch (xs[m := y]) (Suc m) ys) = length (patch xs m (y # ys))" using assms by simp
  fix i assume "i < length (patch (xs[m := y]) (Suc m) ys)"
  then show "patch (xs[m := y]) (Suc m) ys ! i = patch xs m (y # ys) ! i"
    using assms by (cases "i = m") (auto simp: nth_patch nth_list_update nth_Cons')
qed

lemma load_nodes:
  assumes "0 \<le> nodeMark (base pg)" "nodeMark (base pg) + int (length ns) \<le> nodeCap (base pg)"
    "int (length (nodes (base pg))) = nodeCap (base pg)"
  shows "foldE load_node pg ns = Inr (pg\<lparr>base := (base pg)\<lparr>nodes := patch (nodes (base pg)) (nat (nodeMark (base pg))) (map unpack_node ns),
      nodeMark := nodeMark (base pg) + int (length ns)\<rparr>\<rparr>)"
  using assms
proof (induction ns arbitrary: pg)
  case Nil
  then show ?case by simp
next
  case (Cons n ns)
  let ?m = "nodeMark (base pg)"
  let ?pg = "pg\<lparr>base := (base pg)\<lparr>nodes := set_at (nodes (base pg)) ?m (unpack_node n), nodeMark := ?m + 1\<rparr>\<rparr>"
  have "load_node pg n = Inr ?pg"
    using Cons.prems by (simp add: load_node_def newNode_def upd_node_def in_range_def)
  moreover have "patch (set_at (nodes (base pg)) ?m (unpack_node n)) (nat (?m + 1)) (map unpack_node ns) =
      patch (nodes (base pg)) (nat ?m) (map unpack_node (n # ns))"
    using Cons.prems patch_Cons [of "nat ?m" "unpack_node n" "map unpack_node ns" "nodes (base pg)"]
    by (simp add: set_at_def nat_add_distrib)
  ultimately show ?case using Cons.IH [of ?pg] Cons.prems by simp
qed

lemma load_rels:
  assumes "0 \<le> relMark (base pg)" "relMark (base pg) + int (length rs) \<le> relCap (base pg)"
    "int (length (rels (base pg))) = relCap (base pg)"
  shows "foldE load_rel pg rs = Inr (pg\<lparr>base := (base pg)\<lparr>rels := patch (rels (base pg)) (nat (relMark (base pg))) (map unpack_rel rs),
      relMark := relMark (base pg) + int (length rs)\<rparr>\<rparr>)"
  using assms
proof (induction rs arbitrary: pg)
  case Nil
  then show ?case by simp
next
  case (Cons r rs)
  let ?m = "relMark (base pg)"
  let ?pg = "pg\<lparr>base := (base pg)\<lparr>rels := set_at (rels (base pg)) ?m (unpack_rel r), relMark := ?m + 1\<rparr>\<rparr>"
  have "load_rel pg r = Inr ?pg"
    using Cons.prems by (simp add: load_rel_def newRel_def upd_rel_def in_range_def)
  moreover have "patch (set_at (rels (base pg)) ?m (unpack_rel r)) (nat (?m + 1)) (map unpack_rel rs) =
      patch (rels (base pg)) (nat ?m) (map unpack_rel (r # rs))"
    using Cons.prems patch_Cons [of "nat ?m" "unpack_rel r" "map unpack_rel rs" "rels (base pg)"]
    by (simp add: set_at_def nat_add_distrib)
  ultimately show ?case using Cons.IH [of ?pg] Cons.prems by simp
qed

lemma load_props:
  assumes "0 \<le> propMark pg" "propMark pg + int (length ps) \<le> propCap pg" "int (length (props pg)) = propCap pg"
  shows "foldE load_prop pg ps = Inr (pg\<lparr>props := patch (props pg) (nat (propMark pg)) (map unpack_prop ps),
      propMark := propMark pg + int (length ps)\<rparr>)"
  using assms
proof (induction ps arbitrary: pg)
  case Nil
  then show ?case by simp
next
  case (Cons p ps)
  let ?m = "propMark pg"
  let ?pg = "pg\<lparr>props := set_at (props pg) ?m (unpack_prop p), propMark := ?m + 1\<rparr>"
  have "load_prop pg p = Inr ?pg"
    using Cons.prems by (simp add: load_prop_def newProp_def upd_prop_def in_range_def)
  moreover have "patch (set_at (props pg) ?m (unpack_prop p)) (nat (?m + 1)) (map unpack_prop ps) =
      patch (props pg) (nat ?m) (map unpack_prop (p # ps))"
    using Cons.prems patch_Cons [of "nat ?m" "unpack_prop p" "map unpack_prop ps" "props pg"]
    by (simp add: set_at_def nat_add_distrib)
  ultimately show ?case using Cons.IH [of ?pg] Cons.prems by simp
qed

text \<open>The buffers have their capacity, the marks lie inside, and every field fits its C++ type.\<close>

definition bufs_ok :: "pgraph \<Rightarrow> bool" where
  "bufs_ok g \<longleftrightarrow> int (length (nodes (base g))) = nodeCap (base g) \<and> 0 \<le> nodeMark (base g) \<and> nodeMark (base g) \<le> nodeCap (base g)
     \<and> int (length (rels (base g))) = relCap (base g) \<and> 0 \<le> relMark (base g) \<and> relMark (base g) \<le> relCap (base g)
     \<and> int (length (props g)) = propCap g \<and> 0 \<le> propMark g \<and> propMark g \<le> propCap g"

definition typed :: "pgraph \<Rightarrow> bool" where
  "typed g \<longleftrightarrow> list_all (\<lambda>n. is_i32 (firstRelId n) \<and> is_i32 (n_payload n) \<and> length (labels n) = 5) (nodes (base g))
     \<and> list_all (\<lambda>r. neo_rel_ok (pack_rel r) \<and> is_i32 (r_payload r)) (rels (base g))
     \<and> list_all (\<lambda>p. neo_prop_ok (pack_prop p)) (props g)"

lemma unpack_pack:
  "is_i32 (n_payload n) \<Longrightarrow> unpack_node (pack_node n) = n"
  "is_i32 (r_payload r) \<Longrightarrow> unpack_rel (pack_rel r) = r"
  "unpack_prop (pack_prop p) = p"
  by (simp_all add: unpack_node_def pack_node_def unpack_rel_def pack_rel_def unpack_prop_def pack_prop_def)

definition neo_of :: "pgraph \<Rightarrow> neo_graph" where
  "neo_of g = \<lparr>neo_nodes = map pack_node (take (nat (nodeMark (base g))) (nodes (base g))),
     neo_rels = map pack_rel (take (nat (relMark (base g))) (rels (base g))),
     neo_props = map pack_prop (take (nat (propMark g)) (props g))\<rparr>"

lemma gd_serialize_ok: "bufs_ok g \<Longrightarrow> gd_serialize g = Inr (neo_of g)"
  by (auto simp: gd_serialize_def first_entries_def bufs_ok_def neo_of_def)

text \<open>What loading the image of \<open>g\<close> into \<open>dst\<close> leaves there.\<close>

definition overlay :: "pgraph \<Rightarrow> pgraph \<Rightarrow> pgraph" where
  "overlay dst g = dst\<lparr>base := (base dst)\<lparr>
       nodes := patch (nodes (base dst)) 0 (take (nat (nodeMark (base g))) (nodes (base g))), nodeMark := nodeMark (base g),
       rels := patch (rels (base dst)) 0 (take (nat (relMark (base g))) (rels (base g))), relMark := relMark (base g),
       freeNodes := [], freeRels := []\<rparr>,
     props := patch (props dst) 0 (take (nat (propMark g)) (props g)), propMark := propMark g, freeProps := []\<rparr>"

definition fits :: "pgraph \<Rightarrow> pgraph \<Rightarrow> bool" where
  "fits dst g \<longleftrightarrow> nodeMark (base g) \<le> nodeCap (base dst) \<and> relMark (base g) \<le> relCap (base dst) \<and> propMark g \<le> propCap dst"

lemma gd_deserialize_ok:
  assumes g: "bufs_ok g" "typed g" and dst: "bufs_ok dst" and fit: "fits dst g"
  shows "gd_deserialize dst (neo_of g) = Inr (overlay dst g)"
proof -
  have ns: "map unpack_node (neo_nodes (neo_of g)) = take (nat (nodeMark (base g))) (nodes (base g))"
    and rs: "map unpack_rel (neo_rels (neo_of g)) = take (nat (relMark (base g))) (rels (base g))"
    and ps: "map unpack_prop (neo_props (neo_of g)) = take (nat (propMark g)) (props g)"
    using g(2) by (auto simp: neo_of_def typed_def list_all_iff unpack_pack intro!: map_idI dest: in_set_takeD)
  have len: "int (length (neo_nodes (neo_of g))) = nodeMark (base g)" "int (length (neo_rels (neo_of g))) = relMark (base g)"
    "int (length (neo_props (neo_of g))) = propMark g"
    using g(1) by (auto simp: neo_of_def bufs_ok_def min_def)
  show ?thesis
    using dst fit ns rs ps len
    by (simp add: gd_deserialize_def pg_clear_def clear_def load_nodes load_rels load_props bufs_ok_def fits_def
        overlay_def)
qed

end
