(* ===== verification/Graph_File.thy ===== *)
theory Graph_File
  imports Neo4J_Format
begin

text \<open>
  \<open>GengoDBGraph\<close> (\<open>GengoDBGraph.h\<close>, \<open>GengoDBGraph.cpp\<close>): a property graph kept in a file, written by
  \<open>flush\<close> and read on first use by \<open>ensureLoaded\<close>. The file system is a map from paths to contents
  and modification times, with the paths that can be opened for writing and reading.
\<close>

record file_system =
  fs_files :: "string \<rightharpoonup> byte list"
  fs_mtime :: "string \<Rightarrow> int"
  fs_now :: int
  fs_writable :: "string \<Rightarrow> bool"
  fs_readable :: "string \<Rightarrow> bool"

record graph_file =
  storage :: pgraph
  fileName :: string
  dbDir :: string
  loaded :: bool

definition graphPath :: "string \<Rightarrow> string \<Rightarrow> string" where
  "graphPath dir name = dir @ ''/db.neo4j.'' @ name @ ''.dat''"

definition GRAPH_FILE_MAGIC :: int where
  "GRAPH_FILE_MAGIC = 0x47524150"

definition mk_graphFile :: "string \<Rightarrow> int \<Rightarrow> int \<Rightarrow> int \<Rightarrow> graph_file res" where
  "mk_graphFile name nodeCapacity relCapacity propCapacity =
     bindE (mk_pgraph nodeCapacity relCapacity propCapacity) (\<lambda>g.
     Inr \<lparr>storage = g, fileName = name, dbDir = [], loaded = False\<rparr>)"

definition setDBDir :: "graph_file \<Rightarrow> string \<Rightarrow> graph_file" where
  "setDBDir s dir = s\<lparr>dbDir := dir\<rparr>"

definition file_bytes :: "neo_graph \<Rightarrow> prop_data \<Rightarrow> byte list" where
  "file_bytes neo pd = u32_bytes GRAPH_FILE_MAGIC @ u32_bytes (int (length (neo_nodes neo)))
     @ u32_bytes (int (length (neo_rels neo))) @ u32_bytes (int (length (neo_props neo)))
     @ concat (map node_bytes (neo_nodes neo)) @ concat (map rel_bytes (neo_rels neo))
     @ concat (map prop_bytes (neo_props neo)) @ pd_flush pd"

definition gf_flush :: "file_system \<Rightarrow> graph_file \<Rightarrow> file_system res" where
  "gf_flush fs s =
     (if dbDir s = [] \<or> fileName s = [] then Inr fs
      else let path = graphPath (dbDir s) (fileName s) in
        if \<not> fs_writable fs path then Inl (RuntimeError (''GengoDBGraph::flush: cannot open '' @ path))
        else bindE (gd_serialize (storage s)) (\<lambda>neo.
          Inr (fs\<lparr>fs_files := (fs_files fs)(path \<mapsto> file_bytes neo (propData (storage s))),
                  fs_mtime := (fs_mtime fs)(path := fs_now fs)\<rparr>)))"

definition read_graph :: "string \<Rightarrow> pgraph \<Rightarrow> byte list \<Rightarrow> pgraph res" where
  "read_graph path g f =
     bindE (bindR (read_u32 f) (\<lambda>magic f. bindR (read_u32 f) (\<lambda>nn f. bindR (read_u32 f) (\<lambda>nr f.
       bindR (read_u32 f) (\<lambda>np f. Inr ((magic, nn, nr, np), f)))))) (\<lambda>((magic, nn, nr, np), f).
     if magic \<noteq> GRAPH_FILE_MAGIC then Inl (RuntimeError (''GengoDBGraph::ensureLoaded: bad magic in '' @ path))
     else bindE (bindR (read_n read_node (nat nn) f) (\<lambda>ns f. bindR (read_n read_rel (nat nr) f) (\<lambda>rs f.
       bindR (read_n read_prop (nat np) f) (\<lambda>ps f.
       Inr (\<lparr>neo_nodes = ns, neo_rels = rs, neo_props = ps\<rparr>, f))))) (\<lambda>(neo, f).
     bindE (gd_deserialize g neo) (\<lambda>g.
     bindE (pd_load (propData g) f) (\<lambda>(pd, f).
     Inr (g\<lparr>propData := pd\<rparr>)))))"

definition gf_ensureLoaded :: "file_system \<Rightarrow> graph_file \<Rightarrow> graph_file res" where
  "gf_ensureLoaded fs s =
     (if loaded s then Inr s
      else let s = s\<lparr>loaded := True\<rparr> in
        if nodeMark (base (storage s)) > 0 \<or> dbDir s = [] \<or> fileName s = [] then Inr s
        else let path = graphPath (dbDir s) (fileName s) in
          case fs_files fs path of
            None \<Rightarrow> Inr s
          | Some f \<Rightarrow>
              if \<not> fs_readable fs path then Inl (RuntimeError (''GengoDBGraph::ensureLoaded: cannot open '' @ path))
              else bindE (read_graph path (storage s) f) (\<lambda>g. Inr (s\<lparr>storage := g\<rparr>)))"

definition hasFreshCache :: "file_system \<Rightarrow> graph_file \<Rightarrow> string \<Rightarrow> bool" where
  "hasFreshCache fs s sourcePath =
     (if dbDir s = [] \<or> fileName s = [] then False
      else let path = graphPath (dbDir s) (fileName s) in
        if fs_files fs path = None then False
        else if sourcePath = [] \<or> fs_files fs sourcePath = None then True
        else fs_mtime fs path \<ge> fs_mtime fs sourcePath)"

section \<open>Reading what was written\<close>

lemma file_round_trip:
  assumes g: "bufs_ok g" "typed g" and pd: "pd_ok (propData g)" and dst: "bufs_ok dst" "pd_blobs (propData dst) = []"
    and fit: "fits dst g"
    and caps: "nodeCap (base g) < 2 ^ 31" "relCap (base g) < 2 ^ 31" "propCap g < 2 ^ 31"
  shows "read_graph path dst (file_bytes (neo_of g) (propData g)) =
    Inr ((overlay dst g)\<lparr>propData := (propData dst)\<lparr>lst_i64 := lst_i64 (propData g), lst_ui64 := lst_ui64 (propData g),
      lst_double := lst_double (propData g), pd_blobs := map reloaded (pd_blobs (propData g))\<rparr>\<rparr>)"
proof -
  let ?neo = "neo_of g"
  have ok: "list_all neo_node_ok (neo_nodes ?neo)" "list_all neo_rel_ok (neo_rels ?neo)" "list_all neo_prop_ok (neo_props ?neo)"
    using g(2) by (auto simp: neo_of_def typed_def list_all_iff neo_node_ok_def pack_node_def dest: in_set_takeD)
  have cnt: "is_u32 (int (length (neo_nodes ?neo)))" "is_u32 (int (length (neo_rels ?neo)))" "is_u32 (int (length (neo_props ?neo)))"
    "is_u32 GRAPH_FILE_MAGIC"
    using g(1) caps by (auto simp: neo_of_def bufs_ok_def is_u32_def GRAPH_FILE_MAGIC_def)
  have "propData (overlay dst g) = propData dst" by (simp add: overlay_def)
  moreover obtain ns rs ps where neo: "neo_of g = \<lparr>neo_nodes = ns, neo_rels = rs, neo_props = ps\<rparr>" by (cases "neo_of g")
  ultimately show ?thesis
    using pd_load_flush [OF pd dst(2), of "[]"] gd_deserialize_ok [OF g dst(1) fit] cnt ok
      neo_node.read_n_wr [OF ok(1)] neo_rel.read_n_wr [OF ok(2)] neo_prop.read_n_wr [OF ok(3)]
    by (simp add: read_graph_def file_bytes_def u32.rd_wr neo)
qed

text \<open>A representation is preserved when the entries below the marks are copied.\<close>

lemma graph_repr_copy:
  assumes r: "graph_repr g b" and ok: "stores_ok g'"
    and mk: "nodeMark g' = nodeMark g" "relMark g' = relMark g" "freeNodes g' = freeNodes g" "freeRels g' = freeRels g"
    and ns: "\<And>n. 0 \<le> n \<Longrightarrow> n < nodeMark g \<Longrightarrow> at (nodes g') n = at (nodes g) n"
    and rs: "\<And>i. 0 \<le> i \<Longrightarrow> i < relMark g \<Longrightarrow> at (rels g') i = at (rels g) i"
  shows "graph_repr g' b"
proof -
  have live: "liveNodes g' = liveNodes g" "liveRels g' = liveRels g" by (simp_all add: liveNodes_def liveRels_def mk)
  have lt: "n \<in> liveNodes g \<or> n \<in> set (freeNodes g) \<Longrightarrow> 0 \<le> n \<and> n < nodeMark g"
    "i \<in> liveRels g \<or> i \<in> set (freeRels g) \<Longrightarrow> 0 \<le> i \<and> i < relMark g" for n i
    using r by (auto simp: repr_defs liveNodes_def liveRels_def live_def pool_ok_def)
  have "nchain (rels g') n h xs" if c: "nchain (rels g) n h xs" and xs: "set xs \<subseteq> liveRels g" for n h xs
  proof -
    have eq: "at (rels g') x = at (rels g) x \<and> in_range (rels g') x" if "x \<in> set xs" for x
      using that xs lt(2) rs live_rel_range [OF ok] live by auto
    with c show ?thesis by (auto simp: nchain_def intro: chain_cong [rotated])
  qed
  moreover have "set (aadj b n) \<subseteq> liveRels g" if "n \<in> liveNodes g" for n
    using graph_repr_incident(2) [OF r that] by (auto simp: rel_live_iff)
  ultimately have "adj_repr g' b" using r ns lt(1) live by (auto simp: graph_repr_def adj_repr_def)
  moreover have "nodes_repr g' b" using r ns lt(1) live mk by (auto simp: graph_repr_def nodes_repr_def)
  moreover have "rels_repr g' b" using r rs lt(2) live mk by (simp add: graph_repr_def rels_repr_def)
  ultimately show ?thesis using ok by (simp add: graph_repr_def)
qed

lemma at_patch_take:
  "0 \<le> n \<Longrightarrow> n < m \<Longrightarrow> nat m \<le> length xs \<Longrightarrow> nat m \<le> length ys \<Longrightarrow> at (patch ys 0 (take (nat m) xs)) n = at xs n"
  by (simp add: at_def nth_patch min_def nat_less_iff)

lemma length_patch_take [simp]: "nat m \<le> length ys \<Longrightarrow> length (patch ys 0 (take (nat m) xs)) = length ys"
  by (simp add: patch_def)

lemma overlay_sel [simp]:
  "nodeMark (base (overlay dst g)) = nodeMark (base g)" "relMark (base (overlay dst g)) = relMark (base g)"
  "propMark (overlay dst g) = propMark g" "freeNodes (base (overlay dst g)) = []" "freeRels (base (overlay dst g)) = []"
  "freeProps (overlay dst g) = []" "nodeCap (base (overlay dst g)) = nodeCap (base dst)"
  "relCap (base (overlay dst g)) = relCap (base dst)" "propCap (overlay dst g) = propCap dst"
  by (simp_all add: overlay_def)

lemma overlay_entries:
  assumes "bufs_ok g" and "bufs_ok dst" and "fits dst g"
  shows "0 \<le> n \<Longrightarrow> n < nodeMark (base g) \<Longrightarrow> at (nodes (base (overlay dst g))) n = at (nodes (base g)) n"
    and "0 \<le> n \<Longrightarrow> n < relMark (base g) \<Longrightarrow> at (rels (base (overlay dst g))) n = at (rels (base g)) n"
    and "0 \<le> n \<Longrightarrow> n < propMark g \<Longrightarrow> at (props (overlay dst g)) n = at (props g) n"
    and "length (nodes (base (overlay dst g))) = length (nodes (base dst))"
    and "length (rels (base (overlay dst g))) = length (rels (base dst))"
    and "length (props (overlay dst g)) = length (props dst)"
  using assms by (auto simp: overlay_def bufs_ok_def fits_def min_def intro!: at_patch_take)

lemma pg_repr_bufs: "pg_repr g A \<Longrightarrow> bufs_ok g"
  by (auto simp: pg_repr_def repr_defs pool_inv_def pool_ok_def bufs_ok_def)

text \<open>A graph with the free lists of another one; the file does not hold them.\<close>

definition refree :: "pgraph \<Rightarrow> pgraph \<Rightarrow> pgraph" where
  "refree g q = q\<lparr>base := (base q)\<lparr>freeNodes := freeNodes (base g), freeRels := freeRels (base g)\<rparr>, freeProps := freeProps g\<rparr>"

lemma refree_sel [simp]:
  "nodes (base (refree g q)) = nodes (base q)" "rels (base (refree g q)) = rels (base q)" "props (refree g q) = props q"
  "nodeMark (base (refree g q)) = nodeMark (base q)" "relMark (base (refree g q)) = relMark (base q)" "propMark (refree g q) = propMark q"
  "nodeCap (base (refree g q)) = nodeCap (base q)" "relCap (base (refree g q)) = relCap (base q)" "propCap (refree g q) = propCap q"
  "freeNodes (base (refree g q)) = freeNodes (base g)" "freeRels (base (refree g q)) = freeRels (base g)" "freeProps (refree g q) = freeProps g"
  by (simp_all add: refree_def)

lemma refree_nothing:
  "freeNodes (base g) = freeNodes (base q) \<Longrightarrow> freeRels (base g) = freeRels (base q) \<Longrightarrow> freeProps g = freeProps q \<Longrightarrow> refree g q = q"
  by (simp add: refree_def)

lemma overlay_repr:
  assumes r: "pg_repr g A" and dst: "bufs_ok dst" "fits dst g"
  shows "pg_repr (refree g (overlay dst g)) A"
proof -
  let ?q = "refree g (overlay dst g)"
  obtain b where b: "pool_inv g" "graph_repr (base g) b" "forget b = ag A"
    "chains_ok g (owners b) (head b) (aprops A)" "\<And>i. i \<in> liveProps g \<Longrightarrow> apval A i = pdata g i"
    using pg_reprE [OF r] by blast
  note e = overlay_entries [OF pg_repr_bufs [OF r] dst]
  have "stores_ok (base g)" using b(2) by (simp add: graph_repr_def)
  then have "stores_ok (base ?q)"
    using e(4,5) dst by (auto simp: stores_ok_def bufs_ok_def fits_def pool_ok_def)
  then have base': "graph_repr (base ?q) b" using graph_repr_copy [OF b(2)] e(1,2) by simp
  have live: "liveProps ?q = liveProps g" by (simp add: liveProps_def)
  have lt: "0 \<le> i \<and> i < propMark g" if "i \<in> liveProps g \<or> i \<in> set (freeProps g)" for i
    using that b(1) by (auto simp: liveProps_def live_def pool_inv_def pool_ok_def)
  have pool': "pool_inv ?q"
    using b(1) e(3,6) dst live lt by (auto simp: pool_inv_def bufs_ok_def fits_def pool_ok_def)
  have "pchain (props ?q) h xs" if "pchain (props g) h xs" "set xs \<subseteq> liveProps g" for h xs
    by (rule chain_cong [OF _ that(1)]) (use that(2) lt e(3) live live_prop_range [OF pool'] in auto)
  moreover have "set (aprops A w) \<subseteq> liveProps g" if "w \<in> owners b" for w
    using b(4) that by (auto simp: chains_ok_def)
  ultimately have "chains_ok ?q (owners b) (head b) (aprops A)" using b(4) live by (simp add: chains_ok_def)
  then show ?thesis
    using pool' base' b(3,5) live lt e(3) by (intro pg_reprI [of _ b]) (auto simp: pdata_def)
qed

lemma pg_repr_propData: "pg_repr (g\<lparr>propData := pd\<rparr>) A = pg_repr g A"
  by (simp add: pg_repr_def pool_inv_def chains_ok_def liveProps_def pdata_def)

section \<open>Properties\<close>

text \<open>
  C11. A property graph survives a restart but for its free lists: if a graph that represents an abstract property graph is flushed, then a fresh
  \<open>GengoDBGraph\<close> of the same name and directory, with a capacity not below the marks of the graph, loads it and has the same out-of-line
  values; its free lists are empty, and given those of the flushed graph it represents the same abstract property graph.  If nothing had been
  removed, it represents that graph as it is.
\<close>

theorem flush_load_round_trip:
  assumes "pg_repr (storage s) A" and "typed (storage s)" and "pd_ok (propData (storage s))"
    and "nodeCap (base (storage s)) < 2 ^ 31" "relCap (base (storage s)) < 2 ^ 31" "propCap (storage s) < 2 ^ 31"
    and "dbDir s \<noteq> []" "fileName s \<noteq> []" "fs_writable fs (graphPath (dbDir s) (fileName s))"
      "fs_readable fs (graphPath (dbDir s) (fileName s))"
    and "mk_graphFile (fileName s) nc rc pc = Inr s0"
    and "nodeMark (base (storage s)) \<le> nc" "relMark (base (storage s)) \<le> rc" "propMark (storage s) \<le> pc"
  shows "\<exists>fs' s'. gf_flush fs s = Inr fs' \<and> gf_ensureLoaded fs' (setDBDir s0 (dbDir s)) = Inr s'
    \<and> pg_repr (refree (storage s) (storage s')) A
    \<and> freeNodes (base (storage s')) = [] \<and> freeRels (base (storage s')) = [] \<and> freeProps (storage s') = []
    \<and> (freeNodes (base (storage s)) = [] \<and> freeRels (base (storage s)) = [] \<and> freeProps (storage s) = [] \<longrightarrow> pg_repr (storage s') A)
    \<and> lst_i64 (propData (storage s')) = lst_i64 (propData (storage s)) \<and> lst_ui64 (propData (storage s')) = lst_ui64 (propData (storage s))
    \<and> lst_double (propData (storage s')) = lst_double (propData (storage s))
    \<and> (\<forall>k i. blob_bytes (propData (storage s')) k i = blob_bytes (propData (storage s)) k i)"
proof -
  let ?g = "storage s" and ?p = "graphPath (dbDir s) (fileName s)"
  obtain dst where dst: "mk_pgraph nc rc pc = Inr dst" "s0 = \<lparr>storage = dst, fileName = fileName s, dbDir = [], loaded = False\<rparr>"
    using assms(11) by (auto simp: mk_graphFile_def bindE_eq_Inr_iff)
  have d: "bufs_ok dst" "pd_blobs (propData dst) = []" "nodeMark (base dst) = 0" "fits dst ?g"
    using dst(1) assms(12-14)
    by (auto simp: mk_pgraph_def mk_graph_def bufs_ok_def bindE_eq_Inr_iff setBlobCapacity_def mk_propData_def fits_def
        split: if_splits)
  have b: "bufs_ok ?g" by (rule pg_repr_bufs [OF assms(1)])
  note rd = file_round_trip [OF b assms(2,3) d(1,2,4) assms(4-6), of ?p]
  define g' where "g' = (overlay dst ?g)\<lparr>propData := (propData dst)\<lparr>lst_i64 := lst_i64 (propData ?g),
      lst_ui64 := lst_ui64 (propData ?g), lst_double := lst_double (propData ?g),
      pd_blobs := map reloaded (pd_blobs (propData ?g))\<rparr>\<rparr>"
  define fs' where "fs' = fs\<lparr>fs_files := (fs_files fs)(?p \<mapsto> file_bytes (neo_of ?g) (propData ?g)),
      fs_mtime := (fs_mtime fs)(?p := fs_now fs)\<rparr>"
  have "gf_flush fs s = Inr fs'"
    using assms(7-9) gd_serialize_ok [OF b] by (simp add: gf_flush_def fs'_def Let_def)
  moreover have "gf_ensureLoaded fs' (setDBDir s0 (dbDir s)) =
      Inr \<lparr>storage = g', fileName = fileName s, dbDir = dbDir s, loaded = True\<rparr>"
    using rd assms(7,8,10) d(3) by (simp add: gf_ensureLoaded_def setDBDir_def dst(2) fs'_def g'_def Let_def)
  moreover have f: "freeNodes (base g') = []" "freeRels (base g') = []" "freeProps g' = []" by (simp_all add: g'_def)
  moreover have "refree ?g g' = (refree ?g (overlay dst ?g))\<lparr>propData := propData g'\<rparr>" by (simp add: g'_def refree_def)
  then have "pg_repr (refree ?g g') A" using overlay_repr [OF assms(1) d(1,4)] by (simp add: pg_repr_propData)
  moreover from this have "pg_repr g' A" if "freeNodes (base ?g) = []" "freeRels (base ?g) = []" "freeProps ?g = []"
    using refree_nothing [of ?g g'] that f by simp
  moreover have "list_all (\<lambda>kt. bt_ok (snd kt)) (pd_blobs (propData ?g))"
    using assms(3) by (auto simp: pd_ok_def table_ok_def list_all_iff)
  then have "blob_bytes (propData g') k i = blob_bytes (propData ?g) k i" for k i
    using blob_bytes_reloaded by (simp add: g'_def)
  moreover have "lst_i64 (propData g') = lst_i64 (propData ?g)" "lst_ui64 (propData g') = lst_ui64 (propData ?g)"
    "lst_double (propData g') = lst_double (propData ?g)" by (simp_all add: g'_def)
  ultimately show ?thesis by auto
qed

text \<open>
  Deletions do not survive a restart cleanly: the file does not hold the free lists, so after loading the
  image of a graph a removed node is a slot below the high-water mark that is not free again,
  counted by \<open>GraphStorage::nodeCount\<close> although its entry is not in use.
\<close>

theorem reload_forgets_free_slots:
  assumes "pg_repr g A" and "typed g" and "bufs_ok dst" and "fits dst g" and "n \<in> set (freeNodes (base g))"
  shows "\<exists>g'. bindE (gd_serialize g) (gd_deserialize dst) = Inr g' \<and> node_live (base g') n
    \<and> \<not> n_inUse (at (nodes (base g')) n)"
proof -
  have b: "bufs_ok g" by (rule pg_repr_bufs [OF assms(1)])
  obtain h where "graph_repr (base g) h" using pg_reprE [OF assms(1)] by blast
  then have n: "0 \<le> n" "n < nodeMark (base g)" "\<not> n_inUse (at (nodes (base g)) n)"
    using assms(5) by (auto simp: repr_defs pool_ok_def)
  have "bindE (gd_serialize g) (gd_deserialize dst) = Inr (overlay dst g)"
    using gd_serialize_ok [OF b] gd_deserialize_ok [OF b assms(2-4)] by simp
  then show ?thesis
    using n overlay_entries(1) [OF b assms(3,4), of n] by (simp add: node_live_def)
qed

definition persist_cmds :: "pcmd list" where
  "persist_cmds = [PAddNode, PAddNode, PAddNode, PAddRel 1 2 7, PAddNodeProp 1 1 2 3, PRemoveNode 0]"

definition sample_state :: "pgraph \<Rightarrow> bool" where
  "sample_state g \<longleftrightarrow> typed g \<and> freeNodes (base g) = [0] \<and> nodeCap (base g) = 3 \<and> relCap (base g) = 2 \<and> propCap g = 3"

lemma persist_cmds_run:
  "okE (\<lambda>h. p_permitted_run \<lparr>base = h, props = replicate 3 zero_prop, propMark = 0, propCap = 3, freeProps = [],
     pg_nodeCap = 3, pg_relCap = 2, propData = pd, persists = False\<rparr> persist_cmds
    \<and> okOE (\<lambda>(is, g). sample_state g) (p_run \<lparr>base = h, props = replicate 3 zero_prop, propMark = 0,
     propCap = 3, freeProps = [], pg_nodeCap = 3, pg_relCap = 2, propData = pd, persists = False\<rparr> persist_cmds))
    (mk_graph 3 2 0 0)"
  by code_simp

lemma persist_state:
  obtains g A where "pg_repr g A" and "sample_state g"
proof -
  obtain g0 "is" g where g: "mk_pgraph 3 2 3 = Inr g0" "p_permitted_run g0 persist_cmds"
    "p_run g0 persist_cmds = Some (Inr (is, g))" "sample_state g"
    using persist_cmds_run [of "setBlobCapacity mk_propData 1048576"] by (auto simp: mk_pgraph_def okE_iff okOE_iff)
  with p_run_repr [OF mk_pgraph_repr [OF g(1)] g(2)] show thesis using that by auto
qed

theorem flush_load_round_trip_witness:
  "\<exists>fs s A s0 fs' s'. pg_repr (storage s) A \<and> freeNodes (base (storage s)) = [0] \<and> mk_graphFile ''g'' 3 2 3 = Inr s0
    \<and> gf_flush fs s = Inr fs' \<and> gf_ensureLoaded fs' (setDBDir s0 ''d'') = Inr s' \<and> pg_repr (refree (storage s) (storage s')) A
    \<and> freeNodes (base (storage s')) = []"
proof -
  obtain g A where g: "pg_repr g A" "sample_state g" using persist_state .
  obtain pd where pd: "pd_ok pd" using sample_pd_ok by (auto simp: okE_iff)
  define s where "s = \<lparr>storage = g\<lparr>propData := pd\<rparr>, fileName = ''g'', dbDir = ''d'', loaded = True\<rparr>"
  let ?fs = "\<lparr>fs_files = Map.empty, fs_mtime = (\<lambda>_. 0), fs_now = 1, fs_writable = (\<lambda>_. True), fs_readable = (\<lambda>_. True)\<rparr>"
  obtain s0 where s0: "mk_graphFile ''g'' 3 2 3 = Inr s0" by (simp add: mk_graphFile_def mk_pgraph_def mk_graph_def)
  have r: "pg_repr (storage s) A" "freeNodes (base (storage s)) = [0]" using g by (simp_all add: s_def pg_repr_propData sample_state_def)
  have m: "nodeMark (base g) \<le> 3" "relMark (base g) \<le> 2" "propMark g \<le> 3"
    using pg_repr_bufs [OF g(1)] g(2) by (simp_all add: bufs_ok_def sample_state_def)
  have "\<exists>fs' s'. gf_flush ?fs s = Inr fs' \<and> gf_ensureLoaded fs' (setDBDir s0 ''d'') = Inr s' \<and> pg_repr (refree (storage s) (storage s')) A
      \<and> freeNodes (base (storage s')) = []"
    using flush_load_round_trip [of s A ?fs 3 2 3 s0] r g(2) pd s0 m
    by (auto simp: s_def sample_state_def typed_def)
  with r s0 show ?thesis by blast
qed

lemma removed_run:
  "okE (\<lambda>h. p_permitted_run \<lparr>base = h, props = replicate 3 zero_prop, propMark = 0, propCap = 3, freeProps = [],
     pg_nodeCap = 2, pg_relCap = 2, propData = pd, persists = False\<rparr> [PAddNode, PRemoveNode 0]
    \<and> okOE (\<lambda>(is, g). typed g \<and> freeNodes (base g) = [0]) (p_run \<lparr>base = h, props = replicate 3 zero_prop, propMark = 0,
     propCap = 3, freeProps = [], pg_nodeCap = 2, pg_relCap = 2, propData = pd, persists = False\<rparr> [PAddNode, PRemoveNode 0]))
    (mk_graph 2 2 0 0)"
  by code_simp

theorem reload_forgets_free_slots_witness:
  "\<exists>g A g'. pg_repr g A \<and> freeNodes (base g) = [0] \<and> bindE (gd_serialize g) (gd_deserialize g) = Inr g'
    \<and> node_live (base g') 0 \<and> \<not> n_inUse (at (nodes (base g')) 0)"
proof -
  obtain g0 "is" g where g: "mk_pgraph 2 2 3 = Inr g0" "p_permitted_run g0 [PAddNode, PRemoveNode 0]"
    "p_run g0 [PAddNode, PRemoveNode 0] = Some (Inr (is, g))" "typed g" "freeNodes (base g) = [0]"
    using removed_run [of "setBlobCapacity mk_propData 1048576"]
    by (auto simp: mk_pgraph_def okE_iff okOE_iff simp del: p_run.simps p_permitted_run.simps)
  obtain A where A: "pg_repr g A" using p_run_repr [OF mk_pgraph_repr [OF g(1)] g(2)] g(3) by auto
  have "bufs_ok g" "fits g g" using pg_repr_bufs [OF A] by (simp_all add: bufs_ok_def fits_def)
  with reload_forgets_free_slots [OF A g(4), of g 0] g(5) A show ?thesis by auto
qed

end
