(* ===== verification/Serialization.thy ===== *)
theory Serialization
  imports Byte_Codec
begin

text \<open>
  The serialisation framework of LingoDB (\<open>src/include/lingodb/utility/Serialization.h\<close> and
  \<open>src/src/utility/Serialization.cpp\<close>), over the in-memory byte writer and reader.  Each overload
  of \<open>writeValue\<close> is a function from a value to bytes and each specialisation of \<open>read\<close> a reader;
  the templates over an element type take the element's writer or reader.  Every pair satisfies the
  contract \<open>codec\<close>, and every reader the contract \<open>local_reader\<close>, by which truncated data is
  always reported.  The failure of an allocation for an absurd length in corrupt data is not modelled.
\<close>

section \<open>Bytes\<close>

definition sb_read :: "nat \<Rightarrow> byte list reader" where
  "sb_read n f = (if n > length f then Inl (RuntimeError ''Read past end of buffer'') else Inr (take n f, drop n f))"

lemma sb_read_append [simp]: "length bs = n \<Longrightarrow> sb_read n (bs @ rest) = Inr (bs, rest)"
  by (simp add: sb_read_def)

abbreviation present :: int where "present \<equiv> 0xFFFC"
abbreviation notPresent :: int where "notPresent \<equiv> 0xFFFD"
abbreviation objectStart :: int where "objectStart \<equiv> 0xFFFE"
abbreviation objectEnd :: int where "objectEnd \<equiv> 0xFFFF"

definition byte_of_char :: "char \<Rightarrow> byte" where
  "byte_of_char c = word_of_int (of_char c)"

definition char_of_byte :: "byte \<Rightarrow> char" where
  "char_of_byte b = char_of (uint b)"

lemma char_of_byte_of_char [simp]: "char_of_byte (byte_of_char c) = c"
proof -
  have "of_char c mod 256 = (of_char c :: int)" by (metis char_of_char of_char_of)
  then show ?thesis by (simp add: char_of_byte_def byte_of_char_def uint_word_of_int)
qed

lemma byte_of_char_of_byte [simp]: "byte_of_char (char_of_byte b) = b"
proof -
  have "uint b mod 256 = uint b" using uint_range_size [of b] by (simp add: word_size)
  then show ?thesis by (simp add: char_of_byte_def byte_of_char_def)
qed

section \<open>Writers\<close>

definition ser_bool :: "bool \<Rightarrow> byte list" where
  "ser_bool b = [if b then 1 else 0]"

definition ser_u8 :: "int \<Rightarrow> byte list" where
  "ser_u8 x = le_bytes 1 x"

definition ser_u16 :: "int \<Rightarrow> byte list" where
  "ser_u16 x = le_bytes 2 x"

definition ser_int :: "int \<Rightarrow> byte list" where
  "ser_int x = le_bytes 4 x"

definition ser_float :: "int \<Rightarrow> byte list" where
  "ser_float x = le_bytes 4 x"

definition ser_double :: "64 word \<Rightarrow> byte list" where
  "ser_double x = le_bytes 8 (uint x)"

definition ser_size :: "int \<Rightarrow> byte list" where
  "ser_size x = le_bytes 8 x"

definition ser_i64 :: "int \<Rightarrow> byte list" where
  "ser_i64 x = le_bytes 8 x"

definition ser_string :: "string \<Rightarrow> byte list" where
  "ser_string s = ser_size (int (length s)) @ map byte_of_char s"

definition ser_opt :: "('a \<Rightarrow> byte list) \<Rightarrow> 'a option \<Rightarrow> byte list" where
  "ser_opt wr v = (case v of Some x \<Rightarrow> ser_u16 present @ wr x | None \<Rightarrow> ser_u16 notPresent)"

definition ser_vec :: "('a \<Rightarrow> byte list) \<Rightarrow> 'a list \<Rightarrow> byte list" where
  "ser_vec wr xs = ser_size (int (length xs)) @ concat (map wr xs)"

definition ser_pair :: "('a \<Rightarrow> byte list) \<Rightarrow> ('b \<Rightarrow> byte list) \<Rightarrow> 'a \<times> 'b \<Rightarrow> byte list" where
  "ser_pair wa wb v = wa (fst v) @ wb (snd v)"

text \<open>An \<open>unordered_map\<close> is given as its entries in the order of iteration.\<close>

definition ser_map :: "('k \<Rightarrow> byte list) \<Rightarrow> ('v \<Rightarrow> byte list) \<Rightarrow> ('k \<times> 'v) list \<Rightarrow> byte list" where
  "ser_map wk wv m = ser_size (int (length m)) @ concat (map (\<lambda>(k, v). wk k @ wv v) m)"

definition ser_object :: "('a \<Rightarrow> byte list) \<Rightarrow> 'a \<Rightarrow> byte list" where
  "ser_object body x = ser_u16 objectStart @ body x @ ser_u16 objectEnd"

text \<open>The overloads for \<open>unique_ptr\<close> and \<open>shared_ptr\<close> are the same code; what they point to is an object.\<close>

definition ser_ptr :: "('a \<Rightarrow> byte list) \<Rightarrow> 'a option \<Rightarrow> byte list" where
  "ser_ptr body v = (case v of Some x \<Rightarrow> ser_u16 present @ ser_object body x | None \<Rightarrow> ser_u16 notPresent)"

text \<open>A scoped enumeration, by its value in an underlying type of one or two bytes.\<close>

definition ser_enum :: "bool \<Rightarrow> ('e \<Rightarrow> int) \<Rightarrow> 'e \<Rightarrow> byte list" where
  "ser_enum wide code e = (if wide then ser_u16 (code e) else ser_u8 (code e))"

definition writeProperty :: "int \<Rightarrow> ('a \<Rightarrow> byte list) \<Rightarrow> 'a \<Rightarrow> byte list" where
  "writeProperty propertyId wr x = ser_u16 propertyId @ wr x @ ser_u16 propertyId"

section \<open>Readers\<close>

definition de_bool :: "bool reader" where
  "de_bool f = bindR (sb_read 1 f) (\<lambda>bs f. Inr (bs \<noteq> [0], f))"

definition de_u8 :: "int reader" where
  "de_u8 f = bindR (sb_read 1 f) (\<lambda>bs f. Inr (le_int bs, f))"

definition de_u16 :: "int reader" where
  "de_u16 f = bindR (sb_read 2 f) (\<lambda>bs f. Inr (le_int bs, f))"

definition de_int :: "int reader" where
  "de_int f = bindR (sb_read 4 f) (\<lambda>bs f. Inr (to_i32 (le_int bs), f))"

definition de_float :: "int reader" where
  "de_float f = bindR (sb_read 4 f) (\<lambda>bs f. Inr (le_int bs, f))"

definition de_double :: "64 word reader" where
  "de_double f = bindR (sb_read 8 f) (\<lambda>bs f. Inr (word_of_int (le_int bs), f))"

definition de_size :: "int reader" where
  "de_size f = bindR (sb_read 8 f) (\<lambda>bs f. Inr (le_int bs, f))"

definition to_i64 :: "int \<Rightarrow> int" where
  "to_i64 x = (x + 2 ^ 63) mod 2 ^ 64 - 2 ^ 63"

definition is_i64 :: "int \<Rightarrow> bool" where
  "is_i64 x \<longleftrightarrow> - (2 ^ 63) \<le> x \<and> x < 2 ^ 63"

definition de_i64 :: "int reader" where
  "de_i64 f = bindR (sb_read 8 f) (\<lambda>bs f. Inr (to_i64 (le_int bs), f))"

definition de_string :: "string reader" where
  "de_string f = bindR (de_size f) (\<lambda>n f. bindR (sb_read (nat n) f) (\<lambda>bs f. Inr (map char_of_byte bs, f)))"

definition de_opt :: "'a reader \<Rightarrow> 'a option reader" where
  "de_opt rd f = bindR (de_u16 f) (\<lambda>m f.
     if m = notPresent then Inr (None, f) else bindR (rd f) (\<lambda>x f. Inr (Some x, f)))"

definition de_vec :: "'a reader \<Rightarrow> 'a list reader" where
  "de_vec rd f = bindR (de_size f) (\<lambda>n f. read_n rd (nat n) f)"

definition de_pair :: "'a reader \<Rightarrow> 'b reader \<Rightarrow> ('a \<times> 'b) reader" where
  "de_pair ra rb f = bindR (ra f) (\<lambda>a f. bindR (rb f) (\<lambda>b f. Inr ((a, b), f)))"

definition map_insert :: "('k \<rightharpoonup> 'v) \<Rightarrow> 'k \<times> 'v \<Rightarrow> ('k \<rightharpoonup> 'v)" where
  "map_insert m e = (case m (fst e) of Some _ \<Rightarrow> m | None \<Rightarrow> m(fst e \<mapsto> snd e))"

definition de_map :: "'k reader \<Rightarrow> 'v reader \<Rightarrow> ('k \<rightharpoonup> 'v) reader" where
  "de_map rk rv f = bindR (de_size f) (\<lambda>n f.
     bindR (read_n (de_pair rk rv) (nat n) f) (\<lambda>es f. Inr (foldl map_insert Map.empty es, f)))"

definition expect_marker :: "int \<Rightarrow> string \<Rightarrow> unit reader" where
  "expect_marker m msg f = bindR (de_u16 f) (\<lambda>m' f. if m' \<noteq> m then Inl (RuntimeError msg) else Inr ((), f))"

definition startObject :: "unit reader" where
  "startObject = expect_marker objectStart ''Expected object start marker''"

definition endObject :: "unit reader" where
  "endObject = expect_marker objectEnd ''Expected object end marker''"

definition startProperty :: "int \<Rightarrow> unit reader" where
  "startProperty propertyId = expect_marker propertyId ''Expected property start marker''"

definition endProperty :: "int \<Rightarrow> unit reader" where
  "endProperty propertyId = expect_marker propertyId ''Expected property end marker''"

definition de_object :: "'a reader \<Rightarrow> 'a reader" where
  "de_object body f = bindR (startObject f) (\<lambda>_ f. bindR (body f) (\<lambda>x f. bindR (endObject f) (\<lambda>_ f. Inr (x, f))))"

definition de_ptr :: "'a reader \<Rightarrow> 'a option reader" where
  "de_ptr body f = bindR (de_u16 f) (\<lambda>m f. if m = notPresent then Inr (None, f)
     else bindR (startObject f) (\<lambda>_ f. bindR (body f) (\<lambda>x f. bindR (endObject f) (\<lambda>_ f. Inr (Some x, f)))))"

definition de_enum :: "bool \<Rightarrow> (int \<Rightarrow> 'e) \<Rightarrow> 'e reader" where
  "de_enum wide decode f = bindR (if wide then de_u16 f else de_u8 f) (\<lambda>v f. Inr (decode v, f))"

definition readProperty :: "int \<Rightarrow> 'a reader \<Rightarrow> 'a reader" where
  "readProperty propertyId rd f =
     bindR (startProperty propertyId f) (\<lambda>_ f. bindR (rd f) (\<lambda>x f. bindR (endProperty propertyId f) (\<lambda>_ f. Inr (x, f))))"

section \<open>Reading back what was written\<close>

lemma to_i64_mod [simp]: "is_i64 x \<Longrightarrow> to_i64 (x mod 2 ^ 64) = x"
  by (simp add: is_i64_def to_i64_def mod_add_left_eq)

lemma codec_bool: "codec ser_bool de_bool (\<lambda>_. True) (\<lambda>x. x)"
  by unfold_locales (simp add: ser_bool_def de_bool_def sb_read_def)

lemma codec_u8: "codec ser_u8 de_u8 (\<lambda>x. 0 \<le> x \<and> x < 2 ^ 8) (\<lambda>x. x)"
  by unfold_locales (simp add: ser_u8_def de_u8_def le_int_bytes del: One_nat_def)

lemma codec_u16: "codec ser_u16 de_u16 (\<lambda>x. 0 \<le> x \<and> x < 2 ^ 16) (\<lambda>x. x)"
  by unfold_locales (simp add: ser_u16_def de_u16_def le_int_bytes)

lemma codec_int: "codec ser_int de_int is_i32 (\<lambda>x. x)"
proof
  fix x rest assume "is_i32 x"
  then have "to_i32 (x mod 256 ^ 4) = x" using to_i32_to_u32 [of x] by (simp add: to_u32_def)
  then show "de_int (ser_int x @ rest) = Inr (x, rest)" by (simp add: ser_int_def de_int_def le_int_bytes)
qed

lemma codec_float: "codec ser_float de_float is_u32 (\<lambda>x. x)"
  by unfold_locales (simp add: ser_float_def de_float_def le_int_bytes is_u32_def)

lemma codec_double: "codec ser_double de_double (\<lambda>_. True) (\<lambda>x. x)"
proof
  fix x :: "64 word" and rest
  have "uint x mod 256 ^ 8 = uint x" using uint_range_size [of x] by (simp add: word_size)
  then show "de_double (ser_double x @ rest) = Inr (x, rest)" by (simp add: ser_double_def de_double_def le_int_bytes)
qed

lemma codec_size: "codec ser_size de_size (\<lambda>x. 0 \<le> x \<and> x < 2 ^ 64) (\<lambda>x. x)"
  by unfold_locales (simp add: ser_size_def de_size_def le_int_bytes)

lemma codec_i64: "codec ser_i64 de_i64 is_i64 (\<lambda>x. x)"
proof
  fix x rest assume "is_i64 x"
  then have "to_i64 (x mod 256 ^ 8) = x" using to_i64_mod [of x] by simp
  then show "de_i64 (ser_i64 x @ rest) = Inr (x, rest)" by (simp add: ser_i64_def de_i64_def le_int_bytes)
qed

abbreviation len64 :: "'a list \<Rightarrow> bool" where
  "len64 xs \<equiv> int (length xs) < 2 ^ 64"

lemma codec_string: "codec ser_string de_string len64 (\<lambda>x. x)"
  by unfold_locales (simp add: ser_string_def de_string_def codec.rd_wr [OF codec_size] o_def)

lemma codec_opt:
  assumes "codec wr rd ok view"
  shows "codec (ser_opt wr) (de_opt rd) (pred_option ok) (map_option view)"
  by unfold_locales
     (auto simp: ser_opt_def de_opt_def codec.rd_wr [OF codec_u16] codec.rd_wr [OF assms] split: option.split)

lemma codec_vec:
  assumes "codec wr rd ok view"
  shows "codec (ser_vec wr) (de_vec rd) (\<lambda>xs. list_all ok xs \<and> len64 xs) (map view)"
  by unfold_locales
     (simp add: ser_vec_def de_vec_def codec.rd_wr [OF codec_size] codec.read_n_wr [OF assms])

lemma codec_pair:
  assumes "codec wa ra oka va" and "codec wb rb okb vb"
  shows "codec (ser_pair wa wb) (de_pair ra rb) (\<lambda>v. oka (fst v) \<and> okb (snd v)) (map_prod va vb)"
  by unfold_locales
     (auto simp: ser_pair_def de_pair_def codec.rd_wr [OF assms(1)] codec.rd_wr [OF assms(2)])

lemma map_insert_map_of:
  "distinct (map fst es) \<Longrightarrow> foldl map_insert m es = m ++ map_of es" if "fst ` set es \<inter> dom m = {}"
  using that
proof (induction es arbitrary: m)
  case (Cons e es)
  obtain k v where e: "e = (k, v)" by fastforce
  have "m k = None" using Cons.prems(2) e by auto
  then have "foldl map_insert m (e # es) = foldl map_insert (m(k \<mapsto> v)) es" by (simp add: map_insert_def e)
  also have "\<dots> = m(k \<mapsto> v) ++ map_of es"
  proof (rule Cons.IH)
    have "k \<notin> fst ` set es" "fst ` set es \<inter> dom m = {}" using Cons.prems e by auto
    then show "fst ` set es \<inter> dom (m(k \<mapsto> v)) = {}" by simp
  qed (use Cons.prems in simp)
  also have "\<dots> = m ++ map_of (e # es)"
    using Cons.prems(1) by (simp add: e map_add_upd_left dom_map_of_conv_image_fst)
  finally show ?case .
qed simp

lemma codec_map:
  assumes "codec wk rk okk vk" and "codec wv rv okv vv" and "inj_on vk (Collect okk)"
  shows "codec (ser_map wk wv) (de_map rk rv)
    (\<lambda>m. list_all (\<lambda>(k, v). okk k \<and> okv v) m \<and> distinct (map fst m) \<and> len64 m)
    (\<lambda>m. map_of (map (map_prod vk vv) m))"
proof
  fix m :: "('a \<times> 'c) list" and rest
  assume m: "list_all (\<lambda>(k, v). okk k \<and> okv v) m \<and> distinct (map fst m) \<and> len64 m"
  have p: "concat (map (\<lambda>(k, v). wk k @ wv v) m) = concat (map (ser_pair wk wv) m)"
    by (simp add: ser_pair_def [abs_def] case_prod_unfold)
  have "list_all (\<lambda>v. okk (fst v) \<and> okv (snd v)) m" using m by (auto simp: list_all_iff)
  note r = codec.read_n_wr [OF codec_pair [OF assms(1,2)] this]
  have "set (map fst m) \<subseteq> Collect okk" using m by (auto simp: list_all_iff)
  then have "distinct (map vk (map fst m))"
    unfolding distinct_map [of vk] using m inj_on_subset [OF assms(3)] by blast
  then have "distinct (map fst (map (map_prod vk vv) m))" by (simp add: o_def)
  from map_insert_map_of [OF _ this, of Map.empty]
  show "de_map rk rv (ser_map wk wv m @ rest) = Inr (map_of (map (map_prod vk vv) m), rest)"
    using m by (simp add: ser_map_def de_map_def codec.rd_wr [OF codec_size] p r)
qed

lemma expect_marker_ser [simp]:
  "0 \<le> m \<Longrightarrow> m < 2 ^ 16 \<Longrightarrow> expect_marker m msg (ser_u16 m @ rest) = Inr ((), rest)"
  by (simp add: expect_marker_def codec.rd_wr [OF codec_u16])

lemma codec_object:
  assumes "codec wr rd ok view"
  shows "codec (ser_object wr) (de_object rd) ok view"
  by unfold_locales
     (simp add: ser_object_def de_object_def startObject_def endObject_def codec.rd_wr [OF assms])

lemma codec_ptr:
  assumes "codec wr rd ok view"
  shows "codec (ser_ptr wr) (de_ptr rd) (pred_option ok) (map_option view)"
proof -
  have "ser_ptr wr = ser_opt (ser_object wr)" by (rule ext) (simp add: ser_ptr_def ser_opt_def)
  moreover have "de_ptr rd = de_opt (de_object rd)"
    by (rule ext) (simp add: de_ptr_def de_opt_def de_object_def bindR_def bindE_assoc case_prod_unfold cong: if_cong)
  ultimately show ?thesis using codec_opt [OF codec_object [OF assms]] by simp
qed

lemma codec_enum:
  "codec (ser_enum wide code) (de_enum wide decode)
     (\<lambda>e. decode (code e) = e \<and> 0 \<le> code e \<and> code e < (if wide then 2 ^ 16 else 2 ^ 8)) (\<lambda>x. x)"
  by unfold_locales
     (auto simp: ser_enum_def de_enum_def codec.rd_wr [OF codec_u16] codec.rd_wr [OF codec_u8])

lemma codec_property:
  assumes "codec wr rd ok view" and "0 \<le> i" and "i < 2 ^ 16"
  shows "codec (writeProperty i wr) (readProperty i rd) ok view"
  by unfold_locales
     (use assms(2,3) in \<open>simp add: writeProperty_def readProperty_def startProperty_def endProperty_def codec.rd_wr [OF assms(1)]\<close>)

section \<open>Truncated data\<close>

text \<open>
  A reader is local when its result depends only on the bytes it consumes.  A local reader cannot
  return a value from a proper prefix of an encoding.
\<close>

locale local_reader =
  fixes rd :: "'a reader"
  assumes rd_local: "rd f = Inr (x, r) \<Longrightarrow> \<exists>c. f = c @ r \<and> (\<forall>r'. rd (c @ r') = Inr (x, r'))"
begin

lemma truncated:
  assumes "codec wr rd ok view" and "ok x" and "n < length (wr x)"
  shows "\<exists>e. rd (take n (wr x)) = Inl e"
proof (cases "rd (take n (wr x))")
  case (Inr p)
  then obtain y r where "rd (take n (wr x)) = Inr (y, r)" by (cases p) auto
  then obtain c where c: "take n (wr x) = c @ r" "\<And>r'. rd (c @ r') = Inr (y, r')" using rd_local by blast
  have "rd (wr x @ []) = Inr (y, r @ drop n (wr x))"
    using c(2) [of "r @ drop n (wr x)"] append_take_drop_id [of n "wr x"] c(1) by simp
  moreover have "rd (wr x @ []) = Inr (view x, [])" using codec.rd_wr [OF assms(1,2)] .
  ultimately show ?thesis using assms(3) by simp
qed auto

end

lemma local_readerI:
  "(\<And>f x r. rd f = Inr (x, r) \<Longrightarrow> \<exists>c. f = c @ r \<and> (\<forall>r'. rd (c @ r') = Inr (x, r'))) \<Longrightarrow> local_reader rd"
  by unfold_locales

lemma local_return: "local_reader (\<lambda>f. Inr (x, f))"
  by unfold_locales auto

lemma local_fail: "local_reader (\<lambda>f. Inl e)"
  by unfold_locales auto

lemma local_if: "local_reader a \<Longrightarrow> local_reader b \<Longrightarrow> local_reader (\<lambda>f. if P then a f else b f)"
  by (cases P) simp_all

lemma local_sb_read: "local_reader (sb_read n)"
  by (rule local_readerI, rule exI [of _ "take n _"]) (auto simp: sb_read_def split: if_splits)

lemma local_bind:
  assumes "local_reader m" and "\<And>x. local_reader (k x)"
  shows "local_reader (\<lambda>f. bindR (m f) k)"
proof (rule local_readerI)
  fix f y r assume "bindR (m f) k = Inr (y, r)"
  then obtain x g where m: "m f = Inr (x, g)" and k: "k x g = Inr (y, r)"
    by (auto simp: bindR_def bindE_eq_Inr_iff)
  obtain c where c: "f = c @ g" "\<And>r'. m (c @ r') = Inr (x, r')" using local_reader.rd_local [OF assms(1) m] by blast
  obtain d where d: "g = d @ r" "\<And>r'. k x (d @ r') = Inr (y, r')" using local_reader.rd_local [OF assms(2) k] by blast
  show "\<exists>c. f = c @ r \<and> (\<forall>r'. bindR (m (c @ r')) k = Inr (y, r'))"
    using c d by (intro exI [of _ "c @ d"]) simp
qed

lemmas local_rules = local_bind local_return local_fail local_if local_sb_read

lemma local_read_n: "local_reader rd \<Longrightarrow> local_reader (read_n rd n)"
proof (induction n)
  case (Suc n)
  have "read_n rd (Suc n) = (\<lambda>f. bindR (rd f) (\<lambda>x f. bindR (read_n rd n f) (\<lambda>xs f. Inr (x # xs, f))))"
    by (rule ext) simp
  with Suc show ?case by (simp add: local_rules)
next
  case 0
  have "read_n rd 0 = (\<lambda>f. Inr ([], f))" by (rule ext) simp
  then show ?case by (simp add: local_rules)
qed

lemma local_scalars:
  "local_reader de_bool" "local_reader de_u8" "local_reader de_u16" "local_reader de_int" "local_reader de_float"
  "local_reader de_double" "local_reader de_size" "local_reader de_i64"
  unfolding de_bool_def [abs_def] de_u8_def [abs_def] de_u16_def [abs_def] de_int_def [abs_def] de_float_def [abs_def]
    de_double_def [abs_def] de_size_def [abs_def] de_i64_def [abs_def]
  by (intro local_rules)+

lemma local_string: "local_reader de_string"
  unfolding de_string_def [abs_def] by (intro local_rules local_scalars)

lemma local_opt: "local_reader rd \<Longrightarrow> local_reader (de_opt rd)"
  unfolding de_opt_def [abs_def] by (intro local_rules local_scalars)

lemma local_vec: "local_reader rd \<Longrightarrow> local_reader (de_vec rd)"
  unfolding de_vec_def [abs_def] by (intro local_rules local_scalars local_read_n)

lemma local_pair: "local_reader ra \<Longrightarrow> local_reader rb \<Longrightarrow> local_reader (de_pair ra rb)"
  unfolding de_pair_def [abs_def] by (intro local_rules)

lemma local_map: "local_reader rk \<Longrightarrow> local_reader rv \<Longrightarrow> local_reader (de_map rk rv)"
  unfolding de_map_def [abs_def] by (intro local_rules local_scalars local_read_n local_pair)

lemma local_marker: "local_reader (expect_marker m msg)"
  unfolding expect_marker_def [abs_def] by (intro local_rules local_scalars)

lemma local_object: "local_reader rd \<Longrightarrow> local_reader (de_object rd)"
  unfolding de_object_def [abs_def] startObject_def endObject_def by (intro local_rules local_marker)

lemma local_property: "local_reader rd \<Longrightarrow> local_reader (readProperty i rd)"
  unfolding readProperty_def [abs_def] startProperty_def endProperty_def by (intro local_rules local_marker)

interpretation string_reader: local_reader de_string
  by (rule local_string)

interpretation string_vec_reader: local_reader "de_vec de_string"
  by (intro local_vec local_string)

section \<open>Hexadecimal strings\<close>

definition hex_digits :: string where
  "hex_digits = ''0123456789ABCDEF''"

definition hex_char :: "int \<Rightarrow> char" where
  "hex_char d = hex_digits ! nat d"

definition serializeToHexString :: "('a \<Rightarrow> byte list) \<Rightarrow> 'a \<Rightarrow> string" where
  "serializeToHexString wr t =
     concat (map (\<lambda>b. [hex_char (uint b div 16), hex_char (uint b mod 16)]) (writeProperty 0 wr t))"

definition hex_val :: "char \<Rightarrow> int option" where
  "hex_val c = map_of (zip hex_digits [0..15] @ zip ''abcdef'' [10..15]) c"

primrec scan_hex :: "int \<Rightarrow> string \<Rightarrow> int" where
  "scan_hex a [] = a"
| "scan_hex a (c # cs) = (case hex_val c of None \<Rightarrow> a | Some d \<Rightarrow> scan_hex (16 * a + d) cs)"

text \<open>
  \<open>std::stoi\<close> in base 16 on the at most two characters it is given: leading blanks and a sign are
  skipped (a prefix \<open>0x\<close> leaves no room for digits, and reads as zero), and no digit at all is an error.
\<close>

definition stoi16 :: "string \<Rightarrow> int res" where
  "stoi16 s = (let s = dropWhile (\<lambda>c. c \<in> set [CHR 0x20, CHR 0x09, CHR 0x0A, CHR 0x0B, CHR 0x0C, CHR 0x0D]) s;
       neg = (take 1 s = ''-''); s = (if neg \<or> take 1 s = ''+'' then drop 1 s else s)
     in case s of [] \<Rightarrow> Inl InvalidArgument
        | c # _ \<Rightarrow> (if hex_val c = None then Inl InvalidArgument
            else Inr (if neg then - scan_hex 0 s else scan_hex 0 s)))"

fun hex_bytes :: "string \<Rightarrow> byte list res" where
  "hex_bytes [] = Inr []"
| "hex_bytes [c] = bindE (stoi16 [c]) (\<lambda>v. Inr [word_of_int v])"
| "hex_bytes (c # d # s) = bindE (stoi16 [c, d]) (\<lambda>v. bindE (hex_bytes s) (\<lambda>bs. Inr (word_of_int v # bs)))"

definition deserializeFromHexString :: "'a reader \<Rightarrow> string \<Rightarrow> 'a res" where
  "deserializeFromHexString rd s = bindE (hex_bytes s) (\<lambda>bs. bindE (readProperty 0 rd bs) (\<lambda>(x, _). Inr x))"

lemma hex_cases:
  assumes "0 \<le> d" "d < (16::int)"
  shows "d \<in> set [0, 1, 2, 3, 4, 5, 6, 7, 8, 9, 10, 11, 12, 13, 14, 15]"
  using assms by simp presburger

lemma hex_table:
  "list_all (\<lambda>d. hex_val (hex_char d) = Some d \<and> 
     hex_char d \<notin> set [CHR 0x20, CHR 0x09, CHR 0x0A, CHR 0x0B, CHR 0x0C, CHR 0x0D, CHR ''-'', CHR ''+''])
     [0, 1, 2, 3, 4, 5, 6, 7, 8, 9, 10, 11, 12, 13, 14, 15]"
  by code_simp

lemma hex_val_char [simp]: "0 \<le> d \<Longrightarrow> d < 16 \<Longrightarrow> hex_val (hex_char d) = Some d"
  using hex_cases [of d] hex_table unfolding list_all_iff by blast

lemma hex_char_plain [simp]:
  "0 \<le> d \<Longrightarrow> d < 16 \<Longrightarrow> hex_char d \<notin> set [CHR 0x20, CHR 0x09, CHR 0x0A, CHR 0x0B, CHR 0x0C, CHR 0x0D, CHR ''-'', CHR ''+'']"
  using hex_cases [of d] hex_table unfolding list_all_iff by blast

lemma stoi16_hex: "0 \<le> d \<Longrightarrow> d < 16 \<Longrightarrow> 0 \<le> e \<Longrightarrow> e < 16 \<Longrightarrow> stoi16 [hex_char d, hex_char e] = Inr (16 * d + e)"
  using hex_char_plain [of d] by (simp add: stoi16_def Let_def)

lemma hex_bytes_encode:
  "hex_bytes (concat (map (\<lambda>b. [hex_char (uint b div 16), hex_char (uint b mod 16)]) bs)) = Inr bs"
proof (induction bs)
  case (Cons b bs)
  have "0 \<le> uint b" "uint b < 256" using uint_range_size [of b] by (simp_all add: word_size)
  then have "stoi16 [hex_char (uint b div 16), hex_char (uint b mod 16)] = Inr (16 * (uint b div 16) + uint b mod 16)"
    by (intro stoi16_hex) (simp_all add: pos_imp_zdiv_nonneg_iff div_less_iff_less_mult)
  with Cons show ?case by simp
qed simp

section \<open>Properties of the framework\<close>

lemma map_option_ident: "map_option (\<lambda>x. x) = (\<lambda>x. x)"
  by (rule ext) (simp add: option.map_ident)

lemma map_prod_ident: "map_prod (\<lambda>x. x) (\<lambda>x. x) = (\<lambda>x. x)"
  by (rule ext) auto

text \<open>
  Values survive the hexadecimal form: whatever the value's writer and reader, if reading gives back what
  was written then \<open>deserializeFromHexString\<close> gives back what \<open>serializeToHexString\<close> was given.
\<close>

theorem hex_string_round_trip:
  assumes "codec wr rd ok view" and "ok x"
  shows "deserializeFromHexString rd (serializeToHexString wr x) = Inr (view x)"
proof -
  have "codec (writeProperty 0 wr) (readProperty 0 rd) ok view" using codec_property [OF assms(1)] by simp
  from codec.rd_wr [OF this assms(2), of "[]"] show ?thesis
    by (simp add: deserializeFromHexString_def serializeToHexString_def hex_bytes_encode)
qed

theorem hex_string_round_trip_witness:
  "deserializeFromHexString (de_vec de_string) (serializeToHexString (ser_vec ser_string) [''x'', ''yz''])
     = Inr [''x'', ''yz'']"
  using hex_string_round_trip [OF codec_vec [OF codec_string], of "[''x'', ''yz'']"] by simp

end
