(* ===== verification/Identifiers.thy ===== *)
theory Identifiers
  imports Serialization
begin

text \<open>
  Node identifiers of RDF graphs (\<open>src/include/gengodb/semantics/Identifiers.h\<close> and
  \<open>src/src/gengodb/semantics/Identifiers.cpp\<close>): the dictionary that numbers the nodes of one graph,
  its prefix-compressed serialised form, and the mapping between the numbers of one graph and the numbers
  shared by all graphs.  RDF terms come from the rdf4cpp package: an IRI is its identifier, the empty
  string for the null IRI, and a literal is what the accessors of \<open>rdf4cpp::Literal\<close> return.  The numeric
  codes of \<open>RDFNodeType\<close> belong to that package too and are the parameters \<open>code\<close> and \<open>decode\<close>.
\<close>

section \<open>RDF terms\<close>

datatype node_type = NtVariable | NtBNode | NtIRI | NtLiteral

text \<open>The types under which the sources take a literal's value out of a \<open>std::any\<close>.\<close>

datatype any_value =
    AnyBool bool | AnyI8 int | AnyI16 int | AnyI32 int | AnyI64 int
  | AnyU8 int | AnyU16 int | AnyU32 int | AnyU64 int
  | AnyFloat int | AnyDouble "64 word"
  | AnyDate int int int "int option" | AnyDateTime int "int option" | AnyOther

record literal =
  lit_datatype :: string
  lit_value :: any_value
  lit_lang :: string
  lit_lex :: string

datatype node = NodeIri string | NodeBlank string | NodeLiteral literal | NodeVariable string

record node_id =
  nid_type :: node_type
  nid_iri :: string
  nid_local :: string

definition node_id :: "node \<Rightarrow> node_id" where
  "node_id n = (case n of
       NodeIri iri \<Rightarrow> \<lparr>nid_type = NtIRI, nid_iri = iri, nid_local = []\<rparr>
     | NodeBlank b \<Rightarrow> \<lparr>nid_type = NtBNode, nid_iri = [], nid_local = b\<rparr>
     | _ \<Rightarrow> \<lparr>nid_type = NtLiteral, nid_iri = [], nid_local = []\<rparr>)"

text \<open>The identifiers that \<open>node_id\<close> produces, and those of variables.\<close>

definition nid_ok :: "node_id \<Rightarrow> bool" where
  "nid_ok n \<longleftrightarrow> (if nid_type n = NtIRI then nid_local n = [] else
     if nid_type n = NtLiteral then nid_iri n = [] \<and> nid_local n = [] else nid_iri n = [])"

lemma nid_ok_node_id [simp]: "nid_ok (node_id n)"
  by (cases n) (simp_all add: nid_ok_def node_id_def)

definition node_hash :: "(string \<Rightarrow> int) \<Rightarrow> node_id \<Rightarrow> int" where
  "node_hash h n = (case nid_type n of NtLiteral \<Rightarrow> 0 | NtIRI \<Rightarrow> h (nid_iri n) | _ \<Rightarrow> h (nid_local n))"

section \<open>The node dictionary\<close>

record node_dict =
  node_to_id :: "node_id \<rightharpoonup> int"
  id_to_node :: "node_id list"

definition empty_dict :: node_dict where
  "empty_dict = \<lparr>node_to_id = Map.empty, id_to_node = []\<rparr>"

definition dict_append :: "node_dict \<Rightarrow> node_id \<Rightarrow> int \<times> node_dict" where
  "dict_append d n = (let i = to_i32 (int (length (id_to_node d))) in
     (i, \<lparr>node_to_id = map_insert (node_to_id d) (n, i), id_to_node = id_to_node d @ [n]\<rparr>))"

definition dict_insert :: "node_dict \<Rightarrow> node \<Rightarrow> int \<times> node_dict" where
  "dict_insert d n = dict_append d (node_id n)"

definition mk_dict :: "node list \<Rightarrow> node_dict" where
  "mk_dict l = foldl (\<lambda>d n. snd (dict_insert d n)) empty_dict l"

definition get_or_insert :: "node_dict \<Rightarrow> node \<Rightarrow> int \<times> node_dict" where
  "get_or_insert d n = (case node_to_id d (node_id n) of Some i \<Rightarrow> (i, d) | None \<Rightarrow> dict_append d (node_id n))"

definition get_safe :: "node_dict \<Rightarrow> node \<Rightarrow> int" where
  "get_safe d n = (case node_to_id d (node_id n) of None \<Rightarrow> - 1 | Some i \<Rightarrow> i)"

text \<open>\<open>NodeId{}\<close> has the node type with code zero, and a negative identifier is a huge \<open>size_t\<close>.\<close>

definition dict_get :: "(int \<Rightarrow> node_type) \<Rightarrow> node_dict \<Rightarrow> int \<Rightarrow> node_id res" where
  "dict_get decode d i =
     (if i < 0 \<or> i > int (length (id_to_node d)) then Inr \<lparr>nid_type = decode 0, nid_iri = [], nid_local = []\<rparr>
      else get_at (id_to_node d) i)"

definition dict_size :: "node_dict \<Rightarrow> int" where
  "dict_size d = int (length (id_to_node d))"

text \<open>The dictionary maps every identifier to the first position at which it was inserted.\<close>

primrec first_at :: "node_id list \<Rightarrow> node_id \<Rightarrow> int option" where
  "first_at [] n = None"
| "first_at (m # ms) n = (if m = n then Some 0 else map_option (\<lambda>i. i + 1) (first_at ms n))"

definition dict_ok :: "node_dict \<Rightarrow> bool" where
  "dict_ok d \<longleftrightarrow> int (length (id_to_node d)) \<le> 2 ^ 31 \<and> node_to_id d = first_at (id_to_node d)
     \<and> list_all nid_ok (id_to_node d)"

lemma first_at_snoc: "first_at (ns @ [m]) n = (case first_at ns n of Some i \<Rightarrow> Some i
     | None \<Rightarrow> if m = n then Some (int (length ns)) else None)"
  by (induction ns) (auto split: option.splits)

lemma first_at_None: "first_at ns n = None \<longleftrightarrow> n \<notin> set ns"
  by (induction ns) auto

lemma first_at_Some: "first_at ns n = Some i \<Longrightarrow> in_range ns i \<and> at ns i = n"
proof (induction ns arbitrary: i)
  case (Cons m ms)
  then show ?case by (auto simp: in_range_def at_def nat_add_distrib split: if_splits)
qed simp

lemma map_insert_first_at:
  "map_insert (first_at ns) (n, int (length ns)) = first_at (ns @ [n])"
  by (rule ext) (auto simp: map_insert_def first_at_snoc split: option.splits)

lemma dict_ok_empty [simp]: "dict_ok empty_dict"
  by (simp add: dict_ok_def empty_dict_def fun_eq_iff)

lemma dict_append_ok:
  assumes "dict_ok d" and "dict_append d n = (i, d')" and "int (length (id_to_node d)) < 2 ^ 31" and "nid_ok n"
  shows "dict_ok d' \<and> i = int (length (id_to_node d)) \<and> id_to_node d' = id_to_node d @ [n]"
proof -
  have "to_i32 (int (length (id_to_node d))) = int (length (id_to_node d))"
    using assms(3) by (intro to_i32_id) (simp add: is_i32_def)
  then show ?thesis using assms by (auto simp: dict_append_def dict_ok_def Let_def map_insert_first_at)
qed

lemma dict_get_in: "in_range (id_to_node d) i \<Longrightarrow> dict_get decode d i = Inr (at (id_to_node d) i)"
  by (simp add: dict_get_def in_range_def get_at_def)

lemma dict_insert_ok:
  assumes "dict_ok d" and "dict_insert d n = (i, d')" and "dict_size d < 2 ^ 31"
  shows "dict_ok d'" and "i = dict_size d" and "id_to_node d' = id_to_node d @ [node_id n]"
  using dict_append_ok [OF assms(1), of "node_id n" i d'] assms(2,3) by (simp_all add: dict_insert_def dict_size_def)

lemma get_or_insert_ok:
  assumes "dict_ok d" and "get_or_insert d n = (i, d')" and "dict_size d < 2 ^ 31"
  shows "dict_ok d'" and "first_at (id_to_node d') (node_id n) = Some i"
    and "id_to_node d' = id_to_node d @ (if node_id n \<in> set (id_to_node d) then [] else [node_id n])"
proof -
  have m: "node_to_id d = first_at (id_to_node d)" using assms(1) by (simp add: dict_ok_def)
  show "dict_ok d'" "first_at (id_to_node d') (node_id n) = Some i"
    "id_to_node d' = id_to_node d @ (if node_id n \<in> set (id_to_node d) then [] else [node_id n])"
  proof (atomize (full), cases "first_at (id_to_node d) (node_id n)")
    case None
    then have "dict_append d (node_id n) = (i, d')" using assms(2) m by (simp add: get_or_insert_def)
    from dict_append_ok [OF assms(1) this] assms(3) None
    show "dict_ok d' \<and> first_at (id_to_node d') (node_id n) = Some i \<and>
      id_to_node d' = id_to_node d @ (if node_id n \<in> set (id_to_node d) then [] else [node_id n])"
      by (simp add: dict_size_def first_at_snoc first_at_None [symmetric])
  next
    case (Some j)
    then show "dict_ok d' \<and> first_at (id_to_node d') (node_id n) = Some i \<and>
      id_to_node d' = id_to_node d @ (if node_id n \<in> set (id_to_node d) then [] else [node_id n])"
      using assms(1,2) m by (auto simp: get_or_insert_def first_at_None [symmetric])
  qed
qed

section \<open>The serialised dictionary\<close>

record id_entry =
  e_type :: node_type
  e_prefix :: int
  e_suffix :: string

definition entry_bytes :: "(node_type \<Rightarrow> int) \<Rightarrow> id_entry \<Rightarrow> byte list" where
  "entry_bytes code e = writeProperty 1 (ser_enum False code) (e_type e) @ writeProperty 2 ser_int (e_prefix e)
     @ writeProperty 3 ser_string (e_suffix e)"

definition read_entry :: "(int \<Rightarrow> node_type) \<Rightarrow> id_entry reader" where
  "read_entry decode f = bindR (readProperty 1 (de_enum False decode) f) (\<lambda>t f. bindR (readProperty 2 de_int f) (\<lambda>i f.
     bindR (readProperty 3 de_string f) (\<lambda>s f. Inr (\<lparr>e_type = t, e_prefix = i, e_suffix = s\<rparr>, f))))"

record id_store =
  prefixes :: "string list"
  entries :: "id_entry list"

definition find_last_of :: "string \<Rightarrow> char set \<Rightarrow> nat option" where
  "find_last_of s cs = (let k = length (takeWhile (\<lambda>c. c \<notin> cs) (rev s)) in
     if k = length s then None else Some (length s - 1 - k))"

definition splitIRI :: "string \<Rightarrow> string \<times> string" where
  "splitIRI iri = (case find_last_of iri {CHR ''/'', CHR ''#''} of None \<Rightarrow> ([], iri)
     | Some pos \<Rightarrow> (take (pos + 1) iri, drop (pos + 1) iri))"

definition store_step :: "id_store \<times> (string \<rightharpoonup> int) \<Rightarrow> node_id \<Rightarrow> id_store \<times> (string \<rightharpoonup> int)" where
  "store_step st n = (case st of (store, prefixIndex) \<Rightarrow>
     if nid_type n = NtIRI then
       let (prefix, suffix) = splitIRI (nid_iri n) in
       (case prefixIndex prefix of
          None \<Rightarrow>
            let i = to_i32 (int (length (prefixes store))) in
            (\<lparr>prefixes = prefixes store @ [prefix], entries = entries store @ [\<lparr>e_type = NtIRI, e_prefix = i, e_suffix = suffix\<rparr>]\<rparr>,
             prefixIndex(prefix \<mapsto> i))
        | Some i \<Rightarrow> (store\<lparr>entries := entries store @ [\<lparr>e_type = NtIRI, e_prefix = i, e_suffix = suffix\<rparr>]\<rparr>, prefixIndex))
     else if nid_type n = NtBNode \<or> nid_type n = NtVariable then
       (store\<lparr>entries := entries store @ [\<lparr>e_type = nid_type n, e_prefix = - 1, e_suffix = nid_local n\<rparr>]\<rparr>, prefixIndex)
     else (store\<lparr>entries := entries store @ [\<lparr>e_type = nid_type n, e_prefix = - 1, e_suffix = []\<rparr>]\<rparr>, prefixIndex))"

definition buildStore :: "node_id list \<Rightarrow> id_store" where
  "buildStore ns = fst (foldl store_step (\<lparr>prefixes = [], entries = []\<rparr>, Map.empty) ns)"

definition readEntry :: "string list \<Rightarrow> id_entry \<Rightarrow> node_id res" where
  "readEntry ps e =
     (if e_type e = NtIRI then bindE (get_at ps (e_prefix e)) (\<lambda>p.
        Inr \<lparr>nid_type = NtIRI, nid_iri = p @ e_suffix e, nid_local = []\<rparr>)
      else if e_type e = NtBNode \<or> e_type e = NtVariable then Inr \<lparr>nid_type = e_type e, nid_iri = [], nid_local = e_suffix e\<rparr>
      else Inr \<lparr>nid_type = e_type e, nid_iri = [], nid_local = []\<rparr>)"

primrec mapE :: "('a \<Rightarrow> 'b res) \<Rightarrow> 'a list \<Rightarrow> 'b list res" where
  "mapE f [] = Inr []"
| "mapE f (x # xs) = bindE (f x) (\<lambda>y. bindE (mapE f xs) (\<lambda>ys. Inr (y # ys)))"

definition readStore :: "id_store \<Rightarrow> node_id list res" where
  "readStore store = mapE (readEntry (prefixes store)) (entries store)"

definition dict_serialize :: "(node_type \<Rightarrow> int) \<Rightarrow> node_dict \<Rightarrow> byte list" where
  "dict_serialize code d = (let store = buildStore (id_to_node d) in
     writeProperty 1 (ser_vec ser_string) (prefixes store)
     @ writeProperty 2 (ser_vec (ser_object (entry_bytes code))) (entries store))"

primrec index_from :: "(node_id \<rightharpoonup> int) \<Rightarrow> int \<Rightarrow> node_id list \<Rightarrow> (node_id \<rightharpoonup> int)" where
  "index_from m i [] = m"
| "index_from m i (n # ns) = index_from (map_insert m (n, to_i32 i)) (i + 1) ns"

definition dict_deserialize :: "(int \<Rightarrow> node_type) \<Rightarrow> node_dict reader" where
  "dict_deserialize decode f =
     bindR (readProperty 1 (de_vec de_string) f) (\<lambda>ps f.
     bindR (readProperty 2 (de_vec (de_object (read_entry decode))) f) (\<lambda>es f.
     bindE (readStore \<lparr>prefixes = ps, entries = es\<rparr>) (\<lambda>ns.
     Inr (\<lparr>node_to_id = index_from Map.empty 0 ns, id_to_node = ns\<rparr>, f))))"

lemma splitIRI_append: "splitIRI iri = (p, s) \<Longrightarrow> p @ s = iri"
  by (auto simp: splitIRI_def split: option.splits)

lemma mapE_list_all2: "list_all2 (\<lambda>x y. f x = Inr y) xs ys \<Longrightarrow> mapE f xs = Inr ys"
  by (induction rule: list_all2_induct) simp_all

text \<open>What \<open>buildStore\<close> keeps: the prefix index is faithful, and every entry reads back as its node.\<close>

definition store_inv :: "node_id list \<Rightarrow> id_store \<times> (string \<rightharpoonup> int) \<Rightarrow> bool" where
  "store_inv ns st \<longleftrightarrow> (case st of (store, ix) \<Rightarrow>
     int (length (prefixes store)) \<le> int (length ns)
     \<and> (\<forall>p i. ix p = Some i \<longrightarrow> in_range (prefixes store) i \<and> at (prefixes store) i = p)
     \<and> list_all2 (\<lambda>e n. readEntry (prefixes store) e = Inr n \<and> - 1 \<le> e_prefix e \<and> e_prefix e < int (length ns)
           \<and> length (e_suffix e) \<le> length (nid_iri n) + length (nid_local n)) (entries store) ns
     \<and> (\<forall>p \<in> set (prefixes store). \<exists>n \<in> set ns. length p \<le> length (nid_iri n)))"

lemma readEntry_mono: "readEntry ps e = Inr n \<Longrightarrow> readEntry (ps @ qs) e = Inr n"
  by (auto simp: readEntry_def bindE_eq_Inr_iff get_at_eq_Inr_iff in_range_def at_def nth_append split: if_splits)

lemma at_append_left: "in_range xs i \<Longrightarrow> at (xs @ ys) i = at xs i"
  by (auto simp: in_range_def at_def nth_append)

lemma list_all2_witness: "list_all2 P xs ys \<Longrightarrow> x \<in> set xs \<Longrightarrow> \<exists>y \<in> set ys. P x y"
  by (induction rule: list_all2_induct) auto

lemma list_all2_snoc: "list_all2 P xs ys \<Longrightarrow> P x y \<Longrightarrow> list_all2 P (xs @ [x]) (ys @ [y])"
  by (rule list_all2_appendI) simp_all

lemma store_inv_step:
  assumes "store_inv ns st" and "nid_ok n" and "int (length ns) < 2 ^ 31"
  shows "store_inv (ns @ [n]) (store_step st n)"
proof -
  obtain ps es ix where st: "st = (\<lparr>prefixes = ps, entries = es\<rparr>, ix)"
    by (metis id_store.surjective old.unit.exhaust surj_pair)
  define Q where "Q ps k e n \<longleftrightarrow> readEntry ps e = Inr n \<and> - 1 \<le> e_prefix e \<and> e_prefix e < int k
     \<and> length (e_suffix e) \<le> length (nid_iri n) + length (nid_local n)" for ps k e n
  have inv: "int (length ps) \<le> int (length ns)" "\<And>p i. ix p = Some i \<Longrightarrow> in_range ps i \<and> at ps i = p"
    "list_all2 (Q ps (length ns)) es ns" "\<And>p. p \<in> set ps \<Longrightarrow> \<exists>n \<in> set ns. length p \<le> length (nid_iri n)"
    using assms(1) by (simp_all add: store_inv_def st Q_def [abs_def])
  have weak: "list_all2 (Q (ps @ qs) (Suc (length ns))) es ns" for qs
    using inv(3) by (rule list_all2_mono) (auto simp: Q_def intro: readEntry_mono)
  have goal: "store_inv (ns @ [n]) (\<lparr>prefixes = ps @ qs, entries = es @ [e]\<rparr>, ix')"
    if "int (length (ps @ qs)) \<le> int (length ns) + 1" "\<And>p i. ix' p = Some i \<Longrightarrow> in_range (ps @ qs) i \<and> at (ps @ qs) i = p"
      "Q (ps @ qs) (Suc (length ns)) e n" "\<And>p. p \<in> set qs \<Longrightarrow> length p \<le> length (nid_iri n)" for qs e ix'
  proof -
    have "list_all2 (Q (ps @ qs) (Suc (length ns))) (es @ [e]) (ns @ [n])" using weak that(3) by (rule list_all2_snoc)
    moreover have "\<exists>m \<in> set (ns @ [n]). length p \<le> length (nid_iri m)" if "p \<in> set (ps @ qs)" for p
      using that inv(4) [of p] \<open>\<And>p. p \<in> set qs \<Longrightarrow> length p \<le> length (nid_iri n)\<close> [of p] by auto
    ultimately show ?thesis using that(1,2) unfolding store_inv_def Q_def [abs_def] by auto
  qed
  show ?thesis
  proof (cases "nid_type n = NtIRI")
    case True
    obtain p q where sp: "splitIRI (nid_iri n) = (p, q)" by fastforce
    have pq: "p @ q = nid_iri n" using splitIRI_append [OF sp] .
    have len: "length q \<le> length (nid_iri n)" "length p \<le> length (nid_iri n)" using arg_cong [OF pq, of length] by auto
    have rd: "readEntry qs \<lparr>e_type = NtIRI, e_prefix = i, e_suffix = q\<rparr> = Inr n"
      if "in_range qs i" "at qs i = p" for qs i
      using that pq assms(2) True by (cases n) (simp add: readEntry_def nid_ok_def)
    show ?thesis
    proof (cases "ix p")
      case None
      have i: "to_i32 (int (length ps)) = int (length ps)" using inv(1) assms(3) by (intro to_i32_id) (simp add: is_i32_def)
      have r: "in_range (ps @ [p]) (int (length ps))" "at (ps @ [p]) (int (length ps)) = p"
        by (simp_all add: in_range_def at_def)
      have old: "in_range (ps @ [p]) j \<and> at (ps @ [p]) j = x" if "ix x = Some j" for x j
        using inv(2) [OF that] by (auto simp: at_append_left in_range_def)
      have "store_inv (ns @ [n]) (\<lparr>prefixes = ps @ [p],
          entries = es @ [\<lparr>e_type = NtIRI, e_prefix = int (length ps), e_suffix = q\<rparr>]\<rparr>, ix(p \<mapsto> int (length ps)))"
        using inv(1) rd [OF r] len r old by (intro goal) (auto simp: Q_def split: if_splits)
      with None True sp i show ?thesis by (simp add: store_step_def st Let_def)
    next
      case (Some i)
      have "store_inv (ns @ [n]) (\<lparr>prefixes = ps @ [], entries = es @ [\<lparr>e_type = NtIRI, e_prefix = i, e_suffix = q\<rparr>]\<rparr>, ix)"
        using inv(1) inv(2) rd [of ps i] inv(2) [OF Some] len by (intro goal) (auto simp: Q_def in_range_def)
      with Some True sp show ?thesis by (simp add: store_step_def st)
    qed
  next
    case False
    define e where "e = \<lparr>e_type = nid_type n, e_prefix = - 1, e_suffix = if nid_type n = NtLiteral then [] else nid_local n\<rparr>"
    have "readEntry ps e = Inr n" using assms(2) False by (cases n; cases "nid_type n") (auto simp: readEntry_def nid_ok_def e_def)
    then have "store_inv (ns @ [n]) (\<lparr>prefixes = ps @ [], entries = es @ [e]\<rparr>, ix)"
      using inv(1,2) by (intro goal) (auto simp: Q_def e_def)
    with False show ?thesis by (cases "nid_type n") (auto simp: store_step_def st e_def)
  qed
qed

lemma buildStore_inv:
  "list_all nid_ok ns \<Longrightarrow> int (length ns) \<le> 2 ^ 31 \<Longrightarrow>
    store_inv ns (foldl store_step (\<lparr>prefixes = [], entries = []\<rparr>, Map.empty) ns)"
proof (induction ns rule: rev_induct)
  case Nil
  then show ?case by (simp add: store_inv_def)
next
  case (snoc n ns)
  then have "store_inv ns (foldl store_step (\<lparr>prefixes = [], entries = []\<rparr>, Map.empty) ns)" by simp
  from store_inv_step [OF this] snoc.prems show ?case by simp
qed

lemma first_at_empty: "first_at [] = Map.empty"
  by (rule ext) simp

lemma index_from_first_at:
  "int (length ms) + int (length ns) \<le> 2 ^ 31 \<Longrightarrow>
    index_from (first_at ms) (int (length ms)) ns = first_at (ms @ ns)"
proof (induction ns arbitrary: ms)
  case (Cons n ns)
  have "to_i32 (int (length ms)) = int (length ms)" using Cons.prems by (intro to_i32_id) (simp add: is_i32_def)
  then have "index_from (first_at ms) (int (length ms)) (n # ns) = index_from (first_at (ms @ [n])) (int (length (ms @ [n]))) ns"
    by (simp add: map_insert_first_at add.commute)
  with Cons.IH [of "ms @ [n]"] Cons.prems show ?case by simp
qed simp

definition entry_ok :: "(node_type \<Rightarrow> int) \<Rightarrow> (int \<Rightarrow> node_type) \<Rightarrow> id_entry \<Rightarrow> bool" where
  "entry_ok code decode e \<longleftrightarrow> (decode (code (e_type e)) = e_type e \<and> 0 \<le> code (e_type e) \<and> code (e_type e) < 2 ^ 8)
     \<and> is_i32 (e_prefix e) \<and> len64 (e_suffix e)"

lemma codec_entry: "codec (entry_bytes code) (read_entry decode) (entry_ok code decode) (\<lambda>e. e)"
  by unfold_locales
     (simp add: entry_bytes_def read_entry_def entry_ok_def codec.rd_wr [OF codec_property [OF codec_enum]]
        codec.rd_wr [OF codec_property [OF codec_int]] codec.rd_wr [OF codec_property [OF codec_string]])

abbreviation node_codes :: "(node_type \<Rightarrow> int) \<Rightarrow> (int \<Rightarrow> node_type) \<Rightarrow> bool" where
  "node_codes code decode \<equiv> (\<forall>t. decode (code t) = t \<and> 0 \<le> code t \<and> code t < 2 ^ 8)"

definition strings_fit :: "node_dict \<Rightarrow> bool" where
  "strings_fit d \<longleftrightarrow> list_all (\<lambda>n. int (length (nid_iri n) + length (nid_local n)) < 2 ^ 64) (id_to_node d)"

lemma dict_round_trip:
  assumes "node_codes code decode" and "dict_ok d" and "strings_fit d"
  shows "dict_deserialize decode (dict_serialize code d @ rest) = Inr (d, rest)"
proof -
  define ns where "ns = id_to_node d"
  obtain ps es ix where st: "foldl store_step (\<lparr>prefixes = [], entries = []\<rparr>, Map.empty) ns = (\<lparr>prefixes = ps, entries = es\<rparr>, ix)"
    by (metis id_store.surjective old.unit.exhaust surj_pair)
  have ns: "list_all nid_ok ns" "int (length ns) \<le> 2 ^ 31" "node_to_id d = first_at ns" "id_to_node d = ns"
    using assms(2) by (simp_all add: dict_ok_def ns_def)
  have inv: "int (length ps) \<le> int (length ns)"
    "list_all2 (\<lambda>e n. readEntry ps e = Inr n \<and> - 1 \<le> e_prefix e \<and> e_prefix e < int (length ns)
       \<and> length (e_suffix e) \<le> length (nid_iri n) + length (nid_local n)) es ns"
    "\<And>p. p \<in> set ps \<Longrightarrow> \<exists>n \<in> set ns. length p \<le> length (nid_iri n)"
    using buildStore_inv [OF ns(1,2)] unfolding st store_inv_def by auto
  have fit: "int (length (nid_iri n) + length (nid_local n)) < 2 ^ 64" if "n \<in> set ns" for n
    using assms(3) that by (auto simp: strings_fit_def list_all_iff ns_def)
  have "list_all len64 ps \<and> len64 ps"
    using inv(1,3) ns(2) fit by (fastforce simp: list_all_iff)
  note r1 = codec.rd_wr [OF codec_property [OF codec_vec [OF codec_string]] this]
  have "entry_ok code decode e" if e: "e \<in> set es" for e
  proof -
    obtain n where n: "n \<in> set ns" "- 1 \<le> e_prefix e" "e_prefix e < int (length ns)"
      "length (e_suffix e) \<le> length (nid_iri n) + length (nid_local n)"
      using list_all2_witness [OF inv(2) e] by blast
    then show ?thesis using fit [OF n(1)] ns(2) assms(1) by (auto simp: entry_ok_def is_i32_def)
  qed
  moreover have "length es = length ns" using inv(2) by (rule list_all2_lengthD)
  ultimately have "list_all (entry_ok code decode) es \<and> len64 es" using ns(2) by (auto simp: list_all_iff)
  note r2 = codec.rd_wr [OF codec_property [OF codec_vec [OF codec_object [OF codec_entry]]] this]
  have "readStore \<lparr>prefixes = ps, entries = es\<rparr> = Inr ns"
    unfolding readStore_def using inv(2) by (auto intro!: mapE_list_all2 elim!: list_all2_mono)
  moreover have "index_from Map.empty 0 ns = first_at ns"
    using index_from_first_at [of "[]" ns] ns(2) first_at_empty by simp
  ultimately show ?thesis
    using r1 r2 ns(3,4) by (simp add: dict_deserialize_def dict_serialize_def buildStore_def st ns_def [symmetric])
qed

section \<open>Graph-local and global numbers\<close>

record id_mapping =
  local_to_global :: "int list"
  global_to_local :: "int \<rightharpoonup> int"

definition empty_mapping :: id_mapping where
  "empty_mapping = \<lparr>local_to_global = [], global_to_local = Map.empty\<rparr>"

definition mapping_insert :: "id_mapping \<Rightarrow> int \<Rightarrow> int \<times> id_mapping" where
  "mapping_insert m gid = (let lid = to_i32 (int (length (local_to_global m))) in
     (lid, \<lparr>local_to_global = local_to_global m @ [gid], global_to_local = map_insert (global_to_local m) (gid, lid)\<rparr>))"

definition get_local_safe :: "id_mapping \<Rightarrow> int \<Rightarrow> int" where
  "get_local_safe m gid = (case global_to_local m gid of None \<Rightarrow> - 1 | Some lid \<Rightarrow> lid)"

definition get_local :: "id_mapping \<Rightarrow> int \<Rightarrow> int res" where
  "get_local m gid = (case global_to_local m gid of None \<Rightarrow> Inl (AssertFail ''unknown global id'') | Some lid \<Rightarrow> Inr lid)"

definition get_global_safe :: "id_mapping \<Rightarrow> int \<Rightarrow> int" where
  "get_global_safe m i = (if i < 0 \<or> i \<ge> int (length (local_to_global m)) then - 1 else at (local_to_global m) i)"

definition get_global :: "id_mapping \<Rightarrow> int \<Rightarrow> int res" where
  "get_global m i = get_at (local_to_global m) i"

definition mapping_of :: "int list \<Rightarrow> id_mapping" where
  "mapping_of gs = foldl (\<lambda>m g. snd (mapping_insert m g)) empty_mapping gs"

definition mapping_serialize :: "id_mapping \<Rightarrow> byte list" where
  "mapping_serialize m = writeProperty 1 (ser_vec ser_i64) (local_to_global m)"

primrec relink :: "(int \<rightharpoonup> int) \<Rightarrow> int \<Rightarrow> int list \<Rightarrow> (int \<rightharpoonup> int)" where
  "relink m i [] = m"
| "relink m i (g # gs) = relink (map_insert m (g, to_i32 i)) (i + 1) gs"

definition mapping_deserialize :: "id_mapping reader" where
  "mapping_deserialize f = bindR (readProperty 1 (de_vec de_i64) f) (\<lambda>gs f.
     Inr (\<lparr>local_to_global = gs, global_to_local = relink Map.empty 0 gs\<rparr>, f))"

lemma mapping_of_relink:
  "foldl (\<lambda>m g. snd (mapping_insert m g)) \<lparr>local_to_global = ls, global_to_local = r\<rparr> gs
     = \<lparr>local_to_global = ls @ gs, global_to_local = relink r (int (length ls)) gs\<rparr>"
  by (induction gs arbitrary: ls r) (simp_all add: mapping_insert_def Let_def add.commute)

lemma mapping_of_eq: "mapping_of gs = \<lparr>local_to_global = gs, global_to_local = relink Map.empty 0 gs\<rparr>"
  using mapping_of_relink [of "[]" Map.empty gs] by (simp add: mapping_of_def empty_mapping_def)

lemma relink_old: "relink m i gs g = Some l \<Longrightarrow> m g = Some l \<or> (\<exists>k < length gs. gs ! k = g \<and> l = to_i32 (i + int k))"
proof (induction gs arbitrary: m i)
  case (Cons h hs)
  from Cons.IH [of "map_insert m (h, to_i32 i)" "i + 1"] Cons.prems
  consider "map_insert m (h, to_i32 i) g = Some l" | k where "k < length hs" "hs ! k = g" "l = to_i32 (i + 1 + int k)" by auto
  then show ?case
  proof cases
    case 1
    then show ?thesis by (auto simp: map_insert_def split: option.splits if_splits intro: exI [of _ 0])
  next
    case 2
    then show ?thesis by (intro disjI2 exI [of _ "Suc k"]) (auto simp: algebra_simps)
  qed
qed auto

lemma relink_keeps: "m g = Some l \<Longrightarrow> relink m i gs g = Some l"
proof (induction gs arbitrary: m i)
  case (Cons h hs)
  then have "map_insert m (h, to_i32 i) g = Some l" by (auto simp: map_insert_def split: option.splits)
  with Cons.IH [of "map_insert m (h, to_i32 i)"] show ?case by simp
qed simp

lemma relink_dom: "g \<in> set gs \<Longrightarrow> relink m i gs g \<noteq> None"
proof (induction gs arbitrary: m i)
  case (Cons h hs)
  have "\<exists>l. map_insert m (h, to_i32 i) h = Some l" by (auto simp: map_insert_def split: option.splits)
  then have "relink (map_insert m (h, to_i32 i)) (i + 1) hs h \<noteq> None" using relink_keeps by fastforce
  with Cons show ?case by auto
qed simp

lemma mapping_of_local:
  assumes "int (length gs) \<le> 2 ^ 31" and "g \<in> set gs"
  obtains l where "global_to_local (mapping_of gs) g = Some l" and "in_range gs l" and "at gs l = g"
proof -
  obtain l where l: "relink Map.empty 0 gs g = Some l" using relink_dom [OF assms(2)] by blast
  obtain k where k: "k < length gs" "gs ! k = g" "l = to_i32 (int k)" using relink_old [OF l] by auto
  have "l = int k" unfolding k(3) using k(1) assms(1) by (intro to_i32_id) (simp add: is_i32_def)
  with k l that show thesis by (auto simp: mapping_of_eq in_range_def at_def)
qed

section \<open>Properties\<close>

text \<open>Numbering a sequence of nodes through \<open>get_or_insert\<close>, as a graph does while it is loaded.\<close>

primrec number_nodes :: "node_dict \<Rightarrow> node list \<Rightarrow> int list \<times> node_dict" where
  "number_nodes d [] = ([], d)"
| "number_nodes d (n # ns) = (let (i, d) = get_or_insert d n; (is, d) = number_nodes d ns in (i # is, d))"

lemma first_at_append_Some: "first_at xs n = Some i \<Longrightarrow> first_at (xs @ ys) n = Some i"
  by (induction xs arbitrary: i) (auto split: if_splits)

lemma number_nodes_ok:
  assumes "dict_ok d" and "number_nodes d ns = (is, d')" and "dict_size d + int (length ns) \<le> 2 ^ 31"
  shows "dict_ok d' \<and> (\<exists>ms. id_to_node d' = id_to_node d @ ms)
    \<and> list_all2 (\<lambda>i n. first_at (id_to_node d') (node_id n) = Some i) is ns"
  using assms
proof (induction ns arbitrary: d "is")
  case (Cons n ns)
  obtain i d1 where g: "get_or_insert d n = (i, d1)" by fastforce
  obtain js d2 where r: "number_nodes d1 ns = (js, d2)" by fastforce
  have eq: "is = i # js" "d2 = d'" using Cons.prems(2) g r by auto
  have "dict_size d < 2 ^ 31" using Cons.prems(3) by simp
  note ok = get_or_insert_ok [OF Cons.prems(1) g this]
  have sz: "dict_size d1 + int (length ns) \<le> 2 ^ 31" using ok(3) Cons.prems(3) by (auto simp: dict_size_def)
  obtain ms where ms: "id_to_node d2 = id_to_node d1 @ ms"
    and "dict_ok d2" "list_all2 (\<lambda>i n. first_at (id_to_node d2) (node_id n) = Some i) js ns"
    using Cons.IH [OF ok(1) r [unfolded eq(2)] sz] eq(2) by auto
  moreover have "first_at (id_to_node d2) (node_id n) = Some i"
    using ok(2) ms first_at_append_Some by simp
  ultimately show ?case using eq ok(3) by auto
qed auto

text \<open>
  C27. The dictionary numbers nodes faithfully: after any sequence of \<open>get_or_insert\<close> on a new
  dictionary, two of the nodes have the same number exactly when they have the same identifier, and looking
  a number up gives the identifier of its node.
\<close>

theorem numbers_identify_nodes:
  assumes "number_nodes empty_dict ns = (is, d)" and "int (length ns) \<le> 2 ^ 31"
    and "j < length ns" and "k < length ns"
  shows "(is ! j = is ! k) = (node_id (ns ! j) = node_id (ns ! k)) \<and> dict_get decode d (is ! j) = Inr (node_id (ns ! j))
    \<and> get_safe d (ns ! j) = is ! j"
proof -
  have "dict_size empty_dict + int (length ns) \<le> 2 ^ 31" using assms(2) by (simp add: dict_size_def empty_dict_def)
  note r = number_nodes_ok [OF dict_ok_empty assms(1) this]
  then have f: "first_at (id_to_node d) (node_id (ns ! i)) = Some (is ! i)" if "i < length ns" for i
    using that by (auto simp: list_all2_conv_all_nth)
  note s = first_at_Some [OF f]
  have "node_to_id d = first_at (id_to_node d)" using r by (simp add: dict_ok_def)
  then show ?thesis using s [OF assms(3)] s [OF assms(4)] f [OF assms(3)] f [OF assms(4)]
    by (auto simp: dict_get_in get_safe_def)
qed

theorem numbers_identify_nodes_witness:
  "dict_get (\<lambda>_. NtVariable) (snd (number_nodes empty_dict [NodeIri ''u'', NodeBlank ''b'', NodeIri ''u''])) 0
     = Inr (node_id (NodeIri ''u''))"
proof -
  let ?ns = "[NodeIri ''u'', NodeBlank ''b'', NodeIri ''u'']"
  have "fst (number_nodes empty_dict ?ns) = [0, 1, 0]" by code_simp
  then have "number_nodes empty_dict ?ns = ([0, 1, 0], snd (number_nodes empty_dict ?ns))"
    by (metis prod.collapse)
  from numbers_identify_nodes [OF this, of 0 2 "\<lambda>_. NtVariable"] show ?thesis by simp
qed

text \<open>
  A dictionary survives serialisation: with node type codes that fit a byte and can be decoded, reading
  what was written restores both directions of the dictionary, although IRIs are split into a shared table of
  prefixes and their suffixes.
\<close>

theorem dictionary_round_trip:
  assumes "node_codes code decode" and "dict_ok d" and "strings_fit d"
  shows "dict_deserialize decode (dict_serialize code d @ rest) = Inr (d, rest)"
  using dict_round_trip [OF assms] .

definition sample_code :: "node_type \<Rightarrow> int" where
  "sample_code t = (case t of NtVariable \<Rightarrow> 0 | NtBNode \<Rightarrow> 1 | NtIRI \<Rightarrow> 2 | NtLiteral \<Rightarrow> 3)"

definition sample_decode :: "int \<Rightarrow> node_type" where
  "sample_decode v = (if v = 0 then NtVariable else if v = 1 then NtBNode else if v = 2 then NtIRI else NtLiteral)"

lemma sample_node_codes: "node_codes sample_code sample_decode"
proof
  fix t show "sample_decode (sample_code t) = t \<and> 0 \<le> sample_code t \<and> sample_code t < 2 ^ 8"
    by (cases t) (simp_all add: sample_code_def sample_decode_def)
qed

theorem dictionary_round_trip_witness:
  "dict_deserialize sample_decode (dict_serialize sample_code (mk_dict [NodeIri ''http://x/a'', NodeIri ''http://x/b'']) @ [7])
     = Inr (mk_dict [NodeIri ''http://x/a'', NodeIri ''http://x/b''], [7])"
proof -
  let ?a = "NodeIri ''http://x/a''" and ?b = "NodeIri ''http://x/b''"
  obtain i d1 where d1: "dict_insert empty_dict ?a = (i, d1)" by fastforce
  obtain j d2 where d2: "dict_insert d1 ?b = (j, d2)" by fastforce
  have s: "dict_size empty_dict = 0" by (simp add: dict_size_def empty_dict_def)
  note o1 = dict_insert_ok [OF dict_ok_empty d1]
  have "dict_size d1 = 1" using o1 s by (simp add: dict_size_def empty_dict_def)
  note o2 = dict_insert_ok [OF _ d2]
  have ok: "dict_ok d2" "id_to_node d2 = [node_id ?a, node_id ?b]"
    using o1 o2 s \<open>dict_size d1 = 1\<close> by (simp_all add: empty_dict_def)
  have "strings_fit d2" by (simp add: strings_fit_def ok(2) node_id_def)
  moreover have "mk_dict [?a, ?b] = d2" by (simp add: mk_dict_def d1 d2)
  ultimately show ?thesis using dictionary_round_trip [OF sample_node_codes ok(1)] by simp
qed

text \<open>
  Local and global numbers: in a mapping built from a list of global numbers every
  one of them has a local number that leads back to it, the safe and the checked lookup agree on it, and the
  mapping survives serialisation.
\<close>

theorem mapping_round_trip:
  assumes "int (length gs) \<le> 2 ^ 31" and "list_all is_i64 gs"
  shows "mapping_deserialize (mapping_serialize (mapping_of gs) @ rest) = Inr (mapping_of gs, rest)
    \<and> (\<forall>g \<in> set gs. \<exists>l. get_local (mapping_of gs) g = Inr l \<and> get_local_safe (mapping_of gs) g = l
         \<and> get_global (mapping_of gs) l = Inr g \<and> get_global_safe (mapping_of gs) l = g)"
proof (intro conjI ballI)
  have "list_all is_i64 gs \<and> len64 gs" using assms by simp
  note r = codec.rd_wr [OF codec_property [OF codec_vec [OF codec_i64]] this]
  show "mapping_deserialize (mapping_serialize (mapping_of gs) @ rest) = Inr (mapping_of gs, rest)"
    using r by (simp add: mapping_deserialize_def mapping_serialize_def mapping_of_eq)
  fix g assume "g \<in> set gs"
  then obtain l where "global_to_local (mapping_of gs) g = Some l" "in_range gs l" "at gs l = g"
    using mapping_of_local [OF assms(1)] by blast
  then show "\<exists>l. get_local (mapping_of gs) g = Inr l \<and> get_local_safe (mapping_of gs) g = l
         \<and> get_global (mapping_of gs) l = Inr g \<and> get_global_safe (mapping_of gs) l = g"
    by (auto simp: get_local_def get_local_safe_def get_global_def get_global_safe_def mapping_of_eq in_range_def)
qed

theorem mapping_round_trip_witness:
  "mapping_deserialize (mapping_serialize (mapping_of [4, 9, 4]) @ [1]) = Inr (mapping_of [4, 9, 4], [1])"
  using mapping_round_trip [of "[4, 9, 4]" "[1]"] by (simp add: is_i64_def)

text \<open>
  \<open>NodeIdDict::get\<close> guards against identifiers that were never given out, except for the first of them: the
  number of nodes itself passes the test and reads one element past the end of the vector.
\<close>

theorem get_one_past_the_end:
  "dict_get decode d (dict_size d) = Inl OutOfBounds
   \<and> (i < 0 \<or> i > dict_size d \<longrightarrow> dict_get decode d i = Inr \<lparr>nid_type = decode 0, nid_iri = [], nid_local = []\<rparr>)"
  by (auto simp: dict_get_def dict_size_def get_at_def in_range_def)

theorem get_one_past_the_end_witness: "dict_get sample_decode empty_dict 0 = Inl OutOfBounds"
  using get_one_past_the_end [of sample_decode empty_dict 0] by (simp add: dict_size_def empty_dict_def)

end
