(* ===== verification/Std_Text.thy ===== *)
theory Std_Text
  imports Prelude
begin

text \<open>
  The text functions of the C++ standard library that the sources use: the character classes of
  \<open>cctype\<close> (in the C locale), \<open>std::to_string\<close> for integers and for \<open>float\<close>, and
  \<open>std::from_chars\<close> for \<open>float\<close>.  A \<open>float\<close> is its IEEE 754 bit pattern, an integer below
  \<open>2 ^ 32\<close>.
\<close>

section \<open>Character classes\<close>

definition isspace :: "char \<Rightarrow> bool" where
  "isspace c \<longleftrightarrow> c \<in> set [CHR 0x20, CHR 0x09, CHR 0x0A, CHR 0x0B, CHR 0x0C, CHR 0x0D]"

definition isdigit :: "char \<Rightarrow> bool" where
  "isdigit c \<longleftrightarrow> c \<in> set ''0123456789''"

definition isalpha :: "char \<Rightarrow> bool" where
  "isalpha c \<longleftrightarrow> c \<in> set ''abcdefghijklmnopqrstuvwxyzABCDEFGHIJKLMNOPQRSTUVWXYZ''"

definition isalnum :: "char \<Rightarrow> bool" where
  "isalnum c \<longleftrightarrow> isdigit c \<or> isalpha c"

definition toupper :: "char \<Rightarrow> char" where
  "toupper c = (case map_of (zip ''abcdefghijklmnopqrstuvwxyz'' ''ABCDEFGHIJKLMNOPQRSTUVWXYZ'') c of
     None \<Rightarrow> c | Some u \<Rightarrow> u)"

section \<open>Integers\<close>

definition digit_char :: "int \<Rightarrow> char" where
  "digit_char d = ''0123456789'' ! nat d"

definition digit_val :: "char \<Rightarrow> int" where
  "digit_val c = int (length (takeWhile (\<lambda>d. d \<noteq> c) ''0123456789''))"

function show_digits :: "int \<Rightarrow> string" where
  "show_digits n = (if n < 10 then [digit_char n] else show_digits (n div 10) @ [digit_char (n mod 10)])"
  by pat_completeness auto
termination by (relation "measure nat") auto

declare show_digits.simps [simp del]

definition int_to_string :: "int \<Rightarrow> string" where
  "int_to_string n = (if n < 0 then CHR ''-'' # show_digits (- n) else show_digits n)"

definition digits_val :: "string \<Rightarrow> int" where
  "digits_val ds = foldl (\<lambda>a c. 10 * a + digit_val c) 0 ds"

definition read_int :: "string \<Rightarrow> int" where
  "read_int s = (if take 1 s = ''-'' then - digits_val (drop 1 s) else digits_val s)"

lemma digit_cases:
  assumes "0 \<le> d" "d < 10"
  shows "d = 0 \<or> d = 1 \<or> d = 2 \<or> d = 3 \<or> d = 4 \<or> d = 5 \<or> d = 6 \<or> d = 7 \<or> d = 8 \<or> d = (9::int)"
  using assms by presburger

lemma digit_val_char [simp]: "0 \<le> d \<Longrightarrow> d < 10 \<Longrightarrow> digit_val (digit_char d) = d"
  by (drule (1) digit_cases) (auto simp: digit_val_def digit_char_def)

lemma isdigit_digit_char [simp]: "0 \<le> d \<Longrightarrow> d < 10 \<Longrightarrow> isdigit (digit_char d)"
  by (drule (1) digit_cases) (auto simp: isdigit_def digit_char_def)

lemma digits_val_snoc [simp]: "digits_val (ds @ [c]) = 10 * digits_val ds + digit_val c"
  by (simp add: digits_val_def)

lemma digits_val_Nil [simp]: "digits_val [] = 0"
  by (simp add: digits_val_def)

lemma digits_val_show_digits [simp]: "0 \<le> n \<Longrightarrow> digits_val (show_digits n) = n"
proof (induction n rule: show_digits.induct)
  case (1 n)
  show ?case
  proof (cases "n < 10")
    case True
    then have "digits_val ([] @ [digit_char n]) = n" unfolding digits_val_snoc using 1 by simp
    with True show ?thesis by (simp add: show_digits.simps)
  next
    case False
    with 1 have "digits_val (show_digits (n div 10)) = n div 10" by (simp add: pos_imp_zdiv_nonneg_iff)
    with False show ?thesis by (subst show_digits.simps) simp
  qed
qed

lemma all_digits_show_digits: "0 \<le> n \<Longrightarrow> list_all isdigit (show_digits n)"
  by (induction n rule: show_digits.induct, subst show_digits.simps)
     (auto simp: pos_imp_zdiv_nonneg_iff)

lemma show_digits_ne [simp]: "show_digits n \<noteq> []"
  by (subst show_digits.simps) simp

lemma minus_not_digit [simp]: "\<not> isdigit (CHR ''-'')"
  by (simp add: isdigit_def)

lemma read_int_to_string [simp]: "read_int (int_to_string n) = n"
proof (cases "n < 0")
  case False
  then have "list_all isdigit (show_digits n)" by (simp add: all_digits_show_digits)
  then have "take 1 (show_digits n) \<noteq> ''-''" by (cases "show_digits n") auto
  with False show ?thesis by (simp add: int_to_string_def read_int_def)
qed (simp add: int_to_string_def read_int_def)

lemma to_string_inject [simp]: "int_to_string a = int_to_string b \<longleftrightarrow> a = b"
  by (metis read_int_to_string)

section \<open>Floating point\<close>

text \<open>
  The significant bits and the exponent of the finite \<open>float\<close> nearest to the positive rational
  \<open>n / d\<close>, ties to even: the value is \<open>m * 2 ^ e\<close> with \<open>e \<ge> - 149\<close>.
\<close>

function bitlen :: "int \<Rightarrow> int" where
  "bitlen n = (if n \<le> 0 then 0 else 1 + bitlen (n div 2))"
  by pat_completeness auto
termination by (relation "measure nat") auto

declare bitlen.simps [simp del]

definition scale :: "int \<Rightarrow> int \<Rightarrow> int" where
  "scale n e = (if e \<ge> 0 then n * 2 ^ nat e else n)"

definition round_half_even :: "int \<Rightarrow> int \<Rightarrow> int" where
  "round_half_even n d = (let q = n div d; r = n mod d in
     if 2 * r < d \<or> 2 * r = d \<and> even q then q else q + 1)"

definition float_exp :: "int \<Rightarrow> int \<Rightarrow> int" where
  "float_exp n d = (let e = bitlen n - bitlen d - 24 in
     max (- 149) (if scale n (- e) \<ge> 2 ^ 24 * scale d e then e + 1 else e))"

definition float_bits :: "int \<Rightarrow> int \<Rightarrow> int" where
  "float_bits n d = (if n = 0 then 0
     else let e = float_exp n d in (e + 149) * 2 ^ 23 + round_half_even (scale n (- e)) (scale d e))"

text \<open>
  \<open>from_chars\<close> for \<open>float\<close> in the general format: the longest prefix that is an optional minus
  sign, digits with an optional point, and an optional exponent; no result for a malformed number
  and for one outside the range of \<open>float\<close>.
\<close>

definition scan_exponent :: "string \<Rightarrow> int \<times> string" where
  "scan_exponent s = (if take 1 s \<noteq> ''e'' \<and> take 1 s \<noteq> ''E'' then (0, s)
     else let sg = take 1 (drop 1 s); t = (if sg = ''+'' \<or> sg = ''-'' then drop 2 s else drop 1 s);
              ds = takeWhile isdigit t
          in if ds = [] then (0, s)
             else ((if sg = ''-'' then - digits_val ds else digits_val ds), dropWhile isdigit t))"

definition from_chars :: "string \<Rightarrow> (int \<times> string) option" where
  "from_chars s = (let neg = (take 1 s = ''-''); t = (if neg then drop 1 s else s);
       ip = takeWhile isdigit t; u = dropWhile isdigit t;
       fp = (if take 1 u = ''.'' then takeWhile isdigit (drop 1 u) else []);
       v = (if take 1 u = ''.'' \<and> (ip \<noteq> [] \<or> fp \<noteq> []) then dropWhile isdigit (drop 1 u) else u)
     in if ip = [] \<and> fp = [] then None
        else let (ex, rest) = scan_exponent v; m = digits_val (ip @ fp); e = ex - int (length fp);
                 b = float_bits (if e \<ge> 0 then m * 10 ^ nat e else m) (if e \<ge> 0 then 1 else 10 ^ nat (- e))
             in if b \<ge> 0x7F800000 \<or> m \<noteq> 0 \<and> b = 0 then None
                else Some (if neg then b + 0x80000000 else b, rest))"

text \<open>\<open>std::to_string\<close> of a \<open>float\<close> prints with six decimals (\<open>printf\<close> with \<open>%f\<close>).\<close>

definition float_mant :: "int \<Rightarrow> int" where
  "float_mant b = (let f = b mod 2 ^ 23; x = b div 2 ^ 23 mod 256 in if x = 0 then f else 2 ^ 23 + f)"

definition float_pow :: "int \<Rightarrow> int" where
  "float_pow b = (let x = b div 2 ^ 23 mod 256 in if x = 0 then - 149 else x - 150)"

definition pad_left :: "nat \<Rightarrow> string \<Rightarrow> string" where
  "pad_left n s = replicate (n - length s) (CHR ''0'') @ s"

definition float_to_string :: "int \<Rightarrow> string" where
  "float_to_string b = (let sg = (if b \<ge> 2 ^ 31 then ''-'' else []); x = b div 2 ^ 23 mod 256 in
     if x = 255 then sg @ (if b mod 2 ^ 23 = 0 then ''inf'' else ''nan'')
     else let e = float_pow b; k = round_half_even (scale (float_mant b * 1000000) e) (scale 1 (- e))
          in sg @ show_digits (k div 1000000) @ ''.'' @ pad_left 6 (show_digits (k mod 1000000)))"

definition float_in_unit :: "int \<Rightarrow> bool" where
  "float_in_unit b \<longleftrightarrow> 0 \<le> b \<and> b \<le> 0x3F800000 \<or> b = 0x80000000"

abbreviation float_one :: int where
  "float_one \<equiv> 0x3F800000"

lemma float_one_in_unit [simp]: "float_in_unit float_one"
  by (simp add: float_in_unit_def)

lemma round_half_even_nearest:
  assumes "0 < d"
  shows "2 * \<bar>round_half_even n d * d - n\<bar> \<le> d"
proof -
  define q r where "q = n div d" and "r = n mod d"
  have r: "0 \<le> r" "r < d" using assms by (simp_all add: r_def)
  have n: "n = q * d + r" by (simp add: q_def r_def)
  have up: "(q + 1) * d - (q * d + r) = d - r" by (simp add: algebra_simps)
  show ?thesis
  proof (cases "2 * r < d \<or> 2 * r = d \<and> even q")
    case True
    then have "round_half_even n d = q" by (simp add: round_half_even_def q_def r_def)
    with r n True show ?thesis by auto
  next
    case False
    then have "round_half_even n d = q + 1" by (auto simp: round_half_even_def q_def r_def Let_def)
    then have "round_half_even n d * d - n = d - r" using n up by simp
    with r False show ?thesis by auto
  qed
qed

end
