(* ===== verification/Rdf_Values.thy ===== *)
theory Rdf_Values
  imports Identifiers Std_Text "HOL-Library.Signed_Division"
begin

unbundle bit_operations_syntax

text \<open>
  How literal values are packed into the storage (\<open>RdfDatatypeInlineHelper\<close> and
  \<open>RdfDatatypeFixedHelper\<close> of \<open>src/include/gengodb/semantics/RdfGraph.h\<close>): values of up to four bytes
  go into the property record itself, 64-bit values and dates into the fixed-size lists.  Datatypes are
  named by their XML Schema IRIs; a date is a year, month and day with an optional time zone
  offset in minutes, a date-time a number of nanoseconds since the epoch with an optional offset.
\<close>

definition XSD :: string where
  "XSD = ''http://www.w3.org/2001/XMLSchema#''"

section \<open>Inlined values\<close>

definition inlinedIRIs :: "string list" where
  "inlinedIRIs = map (\<lambda>n. XSD @ n) [''boolean'', ''byte'', ''float'', ''int'', ''short'', ''unsignedByte'', ''unsignedInt'', ''unsignedShort'']"

definition isInlined :: "string \<Rightarrow> bool" where
  "isInlined datatype \<longleftrightarrow> datatype \<in> set inlinedIRIs"

abbreviation bad_cast :: "'a res" where
  "bad_cast \<equiv> Inl (AssertFail ''bad cast'')"

definition inlineValue :: "any_value \<Rightarrow> string \<Rightarrow> int res" where
  "inlineValue v datatype =
     (if datatype = XSD @ ''boolean'' then (case v of AnyBool b \<Rightarrow> Inr (if b then 1 else 0) | _ \<Rightarrow> bad_cast)
      else if datatype = XSD @ ''byte'' then (case v of AnyI8 x \<Rightarrow> Inr (x mod 2 ^ 8) | _ \<Rightarrow> bad_cast)
      else if datatype = XSD @ ''float'' then (case v of AnyFloat x \<Rightarrow> Inr (x mod 2 ^ 32) | _ \<Rightarrow> bad_cast)
      else if datatype = XSD @ ''int'' then (case v of AnyI32 x \<Rightarrow> Inr (x mod 2 ^ 32) | _ \<Rightarrow> bad_cast)
      else if datatype = XSD @ ''short'' then (case v of AnyI16 x \<Rightarrow> Inr (x mod 2 ^ 16) | _ \<Rightarrow> bad_cast)
      else if datatype = XSD @ ''unsignedByte'' then (case v of AnyU8 x \<Rightarrow> Inr (x mod 2 ^ 8) | _ \<Rightarrow> bad_cast)
      else if datatype = XSD @ ''unsignedInt'' then (case v of AnyU32 x \<Rightarrow> Inr (x mod 2 ^ 32) | _ \<Rightarrow> bad_cast)
      else if datatype = XSD @ ''unsignedShort'' then (case v of AnyU16 x \<Rightarrow> Inr (x mod 2 ^ 16) | _ \<Rightarrow> bad_cast)
      else Inl (AssertFail ''unsupported datatype for inlining.''))"

text \<open>The low bytes of a 32-bit pattern, read as a signed integer of that width.\<close>

definition low_signed :: "nat \<Rightarrow> int \<Rightarrow> int" where
  "low_signed w bits = (bits + 2 ^ (w - 1)) mod 2 ^ w - 2 ^ (w - 1)"

definition low_unsigned :: "nat \<Rightarrow> int \<Rightarrow> int" where
  "low_unsigned w bits = bits mod 2 ^ w"

definition toLexicalForm :: "int \<Rightarrow> string \<Rightarrow> string res" where
  "toLexicalForm bits datatype =
     (if datatype = XSD @ ''boolean'' then Inr (if low_unsigned 8 bits \<noteq> 0 then ''true'' else ''false'')
      else if datatype = XSD @ ''byte'' then Inr (int_to_string (low_signed 8 bits))
      else if datatype = XSD @ ''float'' then Inr (float_to_string (low_unsigned 32 bits))
      else if datatype = XSD @ ''int'' then Inr (int_to_string (low_signed 32 bits))
      else if datatype = XSD @ ''short'' then Inr (int_to_string (low_signed 16 bits))
      else if datatype = XSD @ ''unsignedByte'' then Inr (int_to_string (low_unsigned 8 bits))
      else if datatype = XSD @ ''unsignedInt'' then Inr (int_to_string (low_unsigned 32 bits))
      else if datatype = XSD @ ''unsignedShort'' then Inr (int_to_string (low_unsigned 16 bits))
      else Inl (AssertFail ''unsupported datatype for inlining.''))"

section \<open>Fixed-size values\<close>

datatype fixed_kind = KInt64 | KUInt64 | KDouble | KDate | KDateTime

definition kDateTzBias :: int where
  "kDateTzBias = 841"

definition kindOf :: "string \<Rightarrow> fixed_kind option" where
  "kindOf datatype =
     (if datatype = XSD @ ''long'' then Some KInt64
      else if datatype = XSD @ ''unsignedLong'' then Some KUInt64
      else if datatype = XSD @ ''double'' then Some KDouble
      else if datatype = XSD @ ''date'' then Some KDate
      else if datatype = XSD @ ''dateTime'' then Some KDateTime
      else None)"

definition tz_bits :: "int option \<Rightarrow> 32 word" where
  "tz_bits tz = (case tz of None \<Rightarrow> 0 | Some offset \<Rightarrow> word_of_int (offset + kDateTzBias))"

definition bits_tz :: "64 word \<Rightarrow> int option" where
  "bits_tz bits = (let tz = bits AND 0xFFFF in if tz \<noteq> 0 then Some (uint tz - kDateTzBias) else None)"

definition packDate :: "int \<Rightarrow> int \<Rightarrow> int \<Rightarrow> int option \<Rightarrow> 64 word res" where
  "packDate yearVal month day tz =
     (if \<not> is_i32 yearVal then Inl (AssertFail ''xsd:date year out of fixed-storage range'')
      else let year = (word_of_int yearVal :: 32 word); m = (word_of_int month :: 32 word); d = (word_of_int day :: 32 word)
           in Inr (push_bit 32 (ucast year) OR push_bit 24 (ucast (m AND 0xFF))
                OR push_bit 16 (ucast (d AND 0xFF)) OR ucast (tz_bits tz AND 0xFFFF)))"

definition unpackDate :: "64 word \<Rightarrow> int \<times> int \<times> int \<times> int option" where
  "unpackDate bits = (sint (ucast (drop_bit 32 bits) :: 32 word), uint (drop_bit 24 bits AND 0xFF),
     uint (drop_bit 16 bits AND 0xFF), bits_tz bits)"

definition packDateTime :: "int \<Rightarrow> int option \<Rightarrow> 64 word res" where
  "packDateTime nanosSinceEpoch tz =
     (let millis = nanosSinceEpoch sdiv 1000000 in
      if \<not> (millis \<ge> - (2 ^ 47) \<and> millis \<le> 2 ^ 47 - 1) then Inl (AssertFail ''xsd:dateTime out of fixed-storage range'')
      else let millisBits = (word_of_int millis :: 64 word) AND 0xFFFFFFFFFFFF
           in Inr (push_bit 16 millisBits OR ucast (tz_bits tz AND 0xFFFF)))"

definition unpackDateTime :: "64 word \<Rightarrow> int \<times> int option" where
  "unpackDateTime bits =
     (let millisBits = drop_bit 16 bits;
          millis = (if millisBits AND push_bit 47 1 \<noteq> 0 then sint (millisBits OR NOT 0xFFFFFFFFFFFF) else sint millisBits)
      in (millis * 1000000, bits_tz bits))"

section \<open>Reading values back\<close>

lemma masks: "(0xFF :: 'a :: len word) = mask 8" "(0xFFFF :: 'a :: len word) = mask 16"
  "(0xFFFFFFFFFFFF :: 'a :: len word) = mask 48"
  by (simp_all add: mask_eq_exp_minus_1)

lemma date_fields:
  fixes year m d tz :: "32 word"
  defines "b \<equiv> push_bit 32 (ucast year) OR push_bit 24 (ucast (m AND 0xFF))
     OR push_bit 16 (ucast (d AND 0xFF)) OR ucast (tz AND 0xFFFF) :: 64 word"
  shows "(ucast (drop_bit 32 b) :: 32 word) = year"
    and "drop_bit 24 b AND 0xFF = ucast (m AND 0xFF)"
    and "drop_bit 16 b AND 0xFF = ucast (d AND 0xFF)"
    and "b AND 0xFFFF = ucast (tz AND 0xFFFF)"
  unfolding b_def masks
  by (rule bit_word_eqI, auto simp: bit_simps dest: bit_imp_le_length)+

lemma sint_i32 [simp]: "is_i32 y \<Longrightarrow> sint (word_of_int y :: 32 word) = y"
  by (simp add: signed_take_bit_int_eq_self is_i32_def sint_sbintrunc')

lemma uint_low:
  assumes "0 \<le> x" and "x < 2 ^ k" and "k \<le> 32"
  shows "uint (ucast (word_of_int x AND mask k :: 32 word) :: 64 word) = x"
proof -
  have le: "(2 :: int) ^ k \<le> 2 ^ 32" using assms(3) by (intro power_increasing) auto
  have u: "uint (word_of_int x :: 32 word) = x" using assms le by (simp add: uint_word_of_int)
  have "uint (word_of_int x AND mask k :: 32 word) = x"
    unfolding take_bit_eq_mask [symmetric] unsigned_take_bit_eq u using assms(1,2) by (rule take_bit_int_eq_self)
  then show ?thesis using assms le by (simp add: unsigned_ucast_eq take_bit_eq_mod)
qed

definition tz_ok :: "int option \<Rightarrow> bool" where
  "tz_ok tz \<longleftrightarrow> (case tz of None \<Rightarrow> True | Some offset \<Rightarrow> - 840 \<le> offset \<and> offset \<le> 840)"

lemma bits_tz_tz_bits:
  assumes "tz_ok tz" and "b AND 0xFFFF = ucast (tz_bits tz AND 0xFFFF)"
  shows "bits_tz b = tz"
proof (cases tz)
  case (Some offset)
  then have "uint (ucast (tz_bits tz AND mask 16) :: 64 word) = offset + 841"
    using assms(1) unfolding tz_bits_def Some option.case kDateTzBias_def by (intro uint_low) (simp_all add: tz_ok_def)
  then show ?thesis using assms Some by (auto simp: bits_tz_def masks kDateTzBias_def tz_ok_def Let_def)
qed (use assms(2) in \<open>simp add: bits_tz_def tz_bits_def\<close>)

lemma dateTime_fields:
  fixes w :: "64 word" and tz :: "32 word"
  defines "b \<equiv> push_bit 16 (w AND 0xFFFFFFFFFFFF) OR ucast (tz AND 0xFFFF)"
  shows "drop_bit 16 b = w AND 0xFFFFFFFFFFFF" and "b AND 0xFFFF = ucast (tz AND 0xFFFF)"
  unfolding b_def masks
  by (rule bit_word_eqI, auto simp: bit_simps dest: bit_imp_le_length)+

lemma sign_extend_47:
  fixes k :: int
  defines "w \<equiv> (word_of_int k :: 64 word)"
  assumes "- (2 ^ 47) \<le> k" and "k < 2 ^ 47"
  shows "(if (w AND 0xFFFFFFFFFFFF) AND push_bit 47 1 \<noteq> 0 then sint ((w AND 0xFFFFFFFFFFFF) OR NOT 0xFFFFFFFFFFFF)
          else sint (w AND 0xFFFFFFFFFFFF)) = k"
proof -
  have "signed_take_bit 47 k = k" using assms(2,3) by (simp add: signed_take_bit_int_eq_self)
  then have ext: "bit k n \<longleftrightarrow> bit k (min 47 n)" for n by (metis bit_signed_take_bit_iff possible_bit_int)
  have bw: "bit w n \<longleftrightarrow> n < 64 \<and> bit k (min 47 n)" for n
    using ext [of n] by (simp add: w_def bit_simps)
  have s: "sint w = k" unfolding w_def using assms(2,3) by (simp add: sint_sbintrunc' signed_take_bit_int_eq_self)
  have test: "(w AND mask 48) AND push_bit 47 1 \<noteq> 0 \<longleftrightarrow> bit w 47"
    using and_exp_eq_0_iff_not_bit [of "w AND mask 48" 47] by (simp add: bit_simps push_bit_eq_mult)
  have ext1: "(w AND mask 48) OR NOT (mask 48) = w" if "bit w 47"
    using that bw [of 47] by (intro bit_word_eqI) (auto simp: bit_simps bw min_def)
  have ext0: "w AND mask 48 = w" if "\<not> bit w 47"
    using that bw [of 47] by (intro bit_word_eqI) (auto simp: bit_simps bw min_def split: if_splits)
  show ?thesis unfolding masks test using ext1 ext0 s by auto
qed

section \<open>Properties\<close>

text \<open>
  Dates survive packing: a date whose year fits 32 bits, with a time zone between minus and plus fourteen hours or
  none, is packed without failing and unpacked to itself.
\<close>

theorem date_round_trip:
  assumes "is_i32 y" and "0 \<le> m" and "m < 256" and "0 \<le> d" and "d < 256" and "tz_ok tz"
  shows "\<exists>b. packDate y m d tz = Inr b \<and> unpackDate b = (y, m, d, tz)"
proof -
  let ?b = "push_bit 32 (ucast (word_of_int y :: 32 word)) OR push_bit 24 (ucast (word_of_int m AND 0xFF :: 32 word))
     OR push_bit 16 (ucast (word_of_int d AND 0xFF :: 32 word)) OR ucast (tz_bits tz AND 0xFFFF) :: 64 word"
  note f = date_fields [of "word_of_int y" "word_of_int m" "word_of_int d" "tz_bits tz"]
  have "uint (drop_bit 24 ?b AND 0xFF) = m" unfolding f(2) unfolding masks using assms(2,3) by (intro uint_low) simp_all
  moreover have "uint (drop_bit 16 ?b AND 0xFF) = d" unfolding f(3) unfolding masks using assms(4,5) by (intro uint_low) simp_all
  ultimately have "unpackDate ?b = (y, m, d, tz)"
    unfolding unpackDate_def f(1) using assms(1) bits_tz_tz_bits [OF assms(6) f(4)] by simp
  then show ?thesis using assms(1) by (simp add: packDate_def)
qed

theorem date_round_trip_witness:
  "\<exists>b. packDate (- 44) 3 15 (Some (- 300)) = Inr b \<and> unpackDate b = (- 44, 3, 15, Some (- 300))"
  using date_round_trip [of "- 44" 3 15 "Some (- 300)"] by (simp add: is_i32_def tz_ok_def)

text \<open>
  Points in time are stored with millisecond precision: what is unpacked is the packed time with the
  fraction of a millisecond cut off towards the epoch, in the same time zone; a time within the 48-bit range of
  milliseconds is always accepted.
\<close>

theorem dateTime_round_trip:
  assumes "- (2 ^ 47) \<le> n sdiv 1000000" and "n sdiv 1000000 < 2 ^ 47" and "tz_ok tz"
  shows "\<exists>b. packDateTime n tz = Inr b \<and> unpackDateTime b = (n sdiv 1000000 * 1000000, tz)"
proof -
  let ?w = "word_of_int (n sdiv 1000000) :: 64 word"
  let ?b = "push_bit 16 (?w AND 0xFFFFFFFFFFFF) OR ucast (tz_bits tz AND 0xFFFF)"
  note f = dateTime_fields [of ?w "tz_bits tz"]
  have "unpackDateTime ?b = (n sdiv 1000000 * 1000000, tz)"
    unfolding unpackDateTime_def Let_def f(1) using sign_extend_47 [OF assms(1,2)] bits_tz_tz_bits [OF assms(3) f(2)] by simp
  then show ?thesis using assms(1,2) by (simp add: packDateTime_def Let_def)
qed

theorem dateTime_round_trip_witness:
  "\<exists>b. packDateTime (- 1500000) (Some 60) = Inr b \<and> unpackDateTime b = (- 1000000, Some 60)"
  using dateTime_round_trip [of "- 1500000" "Some 60"] by (simp add: tz_ok_def)

definition inlined_form :: "any_value \<Rightarrow> string \<Rightarrow> string option" where
  "inlined_form v name = (case v of
       AnyBool b \<Rightarrow> if name = ''boolean'' then Some (if b then ''true'' else ''false'') else None
     | AnyI8 x \<Rightarrow> if name = ''byte'' \<and> - 128 \<le> x \<and> x < 128 then Some (int_to_string x) else None
     | AnyI16 x \<Rightarrow> if name = ''short'' \<and> - 32768 \<le> x \<and> x < 32768 then Some (int_to_string x) else None
     | AnyI32 x \<Rightarrow> if name = ''int'' \<and> is_i32 x then Some (int_to_string x) else None
     | AnyU8 x \<Rightarrow> if name = ''unsignedByte'' \<and> 0 \<le> x \<and> x < 256 then Some (int_to_string x) else None
     | AnyU16 x \<Rightarrow> if name = ''unsignedShort'' \<and> 0 \<le> x \<and> x < 65536 then Some (int_to_string x) else None
     | AnyU32 x \<Rightarrow> if name = ''unsignedInt'' \<and> is_u32 x then Some (int_to_string x) else None
     | _ \<Rightarrow> None)"

text \<open>
  Inlined values read back: for every datatype that is stored in the property record, a value of the type that
  datatype has in C++ is packed without failing and its lexical form is the decimal numeral of that value, the
  sign included, or \<open>true\<close> and \<open>false\<close>.
\<close>

theorem inlined_values_read_back:
  assumes "inlined_form v name = Some s"
  shows "isInlined (XSD @ name) \<and> (\<exists>bits. inlineValue v (XSD @ name) = Inr bits \<and> is_u32 bits
    \<and> toLexicalForm bits (XSD @ name) = Inr s)"
  using assms
  by (cases v)
     (auto simp: inlined_form_def isInlined_def inlinedIRIs_def inlineValue_def toLexicalForm_def low_signed_def
        low_unsigned_def is_i32_def is_u32_def mod_add_left_eq split: if_splits)

theorem inlined_values_read_back_witness:
  "\<exists>bits. inlineValue (AnyI8 (- 5)) (XSD @ ''byte'') = Inr bits \<and> toLexicalForm bits (XSD @ ''byte'') = Inr (int_to_string (- 5))"
  using inlined_values_read_back [of "AnyI8 (- 5)" "''byte''"] by (auto simp: inlined_form_def)

end
