(* ===== verification/Fuzzy_Lexer.thy ===== *)
theory Fuzzy_Lexer
  imports Std_Text
begin

text \<open>
  The lexer of fuzzy Turtle, the Turtle dialect with truth degrees
  (\<open>src/src/gengodb/semantics/FuzzyTurtle.cpp\<close>).  Positions are byte offsets into the input; a
  throw of \<open>FuzzyTurtleError\<close> is a \<open>RuntimeError\<close> with the message it builds.
\<close>

datatype tok = TIri | TName | TString | TLangTag | TCaret2 | TNumber | TDirective | TDegree | TPunct | TEnd

record token =
  t_kind :: tok
  t_text :: string
  t_begin :: nat
  t_line :: nat
  t_degree :: int

record lexer =
  lx_pos :: nat
  lx_line :: nat
  lx_last :: tok

definition mk_lexer :: lexer where
  "mk_lexer = \<lparr>lx_pos = 0, lx_line = 1, lx_last = TEnd\<rparr>"

abbreviation newline :: char where
  "newline \<equiv> CHR 0x0A"

abbreviation quote1 :: char where
  "quote1 \<equiv> CHR 0x27"

abbreviation quote2 :: char where
  "quote2 \<equiv> CHR 0x22"

abbreviation backslash :: char where
  "backslash \<equiv> CHR 0x5C"

definition ft_error :: "string \<Rightarrow> nat \<Rightarrow> error" where
  "ft_error msg line = RuntimeError (''fuzzy turtle, line '' @ int_to_string (int line) @ '': '' @ msg)"

definition isNameDelimiter :: "char \<Rightarrow> bool" where
  "isNameDelimiter c \<longleftrightarrow> c \<in> set (''<>{}[](),;#^@'' @ [quote1, quote2]) \<or> isspace c"

definition substr :: "string \<Rightarrow> nat \<Rightarrow> nat \<Rightarrow> string" where
  "substr s pos len = take len (drop pos s)"

text \<open>The loop \<open>while (pos < in.size() && P(in[pos])) ++pos\<close>.\<close>

function scan :: "(char \<Rightarrow> bool) \<Rightarrow> string \<Rightarrow> nat \<Rightarrow> nat" where
  "scan P s pos = (if pos < length s \<and> P (s ! pos) then scan P s (Suc pos) else pos)"
  by pat_completeness auto
termination by (relation "measure (\<lambda>(P, s, pos). length s - pos)") auto

declare scan.simps [simp del]

lemma scan_ge: "pos \<le> scan P s pos"
  by (induction P s pos rule: scan.induct) (subst scan.simps, auto)

lemma scan_le: "pos \<le> length s \<Longrightarrow> scan P s pos \<le> length s"
  by (induction P s pos rule: scan.induct) (subst scan.simps, auto)

lemma scan_step: "pos < length s \<Longrightarrow> P (s ! pos) \<Longrightarrow> pos < scan P s pos"
  by (subst scan.simps) (use scan_ge [of "Suc pos" P s] in auto)

lemma scan_all: "pos \<le> i \<Longrightarrow> i < scan P s pos \<Longrightarrow> P (s ! i)"
proof (induction P s pos rule: scan.induct)
  case (1 P s pos)
  from 1(3) have "i < (if pos < length s \<and> P (s ! pos) then scan P s (Suc pos) else pos)"
    by (subst (asm) scan.simps)
  with 1(1,2) show ?case by (cases "pos = i") (auto split: if_splits)
qed

lemma scan_stop: "scan P s pos < length s \<Longrightarrow> \<not> P (s ! scan P s pos)"
  by (induction P s pos rule: scan.induct) (metis scan.simps)

section \<open>White space and comments\<close>

function skipWs :: "string \<Rightarrow> nat \<Rightarrow> nat \<Rightarrow> nat \<times> nat" where
  "skipWs s pos line = (if pos < length s \<and> isspace (s ! pos)
     then skipWs s (Suc pos) (if s ! pos = newline then Suc line else line) else (pos, line))"
  by pat_completeness auto
termination by (relation "measure (\<lambda>(s, pos, line). length s - pos)") auto

declare skipWs.simps [simp del]

lemma fst_skipWs: "fst (skipWs s pos line) = scan isspace s pos"
  by (induction s pos line rule: skipWs.induct) (subst skipWs.simps, subst scan.simps, auto)

function skipWsAndComments :: "string \<Rightarrow> nat \<Rightarrow> nat \<Rightarrow> nat \<times> nat" where
  "skipWsAndComments s pos line = (let (p, l) = skipWs s pos line in
     if p < length s \<and> s ! p = CHR ''#'' then skipWsAndComments s (scan (\<lambda>c. c \<noteq> newline) s p) l else (p, l))"
  by pat_completeness auto
termination
proof (relation "measure (\<lambda>(s, pos, line). length s - pos)", goal_cases)
  case (2 s pos line x p l)
  then have "p = scan isspace s pos" by (metis fst_conv fst_skipWs)
  moreover have "p < scan (\<lambda>c. c \<noteq> newline) s p" using 2 by (intro scan_step) auto
  ultimately show ?case using 2 scan_ge [of pos isspace s] by auto
qed simp

declare skipWsAndComments.simps [simp del]

section \<open>Tokens\<close>

function lexIri :: "string \<Rightarrow> nat \<Rightarrow> nat \<Rightarrow> nat res" where
  "lexIri s pos line =
     (if pos < length s \<and> s ! pos \<noteq> CHR ''>'' then
        if s ! pos = newline then Inl (ft_error ''unterminated IRI'' line)
        else lexIri s (if s ! pos = backslash then pos + 2 else pos + 1) line
      else if pos \<ge> length s then Inl (ft_error ''unterminated IRI'' line)
      else Inr (pos + 1))"
  by pat_completeness auto
termination by (relation "measure (\<lambda>(s, pos, line). length s - pos)") auto

function lexString :: "string \<Rightarrow> char \<Rightarrow> bool \<Rightarrow> nat \<Rightarrow> nat \<Rightarrow> (nat \<times> nat) res" where
  "lexString s q long pos line =
     (if pos \<ge> length s then Inl (ft_error ''unterminated string'' line)
      else if s ! pos = backslash then lexString s q long (pos + 2) line
      else if s ! pos = newline \<and> \<not> long then Inl (ft_error ''unterminated string'' line)
      else let line = (if s ! pos = newline then line + 1 else line) in
        if s ! pos = q \<and> \<not> long then Inr (pos + 1, line)
        else if s ! pos = q \<and> substr s pos 3 = [q, q, q] then Inr (scan (\<lambda>c. c = q) s (pos + 3), line)
        else lexString s q long (pos + 1) line)"
  by pat_completeness auto
termination by (relation "measure (\<lambda>(s, q, long, pos, line). length s - pos)") auto

definition skipSign :: "string \<Rightarrow> nat \<Rightarrow> nat" where
  "skipSign s p = (if p < length s \<and> (s ! p = CHR ''+'' \<or> s ! p = CHR ''-'') then p + 1 else p)"

definition skipFraction :: "string \<Rightarrow> nat \<Rightarrow> nat" where
  "skipFraction s p =
     (if p + 1 < length s \<and> s ! p = CHR ''.'' \<and> isdigit (s ! (p + 1)) then scan isdigit s (p + 1) else p)"

definition skipExponent :: "string \<Rightarrow> nat \<Rightarrow> nat" where
  "skipExponent s p =
     (if p < length s \<and> (s ! p = CHR ''e'' \<or> s ! p = CHR ''E'') then scan isdigit s (skipSign s (p + 1)) else p)"

definition lexNumber :: "string \<Rightarrow> nat \<Rightarrow> nat" where
  "lexNumber s pos = skipExponent s (skipFraction s (scan isdigit s (skipSign s pos)))"

function lexName :: "string \<Rightarrow> nat \<Rightarrow> nat" where
  "lexName s pos = (if pos < length s \<and> \<not> isNameDelimiter (s ! pos)
     then lexName s (if s ! pos = backslash then pos + 2 else pos + 1) else pos)"
  by pat_completeness auto
termination by (relation "measure (\<lambda>(s, pos). length s - pos)") auto

declare lexIri.simps [simp del] lexString.simps [simp del] lexName.simps [simp del]

text \<open>
  The loop that gives trailing dots back.  A name that ends in a backslash at the end of the input
  leaves \<open>pos\<close> one past the end, and \<open>in[pos - 1]\<close> is then outside the input.
\<close>

fun dropDots :: "string \<Rightarrow> nat \<Rightarrow> nat \<Rightarrow> nat res" where
  "dropDots s start pos =
     (if pos > start + 1 then
        if pos - 1 \<ge> length s then Inl OutOfBounds
        else if s ! (pos - 1) = CHR ''.'' \<and> s ! (pos - 2) \<noteq> backslash then dropDots s start (pos - 1)
        else Inr pos
      else Inr pos)"

declare dropDots.simps [simp del]

definition degree_char :: "char \<Rightarrow> bool" where
  "degree_char c \<longleftrightarrow> isdigit c \<or> c \<in> set ''.eE+-''"

definition lexDegree :: "string \<Rightarrow> nat \<Rightarrow> nat \<Rightarrow> (int \<times> nat \<times> nat) res" where
  "lexDegree s pos line =
     (let (numStart, line) = skipWs s (pos + 1) line; p = scan degree_char s numStart;
          num = substr s numStart (p - numStart); (p, line) = skipWs s p line
      in if num = [] \<or> p \<ge> length s \<or> s ! p \<noteq> CHR ''}''
         then Inl (ft_error ''expected a truth degree like {0.5} (graph blocks are not supported)'' line)
         else case from_chars num of
           None \<Rightarrow> Inl (ft_error (''invalid truth degree '' @ [quote1] @ num @ [quote1]) line)
         | Some (value, rest) \<Rightarrow>
             if rest \<noteq> [] then Inl (ft_error (''invalid truth degree '' @ [quote1] @ num @ [quote1]) line)
             else if \<not> float_in_unit value then Inl (ft_error (''truth degree '' @ num @ '' is outside [0,1]'') line)
             else Inr (value, p + 1, line))"

definition mk_token :: "string \<Rightarrow> tok \<Rightarrow> nat \<Rightarrow> nat \<Rightarrow> nat \<Rightarrow> nat \<Rightarrow> token \<times> lexer" where
  "mk_token s kind start startLine pos line =
     (\<lparr>t_kind = kind, t_text = substr s start (pos - start), t_begin = start, t_line = startLine, t_degree = float_one\<rparr>,
      \<lparr>lx_pos = pos, lx_line = line, lx_last = kind\<rparr>)"

definition lex_next :: "string \<Rightarrow> lexer \<Rightarrow> (token \<times> lexer) res" where
  "lex_next s lx =
     (let (start, line) = skipWsAndComments s (lx_pos lx) (lx_line lx) in
      if start \<ge> length s
      then Inr (\<lparr>t_kind = TEnd, t_text = [], t_begin = start, t_line = line, t_degree = float_one\<rparr>,
                lx\<lparr>lx_pos := start, lx_line := line\<rparr>)
      else let c = s ! start; at = (\<lambda>P. start + 1 < length s \<and> P (s ! (start + 1))) in
        if c = CHR ''<'' then bindE (lexIri s (start + 1) line) (\<lambda>p. Inr (mk_token s TIri start line p line))
        else if c = quote2 \<or> c = quote1 then
          let long = (substr s start 3 = [c, c, c]) in
          bindE (lexString s c long (start + (if long then 3 else 1)) line) (\<lambda>(p, l).
          Inr (mk_token s TString start line p l))
        else if c = CHR ''{'' then
          bindE (lexDegree s start line) (\<lambda>(value, p, l).
          let (t, lx) = mk_token s TDegree start line p l in Inr (t\<lparr>t_degree := value\<rparr>, lx))
        else if c = CHR ''^'' \<and> at (\<lambda>d. d = CHR ''^'') then Inr (mk_token s TCaret2 start line (start + 2) line)
        else if c = CHR ''@'' then
          Inr (mk_token s (if lx_last lx = TString then TLangTag else TDirective) start line
                 (scan (\<lambda>d. isalnum d \<or> d = CHR ''-'') s (start + 1)) line)
        else if c \<in> set ''[](),;}'' then
          if c = CHR ''}'' then Inl (ft_error (''unexpected '' @ [quote1] @ ''}'' @ [quote1]) line)
          else Inr (mk_token s TPunct start line (start + 1) line)
        else if c = CHR ''.'' \<and> \<not> at isdigit then Inr (mk_token s TPunct start line (start + 1) line)
        else if isdigit c \<or> c = CHR ''+'' \<or> c = CHR ''-'' \<or> c = CHR ''.'' then
          Inr (mk_token s TNumber start line (lexNumber s start) line)
        else bindE (dropDots s start (lexName s start)) (\<lambda>p.
          if p = start then Inl (ft_error (''unexpected character '' @ [quote1] @ [c] @ [quote1]) line)
          else Inr (mk_token s TName start line p line)))"

section \<open>Progress and extent of the tokens\<close>

lemma skipWs_ge: "skipWs s pos line = (p, l) \<Longrightarrow> pos \<le> p"
  by (metis fst_conv fst_skipWs scan_ge)

lemma skipWs_space: "skipWs s pos line = (p, l) \<Longrightarrow> pos \<le> i \<Longrightarrow> i < p \<Longrightarrow> isspace (s ! i)"
  by (metis fst_conv fst_skipWs scan_all)

lemma skipWsAndComments_ge: "skipWsAndComments s pos line = (p, l) \<Longrightarrow> pos \<le> p"
proof (induction s pos line rule: skipWsAndComments.induct)
  case (1 s pos line)
  obtain q m where q: "skipWs s pos line = (q, m)" by fastforce
  show ?case
  proof (cases "q < length s \<and> s ! q = CHR ''#''")
    case True
    then have "skipWsAndComments s (scan (\<lambda>c. c \<noteq> newline) s q) m = (p, l)"
      using 1(2) q by (subst (asm) skipWsAndComments.simps) simp
    from 1(1) [OF q [symmetric] refl True this] show ?thesis
      using skipWs_ge [OF q] scan_ge [of q "\<lambda>c. c \<noteq> newline" s] by linarith
  next
    case False
    then show ?thesis using 1(2) q skipWs_ge [OF q] by (subst (asm) skipWsAndComments.simps) auto
  qed
qed

lemma lexIri_bounds: "lexIri s pos line = Inr p \<Longrightarrow> pos < p \<and> p \<le> length s"
proof (induction s pos line rule: lexIri.induct)
  case (1 s pos line)
  show ?case
  proof (cases "pos < length s \<and> s ! pos \<noteq> CHR ''>'' \<and> s ! pos \<noteq> newline")
    case True
    then have "lexIri s (if s ! pos = backslash then pos + 2 else pos + 1) line = Inr p"
      using 1(2) by (subst (asm) lexIri.simps) simp
    with 1(1) True show ?thesis by (fastforce split: if_splits)
  next
    case False
    then show ?thesis using 1(2) by (subst (asm) lexIri.simps) (auto split: if_splits)
  qed
qed

lemma substr_three: "substr s pos 3 = [a, b, c] \<Longrightarrow> pos + 3 \<le> length s"
  by (auto simp: substr_def dest: arg_cong [where f = length])

lemma lexString_bounds: "lexString s q long pos line = Inr (p, l) \<Longrightarrow> pos < p \<and> p \<le> length s"
proof (induction s q long pos line rule: lexString.induct)
  case (1 s q long pos line)
  let ?line = "if s ! pos = newline then line + 1 else line"
  have pos: "pos < length s" using "1.prems" by (subst (asm) lexString.simps) (simp split: if_splits)
  consider "s ! pos = backslash" "lexString s q long (pos + 2) line = Inr (p, l)"
    | "s ! pos \<noteq> backslash" "\<not> (s ! pos = newline \<and> \<not> long)" "s ! pos = q" "\<not> long" "p = pos + 1"
    | "s ! pos \<noteq> backslash" "\<not> (s ! pos = newline \<and> \<not> long)" "substr s pos 3 = [q, q, q]" "p = scan (\<lambda>c. c = q) s (pos + 3)"
    | "s ! pos \<noteq> backslash" "\<not> (s ! pos = newline \<and> \<not> long)" "\<not> (s ! pos = q \<and> \<not> long)"
      "\<not> (s ! pos = q \<and> substr s pos 3 = [q, q, q])" "lexString s q long (pos + 1) ?line = Inr (p, l)"
    using "1.prems" pos by (subst (asm) lexString.simps) (auto simp: Let_def split: if_splits)
  then show ?case
  proof cases
    case 1
    then show ?thesis using "1.IH"(1) pos by auto
  next
    case 2
    then show ?thesis using pos by simp
  next
    case 3
    then show ?thesis
      using scan_ge [of "pos + 3" "\<lambda>c. c = q" s] scan_le [of "pos + 3" s "\<lambda>c. c = q"] substr_three [OF 3(3)] by simp
  next
    case 4
    then show ?thesis using "1.IH"(2) [OF _ _ _ refl] pos by auto
  qed
qed

lemma skipSign_bounds: "p \<le> skipSign s p" "p \<le> length s \<Longrightarrow> skipSign s p \<le> length s"
  by (auto simp: skipSign_def)

lemma skipFraction_bounds: "p \<le> skipFraction s p" "p \<le> length s \<Longrightarrow> skipFraction s p \<le> length s"
  using scan_ge [of "p + 1" isdigit s] scan_le [of "p + 1" s isdigit] by (auto simp: skipFraction_def)

lemma skipExponent_bounds: "p \<le> skipExponent s p" "p \<le> length s \<Longrightarrow> skipExponent s p \<le> length s"
  using scan_ge [of "skipSign s (p + 1)" isdigit s] scan_le [of "skipSign s (p + 1)" s isdigit]
    skipSign_bounds [where s = s and p = "p + 1"]
  by (auto simp: skipExponent_def)

lemma lexNumber_bounds:
  assumes "pos < length s"
    and "isdigit (s ! pos) \<or> s ! pos = CHR ''+'' \<or> s ! pos = CHR ''-'' \<or> s ! pos = CHR ''.'' \<and> pos + 1 < length s \<and> isdigit (s ! (pos + 1))"
  shows "pos < lexNumber s pos \<and> lexNumber s pos \<le> length s"
proof -
  define p where "p = scan isdigit s (skipSign s pos)"
  have p: "skipSign s pos \<le> p" "p \<le> length s"
    using assms(1) skipSign_bounds [where s = s and p = pos] by (simp_all add: p_def scan_ge scan_le)
  have q: "p \<le> skipFraction s p" "skipFraction s p \<le> length s" using skipFraction_bounds p by auto
  consider "isdigit (s ! pos)" | "s ! pos = CHR ''+'' \<or> s ! pos = CHR ''-''"
    | "s ! pos = CHR ''.''" "pos + 1 < length s" "isdigit (s ! (pos + 1))" using assms(2) by blast
  then have "pos < skipFraction s p"
  proof cases
    case 1
    then have "skipSign s pos = pos" by (auto simp: skipSign_def isdigit_def)
    then show ?thesis using scan_step [of pos s isdigit] assms(1) 1 q(1) by (simp add: p_def)
  next
    case 2
    then show ?thesis using assms(1) p(1) q(1) by (auto simp: skipSign_def)
  next
    case 3
    then have "skipSign s pos = pos" "\<not> isdigit (s ! pos)" by (auto simp: skipSign_def isdigit_def)
    then have "p = pos" unfolding p_def by (simp add: scan.simps)
    then show ?thesis using 3 scan_ge [of "pos + 1" isdigit s] by (simp add: skipFraction_def)
  qed
  then show ?thesis
    using q skipExponent_bounds [where s = s and p = "skipFraction s p"] by (simp add: lexNumber_def p_def)
qed

lemma lexName_ge: "pos \<le> lexName s pos"
proof (induction s pos rule: lexName.induct)
  case (1 s pos)
  then show ?case by (cases "pos < length s \<and> \<not> isNameDelimiter (s ! pos)") (auto simp: lexName.simps [of s pos])
qed

lemma dropDots_bounds:
  "dropDots s start pos = Inr p \<Longrightarrow> start < length s \<Longrightarrow> start \<le> pos \<Longrightarrow> start \<le> p \<and> p \<le> length s"
proof (induction s start pos rule: dropDots.induct)
  case (1 s start pos)
  from 1(2) show ?case
    by (subst (asm) dropDots.simps) (use 1 in \<open>auto split: if_splits\<close>)
qed

text \<open>A truth degree as it is written: a numeral between braces, with white space around it.\<close>

definition degree_text :: "string \<Rightarrow> int \<Rightarrow> bool" where
  "degree_text txt v \<longleftrightarrow> (\<exists>w1 num w2. txt = ''{'' @ w1 @ num @ w2 @ ''}'' \<and> list_all isspace w1 \<and> list_all isspace w2
     \<and> num \<noteq> [] \<and> from_chars num = Some (v, []) \<and> float_in_unit v)"

lemma substr_split:
  assumes "a \<le> b" and "b \<le> c"
  shows "substr s a (c - a) = substr s a (b - a) @ substr s b (c - b)"
  using take_add [of "b - a" "c - b" "drop a s"] assms by (simp add: substr_def)

lemma set_substr:
  assumes "x \<in> set (substr s a n)"
  obtains i where "a \<le> i" and "i < a + n" and "x = s ! i"
proof -
  obtain k where "k < length (substr s a n)" "x = substr s a n ! k" using assms by (metis in_set_conv_nth)
  then show thesis using that [of "a + k"] by (auto simp: substr_def)
qed

lemma skipWs_substr: "skipWs s pos line = (p, l) \<Longrightarrow> list_all isspace (substr s pos (p - pos))"
  by (auto simp: list_all_iff elim!: set_substr dest!: skipWs_space)

lemma substr_one: "i < length s \<Longrightarrow> substr s i (Suc 0) = [s ! i]"
  by (simp add: substr_def take_Suc hd_drop_conv_nth)

lemma lexDegree_bounds:
  assumes "lexDegree s pos line = Inr (v, p, l)" and "s ! pos = CHR ''{''" and "pos < length s"
  shows "degree_text (substr s pos (p - pos)) v" and "pos < p" and "p \<le> length s"
proof -
  obtain a la where a: "skipWs s (pos + 1) line = (a, la)" by fastforce
  define b where "b = scan degree_char s a"
  obtain c lc where c: "skipWs s b la = (c, lc)" by fastforce
  have r: "float_in_unit v" "p = c + 1" "c < length s" "s ! c = CHR ''}''" "substr s a (b - a) \<noteq> []"
    "from_chars (substr s a (b - a)) = Some (v, [])"
    using assms(1) a c by (auto simp: lexDegree_def b_def [symmetric] Let_def split: if_splits option.splits prod.splits)
  have le: "pos + 1 \<le> a" "a \<le> b" "b \<le> c" using skipWs_ge [OF a] skipWs_ge [OF c] scan_ge [of a degree_char s] by (simp_all add: b_def)
  then have "substr s pos (p - pos) = substr s pos (pos + 1 - pos) @ substr s (pos + 1) (a - (pos + 1)) @ substr s a (b - a)
      @ substr s b (c - b) @ substr s c (p - c)"
    using r(2) substr_split [of pos "pos + 1" p s] substr_split [of "pos + 1" a p s] substr_split [of a b p s] substr_split [of b c p s] by simp
  also have "\<dots> = ''{'' @ substr s (pos + 1) (a - (pos + 1)) @ substr s a (b - a) @ substr s b (c - b) @ ''}''"
    using assms(2,3) r(2-4) by (simp add: substr_one)
  finally show "degree_text (substr s pos (p - pos)) v"
    unfolding degree_text_def using skipWs_substr [OF a] skipWs_substr [OF c] r(1,5,6) by blast
  show "pos < p" "p \<le> length s" using le r(2,3) by simp_all
qed

definition token_ok :: "string \<Rightarrow> lexer \<Rightarrow> token \<Rightarrow> lexer \<Rightarrow> bool" where
  "token_ok s lx t lx' \<longleftrightarrow> lx_pos lx \<le> t_begin t
     \<and> (t_kind t \<noteq> TEnd \<longrightarrow> t_begin t < lx_pos lx' \<and> lx_pos lx' \<le> length s
          \<and> t_text t = substr s (t_begin t) (lx_pos lx' - t_begin t))
     \<and> (t_kind t = TDegree \<longrightarrow> degree_text (t_text t) (t_degree t))"

lemma token_ok_mk_token:
  assumes "mk_token s kind start startLine pos line = (t, lx')"
    and "kind \<noteq> TEnd" and "kind \<noteq> TDegree" and "lx_pos lx \<le> start" and "start < pos" and "pos \<le> length s"
  shows "token_ok s lx t lx'"
  using assms by (auto simp: mk_token_def token_ok_def)

lemma lex_next_ok:
  assumes "lex_next s lx = Inr (t, lx')"
  shows "token_ok s lx t lx'"
proof -
  obtain start line where st: "skipWsAndComments s (lx_pos lx) (lx_line lx) = (start, line)" by fastforce
  have ge: "lx_pos lx \<le> start" using skipWsAndComments_ge [OF st] .
  note mk = token_ok_mk_token [OF _ _ _ ge]
  show ?thesis
  proof (cases "start \<ge> length s")
    case True
    with assms st ge show ?thesis by (auto simp: lex_next_def token_ok_def)
  next
    case False
    then have lt: "start < length s" by simp
    have iri: "token_ok s lx t lx'"
      if "lexIri s (Suc start) line = Inr p" "mk_token s TIri start line p line = (t, lx')" for p
      using lexIri_bounds [OF that(1)] by (intro mk [OF that(2)]) auto
    have str: "token_ok s lx t lx'"
      if "lexString s c long q line = Inr (p, l)" "start < q" "mk_token s TString start line p l = (t, lx')" for c long q p l
      using lexString_bounds [OF that(1)] that(2) by (intro mk [OF that(3)]) auto
    have deg: "token_ok s lx t lx'"
      if "s ! start = CHR ''{''" "\<forall>u lx2. mk_token s TDegree start line p l = (u, lx2) \<longrightarrow>
        u\<lparr>t_degree := v\<rparr> = t \<and> lexDegree s start line = Inr (v, p, l) \<and> lx2 = lx'" for v p l
    proof -
      have d: "lexDegree s start line = Inr (v, p, l)" using that(2) by (simp add: mk_token_def)
      from that(2) lexDegree_bounds [OF d that(1) lt] ge show ?thesis
        by (auto simp: mk_token_def token_ok_def)
    qed
    have scn: "token_ok s lx t lx'"
      if "mk_token s k start line (scan P s (Suc start)) line = (t, lx')" "k \<noteq> TEnd" "k \<noteq> TDegree" for k P
      using that(2,3) lt scan_ge [of "Suc start" P s] scan_le [of "Suc start" s P] by (intro mk [OF that(1)]) auto
    have num: "token_ok s lx t lx'"
      if "mk_token s TNumber start line (lexNumber s start) line = (t, lx')"
        "isdigit (s ! start) \<or> s ! start = CHR ''+'' \<or> s ! start = CHR ''-''
          \<or> s ! start = CHR ''.'' \<and> start + 1 < length s \<and> isdigit (s ! (start + 1))"
      using lexNumber_bounds [OF lt that(2)] by (intro mk [OF that(1)]) auto
    have nam: "token_ok s lx t lx'"
      if "dropDots s start (lexName s start) = Inr p" "p \<noteq> start" "mk_token s TName start line p line = (t, lx')" for p
      using dropDots_bounds [OF that(1) lt lexName_ge] that(2) by (intro mk [OF that(3)]) auto
    have two: "token_ok s lx t lx'"
      if "Suc start < length s" "mk_token s TCaret2 start line (Suc (Suc start)) line = (t, lx')"
      using that(1) by (intro mk [OF that(2)]) auto
    have one: "token_ok s lx t lx'" if "mk_token s TPunct start line (Suc start) line = (t, lx')"
      using lt by (intro mk [OF that]) auto
    show ?thesis using assms st lt
      by (auto simp: lex_next_def Let_def bindE_eq_Inr_iff split: if_splits prod.splits
               intro: iri str deg scn num nam two one)
  qed
qed

section \<open>The tokens of an input\<close>

text \<open>All tokens up to the end of the input; every token but the last consumes a character, so the fuel is enough.\<close>

fun lex_tokens :: "nat \<Rightarrow> string \<Rightarrow> lexer \<Rightarrow> token list res option" where
  "lex_tokens 0 s lx = None"
| "lex_tokens (Suc k) s lx =
     bindOE (Some (lex_next s lx)) (\<lambda>(t, lx). if t_kind t = TEnd then Some (Inr [])
       else bindOE (lex_tokens k s lx) (\<lambda>ts. Some (Inr (t # ts))))"

definition tokens :: "string \<Rightarrow> token list res option" where
  "tokens s = lex_tokens (Suc (length s)) s mk_lexer"

definition degree_tokens :: "token list \<Rightarrow> token list" where
  "degree_tokens ts = filter (\<lambda>t. t_kind t = TDegree) ts"

definition t_end :: "token \<Rightarrow> nat" where
  "t_end t = t_begin t + length (t_text t)"

text \<open>From one token to a later one, with the tokens from the first up to, but not including, the later one.\<close>

inductive reads :: "string \<Rightarrow> token \<times> lexer \<Rightarrow> token list \<Rightarrow> token \<times> lexer \<Rightarrow> bool" for s where
  reads_none: "reads s x [] x"
| reads_token: "reads s x ts (t, lx) \<Longrightarrow> t_kind t \<noteq> TEnd \<Longrightarrow> lex_next s lx = Inr (u, lx') \<Longrightarrow> reads s x (ts @ [t]) (u, lx')"

lemma reads_trans: "reads s y us z \<Longrightarrow> reads s x ts y \<Longrightarrow> reads s x (ts @ us) z"
proof (induction rule: reads.induct)
  case (reads_token y ts' t lx u lx')
  then show ?case using reads.reads_token [of s x "ts @ ts'" t lx u lx'] by simp
qed simp

lemma reads_lex_tokens:
  "reads s (t, lx) ts (u, lx') \<Longrightarrow> lex_next s lx0 = Inr (t, lx) \<Longrightarrow>
   \<exists>lx1. lex_next s lx1 = Inr (u, lx') \<and>
     (\<forall>k. lex_tokens (length ts + k) s lx0 = bindOE (lex_tokens k s lx1) (\<lambda>us. Some (Inr (ts @ us))))"
proof (induction "(t, lx)" ts "(u, lx')" arbitrary: u lx' rule: reads.induct)
  case reads_none
  have "bindOE m (\<lambda>us. Some (Inr ([] @ us))) = m" for m :: "token list res option"
    by (cases m) (auto simp: bindOE_def split: sum.split)
  with reads_none show ?case by fastforce
next
  case (reads_token ts u1 lx1 u lx')
  then obtain lx2 where lx2: "lex_next s lx2 = Inr (u1, lx1)"
    "\<And>k. lex_tokens (length ts + k) s lx0 = bindOE (lex_tokens k s lx2) (\<lambda>us. Some (Inr (ts @ us)))" by blast
  have "lex_tokens (length (ts @ [u1]) + k) s lx0 = bindOE (lex_tokens k s lx1) (\<lambda>us. Some (Inr ((ts @ [u1]) @ us)))" for k
    using lx2(2) [of "Suc k"] lx2(1) reads_token(3) by (cases "lex_tokens k s lx1") (auto simp: bindOE_def split: sum.split)
  with reads_token(4) show ?case by blast
qed

definition token_at :: "string \<Rightarrow> token \<times> lexer \<Rightarrow> bool" where
  "token_at s x \<longleftrightarrow> (case x of (t, lx) \<Rightarrow>
     (t_kind t \<noteq> TEnd \<longrightarrow> t_begin t < lx_pos lx \<and> lx_pos lx \<le> length s \<and> t_text t = substr s (t_begin t) (lx_pos lx - t_begin t))
     \<and> (t_kind t = TDegree \<longrightarrow> degree_text (t_text t) (t_degree t)))"

lemma token_at_next: "lex_next s lx = Inr (t, lx') \<Longrightarrow> token_at s (t, lx') \<and> lx_pos lx \<le> t_begin t"
  using lex_next_ok by (fastforce simp: token_at_def token_ok_def)

lemma token_at_end: "token_at s (t, lx) \<Longrightarrow> t_kind t \<noteq> TEnd \<Longrightarrow> t_end t = lx_pos lx"
  by (auto simp: token_at_def t_end_def substr_def)

text \<open>The tokens are in order, do not overlap, and are pieces of the input.\<close>

definition piece :: "string \<Rightarrow> token \<Rightarrow> bool" where
  "piece s t \<longleftrightarrow> t_begin t < t_end t \<and> t_end t \<le> length s \<and> t_text t = substr s (t_begin t) (t_end t - t_begin t)
     \<and> (t_kind t = TDegree \<longrightarrow> degree_text (t_text t) (t_degree t))"

lemma reads_pieces:
  "reads s x ts y \<Longrightarrow> token_at s x \<Longrightarrow> token_at s y \<and> (\<forall>t \<in> set ts. piece s t \<and> t_end t \<le> t_begin (fst y))
     \<and> sorted_wrt (\<lambda>t u. t_end t \<le> t_begin u) ts"
proof (induction rule: reads.induct)
  case (reads_token x ts t lx u lx')
  have ih: "token_at s (t, lx)" "\<forall>v \<in> set ts. piece s v \<and> t_end v \<le> t_begin t" "sorted_wrt (\<lambda>t u. t_end t \<le> t_begin u) ts"
    using reads_token by simp_all
  note e = token_at_end [OF ih(1) reads_token(2)]
  have "piece s t" using ih(1) reads_token(2) e by (auto simp: piece_def token_at_def)
  moreover have "t_end t \<le> t_begin u" "token_at s (u, lx')" using token_at_next [OF reads_token(3)] e by simp_all
  ultimately show ?case using ih(2,3) by (fastforce simp: sorted_wrt_append piece_def)
qed simp

lemma pieces_length:
  "sorted_wrt (\<lambda>t u. t_end t \<le> t_begin u) ts \<Longrightarrow> \<forall>t \<in> set ts. piece s t \<Longrightarrow> \<forall>t \<in> set ts. t_end t \<le> b \<Longrightarrow> length ts \<le> b"
proof (induction ts arbitrary: b rule: rev_induct)
  case (snoc t ts)
  have "length ts \<le> t_begin t" using snoc.prems by (intro snoc.IH) (auto simp: sorted_wrt_append)
  then show ?case using snoc.prems by (fastforce simp: piece_def)
qed simp

lemma tokens_all:
  assumes "lex_next s mk_lexer = Inr (t, lx)" and "reads s (t, lx) ts (u, lx')" and "t_kind u = TEnd"
  shows "tokens s = Some (Inr ts)"
proof -
  obtain lx1 where lx1: "lex_next s lx1 = Inr (u, lx')"
    "\<And>k. lex_tokens (length ts + k) s mk_lexer = bindOE (lex_tokens k s lx1) (\<lambda>us. Some (Inr (ts @ us)))"
    using reads_lex_tokens [OF assms(2,1)] by blast
  have p: "\<forall>t \<in> set ts. piece s t" "sorted_wrt (\<lambda>t u. t_end t \<le> t_begin u) ts"
    using reads_pieces [OF assms(2)] token_at_next [OF assms(1)] by auto
  then have "length ts \<le> length s" by (intro pieces_length [OF p(2,1)]) (auto simp: piece_def)
  then obtain k where "Suc (length s) = length ts + Suc k" by (metis add_Suc_right le_Suc_ex)
  then show ?thesis using lx1(1) lx1(2) [of "Suc k"] assms(3) unfolding tokens_def by simp
qed

end
