(* ===== verification/Fuzzy_Parser.thy ===== *)
theory Fuzzy_Parser
  imports Fuzzy_Lexer
begin

text \<open>
  The recursive descent parser of fuzzy Turtle (\<open>Parser\<close> and \<open>loadFuzzyTTL\<close> of
  \<open>src/src/gengodb/semantics/FuzzyTurtle.cpp\<close>): it blanks the truth degrees in a copy of the
  input and collects one degree for every triple.  The mutually recursive functions take
  fuel; \<open>parse_fuel\<close> is enough for every input, because every object consumes a token.
\<close>

record parser =
  p_lex :: lexer
  p_out :: string
  p_degrees :: "int list"
  p_cur :: token
  p_depth :: int

definition p_error :: "parser \<Rightarrow> string \<Rightarrow> error" where
  "p_error p msg = ft_error msg (t_line (p_cur p))"

definition advance :: "string \<Rightarrow> parser \<Rightarrow> parser res" where
  "advance s p = bindE (lex_next s (p_lex p)) (\<lambda>(t, lx). Inr (p\<lparr>p_lex := lx, p_cur := t\<rparr>))"

definition isPunct :: "parser \<Rightarrow> char \<Rightarrow> bool" where
  "isPunct p c \<longleftrightarrow> t_kind (p_cur p) = TPunct \<and> take 1 (t_text (p_cur p)) = [c]"

definition at_end :: "parser \<Rightarrow> bool" where
  "at_end p \<longleftrightarrow> t_kind (p_cur p) = TEnd"

definition expectPunct :: "string \<Rightarrow> parser \<Rightarrow> char \<Rightarrow> parser res" where
  "expectPunct s p c = (if \<not> isPunct p c then Inl (p_error p (''expected '' @ [quote1] @ [c] @ [quote1])) else advance s p)"

definition isKeyword :: "parser \<Rightarrow> string \<Rightarrow> bool" where
  "isKeyword p kw \<longleftrightarrow> t_kind (p_cur p) = TName \<and> length (t_text (p_cur p)) = length kw
     \<and> map toupper (t_text (p_cur p)) = kw"

definition expectTerm :: "string \<Rightarrow> parser \<Rightarrow> parser res" where
  "expectTerm s p = (if t_kind (p_cur p) \<noteq> TIri \<and> t_kind (p_cur p) \<noteq> TName
     then Inl (p_error p ''expected an IRI or prefixed name'') else advance s p)"

definition blank_at :: "string \<Rightarrow> nat \<Rightarrow> string" where
  "blank_at out i = (if out ! i \<noteq> newline then out[i := CHR 0x20] else out)"

definition blank :: "string \<Rightarrow> nat \<Rightarrow> nat \<Rightarrow> string" where
  "blank out b e = foldl blank_at out [b..<e]"

text \<open>The degree annotation after an object, if there is one.\<close>

definition parseDegree :: "string \<Rightarrow> nat \<Rightarrow> parser \<Rightarrow> parser res" where
  "parseDegree s idx p =
     (if t_kind (p_cur p) = TDegree then
        if p_depth p > 0 then Inl (p_error p ''truth degrees inside RDF collections are not supported'')
        else advance s (p\<lparr>p_degrees := (p_degrees p)[idx := t_degree (p_cur p)],
               p_out := blank (p_out p) (t_begin (p_cur p)) (t_begin (p_cur p) + length (t_text (p_cur p)))\<rparr>)
      else Inr p)"

text \<open>The objects that are single tokens, or a string with its language tag or datatype.\<close>

definition parseSimple :: "string \<Rightarrow> parser \<Rightarrow> parser res" where
  "parseSimple s p =
     (if t_kind (p_cur p) = TString then
        bindE (advance s p) (\<lambda>p.
        if t_kind (p_cur p) = TLangTag then advance s p
        else if t_kind (p_cur p) = TCaret2 then bindE (advance s p) (expectTerm s)
        else Inr p)
      else if t_kind (p_cur p) \<in> set [TIri, TName, TNumber] then advance s p
      else Inl (p_error p ''expected an object''))"

definition push_degree :: "parser \<Rightarrow> parser" where
  "push_degree p = p\<lparr>p_degrees := p_degrees p @ [float_one]\<rparr>"

fun skipSemicolons :: "nat \<Rightarrow> string \<Rightarrow> parser \<Rightarrow> parser res option" where
  "skipSemicolons 0 s p = None"
| "skipSemicolons (Suc k) s p =
     (if isPunct p (CHR '';'') then bindOE (Some (advance s p)) (skipSemicolons k s) else Some (Inr p))"

function (sequential) parsePredicateObjectList :: "nat \<Rightarrow> string \<Rightarrow> parser \<Rightarrow> parser res option"
  and predicateObjectLoop :: "nat \<Rightarrow> string \<Rightarrow> parser \<Rightarrow> parser res option"
  and parseObjectList :: "nat \<Rightarrow> string \<Rightarrow> parser \<Rightarrow> parser res option"
  and objectLoop :: "nat \<Rightarrow> string \<Rightarrow> parser \<Rightarrow> parser res option"
  and parseObject :: "nat \<Rightarrow> string \<Rightarrow> parser \<Rightarrow> parser res option"
  and collectionLoop :: "nat \<Rightarrow> string \<Rightarrow> parser \<Rightarrow> parser res option" where
  "parsePredicateObjectList 0 s p = None"
| "parsePredicateObjectList (Suc k) s p =
     bindOE (Some (expectTerm s p)) (\<lambda>p.
     bindOE (parseObjectList k s p) (\<lambda>p.
     predicateObjectLoop k s p))"
| "predicateObjectLoop 0 s p = None"
| "predicateObjectLoop (Suc k) s p =
     (if isPunct p (CHR '';'') then
        bindOE (skipSemicolons (Suc k) s p) (\<lambda>p.
        if isPunct p (CHR ''.'') \<or> isPunct p (CHR '']'') \<or> at_end p then Some (Inr p)
        else bindOE (Some (expectTerm s p)) (\<lambda>p.
          bindOE (parseObjectList k s p) (\<lambda>p.
          predicateObjectLoop k s p)))
      else Some (Inr p))"
| "parseObjectList 0 s p = None"
| "parseObjectList (Suc k) s p = bindOE (parseObject k s p) (\<lambda>p. objectLoop k s p)"
| "objectLoop 0 s p = None"
| "objectLoop (Suc k) s p =
     (if isPunct p (CHR '','') then
        bindOE (Some (advance s p)) (\<lambda>p. bindOE (parseObject k s p) (\<lambda>p. objectLoop k s p))
      else Some (Inr p))"
| "parseObject 0 s p = None"
| "parseObject (Suc k) s p =
     (let idx = length (p_degrees p); p = push_degree p in
      bindOE
        (if isPunct p (CHR ''['') then
           bindOE (Some (advance s p)) (\<lambda>p.
           bindOE (if \<not> isPunct p (CHR '']'') then parsePredicateObjectList k s p else Some (Inr p)) (\<lambda>p.
           Some (expectPunct s p (CHR '']''))))
         else if isPunct p (CHR ''('') then
           bindOE (Some (advance s p)) (\<lambda>p.
           bindOE (collectionLoop k s (p\<lparr>p_depth := p_depth p + 1\<rparr>)) (\<lambda>p.
           Some (Inr (p\<lparr>p_depth := p_depth p - 1\<rparr>))))
         else Some (parseSimple s p))
        (\<lambda>p. Some (parseDegree s idx p)))"
| "collectionLoop 0 s p = None"
| "collectionLoop (Suc k) s p =
     (if \<not> isPunct p (CHR '')'') then
        if at_end p then Some (Inl (p_error p ''unterminated collection''))
        else bindOE (parseObject k s p) (\<lambda>p. collectionLoop k s (push_degree p))
      else Some (advance s p))"
  by pat_completeness auto
termination by (relation "measure (\<lambda>x. case x of Inl (Inl (k, _)) \<Rightarrow> k | Inl (Inr (Inl (k, _))) \<Rightarrow> k | Inl (Inr (Inr (k, _))) \<Rightarrow> k
     | Inr (Inl (k, _)) \<Rightarrow> k | Inr (Inr (Inl (k, _))) \<Rightarrow> k | Inr (Inr (Inr (k, _))) \<Rightarrow> k)") auto

definition parseCollectionItems :: "nat \<Rightarrow> string \<Rightarrow> parser \<Rightarrow> parser res option" where
  "parseCollectionItems k s p =
     bindOE (collectionLoop k s (p\<lparr>p_depth := p_depth p + 1\<rparr>)) (\<lambda>p. Some (Inr (p\<lparr>p_depth := p_depth p - 1\<rparr>)))"

definition parseTriples :: "nat \<Rightarrow> string \<Rightarrow> parser \<Rightarrow> parser res option" where
  "parseTriples k s p =
     (if isPunct p (CHR ''['') then
        bindOE (Some (advance s p)) (\<lambda>p.
        let empty = isPunct p (CHR '']'') in
        bindOE (if \<not> empty then parsePredicateObjectList k s p else Some (Inr p)) (\<lambda>p.
        bindOE (Some (expectPunct s p (CHR '']''))) (\<lambda>p.
        if empty \<or> \<not> isPunct p (CHR ''.'') then parsePredicateObjectList k s p else Some (Inr p))))
      else
        bindOE (if isPunct p (CHR ''('') then bindOE (Some (advance s p)) (parseCollectionItems k s)
                else Some (expectTerm s p)) (\<lambda>p.
        parsePredicateObjectList k s p))"

definition parseStatement :: "nat \<Rightarrow> string \<Rightarrow> parser \<Rightarrow> parser res option" where
  "parseStatement k s p =
     (if t_kind (p_cur p) = TDirective then
        let isPrefix = (t_text (p_cur p) = ''@prefix'') in
        if \<not> isPrefix \<and> t_text (p_cur p) \<noteq> ''@base''
        then Some (Inl (p_error p (''unknown directive '' @ [quote1] @ t_text (p_cur p) @ [quote1])))
        else Some (bindE (advance s p) (\<lambda>p. bindE (if isPrefix then expectTerm s p else Inr p) (\<lambda>p.
          bindE (expectTerm s p) (\<lambda>p. expectPunct s p (CHR ''.'')))))
      else if isKeyword p ''PREFIX'' \<or> isKeyword p ''BASE'' then
        let isPrefix = isKeyword p ''PREFIX'' in
        Some (bindE (advance s p) (\<lambda>p. bindE (if isPrefix then expectTerm s p else Inr p) (expectTerm s)))
      else bindOE (parseTriples k s p) (\<lambda>p. Some (expectPunct s p (CHR ''.''))))"

fun parseDocument :: "nat \<Rightarrow> string \<Rightarrow> parser \<Rightarrow> parser res option" where
  "parseDocument 0 s p = None"
| "parseDocument (Suc k) s p =
     (if at_end p then Some (Inr p) else bindOE (parseStatement k s p) (parseDocument k s))"

definition mk_parser :: "string \<Rightarrow> parser res" where
  "mk_parser s = advance s \<lparr>p_lex = mk_lexer, p_out = s, p_degrees = [],
     p_cur = \<lparr>t_kind = TEnd, t_text = [], t_begin = 0, t_line = 0, t_degree = float_one\<rparr>, p_depth = 0\<rparr>"

definition parse_fuel :: "string \<Rightarrow> nat" where
  "parse_fuel s = 4 * length s + 8"

definition loadFuzzyTTL :: "string \<Rightarrow> (string \<times> int list) res option" where
  "loadFuzzyTTL s = bindOE (Some (mk_parser s)) (\<lambda>p. bindOE (parseDocument (parse_fuel s) s p) (\<lambda>p.
     Some (Inr (p_out p, p_degrees p))))"

end
