(* ===== verification/Rdf_Graph.thy ===== *)
theory Rdf_Graph
  imports Xsd_Types Graph_File Rdf_Values Fuzzy_Parser
begin

text \<open>
  An RDF graph on top of a property graph (\<open>src/include/gengodb/semantics/RdfGraph.h\<close>,
  \<open>src/src/gengodb/semantics/RdfGraph.cpp\<close>): IRIs, blank nodes and literals are numbered by the node
  dictionary, node \<open>i\<close> of the storage is the term with number \<open>i\<close>, a literal's value is a property of
  its node, a triple is a relationship, and literals are found again by their datatype and bytes.  The bytes that
  the keys of the literal table point to are owned by the key here.  What rdf4cpp parses out of a text
  is a parameter of the loading functions.  The arguments of \<open>addRelationship\<close> are evaluated from left to
  right, as Clang does.
\<close>

section \<open>State\<close>

datatype parsing_flag = PfNone | PfTurtle

type_synonym literal_key = "byte list \<times> int"

record rdf_graph =
  rg_iri :: string
  rg_store :: graph_file
  rg_nodes :: node_dict
  rg_literals :: "literal_key \<rightharpoonup> int"
  rg_persist :: bool
  rg_fileName :: string
  rg_sourceFileName :: string
  rg_dbDir :: string
  rg_fromRdfFile :: bool
  rg_flags :: parsing_flag
  rg_fuzzy :: bool
  rg_loaded :: bool

abbreviation pg :: "rdf_graph \<Rightarrow> pgraph" where
  "pg g \<equiv> storage (rg_store g)"

definition set_pg :: "rdf_graph \<Rightarrow> pgraph \<Rightarrow> rdf_graph" where
  "set_pg g p = g\<lparr>rg_store := (rg_store g)\<lparr>storage := p\<rparr>\<rparr>"

definition mk_rdfGraph :: "string \<Rightarrow> graph_file \<Rightarrow> string \<Rightarrow> string \<Rightarrow> rdf_graph" where
  "mk_rdfGraph iri store name sourceName =
     \<lparr>rg_iri = iri, rg_store = store, rg_nodes = empty_dict, rg_literals = Map.empty, rg_persist = False,
      rg_fileName = name, rg_sourceFileName = (if sourceName = [] then name else sourceName), rg_dbDir = [],
      rg_fromRdfFile = False, rg_flags = PfTurtle, rg_fuzzy = False, rg_loaded = False\<rparr>"

definition GENGODB_NS :: string where
  "GENGODB_NS = ''https://github.com/Neroware/LingoDB#''"

definition rdf_create :: "string \<Rightarrow> string \<Rightarrow> string \<Rightarrow> int \<Rightarrow> int \<Rightarrow> int \<Rightarrow> rdf_graph res" where
  "rdf_create name iri sourceName nc rc pc =
     bindE (mk_graphFile name nc rc pc) (\<lambda>store.
     Inr (mk_rdfGraph (if iri = [] then GENGODB_NS @ name else iri) store name sourceName))"

definition rdf_setDBDir :: "rdf_graph \<Rightarrow> string \<Rightarrow> rdf_graph" where
  "rdf_setDBDir g dir = g\<lparr>rg_dbDir := dir, rg_store := setDBDir (rg_store g) dir\<rparr>"

definition setLoadedFromRdfFile :: "rdf_graph \<Rightarrow> bool \<Rightarrow> rdf_graph" where
  "setLoadedFromRdfFile g b = g\<lparr>rg_fromRdfFile := b\<rparr>"

definition setRdfParseFlags :: "rdf_graph \<Rightarrow> parsing_flag \<Rightarrow> rdf_graph" where
  "setRdfParseFlags g f = g\<lparr>rg_flags := f\<rparr>"

definition setFuzzy :: "rdf_graph \<Rightarrow> bool \<Rightarrow> rdf_graph" where
  "setFuzzy g b = g\<lparr>rg_fuzzy := b\<rparr>"

section \<open>Numbering the terms\<close>

definition ensureNode :: "rdf_graph \<Rightarrow> rdf_graph res" where
  "ensureNode g = (if nodeMark (base (pg g)) < dict_size (rg_nodes g)
     then bindE (pg_addNode (pg g)) (\<lambda>(i, p). Inr (set_pg g p)) else Inr g)"

definition resolve_term :: "rdf_graph \<Rightarrow> node \<Rightarrow> (int \<times> rdf_graph) res" where
  "resolve_term g n = (let (i, d) = get_or_insert (rg_nodes g) n in
     bindE (ensureNode (g\<lparr>rg_nodes := d\<rparr>)) (\<lambda>g. Inr (i, g)))"

definition resolve_iri :: "rdf_graph \<Rightarrow> string \<Rightarrow> (int \<times> rdf_graph) res" where
  "resolve_iri g iri = resolve_term g (NodeIri iri)"

definition resolve_bnode :: "rdf_graph \<Rightarrow> string \<Rightarrow> (int \<times> rdf_graph) res" where
  "resolve_bnode g b = resolve_term g (NodeBlank b)"

text \<open>The bytes that identify a literal, and how its value is going to be stored.\<close>

datatype stored = SInline int | SI64 "64 word" | SU64 "64 word" | SDouble "64 word" | SBlob

definition literal_data :: "literal \<Rightarrow> (byte list \<times> stored) res" where
  "literal_data l = (let datatype = lit_datatype l in
     if isInlined datatype then
       bindE (inlineValue (lit_value l) datatype) (\<lambda>bits. Inr (u32_bytes bits, SInline bits))
     else case kindOf datatype of
       Some KInt64 \<Rightarrow> (case lit_value l of AnyI64 x \<Rightarrow> Inr (u64_bytes (word_of_int x), SI64 (word_of_int x)) | _ \<Rightarrow> bad_cast)
     | Some KUInt64 \<Rightarrow> (case lit_value l of AnyU64 x \<Rightarrow> Inr (u64_bytes (word_of_int x), SU64 (word_of_int x)) | _ \<Rightarrow> bad_cast)
     | Some KDouble \<Rightarrow> (case lit_value l of AnyDouble x \<Rightarrow> Inr (u64_bytes x, SDouble x) | _ \<Rightarrow> bad_cast)
     | Some KDate \<Rightarrow> (case lit_value l of AnyDate y m d tz \<Rightarrow>
           bindE (packDate y m d tz) (\<lambda>x. Inr (u64_bytes x, SI64 x)) | _ \<Rightarrow> bad_cast)
     | Some KDateTime \<Rightarrow> (case lit_value l of AnyDateTime n tz \<Rightarrow>
           bindE (packDateTime n tz) (\<lambda>x. Inr (u64_bytes x, SI64 x)) | _ \<Rightarrow> bad_cast)
     | None \<Rightarrow>
         bindE (assertE (length (lit_lang l) \<le> 0xFF) ''language tag too long to persist'') (\<lambda>_.
         Inr (word_of_int (int (length (lit_lang l))) # map byte_of_char (lit_lang l) @ map byte_of_char (lit_lex l), SBlob)))"

abbreviation blob_kind :: int where
  "blob_kind \<equiv> to_int32 T_String"

definition store_value :: "pgraph \<Rightarrow> byte list \<Rightarrow> stored \<Rightarrow> (int \<times> pgraph) res" where
  "store_value p data sv = (case sv of
       SInline bits \<Rightarrow> Inr (bits, p)
     | SI64 x \<Rightarrow> (let (i, pd) = add_i64 (propData p) x in Inr (to_u32 i, p\<lparr>propData := pd\<rparr>))
     | SU64 x \<Rightarrow> (let (i, pd) = add_ui64 (propData p) x in Inr (to_u32 i, p\<lparr>propData := pd\<rparr>))
     | SDouble x \<Rightarrow> (let (i, pd) = add_double (propData p) x in Inr (to_u32 i, p\<lparr>propData := pd\<rparr>))
     | SBlob \<Rightarrow>
         bindE (add_blob (propData p) blob_kind (length data)) (\<lambda>((ptr, i), pd).
         bindE (write_blob pd blob_kind ptr data) (\<lambda>pd. Inr (to_u32 i, p\<lparr>propData := pd\<rparr>))))"

definition addLiteralNode :: "rdf_graph \<Rightarrow> literal_key \<Rightarrow> int \<Rightarrow> rdf_graph" where
  "addLiteralNode g key i = g\<lparr>rg_literals := map_insert (rg_literals g) (key, i)\<rparr>"

definition resolve_literal :: "rdf_graph \<Rightarrow> literal \<Rightarrow> (int \<times> rdf_graph) res" where
  "resolve_literal g l =
     bindE (literal_data l) (\<lambda>(data, sv).
     bindE (resolve_iri g (lit_datatype l)) (\<lambda>(datatypeNode, g).
     case rg_literals g (data, datatypeNode) of
       Some i \<Rightarrow> Inr (i, g)
     | None \<Rightarrow>
         let (i, d) = dict_insert (rg_nodes g) (NodeLiteral l) in
         bindE (ensureNode (g\<lparr>rg_nodes := d\<rparr>)) (\<lambda>g.
         bindE (store_value (pg g) data sv) (\<lambda>(value, p).
         bindE (addNodeProperty p i (to_u32 datatypeNode) (to_u32 (to_int32 (from_iri (Some (lit_datatype l))))) value) (\<lambda>(_, p).
         Inr (i, addLiteralNode (set_pg g p) (data, datatypeNode) i))))))"

definition getIri :: "(int \<Rightarrow> node_type) \<Rightarrow> rdf_graph \<Rightarrow> int \<Rightarrow> string res" where
  "getIri decode g i = bindE (dict_get decode (rg_nodes g) i) (\<lambda>n. Inr (nid_iri n))"

definition literal_prop :: "rdf_graph \<Rightarrow> int \<Rightarrow> prop_record res" where
  "literal_prop g i = bindE (node (base (pg g)) i) (\<lambda>n.
     bindE (assertE (n_payload n \<ge> 0) ''literal node missing data property'') (\<lambda>_. prop_at (pg g) (n_payload n)))"

definition literal_bytes :: "prop_data \<Rightarrow> int \<Rightarrow> string \<Rightarrow> byte list res" where
  "literal_bytes pd value datatype = (let idx = to_i32 value in
     if isInlined datatype then Inr (u32_bytes value)
     else case kindOf datatype of
       Some KUInt64 \<Rightarrow> bindE (get_ui64 pd idx) (\<lambda>x. Inr (u64_bytes x))
     | Some KDouble \<Rightarrow> bindE (get_double pd idx) (\<lambda>x. Inr (u64_bytes x))
     | Some _ \<Rightarrow> bindE (get_i64 pd idx) (\<lambda>x. Inr (u64_bytes x))
     | None \<Rightarrow> blob_bytes pd blob_kind idx)"

definition literalKeyFor :: "(int \<Rightarrow> node_type) \<Rightarrow> rdf_graph \<Rightarrow> int \<Rightarrow> literal_key res" where
  "literalKeyFor decode g i =
     bindE (literal_prop g i) (\<lambda>p.
     let datatypeNode = to_i32 (p_key p) in
     bindE (getIri decode g datatypeNode) (\<lambda>datatype.
     bindE (literal_bytes (propData (pg g)) (p_value p) datatype) (\<lambda>data.
     Inr (data, datatypeNode))))"

section \<open>Triples\<close>

definition resolve :: "rdf_graph \<Rightarrow> node \<Rightarrow> (int \<times> rdf_graph) res" where
  "resolve g n = (case n of NodeLiteral l \<Rightarrow> resolve_literal g l | _ \<Rightarrow> resolve_term g n)"

definition add_resolved :: "rdf_graph \<Rightarrow> node \<Rightarrow> string \<Rightarrow> node \<Rightarrow> (int \<times> rdf_graph) res" where
  "add_resolved g s p ob =
     bindE (resolve g s) (\<lambda>(from, g). bindE (resolve g ob) (\<lambda>(to, g). bindE (resolve_iri g p) (\<lambda>(ty, g).
     bindE (pg_addRelationship (pg g) from to (to_u32 ty)) (\<lambda>(i, q). Inr (i, set_pg g q)))))"

definition setTruth :: "rdf_graph \<Rightarrow> int \<Rightarrow> int \<Rightarrow> rdf_graph res" where
  "setTruth g i degree = bindE (pg_upd_rel (pg g) i (\<lambda>r. r\<lparr>r_payload := to_i32 degree\<rparr>)) (\<lambda>p. Inr (set_pg g p))"

definition addTriple :: "rdf_graph \<Rightarrow> node \<Rightarrow> node \<Rightarrow> node \<Rightarrow> int \<Rightarrow> rdf_graph res" where
  "addTriple g s p ob truth = (case p of
       NodeIri pred \<Rightarrow>
         (case s of
            NodeLiteral _ \<Rightarrow> Inl (AssertFail ''triple subject invalid'')
          | NodeVariable _ \<Rightarrow> Inl (AssertFail ''triple subject invalid'')
          | _ \<Rightarrow> (case ob of
                NodeVariable _ \<Rightarrow> Inl (AssertFail ''triple object invalid'')
              | _ \<Rightarrow> bindE (add_resolved g s pred ob) (\<lambda>(i, g). setTruth g i (if rg_fuzzy g then truth else float_one))))
     | _ \<Rightarrow> Inl (AssertFail ''predicate must be an IRI''))"

section \<open>Reading literals\<close>

text \<open>
  What \<open>getLiteral\<close> hands to rdf4cpp: a lexical form with a datatype or a language tag, or a value whose lexical
  form \<open>snprintf\<close> (doubles) or rdf4cpp (dates) produces.
\<close>

datatype made_literal =
    MadeTyped string string | MadeLang string string | MadeDouble "64 word" string
  | MadeDate int int int "int option" string | MadeDateTime int "int option" string

definition getLiteral :: "(int \<Rightarrow> node_type) \<Rightarrow> rdf_graph \<Rightarrow> int \<Rightarrow> made_literal res" where
  "getLiteral decode g i =
     bindE (literal_prop g i) (\<lambda>p.
     let idx = to_i32 (p_value p); pd = propData (pg g) in
     bindE (getIri decode g (to_i32 (p_key p))) (\<lambda>datatype.
     if isInlined datatype then bindE (toLexicalForm (p_value p) datatype) (\<lambda>lex. Inr (MadeTyped lex datatype))
     else case kindOf datatype of
       Some KInt64 \<Rightarrow> bindE (get_i64 pd idx) (\<lambda>x. Inr (MadeTyped (int_to_string (sint x)) datatype))
     | Some KUInt64 \<Rightarrow> bindE (get_ui64 pd idx) (\<lambda>x. Inr (MadeTyped (int_to_string (uint x)) datatype))
     | Some KDouble \<Rightarrow> bindE (get_double pd idx) (\<lambda>x. Inr (MadeDouble x datatype))
     | Some KDate \<Rightarrow> bindE (get_i64 pd idx) (\<lambda>x. case unpackDate x of (y, m, d, tz) \<Rightarrow> Inr (MadeDate y m d tz datatype))
     | Some KDateTime \<Rightarrow> bindE (get_i64 pd idx) (\<lambda>x. case unpackDateTime x of (n, tz) \<Rightarrow> Inr (MadeDateTime n tz datatype))
     | None \<Rightarrow>
         bindE (blob_bytes pd blob_kind idx) (\<lambda>raw.
         bindE (get_at raw 0) (\<lambda>b.
         let langLen = unat b in
         if length raw < 1 + langLen then Inl OutOfBounds
         else let lang = map char_of_byte (take langLen (drop 1 raw)); lex = map char_of_byte (drop (1 + langLen) raw)
              in if lang \<noteq> [] then Inr (MadeLang lex lang) else Inr (MadeTyped lex datatype)))))"

section \<open>Loading\<close>

definition getRDFFileExtension :: "parsing_flag \<Rightarrow> string" where
  "getRDFFileExtension flag = (case flag of PfTurtle \<Rightarrow> ''.ttl'' | _ \<Rightarrow> ''.rdf'')"

type_synonym quad_item = "(string \<times> int) + (node \<times> node \<times> node)"

primrec add_fuzzy :: "rdf_graph \<Rightarrow> string \<Rightarrow> int list \<Rightarrow> quad_item list \<Rightarrow> (rdf_graph \<times> int list \<times> quad_item list) res" where
  "add_fuzzy g path ds [] = Inr (g, ds, [])"
| "add_fuzzy g path ds (q # qs) = (case q of
       Inl (msg, line) \<Rightarrow> Inl (RuntimeError (path @ '': '' @ msg @ '' (line '' @ int_to_string line @ '')''))
     | Inr (s, p, ob) \<Rightarrow> (case ds of
           [] \<Rightarrow> Inr (g, ds, q # qs)
         | d # ds \<Rightarrow> bindE (addTriple g s p ob d) (\<lambda>g. add_fuzzy g path ds qs)))"

definition loadFuzzyTriples :: "(string \<Rightarrow> quad_item list) \<Rightarrow> file_system \<Rightarrow> rdf_graph \<Rightarrow> rdf_graph res option" where
  "loadFuzzyTriples parse fs g = (let path = rg_dbDir g @ rg_sourceFileName g @ ''.fttl'' in
     case fs_files fs path of
       None \<Rightarrow> Some (Inl (RuntimeError (''cannot open fuzzy turtle file '' @ [quote1] @ path @ [quote1])))
     | Some content \<Rightarrow>
         (case loadFuzzyTTL (map char_of_byte content) of
            None \<Rightarrow> None
          | Some (Inl (RuntimeError msg)) \<Rightarrow> Some (Inl (RuntimeError (path @ '': '' @ msg)))
          | Some (Inl e) \<Rightarrow> Some (Inl e)
          | Some (Inr (turtle, degrees)) \<Rightarrow>
              Some (bindE (add_fuzzy g path degrees (parse turtle)) (\<lambda>(g, ds, qs).
                if ds \<noteq> [] \<or> qs \<noteq> []
                then Inl (RuntimeError (path @ '': parsed triple count does not match the truth degree annotations (expected ''
                       @ int_to_string (int (length degrees)) @ '')''))
                else Inr g))))"

primrec add_quads :: "rdf_graph \<Rightarrow> quad_item list \<Rightarrow> rdf_graph res" where
  "add_quads g [] = Inr g"
| "add_quads g (q # qs) = (case q of Inl _ \<Rightarrow> Inr g
     | Inr (s, p, ob) \<Rightarrow> bindE (addTriple g s p ob float_one) (\<lambda>g. add_quads g qs))"

definition loadTriples :: "(string \<Rightarrow> quad_item list) \<Rightarrow> (string \<Rightarrow> quad_item list) \<Rightarrow> file_system \<Rightarrow> rdf_graph \<Rightarrow> rdf_graph res option" where
  "loadTriples parse parse_file fs g =
     (if \<not> rg_fromRdfFile g then Some (Inr g)
      else if rg_fuzzy g then loadFuzzyTriples parse fs g
      else Some (add_quads g (parse_file (rg_dbDir g @ rg_sourceFileName g @ getRDFFileExtension (rg_flags g)))))"

text \<open>The literal table is rebuilt from the storage after a load from the binary file.\<close>

primrec rebuild :: "(int \<Rightarrow> node_type) \<Rightarrow> rdf_graph \<Rightarrow> int list \<Rightarrow> rdf_graph res" where
  "rebuild decode g [] = Inr g"
| "rebuild decode g (i # is) =
     bindE (dict_get decode (rg_nodes g) i) (\<lambda>n.
     if nid_type n \<noteq> NtLiteral then rebuild decode g is
     else bindE (node (base (pg g)) i) (\<lambda>e.
       if n_payload e < 0 then rebuild decode g is
       else bindE (literalKeyFor decode g i) (\<lambda>k. rebuild decode (addLiteralNode g k i) is)))"

definition rebuildLiteralNodeCache :: "(int \<Rightarrow> node_type) \<Rightarrow> rdf_graph \<Rightarrow> rdf_graph res" where
  "rebuildLiteralNodeCache decode g = rebuild decode g [0..to_i32 (dict_size (rg_nodes g)) - 1]"

definition rdf_ensureLoaded ::
  "(int \<Rightarrow> node_type) \<Rightarrow> (string \<Rightarrow> quad_item list) \<Rightarrow> (string \<Rightarrow> quad_item list) \<Rightarrow> file_system \<Rightarrow> rdf_graph \<Rightarrow> rdf_graph res option" where
  "rdf_ensureLoaded decode parse parse_file fs g =
     (if rg_loaded g then Some (Inr g)
      else let g = g\<lparr>rg_loaded := True\<rparr>;
               sourcePath = rg_dbDir g @ rg_sourceFileName g @ getRDFFileExtension (rg_flags g);
               cached = (rg_fromRdfFile g \<and> hasFreshCache fs (rg_store g) sourcePath)
           in bindOE
                (if rg_fromRdfFile g \<and> \<not> cached then
                   bindOE (Some (mk_graphFile (rg_fileName g) (pg_nodeCap (pg g)) (pg_relCap (pg g)) (propCap (pg g)))) (\<lambda>st.
                   loadTriples parse parse_file fs
                     (g\<lparr>rg_store := setDBDir st (rg_dbDir g), rg_nodes := empty_dict, rg_literals := Map.empty\<rparr>))
                 else Some (Inr g)) (\<lambda>g.
              bindOE (Some (gf_ensureLoaded fs (rg_store g))) (\<lambda>st.
              if cached then Some (rebuildLiteralNodeCache decode (g\<lparr>rg_store := st\<rparr>))
              else Some (Inr (g\<lparr>rg_store := st\<rparr>)))))"

definition rdf_flush :: "file_system \<Rightarrow> rdf_graph \<Rightarrow> file_system res" where
  "rdf_flush fs g = gf_flush fs (rg_store g)"

definition setPersist :: "file_system \<Rightarrow> rdf_graph \<Rightarrow> bool \<Rightarrow> (file_system \<times> rdf_graph) res" where
  "setPersist fs g b = (let g = g\<lparr>rg_persist := b\<rparr> in
     if b then bindE (rdf_flush fs g) (\<lambda>fs. Inr (fs, g)) else Inr (fs, g))"

text \<open>The lookups that \<open>ensureLoaded\<close> installs in the metadata of the property graph.\<close>

definition rdf_type_id :: "(node_type \<Rightarrow> int) \<Rightarrow> (int \<Rightarrow> node_type) \<Rightarrow> rdf_graph \<Rightarrow> int \<Rightarrow> int res" where
  "rdf_type_id code decode g i = bindE (dict_get decode (rg_nodes g) i) (\<lambda>n. Inr (code (nid_type n)))"

definition node_from_iri :: "rdf_graph \<Rightarrow> string \<Rightarrow> int" where
  "node_from_iri g iri = get_safe (rg_nodes g) (NodeIri iri)"

definition node_from_rdf_literal :: "rdf_graph \<Rightarrow> string \<Rightarrow> byte list \<Rightarrow> int" where
  "node_from_rdf_literal g datatypeIri data = (let datatypeNode = get_safe (rg_nodes g) (NodeIri datatypeIri) in
     if datatypeNode < 0 then - 1
     else case rg_literals g (data, datatypeNode) of None \<Rightarrow> - 1 | Some i \<Rightarrow> i)"

end
