(* ===== verification/Rdf_Refine.thy ===== *)
theory Rdf_Refine
  imports Rdf_Graph
begin

text \<open>
  An RDF graph only grows while triples are added to it: what a number stands for never changes.  The
  invariant ties the node dictionary, the node store and the literal table together; from it follow that the
  triples added can be read off the storage and that the literal table can be rebuilt from the storage alone.
\<close>

section \<open>Growth of the storage\<close>

definition pd_ext :: "prop_data \<Rightarrow> prop_data \<Rightarrow> bool" where
  "pd_ext pd pd' \<longleftrightarrow> (\<exists>xs. lst_i64 pd' = lst_i64 pd @ xs) \<and> (\<exists>xs. lst_ui64 pd' = lst_ui64 pd @ xs)
     \<and> (\<exists>xs. lst_double pd' = lst_double pd @ xs)
     \<and> (\<forall>k i b. blob_bytes pd k i = Inr b \<longrightarrow> blob_bytes pd' k i = Inr b)"

definition pg_ext :: "pgraph \<Rightarrow> pgraph \<Rightarrow> bool" where
  "pg_ext p p' \<longleftrightarrow>
     nodeMark (base p) \<le> nodeMark (base p') \<and> length (nodes (base p')) = length (nodes (base p))
   \<and> (\<forall>i. 0 \<le> i \<and> i < nodeMark (base p) \<longrightarrow> n_payload (at (nodes (base p')) i) = n_payload (at (nodes (base p)) i))
   \<and> relMark (base p) \<le> relMark (base p') \<and> length (rels (base p')) = length (rels (base p))
   \<and> (\<forall>i. 0 \<le> i \<and> i < relMark (base p) \<longrightarrow> firstNodeId (at (rels (base p')) i) = firstNodeId (at (rels (base p)) i)
        \<and> secondNodeId (at (rels (base p')) i) = secondNodeId (at (rels (base p)) i)
        \<and> typeId (at (rels (base p')) i) = typeId (at (rels (base p)) i))
   \<and> propMark p \<le> propMark p' \<and> length (props p') = length (props p)
   \<and> (\<forall>j. 0 \<le> j \<and> j < propMark p \<longrightarrow> at (props p') j = at (props p) j)
   \<and> pd_ext (propData p) (propData p')"

lemma pd_ext_refl [simp]: "pd_ext pd pd"
  by (simp add: pd_ext_def)

lemma pd_ext_trans: "pd_ext a b \<Longrightarrow> pd_ext b c \<Longrightarrow> pd_ext a c"
  unfolding pd_ext_def by (metis append_assoc)

lemma pg_ext_refl [simp]: "pg_ext p p"
  by (simp add: pg_ext_def)

lemma pg_ext_trans: "pg_ext a b \<Longrightarrow> pg_ext b c \<Longrightarrow> pg_ext a c"
  unfolding pg_ext_def by (auto intro: pd_ext_trans)

definition rdf_ext :: "rdf_graph \<Rightarrow> rdf_graph \<Rightarrow> bool" where
  "rdf_ext g g' \<longleftrightarrow> pg_ext (pg g) (pg g') \<and> (\<exists>ms. id_to_node (rg_nodes g') = id_to_node (rg_nodes g) @ ms)"

lemma rdf_ext_refl [simp]: "rdf_ext g g"
  by (simp add: rdf_ext_def)

lemma rdf_ext_trans: "rdf_ext a b \<Longrightarrow> rdf_ext b c \<Longrightarrow> rdf_ext a c"
  unfolding rdf_ext_def by (metis append_assoc pg_ext_trans)

section \<open>Well-formed storage\<close>

text \<open>Nothing has been removed, and the fixed-size lists do not outnumber the property records.\<close>

definition pg_wf :: "pgraph \<Rightarrow> bool" where
  "pg_wf p \<longleftrightarrow> freeNodes (base p) = [] \<and> freeRels (base p) = [] \<and> freeProps p = []
   \<and> 0 \<le> nodeMark (base p) \<and> nodeMark (base p) \<le> nodeCap (base p) \<and> nodeCap (base p) = int (length (nodes (base p)))
   \<and> 0 \<le> relMark (base p) \<and> relMark (base p) \<le> relCap (base p) \<and> relCap (base p) = int (length (rels (base p)))
   \<and> 0 \<le> propMark p \<and> propMark p \<le> propCap p \<and> propCap p = int (length (props p))
   \<and> nodeCap (base p) < 2 ^ 31 \<and> relCap (base p) < 2 ^ 31 \<and> propCap p < 2 ^ 31
   \<and> pg_nodeCap p = nodeCap (base p) \<and> pg_relCap p = relCap (base p)
   \<and> tables_ok (propData p) \<and> int (length (lst_i64 (propData p))) \<le> propMark p
   \<and> int (length (lst_ui64 (propData p))) \<le> propMark p \<and> int (length (lst_double (propData p))) \<le> propMark p"

lemma pg_addNode_effect:
  assumes "pg_wf p" and "pg_addNode p = Inr (i, p')"
  shows "i = nodeMark (base p)" and "pg_wf p'" and "pg_ext p p'" and "nodeMark (base p') = nodeMark (base p) + 1"
    and "n_payload (at (nodes (base p')) i) = GRAPH_NONE" and "propData p' = propData p" and "propMark p' = propMark p"
proof -
  let ?b = "base p"
  define e where "e = at (nodes ?b) (nodeMark ?b)"
  have r: "nodeMark ?b < nodeCap ?b" "in_range (nodes ?b) (nodeMark ?b)" "i = nodeMark ?b"
    "p' = p\<lparr>base := ?b\<lparr>nodeMark := nodeMark ?b + 1, nodes := set_at (nodes ?b) (nodeMark ?b)
       (e\<lparr>firstRelId := GRAPH_NONE, n_payload := GRAPH_NONE, n_inUse := True\<rparr>)\<rparr>\<rparr>"
    using assms unfolding pg_addNode_def addNode_def allocNode_def pg_upd_node_def node_def upd_node_def pg_wf_def e_def
    by (auto simp: bindE_eq_Inr_iff assertE_eq_Inr_iff upd_at_eq_Inr_iff get_at_eq_Inr_iff)
  show "i = nodeMark ?b" by fact
  show "pg_wf p'" "nodeMark (base p') = nodeMark ?b + 1" "propData p' = propData p" "propMark p' = propMark p"
    using assms(1) r by (auto simp: pg_wf_def)
  show "n_payload (at (nodes (base p')) i) = GRAPH_NONE" using r by simp
  show "pg_ext p p'" using r assms(1) by (auto simp: pg_ext_def pg_wf_def)
qed

lemma pg_addNode_rel: "pg_addNode p = Inr (i, p') \<Longrightarrow> relMark (base p') = relMark (base p)"
  by (auto simp: pg_addNode_def addNode_def allocNode_def pg_upd_node_def upd_node_def bindE_eq_Inr_iff
      assertE_eq_Inr_iff split: if_splits)

lemma pg_upd_node_effect:
  "pg_upd_node p i f = Inr p' \<Longrightarrow> 0 \<le> i \<and> i < nodeMark (base p) \<and> in_range (nodes (base p)) i
     \<and> p' = p\<lparr>base := (base p)\<lparr>nodes := set_at (nodes (base p)) i (f (at (nodes (base p)) i))\<rparr>\<rparr>"
  by (auto simp: pg_upd_node_def node_def upd_node_def bindE_eq_Inr_iff assertE_eq_Inr_iff upd_at_eq_Inr_iff get_at_eq_Inr_iff)

lemma pg_upd_rel_effect:
  "pg_upd_rel p i f = Inr p' \<Longrightarrow> 0 \<le> i \<and> i < relMark (base p) \<and> in_range (rels (base p)) i
     \<and> p' = p\<lparr>base := (base p)\<lparr>rels := set_at (rels (base p)) i (f (at (rels (base p)) i))\<rparr>\<rparr>"
  by (auto simp: pg_upd_rel_def rel_def upd_rel_def bindE_eq_Inr_iff assertE_eq_Inr_iff upd_at_eq_Inr_iff get_at_eq_Inr_iff)

lemma addPropertyToChain_new:
  assumes "freeProps p = []" and "addPropertyToChain p GRAPH_NONE key ty val = Inr ((j, h), q)"
  shows "j = propMark p \<and> h = propMark p \<and> propMark p < propCap p \<and> in_range (props p) (propMark p)
    \<and> q = p\<lparr>propMark := propMark p + 1, props := set_at (props p) (propMark p)
        ((at (props p) (propMark p))\<lparr>p_inUse := True, p_key := key, p_type := ty, p_value := val,
           prevPropId := GRAPH_NONE, nextPropId := GRAPH_NONE\<rparr>)\<rparr>"
  using assms
  by (cases "propMark p < propCap p"; cases "in_range (props p) (propMark p)")
     (simp_all add: addPropertyToChain_def allocProp_def upd_prop_def upd_at_def)

lemma addNodeProperty_effect:
  assumes wf: "freeProps p = []" "0 \<le> propMark p" and "addNodeProperty p i key ty val = Inr (j, p')" and "n_payload (at (nodes (base p)) i) = GRAPH_NONE"
  shows "j = propMark p" and "0 \<le> i" and "i < nodeMark (base p)" and "propMark p < propCap p"
    and "p' = p\<lparr>propMark := propMark p + 1, props := props p',
      base := (base p)\<lparr>nodes := set_at (nodes (base p)) i ((at (nodes (base p)) i)\<lparr>n_payload := propMark p\<rparr>)\<rparr>\<rparr>"
    and "length (props p') = length (props p)" and "\<And>k. 0 \<le> k \<Longrightarrow> k < propMark p \<Longrightarrow> at (props p') k = at (props p) k"
    and "p_key (at (props p') (propMark p)) = key" and "p_value (at (props p') (propMark p)) = val"
    and "p_type (at (props p') (propMark p)) = ty"
proof -
  obtain n h q where n: "node (base p) i = Inr n" and q: "addPropertyToChain p (n_payload n) key ty val = Inr ((j, h), q)"
    and u: "pg_upd_node q i (\<lambda>n. n\<lparr>n_payload := h\<rparr>) = Inr p'"
    using assms(3) by (auto simp: addNodeProperty_def bindE_eq_Inr_iff)
  have "n_payload n = GRAPH_NONE" using n assms(4) by (auto simp: node_def bindE_eq_Inr_iff get_at_eq_Inr_iff)
  note c = addPropertyToChain_new [OF wf(1) q [unfolded this]]
  note u = pg_upd_node_effect [OF u]
  define ps where "ps = set_at (props p) (propMark p)
        ((at (props p) (propMark p))\<lparr>p_inUse := True, p_key := key, p_type := ty, p_value := val,
           prevPropId := GRAPH_NONE, nextPropId := GRAPH_NONE\<rparr>)"
  have q: "q = p\<lparr>propMark := propMark p + 1, props := ps\<rparr>" and h: "h = propMark p" using c by (simp_all add: ps_def)
  have p': "p' = q\<lparr>base := (base q)\<lparr>nodes := set_at (nodes (base q)) i ((at (nodes (base q)) i)\<lparr>n_payload := h\<rparr>)\<rparr>\<rparr>"
    using u by blast
  have pp: "props p' = ps" unfolding p' q by simp
  show "j = propMark p" "propMark p < propCap p" "0 \<le> i" "i < nodeMark (base p)" using c u by auto
  show "p' = p\<lparr>propMark := propMark p + 1, props := props p',
      base := (base p)\<lparr>nodes := set_at (nodes (base p)) i ((at (nodes (base p)) i)\<lparr>n_payload := propMark p\<rparr>)\<rparr>\<rparr>"
    unfolding pp unfolding p' q h by simp
  note ps = pp [unfolded ps_def]
  show "length (props p') = length (props p)" "p_key (at (props p') (propMark p)) = key"
    "p_value (at (props p') (propMark p)) = val" "p_type (at (props p') (propMark p)) = ty" using c ps by simp_all
  show "at (props p') k = at (props p) k" if "0 \<le> k" "k < propMark p" for k
    using ps that wf(2) by simp
qed

lemma same_data_upd_rel:
  assumes "upd_rel g i f = Inr g'" and "\<And>r. rel_core (f r) = rel_core r \<and> r_inUse (f r) = r_inUse r"
  shows "same_data g g'"
proof -
  have i: "in_range (rels g) i" and g': "g' = g\<lparr>rels := set_at (rels g) i (f (at (rels g) i))\<rparr>"
    using assms(1) by (simp_all add: upd_rel_def bindE_eq_Inr_iff upd_at_eq_Inr_iff)
  show ?thesis unfolding g' same_data_def using assms(2) [of "at (rels g) i"] i by (simp add: at_set_at)
qed

lemma same_data_upd_node:
  assumes "upd_node g i f = Inr g'" and "\<And>r. n_payload (f r) = n_payload r \<and> n_inUse (f r) = n_inUse r"
  shows "same_data g g'"
proof -
  have i: "in_range (nodes g) i" and g': "g' = g\<lparr>nodes := set_at (nodes g) i (f (at (nodes g) i))\<rparr>"
    using assms(1) by (simp_all add: upd_node_def bindE_eq_Inr_iff upd_at_eq_Inr_iff)
  show ?thesis unfolding g' same_data_def using assms(2) [of "at (nodes g) i"] i by (simp add: at_set_at)
qed

lemma linkRelToNode_same_data:
  assumes "linkRelToNode g i n b = Inr g'"
  shows "same_data g g'"
proof -
  obtain h g1 g2 where g1: "upd_rel g i (\<lambda>r. if b then r\<lparr>firstNextRelId := h, firstPrevRelId := GRAPH_NONE\<rparr>
       else r\<lparr>secondNextRelId := h, secondPrevRelId := GRAPH_NONE\<rparr>) = Inr g1"
    and g2: "(if h \<noteq> GRAPH_NONE then upd_rel g1 h (relSetPrev n i) else Inr g1) = Inr g2"
    and g3: "upd_node g2 n (\<lambda>n. n\<lparr>firstRelId := i\<rparr>) = Inr g'"
    using assms by (auto simp: linkRelToNode_def Let_def bindE_eq_Inr_iff)
  have "same_data g g1" by (rule same_data_upd_rel [OF g1]) (simp add: rel_core_def)
  moreover have "same_data g1 g2"
    using g2 by (cases "h = GRAPH_NONE") (auto intro!: same_data_upd_rel simp: rel_core_def relSetPrev_def split: if_splits)
  moreover have "same_data g2 g'" by (rule same_data_upd_node [OF g3]) simp
  ultimately show ?thesis by (blast intro: same_data_trans)
qed

lemma pg_addRelationship_effect:
  assumes "pg_wf p" and "pg_addRelationship p from to ty = Inr (i, p')"
  shows "i = relMark (base p)" and "pg_wf p'" and "pg_ext p p'" and "relMark (base p') = relMark (base p) + 1"
    and "firstNodeId (at (rels (base p')) i) = from" and "secondNodeId (at (rels (base p')) i) = to"
    and "typeId (at (rels (base p')) i) = to_i32 ty" and "nodeMark (base p') = nodeMark (base p)"
    and "propData p' = propData p" and "propMark p' = propMark p" and "props p' = props p"
    and "\<And>k. in_range (nodes (base p)) k \<Longrightarrow> n_payload (at (nodes (base p')) k) = n_payload (at (nodes (base p)) k)"
proof -
  let ?b = "base p" and ?i = "relMark (base p)"
  define b1 where "b1 = ?b\<lparr>relMark := ?i + 1, rels := set_at (rels ?b) ?i ((at (rels ?b) ?i)\<lparr>r_inUse := True, firstNodeId := from, secondNodeId := to,
       typeId := to_i32 ty, firstPrevRelId := GRAPH_NONE, firstNextRelId := GRAPH_NONE,
       secondPrevRelId := GRAPH_NONE, secondNextRelId := GRAPH_NONE, r_payload := GRAPH_NONE\<rparr>)\<rparr>"
  have fr: "freeRels ?b = []" using assms(1) by (simp add: pg_wf_def)
  obtain b2 b3 where b: "?i < relCap ?b" "in_range (rels ?b) ?i" "linkRelToNode b1 ?i from True = Inr b2"
    "(if from \<noteq> to then linkRelToNode b2 ?i to False else Inr b2) = Inr b3" "i = ?i" "p' = p\<lparr>base := b3\<rparr>"
    using assms(2) fr unfolding pg_addRelationship_def addRelationship_def allocRel_def upd_rel_def b1_def
    by (auto simp: bindE_eq_Inr_iff assertE_eq_Inr_iff upd_at_eq_Inr_iff)
  have "same_data b1 b3"
    using linkRelToNode_same_data [OF b(3)] b(4) linkRelToNode_same_data same_data_trans by (fastforce split: if_splits)
  then have s: "b3 = b1\<lparr>nodes := nodes b3, rels := rels b3\<rparr>" "length (nodes b3) = length (nodes b1)" "length (rels b3) = length (rels b1)"
    "\<And>n. in_range (nodes b1) n \<Longrightarrow> n_payload (at (nodes b3) n) = n_payload (at (nodes b1) n)"
    "\<And>j. in_range (rels b1) j \<Longrightarrow> rel_core (at (rels b3) j) = rel_core (at (rels b1) j)"
    by (auto simp: same_data_def)
  have m: "nodeMark b3 = nodeMark ?b" "relMark b3 = ?i + 1" "nodeCap b3 = nodeCap ?b" "relCap b3 = relCap ?b"
    "freeNodes b3 = freeNodes ?b" "freeRels b3 = freeRels ?b"
    using arg_cong [OF s(1), of nodeMark] arg_cong [OF s(1), of relMark] arg_cong [OF s(1), of nodeCap]
      arg_cong [OF s(1), of relCap] arg_cong [OF s(1), of freeNodes] arg_cong [OF s(1), of freeRels] by (simp_all add: b1_def)
  have l: "length (nodes b3) = length (nodes ?b)" "length (rels b3) = length (rels ?b)" using s(2,3) by (simp_all add: b1_def)
  show "i = ?i" by fact
  show "pg_wf p'" using assms(1) b(1,6) m l by (simp add: pg_wf_def)
  show "relMark (base p') = ?i + 1" "nodeMark (base p') = nodeMark ?b" "propData p' = propData p" "propMark p' = propMark p" "props p' = props p"
    using b(6) m by simp_all
  have core: "rel_core (at (rels b3) ?i) = (from, to, to_i32 ty, GRAPH_NONE)"
    using s(5) [of ?i] b(2) by (simp add: b1_def rel_core_def)
  then show "firstNodeId (at (rels (base p')) i) = from" "secondNodeId (at (rels (base p')) i) = to"
    "typeId (at (rels (base p')) i) = to_i32 ty" using b(5,6) by (simp_all add: rel_core_def)
  show pay: "n_payload (at (nodes (base p')) k) = n_payload (at (nodes ?b) k)" if "in_range (nodes ?b) k" for k
    using s(4) [of k] that b(6) by (simp add: b1_def)
  have "rel_core (at (rels b3) j) = rel_core (at (rels ?b) j)" if "0 \<le> j" "j < ?i" for j
    using s(5) [of j] that assms(1) by (auto simp: b1_def pg_wf_def in_range_def)
  then show "pg_ext p p'"
    using assms(1) b(6) m l pay by (auto simp: pg_ext_def pg_wf_def in_range_def rel_core_def)
qed

section \<open>Values\<close>

lemma get_at_prefix: "get_at xs i = Inr x \<Longrightarrow> get_at (xs @ ys) i = Inr x"
  by (auto simp: get_at_eq_Inr_iff in_range_def at_def nth_append)

lemma literal_bytes_ext:
  assumes "pd_ext pd pd'" and "literal_bytes pd v dt = Inr b"
  shows "literal_bytes pd' v dt = Inr b"
proof -
  obtain xs ys zs where e: "lst_i64 pd' = lst_i64 pd @ xs" "lst_ui64 pd' = lst_ui64 pd @ ys" "lst_double pd' = lst_double pd @ zs"
    "\<And>k i b. blob_bytes pd k i = Inr b \<Longrightarrow> blob_bytes pd' k i = Inr b"
    using assms(1) by (auto simp: pd_ext_def)
  have g: "get_i64 pd i = Inr x \<Longrightarrow> get_i64 pd' i = Inr x" "get_ui64 pd i = Inr x \<Longrightarrow> get_ui64 pd' i = Inr x"
    "get_double pd i = Inr x \<Longrightarrow> get_double pd' i = Inr x" for i x
    unfolding get_i64_def get_ui64_def get_double_def e(1-3) by (auto intro: get_at_prefix)
  show ?thesis
  proof (cases "isInlined dt")
    case False
    show ?thesis
    proof (cases "kindOf dt")
      case (Some k)
      with False assms(2) g show ?thesis by (cases k) (auto simp: literal_bytes_def Let_def bindE_eq_Inr_iff)
    qed (use False assms(2) e(4) in \<open>simp add: literal_bytes_def Let_def\<close>)
  qed (use assms(2) in \<open>simp add: literal_bytes_def Let_def\<close>)
qed

lemma add_blob_lists:
  assumes "add_blob pd k n = Inr (r, pd1)"
  shows "lst_i64 pd1 = lst_i64 pd" and "lst_ui64 pd1 = lst_ui64 pd" and "lst_double pd1 = lst_double pd"
  using assms by (auto simp: add_blob_def Let_def bindE_eq_Inr_iff split: if_splits)

lemma write_blob_lists:
  assumes "write_blob pd k ptr bs = Inr pd1"
  shows "lst_i64 pd1 = lst_i64 pd" and "lst_ui64 pd1 = lst_ui64 pd" and "lst_double pd1 = lst_double pd"
  using assms by (auto simp: write_blob_def bindE_eq_Inr_iff)

lemma bt_alloc_index:
  assumes "bt_alloc t n = Inr ((ptr, i), t1)"
  shows "0 \<le> i" and "i \<le> 2147483647"
proof -
  obtain k where "i = int k" and "int k \<le> 2147483647"
    using assms unfolding bt_alloc_def Let_def bindE_eq_Inr_iff assertE_eq_Inr_iff by blast
  then show "0 \<le> i" "i \<le> 2147483647" by simp_all
qed

lemma add_blob_index:
  assumes "add_blob pd k n = Inr ((ptr, i), pd1)"
  shows "is_i32 i"
proof -
  obtain t t1 where "bt_alloc t n = Inr ((ptr, i), t1)"
    using assms by (auto simp: add_blob_def Let_def bindE_eq_Inr_iff split: if_splits)
  from bt_alloc_index [OF this] show ?thesis by (simp add: is_i32_def)
qed

text \<open>How a stored value is found again through the index kept in the property record.\<close>

definition value_at :: "prop_data \<Rightarrow> int \<Rightarrow> byte list \<Rightarrow> stored \<Rightarrow> bool" where
  "value_at pd v data sv = (case sv of
       SInline bits \<Rightarrow> v = bits
     | SI64 x \<Rightarrow> get_i64 pd (to_i32 v) = Inr x
     | SU64 x \<Rightarrow> get_ui64 pd (to_i32 v) = Inr x
     | SDouble x \<Rightarrow> get_double pd (to_i32 v) = Inr x
     | SBlob \<Rightarrow> blob_bytes pd blob_kind (to_i32 v) = Inr data)"

lemma get_at_last: "int (length xs) < 2 ^ 31 \<Longrightarrow> get_at (xs @ [x]) (to_i32 (int (length xs))) = Inr x"
proof -
  assume "int (length xs) < 2 ^ 31"
  then have "to_i32 (int (length xs)) = int (length xs)" by (intro to_i32_id) (simp add: is_i32_def)
  then show ?thesis by (simp add: get_at_def in_range_def at_def)
qed

lemma store_value_effect:
  assumes "pg_wf p" and "store_value p data sv = Inr (v, p')"
  shows "p' = p\<lparr>propData := propData p'\<rparr>" and "pd_ext (propData p) (propData p')" and "tables_ok (propData p')"
    and "int (length (lst_i64 (propData p'))) \<le> propMark p + 1" and "int (length (lst_ui64 (propData p'))) \<le> propMark p + 1"
    and "int (length (lst_double (propData p'))) \<le> propMark p + 1" and "value_at (propData p') v data sv"
proof -
  let ?pd = "propData p"
  have wf: "tables_ok ?pd" "int (length (lst_i64 ?pd)) \<le> propMark p" "int (length (lst_ui64 ?pd)) \<le> propMark p"
    "int (length (lst_double ?pd)) \<le> propMark p" "propMark p < 2 ^ 31" using assms(1) by (auto simp: pg_wf_def)
  have "p' = p\<lparr>propData := propData p'\<rparr> \<and> pd_ext ?pd (propData p') \<and> tables_ok (propData p')
    \<and> int (length (lst_i64 (propData p'))) \<le> propMark p + 1 \<and> int (length (lst_ui64 (propData p'))) \<le> propMark p + 1
    \<and> int (length (lst_double (propData p'))) \<le> propMark p + 1 \<and> value_at (propData p') v data sv"
  proof (cases sv)
    case SBlob
    then obtain ptr i pd1 pd2 where a: "add_blob ?pd blob_kind (length data) = Inr ((ptr, i), pd1)"
      and w: "write_blob pd1 blob_kind ptr data = Inr pd2" and r: "v = to_u32 i" "p' = p\<lparr>propData := pd2\<rparr>"
      using assms(2) by (auto simp: store_value_def bindE_eq_Inr_iff)
    have s: "tables_ok pd2" "blob_bytes pd2 blob_kind i = Inr data" "\<And>k i b. blob_bytes ?pd k i = Inr b \<Longrightarrow> blob_bytes pd2 k i = Inr b"
      using store_blob [OF wf(1) a] w by auto
    show ?thesis
      using s r wf add_blob_lists [OF a] write_blob_lists [OF w] add_blob_index [OF a]
      by (simp add: pd_ext_def value_at_def SBlob)
  qed (use assms(2) wf in \<open>auto simp: store_value_def add_i64_def add_ui64_def add_double_def Let_def pd_ext_def tables_ok_def
        value_at_def get_i64_def get_ui64_def get_double_def get_at_last blob_bytes_def blob_at_def\<close>)
  then show "p' = p\<lparr>propData := propData p'\<rparr>" "pd_ext (propData p) (propData p')" "tables_ok (propData p')"
    "int (length (lst_i64 (propData p'))) \<le> propMark p + 1" "int (length (lst_ui64 (propData p'))) \<le> propMark p + 1"
    "int (length (lst_double (propData p'))) \<le> propMark p + 1" "value_at (propData p') v data sv" by blast+
qed

lemma literal_bytes_stored:
  assumes "literal_data l = Inr (data, sv)" and "value_at pd v data sv"
  shows "literal_bytes pd v (lit_datatype l) = Inr data"
  using assms
  by (auto simp: literal_data_def literal_bytes_def value_at_def Let_def bindE_eq_Inr_iff
      split: if_splits option.splits fixed_kind.splits any_value.splits)

section \<open>The invariant of an RDF graph\<close>

abbreviation ids :: "rdf_graph \<Rightarrow> node_id list" where
  "ids g \<equiv> id_to_node (rg_nodes g)"

definition lit_ok :: "(int \<Rightarrow> node_type) \<Rightarrow> rdf_graph \<Rightarrow> int \<Rightarrow> literal_key \<Rightarrow> bool" where
  "lit_ok decode g i k \<longleftrightarrow> literalKeyFor decode g i = Inr k \<and> in_range (ids g) (snd k)
     \<and> nid_type (at (ids g) (snd k)) = NtIRI"

definition rdf_inv :: "(int \<Rightarrow> node_type) \<Rightarrow> rdf_graph \<Rightarrow> bool" where
  "rdf_inv decode g \<longleftrightarrow> dict_ok (rg_nodes g) \<and> pg_wf (pg g) \<and> nodeMark (base (pg g)) = dict_size (rg_nodes g)
     \<and> (\<forall>i. in_range (ids g) i \<and> nid_type (at (ids g) i) = NtLiteral \<longrightarrow>
          (\<exists>k. lit_ok decode g i k \<and> rg_literals g k = Some i))
     \<and> (\<forall>k i. rg_literals g k = Some i \<longrightarrow> in_range (ids g) i \<and> nid_type (at (ids g) i) = NtLiteral \<and> lit_ok decode g i k)"

lemma rdf_invD:
  assumes "rdf_inv decode g"
  shows "dict_ok (rg_nodes g)" and "pg_wf (pg g)" and "nodeMark (base (pg g)) = dict_size (rg_nodes g)"
    and "\<And>i. in_range (ids g) i \<Longrightarrow> nid_type (at (ids g) i) = NtLiteral \<Longrightarrow> \<exists>k. lit_ok decode g i k \<and> rg_literals g k = Some i"
    and "\<And>k i. rg_literals g k = Some i \<Longrightarrow> in_range (ids g) i \<and> nid_type (at (ids g) i) = NtLiteral \<and> lit_ok decode g i k"
  using assms by (auto simp: rdf_inv_def)

lemma rdf_inv_bound: "rdf_inv decode g \<Longrightarrow> dict_size (rg_nodes g) < 2 ^ 31"
  using rdf_invD(2,3) [of decode g] by (auto simp: pg_wf_def)

lemma literal_prop_ext:
  assumes "pg_ext (pg g) (pg g')" and "pg_wf (pg g)" and "literal_prop g i = Inr r"
  shows "literal_prop g' i = Inr r"
proof -
  obtain n where n: "node (base (pg g)) i = Inr n" "n_payload n \<ge> 0" "prop_at (pg g) (n_payload n) = Inr r"
    using assms(3) by (auto simp: literal_prop_def bindE_eq_Inr_iff assertE_eq_Inr_iff)
  have i: "0 \<le> i" "i < nodeMark (base (pg g))" "n = at (nodes (base (pg g))) i" "in_range (nodes (base (pg g))) i"
    using n(1) by (auto simp: node_def res_iff)
  have j: "n_payload n < propMark (pg g)" "r = at (props (pg g)) (n_payload n)" "in_range (props (pg g)) (n_payload n)"
    using n(3) by (auto simp: prop_at_def res_iff)
  have e: "nodeMark (base (pg g)) \<le> nodeMark (base (pg g'))" "in_range (nodes (base (pg g'))) i"
    "n_payload (at (nodes (base (pg g'))) i) = n_payload n" "propMark (pg g) \<le> propMark (pg g')"
    "in_range (props (pg g')) (n_payload n)" "at (props (pg g')) (n_payload n) = r"
    using assms(1) i j n(2) by (simp_all add: pg_ext_def in_range_def)
  then show ?thesis using i(1,2) j(1) n(2) by (simp add: literal_prop_def node_def prop_at_def)
qed

lemma getIri_in: "in_range (ids g) i \<Longrightarrow> getIri decode g i = Inr (nid_iri (at (ids g) i))"
  by (simp add: getIri_def dict_get_in)

lemma literalKeyFor_iff:
  "lit_ok decode g i (b, dt) \<longleftrightarrow> (\<exists>r. literal_prop g i = Inr r \<and> dt = to_i32 (p_key r) \<and> in_range (ids g) dt
     \<and> nid_type (at (ids g) dt) = NtIRI \<and> literal_bytes (propData (pg g)) (p_value r) (nid_iri (at (ids g) dt)) = Inr b)"
  by (auto simp: lit_ok_def literalKeyFor_def Let_def bindE_eq_Inr_iff getIri_in)

lemma at_ids_ext: "rdf_ext g g' \<Longrightarrow> in_range (ids g) i \<Longrightarrow> in_range (ids g') i \<and> at (ids g') i = at (ids g) i"
  by (auto simp: rdf_ext_def at_append_left in_range_def)

lemma lit_ok_ext:
  assumes "rdf_ext g g'" and "pg_wf (pg g)" and "lit_ok decode g i k"
  shows "lit_ok decode g' i k"
proof (cases k)
  case (Pair b dt)
  have "pd_ext (propData (pg g)) (propData (pg g'))" "pg_ext (pg g) (pg g')"
    using assms(1) by (auto simp: rdf_ext_def pg_ext_def)
  with assms literal_bytes_ext literal_prop_ext at_ids_ext [OF assms(1)] show ?thesis
    unfolding Pair literalKeyFor_iff by metis
qed

text \<open>Growing a graph by nodes whose literal, if any, is entered in the table keeps the invariant.\<close>

lemma rdf_inv_grow:
  assumes "rdf_inv decode g" and "rdf_ext g g'" and "dict_ok (rg_nodes g')" and "pg_wf (pg g')"
    and "nodeMark (base (pg g')) = dict_size (rg_nodes g')" and "rg_literals g' = rg_literals g"
    and "\<And>i. in_range (ids g') i \<Longrightarrow> \<not> in_range (ids g) i \<Longrightarrow> nid_type (at (ids g') i) \<noteq> NtLiteral"
  shows "rdf_inv decode g'"
proof -
  note inv = rdf_invD [OF assms(1)]
  note e = at_ids_ext [OF assms(2)] and l = lit_ok_ext [OF assms(2) inv(2)]
  have "\<exists>k. lit_ok decode g' i k \<and> rg_literals g' k = Some i"
    if "in_range (ids g') i" "nid_type (at (ids g') i) = NtLiteral" for i
    using that assms(6,7) e inv(4) l by metis
  moreover have "in_range (ids g') i \<and> nid_type (at (ids g') i) = NtLiteral \<and> lit_ok decode g' i k"
    if "rg_literals g' k = Some i" for k i
    using that assms(6) e inv(5) l by metis
  ultimately show ?thesis using assms(3-5) by (simp add: rdf_inv_def)
qed

lemma ensureNode_effect:
  assumes "rdf_inv decode g" and "dict_ok d" and "id_to_node d = ids g @ ms" and "length ms \<le> 1"
    and "ensureNode (g\<lparr>rg_nodes := d\<rparr>) = Inr g'"
  shows "g' = set_pg (g\<lparr>rg_nodes := d\<rparr>) (pg g')" and "rdf_ext g g'" and "pg_wf (pg g')"
    and "nodeMark (base (pg g')) = dict_size d" and "propData (pg g') = propData (pg g)" and "propMark (pg g') = propMark (pg g)"
    and "ms \<noteq> [] \<Longrightarrow> n_payload (at (nodes (base (pg g'))) (dict_size (rg_nodes g))) = GRAPH_NONE"
proof -
  note inv = rdf_invD [OF assms(1)]
  have "g' = set_pg (g\<lparr>rg_nodes := d\<rparr>) (pg g') \<and> rdf_ext g g' \<and> pg_wf (pg g') \<and> nodeMark (base (pg g')) = dict_size d
    \<and> propData (pg g') = propData (pg g) \<and> propMark (pg g') = propMark (pg g)
    \<and> (ms \<noteq> [] \<longrightarrow> n_payload (at (nodes (base (pg g'))) (dict_size (rg_nodes g))) = GRAPH_NONE)"
  proof (cases "ms = []")
    case True
    then have "g' = g\<lparr>rg_nodes := d\<rparr>" using assms(3,5) inv(3) by (simp add: ensureNode_def dict_size_def)
    then show ?thesis using True assms(3) inv by (simp add: rdf_ext_def set_pg_def dict_size_def)
  next
    case False
    then have "nodeMark (base (pg g)) < dict_size d" "dict_size d = nodeMark (base (pg g)) + 1"
      using assms(3,4) inv(3) by (auto simp: dict_size_def Suc_le_eq le_Suc_eq length_Suc_conv)
    then obtain i p where p: "pg_addNode (pg g) = Inr (i, p)" "g' = set_pg (g\<lparr>rg_nodes := d\<rparr>) p"
      using assms(5) by (auto simp: ensureNode_def bindE_eq_Inr_iff)
    note a = pg_addNode_effect [OF inv(2) p(1)]
    show ?thesis using a p(2) assms(3) inv(3) \<open>dict_size d = nodeMark (base (pg g)) + 1\<close>
      by (simp add: set_pg_def rdf_ext_def)
  qed
  then show "g' = set_pg (g\<lparr>rg_nodes := d\<rparr>) (pg g')" "rdf_ext g g'" "pg_wf (pg g')" "nodeMark (base (pg g')) = dict_size d"
    "propData (pg g') = propData (pg g)" "propMark (pg g') = propMark (pg g)"
    "ms \<noteq> [] \<Longrightarrow> n_payload (at (nodes (base (pg g'))) (dict_size (rg_nodes g))) = GRAPH_NONE" by blast+
qed

section \<open>Resolving terms\<close>

text \<open>What it means that a number stands for a term.\<close>

definition denotes :: "(int \<Rightarrow> node_type) \<Rightarrow> rdf_graph \<Rightarrow> int \<Rightarrow> node \<Rightarrow> bool" where
  "denotes decode g i n \<longleftrightarrow> in_range (ids g) i \<and> at (ids g) i = node_id n
     \<and> (case n of NodeLiteral l \<Rightarrow> (\<exists>data sv dt. literal_data l = Inr (data, sv) \<and> lit_ok decode g i (data, dt)
           \<and> at (ids g) dt = node_id (NodeIri (lit_datatype l)))
        | NodeVariable _ \<Rightarrow> False
        | _ \<Rightarrow> True)"

lemma denotes_ext:
  assumes "rdf_ext g g'" and "pg_wf (pg g)" and "denotes decode g i n"
  shows "denotes decode g' i n"
proof (cases n)
  case (NodeLiteral l)
  then obtain data sv dt where d: "literal_data l = Inr (data, sv)" "lit_ok decode g i (data, dt)"
    "at (ids g) dt = node_id (NodeIri (lit_datatype l))" using assms(3) by (auto simp: denotes_def)
  have "in_range (ids g) dt" using d(2) by (simp add: lit_ok_def)
  with d lit_ok_ext [OF assms(1,2) d(2)] at_ids_ext [OF assms(1)] assms(3) NodeLiteral show ?thesis
    unfolding denotes_def by auto
qed (use assms at_ids_ext [OF assms(1)] in \<open>auto simp: denotes_def\<close>)

lemma node_id_type_literal: "nid_type (node_id n) = NtLiteral \<longleftrightarrow> (\<exists>l. n = NodeLiteral l) \<or> (\<exists>v. n = NodeVariable v)"
  by (cases n) (auto simp: node_id_def)

definition resolved :: "(int \<Rightarrow> node_type) \<Rightarrow> rdf_graph \<Rightarrow> node \<Rightarrow> int \<Rightarrow> rdf_graph \<Rightarrow> bool" where
  "resolved decode g n i g' \<longleftrightarrow> rdf_inv decode g' \<and> rdf_ext g g' \<and> denotes decode g' i n
     \<and> relMark (base (pg g')) = relMark (base (pg g)) \<and> rg_fuzzy g' = rg_fuzzy g"

lemma resolve_term_ok:
  assumes "rdf_inv decode g" and "resolve_term g n = Inr (i, g')" and "nid_type (node_id n) \<noteq> NtLiteral"
  shows "resolved decode g n i g'" and "rg_literals g' = rg_literals g"
    and "rg_nodes g' = snd (get_or_insert (rg_nodes g) n)" and "first_at (ids g') (node_id n) = Some i"
proof -
  obtain d where d: "get_or_insert (rg_nodes g) n = (i, d)" and e: "ensureNode (g\<lparr>rg_nodes := d\<rparr>) = Inr g'"
    using assms(2) by (auto simp: resolve_term_def bindE_eq_Inr_iff split: prod.splits)
  note inv = rdf_invD [OF assms(1)] and b = rdf_inv_bound [OF assms(1)]
  note k = get_or_insert_ok [OF inv(1) d b]
  let ?ms = "if node_id n \<in> set (ids g) then [] else [node_id n]"
  have "length ?ms \<le> 1" by simp
  note ef = ensureNode_effect [OF assms(1) k(1,3) this e]
  have g': "rg_nodes g' = d" "rg_literals g' = rg_literals g" "rg_fuzzy g' = rg_fuzzy g"
    using arg_cong [OF ef(1), of rg_nodes] arg_cong [OF ef(1), of rg_literals] arg_cong [OF ef(1), of rg_fuzzy]
    by (simp_all add: set_pg_def)
  have rm: "relMark (base (pg g')) = relMark (base (pg g))"
    using e inv(2) pg_addNode_rel by (auto simp: ensureNode_def set_pg_def bindE_eq_Inr_iff split: if_splits)
  have "nid_type (at (ids g') j) \<noteq> NtLiteral" if "in_range (ids g') j" "\<not> in_range (ids g) j" for j
  proof -
    have "node_id n \<notin> set (ids g)" "j = int (length (ids g))"
      using that g'(1) k(3) by (auto simp: in_range_def split: if_splits)
    then show ?thesis using assms(3) g'(1) k(3) by (simp add: at_def)
  qed
  then have iv: "rdf_inv decode g'"
    using ef(2-4) g' k(1) by (intro rdf_inv_grow [OF assms(1)]) auto
  have f: "first_at (ids g') (node_id n) = Some i" using k(2) g'(1) by simp
  then have "denotes decode g' i n"
    using first_at_Some [OF f] assms(3) by (cases n) (auto simp: denotes_def node_id_type_literal)
  with iv ef(2) rm g'(3) show "resolved decode g n i g'" by (simp add: resolved_def)
  show "rg_literals g' = rg_literals g" "rg_nodes g' = snd (get_or_insert (rg_nodes g) n)" "first_at (ids g') (node_id n) = Some i"
    using g' d f by simp_all
qed

text \<open>Storing a literal on the node that was just created for it.\<close>

lemma literal_stored:
  assumes wf: "pg_wf p1" and sv: "store_value p1 data sv = Inr (v, p2)" and a: "addNodeProperty p2 i key ty v = Inr (j, p3)"
    and i: "nodeMark (base p1) = i + 1" and pay: "n_payload (at (nodes (base p1)) i) = GRAPH_NONE"
  shows "pg_wf p3" and "nodeMark (base p3) = i + 1" and "relMark (base p3) = relMark (base p1)"
    and "pg_ext p0 p1 \<Longrightarrow> nodeMark (base p0) = i \<Longrightarrow> pg_ext p0 p3"
    and "0 \<le> i" and "i < nodeMark (base p3)" and "in_range (nodes (base p3)) i" and "n_payload (at (nodes (base p3)) i) = propMark p1"
    and "propMark p3 = propMark p1 + 1" and "in_range (props p3) (propMark p1)"
    and "p_key (at (props p3) (propMark p1)) = key" and "p_value (at (props p3) (propMark p1)) = v"
    and "value_at (propData p3) v data sv" and "p_type (at (props p3) (propMark p1)) = ty"
proof -
  note s = store_value_effect [OF wf sv]
  define pd where "pd = propData p2"
  have p2: "p2 = p1\<lparr>propData := pd\<rparr>" using s(1) by (simp add: pd_def)
  have c: "freeProps p2 = []" "0 \<le> propMark p2" "n_payload (at (nodes (base p2)) i) = GRAPH_NONE"
    using wf pay by (simp_all add: p2 pg_wf_def)
  note e = addNodeProperty_effect [OF c(1,2) a c(3)]
  have ir: "in_range (nodes (base p1)) i" using e(2) i wf by (auto simp: pg_wf_def in_range_def)
  define ps where "ps = props p3"
  have p3: "p3 = p1\<lparr>propData := pd, propMark := propMark p1 + 1, props := ps,
      base := (base p1)\<lparr>nodes := set_at (nodes (base p1)) i ((at (nodes (base p1)) i)\<lparr>n_payload := propMark p1\<rparr>)\<rparr>\<rparr>"
    using e(5) unfolding ps_def [symmetric] by (simp add: p2)
  have ps: "length ps = length (props p1)" "\<And>k. 0 \<le> k \<Longrightarrow> k < propMark p1 \<Longrightarrow> at ps k = at (props p1) k"
    "propMark p1 < propCap p1" using e(4,6,7) by (simp_all add: ps_def p2)
  show "pg_wf p3" using wf s(3-6) ps(1,3) by (simp add: pg_wf_def p3 pd_def)
  show "nodeMark (base p3) = i + 1" "relMark (base p3) = relMark (base p1)" "0 \<le> i" "i < nodeMark (base p3)"
    "in_range (nodes (base p3)) i" "n_payload (at (nodes (base p3)) i) = propMark p1" "propMark p3 = propMark p1 + 1"
    using i e(2) ir by (simp_all add: p3)
  show "in_range (props p3) (propMark p1)" using ps(1,3) wf by (simp add: p3 pg_wf_def in_range_def)
  show "p_key (at (props p3) (propMark p1)) = key" "p_value (at (props p3) (propMark p1)) = v"
    "p_type (at (props p3) (propMark p1)) = ty" using e(8-10) by (simp_all add: p2)
  show "value_at (propData p3) v data sv" using s(7) by (simp add: p3 pd_def)
  assume x: "pg_ext p0 p1" "nodeMark (base p0) = i"
  have "pg_ext p0 p1 \<Longrightarrow> nodeMark (base p0) = i \<Longrightarrow> pd_ext (propData p0) pd"
    using s(2) pd_ext_trans by (auto simp: pg_ext_def pd_def)
  with x ps(1,2) i show "pg_ext p0 p3" unfolding p3 pg_ext_def by auto
qed

lemma literal_added:
  assumes inv: "rdf_inv decode g" and ld: "literal_data l = Inr (data, sv)"
    and dt: "in_range (ids g) dt" "at (ids g) dt = node_id (NodeIri (lit_datatype l))"
    and none: "rg_literals g (data, dt) = None"
    and d: "dict_insert (rg_nodes g) (NodeLiteral l) = (i, d)" and e: "ensureNode (g\<lparr>rg_nodes := d\<rparr>) = Inr g2"
    and s: "store_value (pg g2) data sv = Inr (v, p3)" and a: "addNodeProperty p3 i (to_u32 dt) xt v = Inr (j, p4)"
    and g': "g' = addLiteralNode (set_pg g2 p4) (data, dt) i"
  shows "rdf_inv decode g'" and "rdf_ext g g'" and "denotes decode g' i (NodeLiteral l)"
    and "relMark (base (pg g')) = relMark (base (pg g))" and "rg_fuzzy g' = rg_fuzzy g"
    and "rg_literals g' (data, dt) = Some i" and "ids g' = ids g @ [node_id (NodeLiteral l)]"
    and "\<exists>r. literal_prop g' i = Inr r \<and> p_key r = to_u32 dt \<and> p_type r = xt \<and> p_value r = v \<and> value_at (propData (pg g')) v data sv"
proof -
  note iv = rdf_invD [OF inv]
  note di = dict_insert_ok [OF iv(1) d rdf_inv_bound [OF inv]]
  note ef = ensureNode_effect [OF inv di(1,3) _ e, simplified]
  have i: "nodeMark (base (pg g2)) = i + 1" using ef(4) di by (simp add: dict_size_def)
  note st = literal_stored [OF ef(3) s a i]
  have pay: "n_payload (at (nodes (base (pg g2))) i) = GRAPH_NONE" using ef(7) di(2) by simp
  note st = st [OF pay]
  have f: "rg_nodes g' = d" "pg g' = p4" "rg_fuzzy g' = rg_fuzzy g" "rg_literals g' = (rg_literals g)((data, dt) \<mapsto> i)"
    using arg_cong [OF ef(1), of rg_nodes] arg_cong [OF ef(1), of rg_fuzzy] arg_cong [OF ef(1), of rg_literals] none
    by (simp_all add: g' addLiteralNode_def set_pg_def map_insert_def)
  show "rg_fuzzy g' = rg_fuzzy g" "rg_literals g' (data, dt) = Some i" "ids g' = ids g @ [node_id (NodeLiteral l)]"
    using f di(3) by simp_all
  have p0: "pg_ext (pg g) (pg g2)" "nodeMark (base (pg g)) = i" using ef(2) iv(3) di(2) by (simp_all add: rdf_ext_def)
  show ext: "rdf_ext g g'" using st(4) [OF p0] f di(3) by (simp add: rdf_ext_def)
  have "relMark (base (pg g2)) = relMark (base (pg g))"
    using e pg_addNode_rel by (auto simp: ensureNode_def set_pg_def bindE_eq_Inr_iff split: if_splits)
  then show "relMark (base (pg g')) = relMark (base (pg g))" using st(3) f by simp
  have i32: "is_i32 dt" using dt(1) rdf_inv_bound [OF inv] by (simp add: in_range_def is_i32_def dict_size_def)
  have lp: "literal_prop g' i = Inr (at (props p4) (propMark (pg g2)))"
    using st(5-10) f(2) ef(3) by (simp add: literal_prop_def node_def prop_at_def pg_wf_def)
  then show "\<exists>r. literal_prop g' i = Inr r \<and> p_key r = to_u32 dt \<and> p_type r = xt \<and> p_value r = v \<and> value_at (propData (pg g')) v data sv"
    using st(11-14) f(2) by simp
  note lp
  moreover have "in_range (ids g') dt" "at (ids g') dt = node_id (NodeIri (lit_datatype l))" using at_ids_ext [OF ext dt(1)] dt(2) by simp_all
  ultimately have lit: "lit_ok decode g' i (data, dt)"
    using i32 st(11-13) literal_bytes_stored [OF ld, of "propData p4" v] f(2) unfolding literalKeyFor_iff by (simp add: node_id_def)
  have at_i: "in_range (ids g') i" "at (ids g') i = node_id (NodeLiteral l)"
    using di(2,3) f(1) by (simp_all add: dict_size_def in_range_def at_def)
  then show "denotes decode g' i (NodeLiteral l)"
    using lit ld \<open>at (ids g') dt = node_id (NodeIri (lit_datatype l))\<close> by (auto simp: denotes_def)
  have old: "in_range (ids g) k" if "in_range (ids g') k" "k \<noteq> i" for k
    using that di(2,3) f(1) by (auto simp: in_range_def dict_size_def)
  note x = at_ids_ext [OF ext] and y = lit_ok_ext [OF ext iv(2)]
  have "\<exists>k. lit_ok decode g' m k \<and> rg_literals g' k = Some m" if m: "in_range (ids g') m" "nid_type (at (ids g') m) = NtLiteral" for m
  proof (cases "m = i")
    case False
    then obtain k where "lit_ok decode g m k" "rg_literals g k = Some m" using iv(4) [of m] old [OF m(1)] m(2) x by auto
    then show ?thesis using y f(4) none by (intro exI [of _ k]) auto
  qed (use lit f(4) in auto)
  moreover have "in_range (ids g') m \<and> nid_type (at (ids g') m) = NtLiteral \<and> lit_ok decode g' m k"
    if "rg_literals g' k = Some m" for k m
  proof (cases "k = (data, dt)")
    case True
    then show ?thesis using that f(4) lit at_i by (simp add: node_id_def)
  next
    case False
    then show ?thesis using that f(4) iv(5) [of k m] x y by auto
  qed
  moreover have "nodeMark (base (pg g')) = dict_size (rg_nodes g')" using st(2) f di by (simp add: dict_size_def)
  ultimately show "rdf_inv decode g'" using di(1) st(1) f by (simp add: rdf_inv_def)
qed

lemma resolve_literal_ok:
  assumes "rdf_inv decode g" and "resolve_literal g l = Inr (i, g')"
  shows "resolved decode g (NodeLiteral l) i g'"
    and "\<exists>data sv dt. literal_data l = Inr (data, sv) \<and> rg_literals g' (data, dt) = Some i
      \<and> first_at (ids g') (node_id (NodeIri (lit_datatype l))) = Some dt"
proof -
  obtain data sv dt g1 where ld: "literal_data l = Inr (data, sv)" and r: "resolve_iri g (lit_datatype l) = Inr (dt, g1)"
    and rest: "(case rg_literals g1 (data, dt) of Some i \<Rightarrow> Inr (i, g1) | None \<Rightarrow>
         let (i, d) = dict_insert (rg_nodes g1) (NodeLiteral l) in
         bindE (ensureNode (g1\<lparr>rg_nodes := d\<rparr>)) (\<lambda>g.
         bindE (store_value (pg g) data sv) (\<lambda>(value, p).
         bindE (addNodeProperty p i (to_u32 dt) (to_u32 (to_int32 (from_iri (Some (lit_datatype l))))) value) (\<lambda>(_, p).
         Inr (i, addLiteralNode (set_pg g p) (data, dt) i))))) = Inr (i, g')"
    using assms(2) by (auto simp: resolve_literal_def bindE_eq_Inr_iff)
  have ty: "nid_type (node_id (NodeIri (lit_datatype l))) \<noteq> NtLiteral" by (simp add: node_id_def)
  note t = resolve_term_ok [OF assms(1) r [unfolded resolve_iri_def] ty]
  have inv1: "rdf_inv decode g1" and ext1: "rdf_ext g g1" and den: "denotes decode g1 dt (NodeIri (lit_datatype l))"
    and rm1: "relMark (base (pg g1)) = relMark (base (pg g))" "rg_fuzzy g1 = rg_fuzzy g"
    using t(1) by (auto simp: resolved_def)
  note i1 = rdf_invD [OF inv1]
  have dt: "in_range (ids g1) dt" "at (ids g1) dt = node_id (NodeIri (lit_datatype l))" using den by (auto simp: denotes_def)
  have "resolved decode g (NodeLiteral l) i g' \<and> rg_literals g' (data, dt) = Some i
    \<and> first_at (ids g') (node_id (NodeIri (lit_datatype l))) = Some dt"
  proof (cases "rg_literals g1 (data, dt)")
    case (Some j)
    then have g': "j = i" "g' = g1" using rest by simp_all
    have k: "in_range (ids g1) i" "nid_type (at (ids g1) i) = NtLiteral" "lit_ok decode g1 i (data, dt)"
      using i1(5) [OF Some] g' by simp_all
    have "nid_ok (at (ids g1) i)" using i1(1) k(1) by (auto simp: dict_ok_def list_all_iff in_range_def at_def)
    then have "at (ids g1) i = node_id (NodeLiteral l)" using k(2) by (cases "at (ids g1) i") (simp add: nid_ok_def node_id_def)
    then have "denotes decode g1 i (NodeLiteral l)" using k ld dt by (auto simp: denotes_def)
    with t(1,4) Some g' show ?thesis by (simp add: resolved_def)
  next
    case None
    obtain d g2 v p3 j p4 where d: "dict_insert (rg_nodes g1) (NodeLiteral l) = (i, d)"
      and e: "ensureNode (g1\<lparr>rg_nodes := d\<rparr>) = Inr g2" and s: "store_value (pg g2) data sv = Inr (v, p3)"
      and a: "addNodeProperty p3 i (to_u32 dt) (to_u32 (to_int32 (from_iri (Some (lit_datatype l))))) v = Inr (j, p4)"
      and g': "g' = addLiteralNode (set_pg g2 p4) (data, dt) i"
      using rest None by (auto simp: bindE_eq_Inr_iff split: prod.splits)
    from literal_added [OF inv1 ld dt None d e s a g'] t(4) ext1 rm1 show ?thesis
      by (auto simp: resolved_def intro: rdf_ext_trans first_at_append_Some)
  qed
  with ld show "resolved decode g (NodeLiteral l) i g'"
    "\<exists>data sv dt. literal_data l = Inr (data, sv) \<and> rg_literals g' (data, dt) = Some i
      \<and> first_at (ids g') (node_id (NodeIri (lit_datatype l))) = Some dt" by blast+
qed

end
