(* ===== verification/Rdf_Triples.thy ===== *)
theory Rdf_Triples
  imports Rdf_Refine
begin

text \<open>
  Adding triples to an RDF graph: the invariant is kept, every triple can be read off the relationship store,
  equal literals share a node, and the literal table is a function of the storage.
\<close>

section \<open>One triple\<close>

lemma resolve_ok:
  assumes "rdf_inv decode g" and "resolve g n = Inr (i, g')" and "\<And>v. n \<noteq> NodeVariable v"
  shows "resolved decode g n i g'"
proof (cases n)
  case (NodeLiteral l)
  then show ?thesis using assms(1,2) resolve_literal_ok(1) by (simp add: resolve_def)
qed (use assms resolve_term_ok(1) in \<open>auto simp: resolve_def node_id_type_literal\<close>)

lemma rdf_inv_rels:
  assumes "rdf_inv decode g" and "pg_ext (pg g) p" and "pg_wf p" and "nodeMark (base p) = nodeMark (base (pg g))"
  shows "rdf_inv decode (set_pg g p)" and "rdf_ext g (set_pg g p)"
proof -
  show e: "rdf_ext g (set_pg g p)" using assms(2) by (simp add: rdf_ext_def set_pg_def)
  show "rdf_inv decode (set_pg g p)"
    using rdf_invD [OF assms(1)] assms(3,4) by (intro rdf_inv_grow [OF assms(1) e]) (auto simp: set_pg_def)
qed

definition triple_at :: "(int \<Rightarrow> node_type) \<Rightarrow> rdf_graph \<Rightarrow> int \<Rightarrow> node \<times> node \<times> node \<Rightarrow> bool" where
  "triple_at decode g i t \<longleftrightarrow> (case t of (s, p, ob) \<Rightarrow>
     0 \<le> i \<and> i < relMark (base (pg g)) \<and> denotes decode g (firstNodeId (at (rels (base (pg g))) i)) s
     \<and> denotes decode g (typeId (at (rels (base (pg g))) i)) p \<and> denotes decode g (secondNodeId (at (rels (base (pg g))) i)) ob)"

lemma triple_at_ext:
  assumes "rdf_ext g g'" and "pg_wf (pg g)" and "triple_at decode g i t"
  shows "triple_at decode g' i t"
  using assms denotes_ext [OF assms(1,2)]
  by (auto simp: triple_at_def rdf_ext_def pg_ext_def)

lemma denotes_i32:
  assumes "rdf_inv decode g" and "denotes decode g i n"
  shows "to_i32 i = i" and "0 \<le> i"
proof -
  have "is_i32 i" using assms(2) rdf_inv_bound [OF assms(1)] by (simp add: denotes_def in_range_def is_i32_def dict_size_def)
  then show "to_i32 i = i" by simp
  show "0 \<le> i" using assms(2) by (simp add: denotes_def in_range_def)
qed

lemma add_resolved_ok:
  assumes "rdf_inv decode g" and "add_resolved g s pred ob = Inr (i, g')"
    and "\<And>v. s \<noteq> NodeVariable v" and "\<And>v. ob \<noteq> NodeVariable v"
  shows "rdf_inv decode g'" and "rdf_ext g g'" and "i = relMark (base (pg g))"
    and "relMark (base (pg g')) = relMark (base (pg g)) + 1" and "triple_at decode g' i (s, NodeIri pred, ob)"
    and "rg_fuzzy g' = rg_fuzzy g"
proof -
  obtain a g1 b g2 ty g3 q where r: "resolve g s = Inr (a, g1)" "resolve g1 ob = Inr (b, g2)"
    "resolve_iri g2 pred = Inr (ty, g3)" "pg_addRelationship (pg g3) a b (to_u32 ty) = Inr (i, q)" "g' = set_pg g3 q"
    using assms(2) by (auto simp: add_resolved_def bindE_eq_Inr_iff)
  have r1: "resolved decode g s a g1" using resolve_ok [OF assms(1) r(1) assms(3)] .
  then have i1: "rdf_inv decode g1" by (simp add: resolved_def)
  have r2: "resolved decode g1 ob b g2" using resolve_ok [OF i1 r(2) assms(4)] .
  then have i2: "rdf_inv decode g2" by (simp add: resolved_def)
  have r3: "resolved decode g2 (NodeIri pred) ty g3"
    using resolve_term_ok(1) [OF i2 r(3) [unfolded resolve_iri_def]] by (simp add: node_id_type_literal)
  have inv3: "rdf_inv decode g3" and e: "rdf_ext g g1" "rdf_ext g1 g2" "rdf_ext g2 g3"
    and rm: "relMark (base (pg g3)) = relMark (base (pg g))" "rg_fuzzy g3 = rg_fuzzy g"
    using r1 r2 r3 by (simp_all add: resolved_def)
  have wf: "pg_wf (pg g1)" "pg_wf (pg g2)" "pg_wf (pg g3)" using r1 r2 r3 rdf_invD(2) by (auto simp: resolved_def)
  have d: "denotes decode g3 a s" "denotes decode g3 b ob" "denotes decode g3 ty (NodeIri pred)"
    using r1 r2 r3 denotes_ext [OF e(2) wf(1)] denotes_ext [OF e(3) wf(2)] by (simp_all add: resolved_def)
  note a = pg_addRelationship_effect [OF wf(3) r(4)]
  note s = rdf_inv_rels [OF inv3 a(3,2,8)]
  show "rdf_inv decode g'" using s(1) r(5) by simp
  show "rdf_ext g g'" using e s(2) r(5) rdf_ext_trans by metis
  show "i = relMark (base (pg g))" using a(1) rm by simp
  show "relMark (base (pg g')) = relMark (base (pg g)) + 1" using a(4) rm r(5) by (simp add: set_pg_def)
  have pg: "pg g' = q" "rg_fuzzy g' = rg_fuzzy g3" using r(5) by (simp_all add: set_pg_def)
  show "rg_fuzzy g' = rg_fuzzy g" using pg(2) rm(2) by simp
  have "0 \<le> relMark (base (pg g3))" using wf(3) by (simp add: pg_wf_def)
  then show "triple_at decode g' i (s, NodeIri pred, ob)"
    using d [THEN denotes_ext [OF s(2) wf(3)]] a(1,4-7) pg denotes_i32 [OF inv3 d(3)] r(5)
    by (simp add: triple_at_def)
qed

lemma setTruth_ok:
  assumes "rdf_inv decode g" and "setTruth g i degree = Inr g'"
  shows "rdf_inv decode g'" and "rdf_ext g g'" and "relMark (base (pg g')) = relMark (base (pg g))" and "rg_fuzzy g' = rg_fuzzy g"
    and "r_payload (at (rels (base (pg g'))) i) = to_i32 degree"
proof -
  obtain p where p: "pg_upd_rel (pg g) i (\<lambda>r. r\<lparr>r_payload := to_i32 degree\<rparr>) = Inr p" "g' = set_pg g p"
    using assms(2) by (auto simp: setTruth_def bindE_eq_Inr_iff)
  note u = pg_upd_rel_effect [OF p(1)]
  have "pg_ext (pg g) p" using u rdf_invD(2) [OF assms(1)] by (auto simp: pg_ext_def pg_wf_def at_set_at in_range_def)
  moreover have "pg_wf p" "nodeMark (base p) = nodeMark (base (pg g))" using u rdf_invD(2) [OF assms(1)] by (auto simp: pg_wf_def)
  ultimately show "rdf_inv decode g'" "rdf_ext g g'" using rdf_inv_rels [OF assms(1)] p(2) by simp_all
  show "relMark (base (pg g')) = relMark (base (pg g))" "rg_fuzzy g' = rg_fuzzy g" "r_payload (at (rels (base (pg g'))) i) = to_i32 degree"
    using u p(2) by (auto simp: set_pg_def)
qed

lemma addTriple_ok:
  assumes "rdf_inv decode g" and "addTriple g s p ob truth = Inr g'"
  shows "rdf_inv decode g'" and "rdf_ext g g'" and "relMark (base (pg g')) = relMark (base (pg g)) + 1"
    and "triple_at decode g' (relMark (base (pg g))) (s, p, ob)" and "rg_fuzzy g' = rg_fuzzy g"
    and "r_payload (at (rels (base (pg g'))) (relMark (base (pg g)))) = to_i32 (if rg_fuzzy g then truth else float_one)"
proof -
  obtain pred i g1 where p: "p = NodeIri pred" and a: "add_resolved g s pred ob = Inr (i, g1)"
    and t: "setTruth g1 i (if rg_fuzzy g1 then truth else float_one) = Inr g'"
    and v: "\<And>v. s \<noteq> NodeVariable v" "\<And>v. ob \<noteq> NodeVariable v"
    using assms(2) by (auto simp: addTriple_def bindE_eq_Inr_iff split: node.splits)
  note r = add_resolved_ok [OF assms(1) a v]
  note s = setTruth_ok [OF r(1) t]
  show "rdf_inv decode g'" by (rule s(1))
  show "rdf_ext g g'" using rdf_ext_trans [OF r(2) s(2)] .
  show "relMark (base (pg g')) = relMark (base (pg g)) + 1" "rg_fuzzy g' = rg_fuzzy g"
    "r_payload (at (rels (base (pg g'))) (relMark (base (pg g)))) = to_i32 (if rg_fuzzy g then truth else float_one)"
    using r(3,4,6) s(3-5) by simp_all
  show "triple_at decode g' (relMark (base (pg g))) (s, p, ob)"
    using triple_at_ext [OF s(2) rdf_invD(2) [OF r(1)] r(5)] r(3) p by simp
qed

section \<open>Many triples\<close>

primrec addTriples :: "rdf_graph \<Rightarrow> ((node \<times> node \<times> node) \<times> int) list \<Rightarrow> rdf_graph res" where
  "addTriples g [] = Inr g"
| "addTriples g (t # ts) = (case t of ((s, p, ob), d) \<Rightarrow> bindE (addTriple g s p ob d) (\<lambda>g. addTriples g ts))"

lemma addTriples_ok:
  assumes "rdf_inv decode g" and "addTriples g ts = Inr g'"
  shows "rdf_inv decode g' \<and> rdf_ext g g' \<and> relMark (base (pg g')) = relMark (base (pg g)) + int (length ts)
    \<and> (\<forall>k < length ts. triple_at decode g' (relMark (base (pg g)) + int k) (fst (ts ! k)))"
  using assms
proof (induction ts arbitrary: g)
  case (Cons t ts)
  obtain s p ob d where t: "t = ((s, p, ob), d)" by (metis prod.exhaust)
  obtain g1 where g1: "addTriple g s p ob d = Inr g1" "addTriples g1 ts = Inr g'"
    using Cons.prems(2) by (auto simp: t bindE_eq_Inr_iff)
  note a = addTriple_ok [OF Cons.prems(1) g1(1)]
  have ih: "rdf_inv decode g'" "rdf_ext g1 g'" "relMark (base (pg g')) = relMark (base (pg g1)) + int (length ts)"
    "\<And>k. k < length ts \<Longrightarrow> triple_at decode g' (relMark (base (pg g1)) + int k) (fst (ts ! k))"
    using Cons.IH [OF a(1) g1(2)] by auto
  have "triple_at decode g' (relMark (base (pg g)) + int k) (fst ((t # ts) ! k))" if "k < length (t # ts)" for k
  proof (cases k)
    case 0
    then show ?thesis using triple_at_ext [OF ih(2) rdf_invD(2) [OF a(1)] a(4)] t by simp
  next
    case (Suc j)
    then show ?thesis using ih(4) [of j] that a(3) by (simp add: algebra_simps)
  qed
  then show ?case using ih(1,3) rdf_ext_trans [OF a(2) ih(2)] a(3) by simp
qed simp

lemma addTriples_fuzzy: "addTriples g ts = Inr g' \<Longrightarrow> rdf_inv decode g \<Longrightarrow> rg_fuzzy g' = rg_fuzzy g"
proof (induction ts arbitrary: g)
  case (Cons t ts)
  obtain s p ob d where t: "t = ((s, p, ob), d)" by (metis prod.exhaust)
  obtain g1 where g1: "addTriple g s p ob d = Inr g1" "addTriples g1 ts = Inr g'"
    using Cons.prems(1) by (auto simp: t bindE_eq_Inr_iff)
  show ?case using Cons.IH [OF g1(2)] addTriple_ok(1,5) [OF Cons.prems(2) g1(1)] by simp
qed simp

lemma rdf_create_inv:
  assumes "rdf_create name iri src nc rc pc = Inr g" and "is_i32 nc" and "is_i32 rc" and "is_i32 pc"
  shows "rdf_inv decode g" and "relMark (base (pg g)) = 0" and "rg_fuzzy g = False"
proof -
  have "0 \<le> nc" "0 \<le> rc" "0 \<le> pc"
    and g: "g = mk_rdfGraph (if iri = [] then GENGODB_NS @ name else iri) (rg_store g) name src"
    and p: "pg g = \<lparr>base = \<lparr>nodes = replicate (nat nc) (zero_node 0), rels = replicate (nat rc) (zero_rel 0),
        nodeMark = 0, relMark = 0, nodeCap = nc, relCap = rc, freeNodes = [], freeRels = []\<rparr>,
      props = replicate (nat pc) zero_prop, propMark = 0, propCap = pc, freeProps = [], pg_nodeCap = nc, pg_relCap = rc,
      propData = setBlobCapacity mk_propData (max (1024 * 1024) (nat pc * 256)), persists = False\<rparr>"
    using assms(1) by (auto simp: rdf_create_def mk_graphFile_def mk_pgraph_def mk_graph_def mk_rdfGraph_def bindE_eq_Inr_iff split: if_splits)
  then have "pg_wf (pg g)" using assms(2-4)
    by (simp add: pg_wf_def is_i32_def tables_ok_def setBlobCapacity_def mk_propData_def)
  moreover have "rg_nodes g = empty_dict" "rg_literals g = Map.empty" by (subst g, simp add: mk_rdfGraph_def)+
  ultimately show "rdf_inv decode g" using p by (simp add: rdf_inv_def dict_size_def empty_dict_def in_range_def dict_ok_empty [unfolded empty_dict_def])
  show "relMark (base (pg g)) = 0" using p by simp
  show "rg_fuzzy g = False" by (subst g) (simp add: mk_rdfGraph_def)
qed

lemma rdf_inv_setFuzzy: "rdf_inv decode (setFuzzy g b) = rdf_inv decode g"
  by (simp add: setFuzzy_def rdf_inv_def lit_ok_def literalKeyFor_def literal_prop_def getIri_def)

text \<open>Releasing a chain releases its first record.\<close>

lemma freeChain_frees_more:
  assumes "freeChain g p = Some (Inr h)"
  shows "set (freeProps g) \<subseteq> set (freeProps h)"
proof -
  have "\<forall>h. r = Inr h \<longrightarrow> set (freeProps g) \<subseteq> set (freeProps h)" if "freeChain g p = Some r" for r
    by (rule freeChain.raw_induct [where P = "\<lambda>g p r. \<forall>h. r = Inr h \<longrightarrow> set (freeProps g) \<subseteq> set (freeProps h)", OF _ that])
       (fastforce split: if_splits sum.splits)
  with assms show ?thesis by blast
qed

lemma freeChain_releases:
  assumes "in_range (props g) p" and "freeChain g p = Some (Inr h)"
  shows "p \<in> set (freeProps h)"
proof -
  have "p \<noteq> GRAPH_NONE" using assms(1) by (simp add: in_range_def)
  then have "freeChain (g\<lparr>props := set_at (props g) p ((at (props g) p)\<lparr>p_inUse := False\<rparr>), freeProps := freeProps g @ [p]\<rparr>)
      (nextPropId (at (props g) p)) = Some (Inr h)"
    using assms by (subst (asm) freeChain.simps) (simp add: get_at_def)
  from freeChain_frees_more [OF this] show ?thesis by simp
qed

section \<open>The literal table\<close>

lemma lit_ok_functional: "lit_ok decode g i k \<Longrightarrow> lit_ok decode g i k' \<Longrightarrow> k = k'"
  by (simp add: lit_ok_def)

lemma literals_ext:
  assumes "rdf_inv decode g" and "rdf_inv decode g'" and "rdf_ext g g'" and "rg_literals g k = Some i"
  shows "rg_literals g' k = Some i"
proof -
  have g: "in_range (ids g) i" "nid_type (at (ids g) i) = NtLiteral" "lit_ok decode g i k"
    using rdf_invD(5) [OF assms(1,4)] by simp_all
  then have "in_range (ids g') i" "nid_type (at (ids g') i) = NtLiteral" using at_ids_ext [OF assms(3)] by simp_all
  then obtain k' where "lit_ok decode g' i k'" "rg_literals g' k' = Some i" using rdf_invD(4) [OF assms(2)] by blast
  then show ?thesis using lit_ok_ext [OF assms(3) rdf_invD(2) [OF assms(1)] g(3)] lit_ok_functional by metis
qed

lemma ensureNode_done: "rdf_inv decode g \<Longrightarrow> ensureNode g = Inr g"
  using rdf_invD(3) by (simp add: ensureNode_def)

lemma resolve_iri_again:
  assumes "rdf_inv decode g" and "first_at (ids g) (node_id (NodeIri iri)) = Some i"
  shows "resolve_iri g iri = Inr (i, g)"
proof -
  have "node_to_id (rg_nodes g) (node_id (NodeIri iri)) = Some i"
    using assms rdf_invD(1) [OF assms(1)] by (simp add: dict_ok_def)
  then show ?thesis using ensureNode_done [OF assms(1)] by (simp add: resolve_iri_def resolve_term_def get_or_insert_def)
qed

lemma resolve_literal_again:
  assumes "rdf_inv decode g" and "literal_data l = Inr (data, sv)" and "rg_literals g (data, dt) = Some i"
    and "first_at (ids g) (node_id (NodeIri (lit_datatype l))) = Some dt"
  shows "resolve_literal g l = Inr (i, g)"
  using resolve_iri_again [OF assms(1,4)] assms(2,3) by (simp add: resolve_literal_def)

lemma denotes_same_literal:
  assumes "denotes decode g i (NodeLiteral l)" and "denotes decode g i (NodeLiteral l')"
    and "literal_data l = Inr (b, sv)" and "literal_data l' = Inr (b', sv')"
  shows "lit_datatype l = lit_datatype l' \<and> b = b'"
proof -
  obtain dt dt' where "lit_ok decode g i (b, dt)" "at (ids g) dt = node_id (NodeIri (lit_datatype l))"
    "lit_ok decode g i (b', dt')" "at (ids g) dt' = node_id (NodeIri (lit_datatype l'))"
    using assms by (auto simp: denotes_def)
  then show ?thesis using lit_ok_functional by (fastforce simp: node_id_def)
qed

lemma literal_nodes_identify:
  assumes "rdf_inv decode g" and "resolve_literal g l = Inr (i, g1)" and "addTriples g1 us = Inr g2"
    and "resolve_literal g2 l' = Inr (j, g3)" and "literal_data l = Inr (b, sv)" and "literal_data l' = Inr (b', sv')"
  shows "(i = j) = (lit_datatype l = lit_datatype l' \<and> b = b')"
proof
  note r1 = resolve_literal_ok [OF assms(1,2)]
  have i1: "rdf_inv decode g1" "denotes decode g1 i (NodeLiteral l)" using r1(1) by (simp_all add: resolved_def)
  have i2: "rdf_inv decode g2" "rdf_ext g1 g2" using addTriples_ok [OF i1(1) assms(3)] by simp_all
  note r3 = resolve_literal_ok [OF i2(1) assms(4)]
  have i3: "rdf_inv decode g3" "rdf_ext g2 g3" "denotes decode g3 j (NodeLiteral l')" using r3(1) by (simp_all add: resolved_def)
  note wf = rdf_invD(2) [OF i1(1)] rdf_invD(2) [OF i2(1)]
  have "denotes decode g3 i (NodeLiteral l)"
    using denotes_ext [OF i3(2) wf(2) denotes_ext [OF i2(2) wf(1) i1(2)]] .
  then show "lit_datatype l = lit_datatype l' \<and> b = b'" if "i = j"
    using denotes_same_literal [OF _ i3(3)] assms(5,6) that by blast
  assume same: "lit_datatype l = lit_datatype l' \<and> b = b'"
  obtain dt where dt: "rg_literals g1 (b, dt) = Some i" "first_at (ids g1) (node_id (NodeIri (lit_datatype l))) = Some dt"
    using r1(2) assms(5) by auto
  have "first_at (ids g2) (node_id (NodeIri (lit_datatype l'))) = Some dt"
    using dt(2) same i2(2) first_at_append_Some by (auto simp: rdf_ext_def)
  then have "resolve_literal g2 l' = Inr (i, g2)"
    using literals_ext [OF i1(1) i2 dt(1)] same assms(6) by (intro resolve_literal_again [OF i2(1)]) auto
  then show "i = j" using assms(4) by simp
qed

text \<open>The part of the table that belongs to the nodes below a number.\<close>

definition part :: "rdf_graph \<Rightarrow> int \<Rightarrow> (literal_key \<rightharpoonup> int)" where
  "part g m = (\<lambda>k. case rg_literals g k of Some i \<Rightarrow> if i < m then Some i else None | None \<Rightarrow> None)"

lemma literals_irrelevant [simp]:
  "literalKeyFor decode (g\<lparr>rg_literals := x\<rparr>) i = literalKeyFor decode g i"
  by (simp add: literalKeyFor_def literal_prop_def getIri_def)

lemma literal_payload: "lit_ok decode g i k \<Longrightarrow> \<exists>e. node (base (pg g)) i = Inr e \<and> \<not> n_payload e < 0"
  by (auto simp: lit_ok_def literalKeyFor_def literal_prop_def bindE_eq_Inr_iff assertE_eq_Inr_iff)

lemma part_Suc:
  assumes "rdf_inv decode g" and "in_range (ids g) m"
  shows "nid_type (at (ids g) m) \<noteq> NtLiteral \<Longrightarrow> part g (m + 1) = part g m"
    and "lit_ok decode g m k \<Longrightarrow> rg_literals g k = Some m \<Longrightarrow> map_insert (part g m) (k, m) = part g (m + 1)"
proof -
  have u: "nid_type (at (ids g) m) = NtLiteral \<and> lit_ok decode g m k" if "rg_literals g k = Some m" for k
    using rdf_invD(5) [OF assms(1) that] by simp
  show "part g (m + 1) = part g m" if "nid_type (at (ids g) m) \<noteq> NtLiteral"
  proof
    fix k show "part g (m + 1) k = part g m k"
      using u [of k] that by (cases "rg_literals g k") (auto simp: part_def)
  qed
  assume k: "lit_ok decode g m k" "rg_literals g k = Some m"
  show "map_insert (part g m) (k, m) = part g (m + 1)"
  proof
    fix k' show "map_insert (part g m) (k, m) k' = part g (m + 1) k'"
      using u [of k'] k lit_ok_functional [OF k(1), of k'] by (cases "rg_literals g k'") (auto simp: part_def map_insert_def)
  qed
qed

lemma rebuild_part:
  assumes "rdf_inv decode g"
  shows "0 \<le> m \<Longrightarrow> m \<le> dict_size (rg_nodes g) \<Longrightarrow>
    rebuild decode (g\<lparr>rg_literals := part g m\<rparr>) [m..dict_size (rg_nodes g) - 1] = Inr (g\<lparr>rg_literals := part g (dict_size (rg_nodes g))\<rparr>)"
proof (induction "nat (dict_size (rg_nodes g) - m)" arbitrary: m)
  case 0
  then show ?case by simp
next
  case (Suc x)
  then have m: "in_range (ids g) m" "[m..dict_size (rg_nodes g) - 1] = m # [m + 1..dict_size (rg_nodes g) - 1]"
    by (auto simp: in_range_def dict_size_def upto.simps [of m])
  have ih: "rebuild decode (g\<lparr>rg_literals := part g (m + 1)\<rparr>) [m + 1..dict_size (rg_nodes g) - 1]
      = Inr (g\<lparr>rg_literals := part g (dict_size (rg_nodes g))\<rparr>)"
    using Suc by (intro Suc.hyps(1)) auto
  show ?case
  proof (cases "nid_type (at (ids g) m) = NtLiteral")
    case False
    then show ?thesis using ih part_Suc(1) [OF assms m(1)] m by (simp add: dict_get_in)
  next
    case True
    then obtain k where k: "lit_ok decode g m k" "rg_literals g k = Some m" using rdf_invD(4) [OF assms m(1)] by blast
    obtain e where "node (base (pg g)) m = Inr e" "\<not> n_payload e < 0" using literal_payload [OF k(1)] by blast
    then show ?thesis
      using ih part_Suc(2) [OF assms m(1) k] True m k by (simp add: dict_get_in addLiteralNode_def lit_ok_def)
  qed
qed

lemma rebuild_ok:
  assumes "rdf_inv decode g"
  shows "rebuildLiteralNodeCache decode (g\<lparr>rg_literals := Map.empty\<rparr>) = Inr g"
proof -
  note inv5 = rdf_invD(5) [OF assms]
  have "part g 0 = Map.empty"
  proof
    fix k show "part g 0 k = Map.empty k"
      using inv5 [of k] by (cases "rg_literals g k") (auto simp: part_def in_range_def)
  qed
  moreover have "part g (dict_size (rg_nodes g)) = rg_literals g"
  proof
    fix k show "part g (dict_size (rg_nodes g)) k = rg_literals g k"
      using inv5 [of k] by (cases "rg_literals g k") (auto simp: part_def in_range_def dict_size_def)
  qed
  moreover have "to_i32 (dict_size (rg_nodes g)) = dict_size (rg_nodes g)"
    using rdf_inv_bound [OF assms] by (intro to_i32_id) (simp add: is_i32_def dict_size_def)
  ultimately show ?thesis
    using rebuild_part [OF assms, of 0] by (simp add: rebuildLiteralNodeCache_def dict_size_def)
qed

section \<open>Properties\<close>

text \<open>A small graph for the witnesses, with any property data.\<close>

definition sample_store :: "prop_data \<Rightarrow> (int, int) graph \<Rightarrow> graph_file" where
  "sample_store pd h = \<lparr>storage = \<lparr>base = h, props = replicate 3 zero_prop, propMark = 0, propCap = 3, freeProps = [],
     pg_nodeCap = 6, pg_relCap = 3, propData = pd, persists = False\<rparr>, fileName = ''g'', dbDir = [], loaded = False\<rparr>"

definition sample_rdf :: "prop_data \<Rightarrow> (int, int) graph \<Rightarrow> rdf_graph" where
  "sample_rdf pd h = mk_rdfGraph ''u'' (sample_store pd h) ''g'' []"

definition sample_literal :: literal where
  "sample_literal = \<lparr>lit_datatype = XSD @ ''int'', lit_value = AnyI32 (- 5), lit_lang = [], lit_lex = ''-5''\<rparr>"

definition sample_triples :: "((node \<times> node \<times> node) \<times> int) list" where
  "sample_triples = [((NodeIri ''a'', NodeIri ''p'', NodeLiteral sample_literal), float_one),
     ((NodeBlank ''b'', NodeIri ''p'', NodeIri ''a''), float_one), ((NodeBlank ''b'', NodeIri ''p'', NodeLiteral sample_literal), float_one)]"

lemma sample_create:
  obtains h where "mk_graph 6 3 0 0 = Inr h" and "rdf_create ''g'' ''u'' [] 6 3 3 = Inr (sample_rdf (setBlobCapacity mk_propData 1048576) h)"
  by (simp add: rdf_create_def mk_graphFile_def mk_pgraph_def mk_graph_def sample_rdf_def sample_store_def)

text \<open>
  C7. Every triple added to a new RDF graph is stored: after any sequence of \<open>addTriple\<close> that succeeds there is one
  relationship per triple, in the order of the calls, whose end points and type are the numbers of the
  triple's subject, object and predicate, and the literal at its end has the bytes and the datatype of the object.
\<close>

theorem triples_are_stored:
  assumes "rdf_create name iri src nc rc pc = Inr g0" and "is_i32 nc" and "is_i32 rc" and "is_i32 pc"
    and "addTriples g0 ts = Inr g"
  shows "relMark (base (pg g)) = int (length ts) \<and> (\<forall>k < length ts. triple_at decode g (int k) (fst (ts ! k)))"
  using addTriples_ok [OF rdf_create_inv(1) [OF assms(1-4)] assms(5), of decode] rdf_create_inv(2) [OF assms(1-4)] by simp

lemma sample_triples_run:
  "okE (\<lambda>h. okE (\<lambda>g. relMark (base (pg g)) = 3) (addTriples (sample_rdf pd h) sample_triples)) (mk_graph 6 3 0 0)"
  by code_simp

theorem triples_are_stored_witness:
  "\<exists>g0 g. rdf_create ''g'' ''u'' [] 6 3 3 = Inr g0 \<and> addTriples g0 sample_triples = Inr g
    \<and> triple_at sample_decode g 2 (NodeBlank ''b'', NodeIri ''p'', NodeLiteral sample_literal)"
proof -
  obtain h where h: "mk_graph 6 3 0 0 = Inr h" "rdf_create ''g'' ''u'' [] 6 3 3 = Inr (sample_rdf (setBlobCapacity mk_propData 1048576) h)"
    using sample_create .
  obtain g where g: "addTriples (sample_rdf (setBlobCapacity mk_propData 1048576) h) sample_triples = Inr g"
    using sample_triples_run [of "setBlobCapacity mk_propData 1048576"] h(1) by (auto simp: okE_iff simp del: addTriples.simps)
  have "\<forall>k < length sample_triples. triple_at sample_decode g (int k) (fst (sample_triples ! k))"
    using triples_are_stored [OF h(2) _ _ _ g] by (simp add: is_i32_def)
  then have "triple_at sample_decode g 2 (NodeBlank ''b'', NodeIri ''p'', NodeLiteral sample_literal)"
    by (auto simp: sample_triples_def dest!: spec [of _ 2])
  with h g show ?thesis by blast
qed

text \<open>
  C10. Literals are told apart by datatype and bytes, and by nothing else: of two literals that are resolved at any
  two moments while triples are being added to a graph, both get the same node exactly when they have the same datatype and the same
  packed bytes.
\<close>

theorem equal_literals_share_a_node:
  assumes "rdf_create name iri src nc rc pc = Inr g0" and "is_i32 nc" and "is_i32 rc" and "is_i32 pc"
    and "addTriples g0 ts = Inr g" and "resolve_literal g l = Inr (i, g1)" and "addTriples g1 us = Inr g2"
    and "resolve_literal g2 l' = Inr (j, g3)" and "literal_data l = Inr (b, sv)" and "literal_data l' = Inr (b', sv')"
  shows "(i = j) = (lit_datatype l = lit_datatype l' \<and> b = b')"
proof -
  have "rdf_inv sample_decode g" using addTriples_ok [OF rdf_create_inv(1) [OF assms(1-4)] assms(5)] by blast
  from literal_nodes_identify [OF this assms(6-10)] show ?thesis .
qed

lemma sample_literal_run:
  "okE (\<lambda>h. okE (\<lambda>(i, g1). okE (\<lambda>(j, g3). i = j) (resolve_literal g1 sample_literal))
     (resolve_literal (sample_rdf pd h) sample_literal)) (mk_graph 6 3 0 0)"
  by code_simp

lemma sample_literal_data: "literal_data sample_literal = Inr (u32_bytes 4294967291, SInline 4294967291)"
  by code_simp

theorem equal_literals_share_a_node_witness:
  "\<exists>g0 i g1 g3. rdf_create ''g'' ''u'' [] 6 3 3 = Inr g0 \<and> resolve_literal g0 sample_literal = Inr (i, g1)
    \<and> resolve_literal g1 sample_literal = Inr (i, g3)"
proof -
  obtain h where h: "mk_graph 6 3 0 0 = Inr h" "rdf_create ''g'' ''u'' [] 6 3 3 = Inr (sample_rdf (setBlobCapacity mk_propData 1048576) h)"
    using sample_create .
  obtain i g1 j g3 where r: "resolve_literal (sample_rdf (setBlobCapacity mk_propData 1048576) h) sample_literal = Inr (i, g1)"
    "resolve_literal g1 sample_literal = Inr (j, g3)"
    using sample_literal_run [of "setBlobCapacity mk_propData 1048576"] h(1) by (auto simp: okE_iff)
  have "i = j" using equal_literals_share_a_node [OF h(2) _ _ _ _ r(1) _ r(2) sample_literal_data sample_literal_data, of "[]" "[]"]
    by (simp add: is_i32_def)
  with h(2) r show ?thesis by blast
qed

text \<open>
  C15. The literal table is not stored but can always be rebuilt: \<open>rebuildLiteralNodeCache\<close>, run on the dictionary and the
  storage of a graph built by adding triples, does not fail and restores exactly the table that was in use.
\<close>

theorem literal_table_rebuilt:
  assumes "rdf_create name iri src nc rc pc = Inr g0" and "is_i32 nc" and "is_i32 rc" and "is_i32 pc"
    and "addTriples g0 ts = Inr g"
  shows "rebuildLiteralNodeCache decode (g\<lparr>rg_literals := Map.empty\<rparr>) = Inr g"
  using addTriples_ok [OF rdf_create_inv(1) [OF assms(1-4)] assms(5), of decode] rebuild_ok by blast

theorem literal_table_rebuilt_witness:
  "\<exists>g0 g. rdf_create ''g'' ''u'' [] 6 3 3 = Inr g0 \<and> addTriples g0 sample_triples = Inr g
    \<and> rebuildLiteralNodeCache sample_decode (g\<lparr>rg_literals := Map.empty\<rparr>) = Inr g"
proof -
  obtain h where h: "mk_graph 6 3 0 0 = Inr h" "rdf_create ''g'' ''u'' [] 6 3 3 = Inr (sample_rdf (setBlobCapacity mk_propData 1048576) h)"
    using sample_create .
  obtain g where g: "addTriples (sample_rdf (setBlobCapacity mk_propData 1048576) h) sample_triples = Inr g"
    using sample_triples_run [of "setBlobCapacity mk_propData 1048576"] h(1) by (auto simp: okE_iff simp del: addTriples.simps)
  show ?thesis using literal_table_rebuilt [OF h(2) _ _ _ g] h(2) g by (auto simp: is_i32_def)
qed

text \<open>
  C28. Truth degrees and property chains share a field.  In a fuzzy graph \<open>addTriple\<close> puts the bits of the degree it is given, and in any
  other graph those of the degree one, where a property graph keeps the head of a relationship's property chain.
  Removing the relationship follows them as the number of a property record: when there is no such record, it accesses the property store out of bounds,
  and when there is one, it releases that record, whoever owns it.
\<close>

theorem degree_heads_property_chain:
  assumes "rdf_create name iri src nc rc pc = Inr g0" and "is_i32 nc" and "is_i32 rc" and "is_i32 pc"
    and "addTriples (setFuzzy g0 fuzzy) ts = Inr g" and "addTriple g s p ob d = Inr g'"
    and "i = relMark (base (pg g))" and "j = to_i32 (if fuzzy then d else float_one)"
  shows "r_payload (at (rels (base (pg g'))) i) = j
    \<and> (int (length (props (pg g'))) \<le> j \<longrightarrow> pg_removeRelationship (pg g') i = Some (Inl OutOfBounds))
    \<and> (0 \<le> j \<and> j < int (length (props (pg g'))) \<longrightarrow>
        (\<forall>q. pg_removeRelationship (pg g') i = Some (Inr q) \<longrightarrow> j \<in> set (freeProps q)))"
proof -
  have f: "rdf_inv sample_decode (setFuzzy g0 fuzzy)" using rdf_inv_setFuzzy rdf_create_inv(1) [OF assms(1-4)] by blast
  have inv: "rdf_inv sample_decode g" and fz: "rg_fuzzy g = fuzzy"
    using addTriples_ok [OF f assms(5)] addTriples_fuzzy [OF assms(5) f] by (simp_all add: setFuzzy_def)
  note a = addTriple_ok [OF inv assms(6)]
  have pay: "r_payload (at (rels (base (pg g'))) i) = j" using a(6) fz assms(7,8) by simp
  have "0 \<le> i" "i < relMark (base (pg g'))" "in_range (rels (base (pg g'))) i"
    using rdf_invD(2) [OF inv] rdf_invD(2) [OF a(1)] a(3) assms(7) by (auto simp: pg_wf_def in_range_def)
  then have r: "rel (base (pg g')) i = Inr (at (rels (base (pg g'))) i)" by (simp add: rel_def)
  show ?thesis
  proof (intro conjI impI allI)
    assume "int (length (props (pg g'))) \<le> j"
    then have "freeChain (pg g') j = Some (Inl OutOfBounds)"
      by (subst freeChain.simps) (auto simp: get_at_def in_range_def)
    then show "pg_removeRelationship (pg g') i = Some (Inl OutOfBounds)" using r pay by (simp add: pg_removeRelationship_def)
  next
    fix q assume "0 \<le> j \<and> j < int (length (props (pg g')))" and q: "pg_removeRelationship (pg g') i = Some (Inr q)"
    then have j: "in_range (props (pg g')) j" by (simp add: in_range_def)
    obtain q1 where "freeChain (pg g') j = Some (Inr q1)" "freeProps q = freeProps q1"
      using q r pay by (auto simp: pg_removeRelationship_def bindOE_eq_Inr_iff)
    then show "j \<in> set (freeProps q)" using freeChain_releases [OF j] by simp
  qed (rule pay)
qed

lemma degree_zero_run:
  "okE (\<lambda>h. okE (\<lambda>g. relMark (base (pg g)) = 1 \<and> length (props (pg g)) = 3 \<and> okOE (\<lambda>q. n_payload (at (nodes (base q)) 2) = 0) (pg_removeRelationship (pg g) 0))
     (addTriple (setFuzzy (sample_rdf pd h) True) (NodeIri ''a'') (NodeIri ''p'') (NodeLiteral sample_literal) 0)) (mk_graph 6 3 0 0)"
  by code_simp

text \<open>With the degree zero, removing the triple releases the record that holds the value of its literal, node 2.\<close>

theorem degree_heads_property_chain_witness:
  "\<exists>g0 g' q. rdf_create ''g'' ''u'' [] 6 3 3 = Inr g0
    \<and> addTriple (setFuzzy g0 True) (NodeIri ''a'') (NodeIri ''p'') (NodeLiteral sample_literal) 0 = Inr g'
    \<and> pg_removeRelationship (pg g') 0 = Some (Inr q) \<and> n_payload (at (nodes (base q)) 2) = 0 \<and> 0 \<in> set (freeProps q)"
proof -
  let ?pd = "setBlobCapacity mk_propData 1048576"
  obtain h where h: "mk_graph 6 3 0 0 = Inr h" "rdf_create ''g'' ''u'' [] 6 3 3 = Inr (sample_rdf ?pd h)"
    using sample_create .
  let ?g = "setFuzzy (sample_rdf ?pd h) True"
  obtain g' q where g: "addTriple ?g (NodeIri ''a'') (NodeIri ''p'') (NodeLiteral sample_literal) 0 = Inr g'"
    "length (props (pg g')) = 3" "pg_removeRelationship (pg g') 0 = Some (Inr q)" "n_payload (at (nodes (base q)) 2) = 0"
    using degree_zero_run [of ?pd] h(1) by (auto simp: okE_iff okOE_iff)
  have "relMark (base (pg ?g)) = 0" using h(1) by (auto simp: setFuzzy_def sample_rdf_def sample_store_def mk_rdfGraph_def mk_graph_def)
  then have "0 \<in> set (freeProps q)"
    using degree_heads_property_chain [where ts = "[]" and fuzzy = True and i = 0 and j = 0, OF h(2) _ _ _ _ g(1)] g(2,3) by (auto simp: is_i32_def to_i32_def)
  with h(2) g show ?thesis by blast
qed

end
