(* ===== verification/Graph_Index.thy ===== *)
theory Graph_Index
  imports Rdf_Triples
begin

text \<open>
  \<open>GraphNodeIndex\<close> (\<open>src/include/gengodb/semantics/Identifiers.h\<close>, \<open>src/src/gengodb/semantics/Identifiers.cpp\<close>): numbers
  shared by the nodes of several RDF graphs.  \<open>build\<close> goes over the graphs in turn; IRIs are numbered by their
  identifier, blank nodes and variables always get a number of their own, and literals are numbered, in a second
  pass, by the shared number of their datatype and their bytes.  Global numbers are unbounded here: \<open>2\<^sup>6\<^sup>3\<close>
  nodes do not fit into memory.
\<close>

section \<open>Numbering\<close>

record global_ids =
  nextGlobalId :: int
  iriToGlobal :: "node_id \<rightharpoonup> int"
  literalToGlobal :: "literal_key \<rightharpoonup> int"

definition no_globals :: global_ids where
  "no_globals = \<lparr>nextGlobalId = 0, iriToGlobal = Map.empty, literalToGlobal = Map.empty\<rparr>"

primrec number_terms ::
  "(int \<Rightarrow> node_type) \<Rightarrow> node_dict \<Rightarrow> global_ids \<Rightarrow> int list \<Rightarrow> int list \<Rightarrow> (global_ids \<times> int list) res" where
  "number_terms decode d s globalIds [] = Inr (s, globalIds)"
| "number_terms decode d s globalIds (i # is) =
     bindE (dict_get decode d i) (\<lambda>nodeId.
     if nid_type nodeId = NtIRI then
       (case iriToGlobal s nodeId of
          None \<Rightarrow>
            let globalId = nextGlobalId s;
                s = s\<lparr>nextGlobalId := globalId + 1, iriToGlobal := map_insert (iriToGlobal s) (nodeId, globalId)\<rparr>
            in bindE (upd_at globalIds i (\<lambda>_. globalId)) (\<lambda>globalIds. number_terms decode d s globalIds is)
        | Some globalId \<Rightarrow> bindE (upd_at globalIds i (\<lambda>_. globalId)) (\<lambda>globalIds. number_terms decode d s globalIds is))
     else if nid_type nodeId = NtBNode \<or> nid_type nodeId = NtVariable then
       bindE (upd_at globalIds i (\<lambda>_. nextGlobalId s)) (\<lambda>globalIds.
       number_terms decode d (s\<lparr>nextGlobalId := nextGlobalId s + 1\<rparr>) globalIds is)
     else number_terms decode d s globalIds is)"

primrec number_literals ::
  "(int \<Rightarrow> node_type) \<Rightarrow> rdf_graph \<Rightarrow> global_ids \<Rightarrow> int list \<Rightarrow> int list \<Rightarrow> (global_ids \<times> int list) res" where
  "number_literals decode g s globalIds [] = Inr (s, globalIds)"
| "number_literals decode g s globalIds (i # is) =
     bindE (dict_get decode (rg_nodes g) i) (\<lambda>nodeId.
     if nid_type nodeId \<noteq> NtLiteral then number_literals decode g s globalIds is
     else bindE (literalKeyFor decode g i) (\<lambda>(data, dataType).
       bindE (get_at globalIds dataType) (\<lambda>datatypeGlobalId.
       case literalToGlobal s (data, datatypeGlobalId) of
         None \<Rightarrow>
           let globalId = nextGlobalId s;
               s = s\<lparr>nextGlobalId := globalId + 1,
                     literalToGlobal := map_insert (literalToGlobal s) ((data, datatypeGlobalId), globalId)\<rparr>
           in bindE (upd_at globalIds i (\<lambda>_. globalId)) (\<lambda>globalIds. number_literals decode g s globalIds is)
       | Some globalId \<Rightarrow> bindE (upd_at globalIds i (\<lambda>_. globalId)) (\<lambda>globalIds. number_literals decode g s globalIds is))))"

definition number_graph :: "(int \<Rightarrow> node_type) \<Rightarrow> rdf_graph \<Rightarrow> global_ids \<Rightarrow> (global_ids \<times> int list) res" where
  "number_graph decode g s = (let is = [0..to_i32 (dict_size (rg_nodes g)) - 1] in
     bindE (number_terms decode (rg_nodes g) s (replicate (nat (dict_size (rg_nodes g))) (- 1)) is) (\<lambda>(s, globalIds).
     number_literals decode g s globalIds is))"

section \<open>The index\<close>

type_synonym graph_index = "string \<rightharpoonup> id_mapping"

definition index_key :: "string \<times> rdf_graph \<Rightarrow> string" where
  "index_key e = (if fst e = [] then rg_iri (snd e) else fst e)"

primrec build_from ::
  "(int \<Rightarrow> node_type) \<Rightarrow> global_ids \<Rightarrow> graph_index \<Rightarrow> (string \<times> rdf_graph) list \<Rightarrow> graph_index res" where
  "build_from decode s index [] = Inr index"
| "build_from decode s index (e # es) =
     bindE (number_graph decode (snd e) s) (\<lambda>(s, globalIds).
     build_from decode s (index(index_key e \<mapsto> mapping_of globalIds)) es)"

definition build :: "(int \<Rightarrow> node_type) \<Rightarrow> (string \<times> rdf_graph) list \<Rightarrow> graph_index res" where
  "build decode rdfGraphs = build_from decode no_globals Map.empty rdfGraphs"

definition getIndex :: "graph_index \<Rightarrow> string \<Rightarrow> id_mapping res" where
  "getIndex index name = (case index name of None \<Rightarrow> Inl OutOfRange | Some m \<Rightarrow> Inr m)"

definition hasIndex :: "graph_index \<Rightarrow> string \<Rightarrow> bool" where
  "hasIndex index name = (index name \<noteq> None)"

text \<open>The entries of the \<open>unordered_map\<close> in the order of iteration are written, and read back into a map.\<close>

definition index_serialize :: "(string \<times> id_mapping option) list \<Rightarrow> byte list" where
  "index_serialize es = writeProperty 1 (ser_map ser_string (ser_ptr mapping_serialize)) es"

definition index_deserialize :: "(string \<rightharpoonup> id_mapping option) reader" where
  "index_deserialize = readProperty 1 (de_map de_string (de_ptr mapping_deserialize))"

lemma codec_mapping: "codec mapping_serialize mapping_deserialize
  (\<lambda>m. \<exists>gs. m = mapping_of gs \<and> list_all is_i64 gs \<and> len64 gs) (\<lambda>m. m)"
proof
  fix m rest assume "\<exists>gs. m = mapping_of gs \<and> list_all is_i64 gs \<and> len64 gs"
  then obtain gs where gs: "m = mapping_of gs" "list_all is_i64 gs \<and> len64 gs" by blast
  show "mapping_deserialize (mapping_serialize m @ rest) = Inr (m, rest)"
    using codec.rd_wr [OF codec_property [OF codec_vec [OF codec_i64]] gs(2)]
    by (simp add: gs(1) mapping_deserialize_def mapping_serialize_def mapping_of_eq)
qed

section \<open>The terms behind the numbers\<close>

text \<open>
  The abstract view: the numbers given out so far are the positions in a list of distinct terms.  A blank node is
  local to the graph with its position in the list of graphs.
\<close>

datatype global_term = GIri node_id | GLocal nat int | GLit node_id "byte list"

definition global_term :: "(int \<Rightarrow> node_type) \<Rightarrow> nat \<Rightarrow> rdf_graph \<Rightarrow> int \<Rightarrow> global_term" where
  "global_term decode k g i = (let n = at (ids g) i in
     if nid_type n = NtIRI then GIri n
     else if nid_type n = NtLiteral then
       (case literalKeyFor decode g i of Inr (data, dt) \<Rightarrow> GLit (at (ids g) dt) data | Inl _ \<Rightarrow> GLocal k i)
     else GLocal k i)"

definition numbers :: "global_term list \<Rightarrow> int \<Rightarrow> global_term \<Rightarrow> bool" where
  "numbers K j t \<longleftrightarrow> in_range K j \<and> at K j = t"

definition numbering :: "global_term list \<Rightarrow> global_ids \<Rightarrow> bool" where
  "numbering K s \<longleftrightarrow> distinct K \<and> nextGlobalId s = int (length K)
     \<and> (\<forall>n j. iriToGlobal s n = Some j \<longleftrightarrow> numbers K j (GIri n))
     \<and> (\<forall>b d j. literalToGlobal s (b, d) = Some j \<longleftrightarrow> (\<exists>n. numbers K d (GIri n) \<and> numbers K j (GLit n b)))
     \<and> (\<forall>n b. GLit n b \<in> set K \<longrightarrow> GIri n \<in> set K)"

lemma numbers_append: "numbers K j t \<Longrightarrow> numbers (K @ L) j t"
  by (auto simp: numbers_def in_range_def at_append_left)

lemma numbers_new: "numbers (K @ [t]) (int (length K)) t"
  by (simp add: numbers_def in_range_def at_def)

lemma numbers_snoc: "numbers (K @ [u]) j t \<longleftrightarrow> numbers K j t \<or> j = int (length K) \<and> t = u"
  by (auto simp: numbers_def in_range_def at_def nth_append)

lemma numbers_inj: "distinct K \<Longrightarrow> numbers K i t \<Longrightarrow> numbers K j t \<Longrightarrow> i = j"
  by (auto simp: numbers_def in_range_def at_def nth_eq_iff_index_eq)

lemma numbers_functional: "numbers K j t \<Longrightarrow> numbers K j u \<Longrightarrow> t = u"
  by (simp add: numbers_def)

lemma numbers_mem: "numbers K j t \<Longrightarrow> t \<in> set K"
  by (auto simp: numbers_def in_range_def at_def)

lemma mem_numbers: "t \<in> set K \<Longrightarrow> \<exists>j. numbers K j t"
  by (metis at_def in_range_def in_set_conv_nth nat_int numbers_def of_nat_0_le_iff of_nat_less_iff)

lemma numbering_iri:
  assumes "numbering K s" and "iriToGlobal s n = None"
  shows "numbering (K @ [GIri n]) (s\<lparr>nextGlobalId := nextGlobalId s + 1, iriToGlobal := map_insert (iriToGlobal s) (n, nextGlobalId s)\<rparr>)"
proof -
  have iris: "iriToGlobal s n = Some j \<longleftrightarrow> numbers K j (GIri n)" for j using assms(1) by (simp add: numbering_def)
  then have new: "GIri n \<notin> set K" using assms(2) mem_numbers [of "GIri n" K] by auto
  then have "GLit n b \<notin> set K" for b using assms(1) by (auto simp: numbering_def)
  then have "\<not> numbers K j (GLit n b)" for j b using numbers_mem by blast
  moreover have "map_insert (iriToGlobal s) (n, nextGlobalId s) m = Some j \<longleftrightarrow> numbers (K @ [GIri n]) j (GIri m)" for m j
    using assms new by (auto simp: numbering_def map_insert_def numbers_snoc dest: numbers_mem)
  ultimately show ?thesis using assms(1) new by (auto simp: numbering_def numbers_snoc)
qed

lemma numbering_local:
  assumes "numbering K s" and "GLocal k i \<notin> set K"
  shows "numbering (K @ [GLocal k i]) (s\<lparr>nextGlobalId := nextGlobalId s + 1\<rparr>)"
  using assms by (auto simp: numbering_def numbers_snoc)

lemma numbering_literal:
  assumes "numbering K s" and "numbers K d (GIri n)" and "literalToGlobal s (b, d) = None"
  shows "numbering (K @ [GLit n b]) (s\<lparr>nextGlobalId := nextGlobalId s + 1,
    literalToGlobal := map_insert (literalToGlobal s) ((b, d), nextGlobalId s)\<rparr>)"
proof -
  have lits: "literalToGlobal s (c, e) = Some j \<longleftrightarrow> (\<exists>n. numbers K e (GIri n) \<and> numbers K j (GLit n c))" for c e j
    using assms(1) by (simp add: numbering_def)
  have b: "\<not> numbers K j (GLit n b)" for j using lits [of b d j] assms(2,3) by auto
  then have new: "GLit n b \<notin> set K" using mem_numbers [of "GLit n b" K] by blast
  have K: "distinct K" "nextGlobalId s = int (length K)" using assms(1) by (simp_all add: numbering_def)
  have d: "numbers K e (GIri n) \<longleftrightarrow> e = d" for e using numbers_inj [OF K(1) assms(2)] assms(2) by blast
  have n: "numbers K d (GIri m) \<longleftrightarrow> m = n" for m using numbers_functional [OF assms(2), of "GIri m"] assms(2) by auto
  have ins: "map_insert (literalToGlobal s) ((b, d), nextGlobalId s)
      = (\<lambda>k. if k = (b, d) then Some (int (length K)) else literalToGlobal s k)"
    using assms(3) by (auto simp: map_insert_def K(2))
  have "(if (c, e) = (b, d) then Some (int (length K)) else literalToGlobal s (c, e)) = Some j
      \<longleftrightarrow> (\<exists>m. numbers (K @ [GLit n b]) e (GIri m) \<and> numbers (K @ [GLit n b]) j (GLit m c))" for c e j
    by (cases "(c, e) = (b, d)") (auto simp: numbers_snoc lits d n b)
  then show ?thesis unfolding ins using assms(1) new numbers_mem [OF assms(2)] by (simp add: numbering_def numbers_snoc)
qed

text \<open>What a pass over some of the nodes of graph number \<open>k\<close> achieves.\<close>

definition numbered ::
  "(int \<Rightarrow> node_type) \<Rightarrow> global_term list \<Rightarrow> nat \<Rightarrow> rdf_graph \<Rightarrow> int set \<Rightarrow> int list \<Rightarrow> (global_ids \<times> int list) res \<Rightarrow> bool" where
  "numbered decode K k g js gs r \<longleftrightarrow> (\<exists>s' gs' L. r = Inr (s', gs') \<and> numbering (K @ L) s' \<and> length gs' = length gs
     \<and> (\<forall>i \<in> js. numbers (K @ L) (at gs' i) (global_term decode k g i))
     \<and> (\<forall>i. in_range gs i \<longrightarrow> i \<notin> js \<longrightarrow> at gs' i = at gs i)
     \<and> (\<forall>k' i. GLocal k' i \<in> set L \<longrightarrow> k' = k \<and> i \<in> js))"

lemma numbered_empty: "numbering K s \<Longrightarrow> numbered decode K k g {} gs (Inr (s, gs))"
  unfolding numbered_def by (rule exI [of _ s], rule exI [of _ gs], rule exI [of _ "[]"]) simp

lemma numbered_insert:
  assumes "numbers (K @ M) gid (global_term decode k g i)" and "in_range gs i" and "i \<notin> js"
    and "\<And>k' i'. GLocal k' i' \<in> set M \<Longrightarrow> k' = k \<and> i' = i"
    and "numbered decode (K @ M) k g js (set_at gs i gid) r"
  shows "numbered decode K k g (insert i js) gs r"
proof -
  obtain s' gs' L where r: "r = Inr (s', gs')" "numbering ((K @ M) @ L) s'" "length gs' = length gs"
    "\<forall>i \<in> js. numbers ((K @ M) @ L) (at gs' i) (global_term decode k g i)"
    "\<forall>j. in_range gs j \<longrightarrow> j \<notin> js \<longrightarrow> at gs' j = at (set_at gs i gid) j"
    "\<forall>k' i. GLocal k' i \<in> set L \<longrightarrow> k' = k \<and> i \<in> js"
    using assms(5) by (auto simp: numbered_def)
  have "at gs' i = gid" using r(5) assms(2,3) by simp
  then have "numbers (K @ M @ L) (at gs' i) (global_term decode k g i)" using numbers_append [OF assms(1), of L] by simp
  moreover have "at gs' j = at gs j" if "in_range gs j" "j \<notin> insert i js" for j using r(5) that assms(2) by (simp add: at_set_at)
  ultimately show ?thesis
    unfolding numbered_def using r assms(4) by (intro exI [of _ s'] exI [of _ gs'] exI [of _ "M @ L"]) auto
qed

lemma dict_get_ids: "in_range (ids g) i \<Longrightarrow> dict_get decode (rg_nodes g) i = Inr (at (ids g) i)"
  by (simp add: dict_get_in)

lemma number_terms_ok:
  assumes "numbering K s" and "\<forall>i \<in> set is. in_range (ids g) i \<and> GLocal k i \<notin> set K" and "distinct is" and "length gs = length (ids g)"
  shows "numbered decode K k g {i \<in> set is. nid_type (at (ids g) i) \<noteq> NtLiteral} gs (number_terms decode (rg_nodes g) s gs is)"
  using assms
proof (induction "is" arbitrary: K s gs)
  case Nil
  then show ?case by (simp add: numbered_empty)
next
  case (Cons i "is")
  let ?n = "at (ids g) i" and ?js = "{j \<in> set is. nid_type (at (ids g) j) \<noteq> NtLiteral}"
  have i: "in_range (ids g) i" "in_range gs i" "i \<notin> ?js" "GLocal k i \<notin> set K" using Cons.prems by (auto simp: in_range_def)
  note get = dict_get_ids [OF i(1), of decode]
  have rest: "numbered decode (K @ M) k g ?js (set_at gs i gid) (number_terms decode (rg_nodes g) s' (set_at gs i gid) is)"
    if "numbering (K @ M) s'" "\<And>k' i'. GLocal k' i' \<in> set M \<Longrightarrow> k' = k \<and> i' = i" for M s' gid
  proof (rule Cons.IH [OF that(1)])
    show "\<forall>j \<in> set is. in_range (ids g) j \<and> GLocal k j \<notin> set (K @ M)" using Cons.prems(2,3) that(2) [of k] by auto
  qed (use Cons.prems(3,4) in simp_all)
  note step = numbered_insert [OF _ i(2,3)]
  consider (iri) "nid_type ?n = NtIRI" | (own) "nid_type ?n = NtBNode \<or> nid_type ?n = NtVariable" | (lit) "nid_type ?n = NtLiteral"
    by (cases "nid_type ?n") auto
  then show ?case
  proof cases
    case iri
    then have t: "global_term decode k g i = GIri ?n" and js: "{j \<in> set (i # is). nid_type (at (ids g) j) \<noteq> NtLiteral} = insert i ?js"
      by (auto simp: global_term_def)
    show ?thesis
    proof (cases "iriToGlobal s ?n")
      case None
      have "numbers (K @ [GIri ?n]) (nextGlobalId s) (global_term decode k g i)"
        using Cons.prems(1) by (simp add: t numbering_def numbers_new)
      from step [OF this _ rest [OF numbering_iri [OF Cons.prems(1) None]]] show ?thesis
        unfolding js using get iri None i(2) by (simp add: Let_def)
    next
      case (Some gid)
      have "numbers (K @ []) gid (global_term decode k g i)" using Cons.prems(1) Some by (simp add: t numbering_def)
      from step [OF this _ rest [of "[]" s]] Cons.prems(1) show ?thesis
        unfolding js using get iri Some i(2) by simp
    qed
  next
    case own
    then have t: "global_term decode k g i = GLocal k i" and js: "{j \<in> set (i # is). nid_type (at (ids g) j) \<noteq> NtLiteral} = insert i ?js"
      and ne: "nid_type ?n \<noteq> NtIRI" by (auto simp: global_term_def)
    have "numbers (K @ [GLocal k i]) (nextGlobalId s) (global_term decode k g i)"
      using Cons.prems(1) by (simp add: t numbering_def numbers_new)
    note num = this
    have new: "k' = k \<and> i' = i" if "GLocal k' i' \<in> set [GLocal k i]" for k' i' using that by simp
    have "numbered decode K k g (insert i ?js) gs (number_terms decode (rg_nodes g)
        (s\<lparr>nextGlobalId := nextGlobalId s + 1\<rparr>) (set_at gs i (nextGlobalId s)) is)"
      by (rule step [OF num new rest [OF numbering_local [OF Cons.prems(1) i(4)] new]])
    then show ?thesis unfolding js using get own ne i(2) by simp
  next
    case lit
    then have "{j \<in> set (i # is). nid_type (at (ids g) j) \<noteq> NtLiteral} = ?js" by auto
    then show ?thesis using Cons.IH [of K s gs] Cons.prems get lit by simp
  qed
qed

lemma number_literals_ok:
  assumes "rdf_inv decode g" and "numbering K s" and "\<forall>i \<in> set is. in_range (ids g) i" and "distinct is" and "length gs = length (ids g)"
    and "\<forall>j. in_range (ids g) j \<longrightarrow> nid_type (at (ids g) j) = NtIRI \<longrightarrow> numbers K (at gs j) (GIri (at (ids g) j))"
  shows "numbered decode K k g {i \<in> set is. nid_type (at (ids g) i) = NtLiteral} gs (number_literals decode g s gs is)"
  using assms(2-)
proof (induction "is" arbitrary: K s gs)
  case Nil
  then show ?case by (simp add: numbered_empty)
next
  case (Cons i "is")
  let ?n = "at (ids g) i" and ?js = "{j \<in> set is. nid_type (at (ids g) j) = NtLiteral}"
  have i: "in_range (ids g) i" "in_range gs i" "i \<notin> ?js" using Cons.prems by (auto simp: in_range_def)
  note get = dict_get_ids [OF i(1), of decode]
  show ?case
  proof (cases "nid_type ?n = NtLiteral")
    case True
    obtain b dt where "lit_ok decode g i (b, dt)" using rdf_invD(4) [OF assms(1) i(1) True] by (metis surj_pair)
    then have key: "literalKeyFor decode g i = Inr (b, dt)" "in_range (ids g) dt" "nid_type (at (ids g) dt) = NtIRI"
      by (simp_all add: lit_ok_def)
    have dt: "get_at gs dt = Inr (at gs dt)" "numbers K (at gs dt) (GIri (at (ids g) dt))"
      using key(2,3) Cons.prems(4,5) by (simp_all add: in_range_def)
    have t: "global_term decode k g i = GLit (at (ids g) dt) b" and js: "{j \<in> set (i # is). nid_type (at (ids g) j) = NtLiteral} = insert i ?js"
      using True key(1) by (auto simp: global_term_def)
    have rest: "numbered decode (K @ M) k g ?js (set_at gs i gid) (number_literals decode g s' (set_at gs i gid) is)"
      if "numbering (K @ M) s'" for M s' gid
    proof (rule Cons.IH [OF that])
      show "\<forall>j. in_range (ids g) j \<longrightarrow> nid_type (at (ids g) j) = NtIRI \<longrightarrow> numbers (K @ M) (at (set_at gs i gid) j) (GIri (at (ids g) j))"
        using Cons.prems(4,5) True i(2) by (auto simp: at_set_at in_range_def numbers_append)
    qed (use Cons.prems(2-4) in simp_all)
    note step = numbered_insert [OF _ i(2,3)]
    show ?thesis
    proof (cases "literalToGlobal s (b, at gs dt)")
      case None
      have "numbers (K @ [GLit (at (ids g) dt) b]) (nextGlobalId s) (global_term decode k g i)"
        using Cons.prems(1) by (simp add: t numbering_def numbers_new)
      from step [OF this _ rest [OF numbering_literal [OF Cons.prems(1) dt(2) None]]] show ?thesis
        unfolding js using get True key dt None i(2) by (simp add: Let_def)
    next
      case (Some gid)
      have "\<exists>n. numbers K (at gs dt) (GIri n) \<and> numbers K gid (GLit n b)" using Cons.prems(1) Some by (simp add: numbering_def)
      with numbers_functional [OF dt(2)] have "numbers (K @ []) gid (global_term decode k g i)" by (auto simp: t)
      from step [OF this _ rest [of "[]" s]] Cons.prems(1) show ?thesis
        unfolding js using get True key dt Some i(2) by simp
    qed
  next
    case False
    then have "{j \<in> set (i # is). nid_type (at (ids g) j) = NtLiteral} = ?js" by auto
    then show ?thesis using Cons.IH [of K s gs] Cons.prems get False by simp
  qed
qed

lemma numbered_both:
  assumes "numbered decode K k g js gs (Inr (s, gs1))" and "length gs1 = length gs"
    and "\<And>L. numbering (K @ L) s \<Longrightarrow> \<forall>i \<in> js. numbers (K @ L) (at gs1 i) (global_term decode k g i)
       \<Longrightarrow> numbered decode (K @ L) k g js' gs1 r"
    and "js \<inter> js' = {}" and "\<forall>i \<in> js. in_range gs i"
  shows "numbered decode K k g (js \<union> js') gs r"
proof -
  obtain L where L: "numbering (K @ L) s" "\<forall>i \<in> js. numbers (K @ L) (at gs1 i) (global_term decode k g i)"
    "\<forall>i. in_range gs i \<longrightarrow> i \<notin> js \<longrightarrow> at gs1 i = at gs i" "\<forall>k' i. GLocal k' i \<in> set L \<longrightarrow> k' = k \<and> i \<in> js"
    using assms(1) by (auto simp: numbered_def)
  obtain s' gs' M where M: "r = Inr (s', gs')" "numbering ((K @ L) @ M) s'" "length gs' = length gs1"
    "\<forall>i \<in> js'. numbers ((K @ L) @ M) (at gs' i) (global_term decode k g i)"
    "\<forall>i. in_range gs1 i \<longrightarrow> i \<notin> js' \<longrightarrow> at gs' i = at gs1 i" "\<forall>k' i. GLocal k' i \<in> set M \<longrightarrow> k' = k \<and> i \<in> js'"
    using assms(3) [OF L(1,2)] unfolding numbered_def by blast
  have "numbers (K @ L @ M) (at gs' i) (global_term decode k g i)" if "i \<in> js \<union> js'" for i
    using that L(2) M(4,5) assms(2,4,5) numbers_append [of "K @ L" "at gs1 i" _ M] by (auto simp: in_range_def)
  then show ?thesis unfolding numbered_def
    using L M assms(2) by (intro exI [of _ s'] exI [of _ gs'] exI [of _ "L @ M"]) (auto simp: in_range_def)
qed

lemma number_graph_ok:
  assumes "rdf_inv decode g" and "numbering K s" and "\<And>i. GLocal k i \<notin> set K"
  shows "numbered decode K k g {i. in_range (ids g) i} (replicate (length (ids g)) (- 1)) (number_graph decode g s)"
proof -
  let ?is = "[0..dict_size (rg_nodes g) - 1]" and ?gs = "replicate (length (ids g)) (- 1 :: int)"
  have n: "to_i32 (dict_size (rg_nodes g)) = dict_size (rg_nodes g)" "nat (dict_size (rg_nodes g)) = length (ids g)"
    using rdf_inv_bound [OF assms(1)] by (simp_all add: dict_size_def to_i32_def)
  have rng: "set ?is = {i. in_range (ids g) i}" "distinct ?is" by (auto simp: dict_size_def in_range_def)
  have p1: "numbered decode K k g {i \<in> set ?is. nid_type (at (ids g) i) \<noteq> NtLiteral} ?gs (number_terms decode (rg_nodes g) s ?gs ?is)"
    using assms(3) rng by (intro number_terms_ok [OF assms(2)]) auto
  then obtain s1 gs1 where r: "number_terms decode (rg_nodes g) s ?gs ?is = Inr (s1, gs1)" "length gs1 = length (ids g)"
    by (auto simp: numbered_def)
  have "numbered decode K k g ({i \<in> set ?is. nid_type (at (ids g) i) \<noteq> NtLiteral} \<union> {i \<in> set ?is. nid_type (at (ids g) i) = NtLiteral})
    ?gs (number_literals decode g s1 gs1 ?is)"
  proof (rule numbered_both [OF p1 [unfolded r(1)]])
    fix L assume L: "numbering (K @ L) s1"
      "\<forall>i \<in> {i \<in> set ?is. nid_type (at (ids g) i) \<noteq> NtLiteral}. numbers (K @ L) (at gs1 i) (global_term decode k g i)"
    have "numbers (K @ L) (at gs1 j) (GIri (at (ids g) j))" if "in_range (ids g) j" "nid_type (at (ids g) j) = NtIRI" for j
    proof -
      have "j \<in> {i \<in> set ?is. nid_type (at (ids g) i) \<noteq> NtLiteral}" using that rng(1) by simp
      with L(2) have "numbers (K @ L) (at gs1 j) (global_term decode k g j)" by (rule bspec)
      then show ?thesis using that(2) by (simp add: global_term_def)
    qed
    then show "numbered decode (K @ L) k g {i \<in> set ?is. nid_type (at (ids g) i) = NtLiteral} gs1 (number_literals decode g s1 gs1 ?is)"
      using rng r(2) by (intro number_literals_ok [OF assms(1) L(1)]) simp_all
  qed (use rng r(2) in \<open>auto simp: in_range_def\<close>)
  moreover have "{i \<in> set ?is. nid_type (at (ids g) i) \<noteq> NtLiteral} \<union> {i \<in> set ?is. nid_type (at (ids g) i) = NtLiteral} = {i. in_range (ids g) i}"
    using rng(1) by auto
  ultimately show ?thesis by (simp add: number_graph_def n r(1))
qed

text \<open>A graph takes at most two numbers per node, so the numbers of all graphs together stay small.\<close>

lemma number_terms_count:
  "number_terms decode d s gs is = Inr (s', gs') \<Longrightarrow> nextGlobalId s' \<le> nextGlobalId s + int (length is)"
proof (induction "is" arbitrary: s gs)
  case (Cons i "is")
  have step: "nextGlobalId s' \<le> nextGlobalId s + (1 + int (length is))"
    if "number_terms decode d t gs1 is = Inr (s', gs')" "nextGlobalId t \<le> nextGlobalId s + 1" for t gs1
    using Cons.IH [OF that(1)] that(2) by simp
  show ?case using Cons.prems by (auto simp: bindE_eq_Inr_iff Let_def dest!: step split: if_splits option.splits)
qed simp

lemma number_literals_count:
  "number_literals decode g s gs is = Inr (s', gs') \<Longrightarrow> nextGlobalId s' \<le> nextGlobalId s + int (length is)"
proof (induction "is" arbitrary: s gs)
  case (Cons i "is")
  have step: "nextGlobalId s' \<le> nextGlobalId s + (1 + int (length is))"
    if "number_literals decode g t gs1 is = Inr (s', gs')" "nextGlobalId t \<le> nextGlobalId s + 1" for t gs1
    using Cons.IH [OF that(1)] that(2) by simp
  show ?case using Cons.prems by (auto simp: bindE_eq_Inr_iff Let_def dest!: step split: if_splits option.splits)
qed simp

lemma number_graph_count:
  assumes "rdf_inv decode g" and "number_graph decode g s = Inr (s', gs)"
  shows "nextGlobalId s' \<le> nextGlobalId s + 2 ^ 32"
proof -
  let ?is = "[0..to_i32 (dict_size (rg_nodes g)) - 1]"
  obtain s1 gs1 where r: "number_terms decode (rg_nodes g) s (replicate (nat (dict_size (rg_nodes g))) (- 1)) ?is = Inr (s1, gs1)"
    "number_literals decode g s1 gs1 ?is = Inr (s', gs)"
    using assms(2) by (auto simp: number_graph_def Let_def bindE_eq_Inr_iff)
  have "int (length ?is) \<le> 2 ^ 31" using rdf_inv_bound [OF assms(1)] by (simp add: dict_size_def to_i32_def)
  then show ?thesis using number_terms_count [OF r(1)] number_literals_count [OF r(2)] by simp
qed

definition indexed :: "(int \<Rightarrow> node_type) \<Rightarrow> global_term list \<Rightarrow> nat \<Rightarrow> graph_index \<Rightarrow> string \<times> rdf_graph \<Rightarrow> bool" where
  "indexed decode K k index e \<longleftrightarrow> (\<exists>gs. index (index_key e) = Some (mapping_of gs) \<and> length gs = length (ids (snd e))
     \<and> (\<forall>i. in_range (ids (snd e)) i \<longrightarrow> numbers K (at gs i) (global_term decode k (snd e) i)))"

lemma build_from_ok:
  assumes "numbering K s" and "\<forall>e \<in> set es. rdf_inv decode (snd e)" and "\<forall>k' i. GLocal k' i \<in> set K \<longrightarrow> k' < k"
    and "distinct (map index_key es)"
  shows "\<exists>index' L. build_from decode s index es = Inr index' \<and> distinct (K @ L)
    \<and> (\<forall>m < length es. indexed decode (K @ L) (k + m) index' (es ! m))
    \<and> (\<forall>key. key \<notin> index_key ` set es \<longrightarrow> index' key = index key)
    \<and> int (length (K @ L)) \<le> int (length K) + 2 ^ 32 * int (length es)"
  using assms
proof (induction es arbitrary: K s k index)
  case Nil
  then show ?case by (intro exI [of _ index] exI [of _ "[]"]) (simp add: numbering_def)
next
  case (Cons e es)
  have "\<And>i. GLocal k i \<notin> set K" using Cons.prems(3) by blast
  then have "numbered decode K k (snd e) {i. in_range (ids (snd e)) i} (replicate (length (ids (snd e))) (- 1)) (number_graph decode (snd e) s)"
    using Cons.prems(2) by (intro number_graph_ok [OF _ Cons.prems(1)]) simp_all
  then obtain s' gs L where r: "number_graph decode (snd e) s = Inr (s', gs)" "numbering (K @ L) s'"
      "length gs = length (replicate (length (ids (snd e))) (- 1 :: int))"
      "\<forall>i \<in> {i. in_range (ids (snd e)) i}. numbers (K @ L) (at gs i) (global_term decode k (snd e) i)"
      "\<forall>k' i. GLocal k' i \<in> set L \<longrightarrow> k' = k \<and> i \<in> {i. in_range (ids (snd e)) i}"
    unfolding numbered_def by blast
  have pre: "\<forall>e \<in> set es. rdf_inv decode (snd e)" "distinct (map index_key es)" using Cons.prems(2,4) by simp_all
  have "\<forall>k' i. GLocal k' i \<in> set (K @ L) \<longrightarrow> k' < Suc k" using Cons.prems(3) r(5) by (auto simp: less_Suc_eq)
  from Cons.IH [OF r(2) pre(1) this pre(2), of "index(index_key e \<mapsto> mapping_of gs)"]
  obtain index' M where b: "build_from decode s' (index(index_key e \<mapsto> mapping_of gs)) es = Inr index'" "distinct ((K @ L) @ M)"
    "\<forall>m < length es. indexed decode ((K @ L) @ M) (Suc k + m) index' (es ! m)"
    "\<forall>key. key \<notin> index_key ` set es \<longrightarrow> index' key = (index(index_key e \<mapsto> mapping_of gs)) key"
    "int (length ((K @ L) @ M)) \<le> int (length (K @ L)) + 2 ^ 32 * int (length es)" by blast
  have "nextGlobalId s' \<le> nextGlobalId s + 2 ^ 32" using number_graph_count [OF _ r(1)] Cons.prems(2) by simp
  then have "int (length (K @ L @ M)) \<le> int (length K) + 2 ^ 32 * int (length (e # es))"
    using b(5) r(2) Cons.prems(1) by (simp add: numbering_def)
  moreover
  have "indexed decode (K @ L @ M) k index' e"
    using r(3,4) b(4) Cons.prems(4) numbers_append [of "K @ L" _ _ M] by (auto simp: indexed_def)
  then have "indexed decode (K @ L @ M) (k + m) index' ((e # es) ! m)" if "m < length (e # es)" for m
    using b(3) that by (cases m) auto
  ultimately show ?case using r(1) b(1,2,4) by (intro exI [of _ index'] exI [of _ "L @ M"]) auto
qed

lemma build_ok:
  assumes "\<forall>e \<in> set es. rdf_inv decode (snd e)" and "distinct (map index_key es)"
  obtains index K where "build decode es = Inr index" and "distinct K" and "\<And>m. m < length es \<Longrightarrow> indexed decode K m index (es ! m)"
    and "int (length K) \<le> 2 ^ 32 * int (length es)"
proof -
  have "numbering [] no_globals" by (simp add: numbering_def no_globals_def numbers_def in_range_def)
  from build_from_ok [OF this assms(1) _ assms(2), of 0 Map.empty] that show thesis by (auto simp: build_def)
qed

section \<open>Properties\<close>

text \<open>Graphs made by adding triples to a new graph, and when two of their nodes stand for one term.\<close>

definition made :: "rdf_graph \<Rightarrow> bool" where
  "made g \<longleftrightarrow> (\<exists>name iri src nc rc pc g0 ts. rdf_create name iri src nc rc pc = Inr g0 \<and> is_i32 nc \<and> is_i32 rc \<and> is_i32 pc
     \<and> addTriples g0 ts = Inr g)"

lemma made_inv: "made g \<Longrightarrow> rdf_inv decode g"
  unfolding made_def using rdf_create_inv(1) addTriples_ok by blast

definition same_term :: "nat \<times> int \<times> node \<Rightarrow> nat \<times> int \<times> node \<Rightarrow> bool" where
  "same_term x y = (case (x, y) of ((k, i, n), (l, j, n')) \<Rightarrow> (case (n, n') of
       (NodeIri a, NodeIri b) \<Rightarrow> a = b
     | (NodeLiteral a, NodeLiteral b) \<Rightarrow>
         lit_datatype a = lit_datatype b \<and> map_sum id fst (literal_data a) = map_sum id fst (literal_data b)
     | (NodeBlank a, NodeBlank b) \<Rightarrow> k = l \<and> i = j
     | _ \<Rightarrow> False))"

lemma same_global_term:
  assumes "denotes decode g i n" and "denotes decode g' j n'"
  shows "global_term decode k g i = global_term decode l g' j \<longleftrightarrow> same_term (k, i, n) (l, j, n')"
proof -
  have t: "(\<exists>a. n = NodeIri a \<and> global_term decode k g i = GIri (node_id n)) \<or> (\<exists>b. n = NodeBlank b \<and> global_term decode k g i = GLocal k i)
    \<or> (\<exists>a b sv. n = NodeLiteral a \<and> literal_data a = Inr (b, sv) \<and> global_term decode k g i = GLit (node_id (NodeIri (lit_datatype a))) b)"
    if "denotes decode g i n" for k g i n
    using that by (cases n) (auto simp: denotes_def global_term_def node_id_def lit_ok_def)
  show ?thesis using t [OF assms(1), of k] t [OF assms(2), of l] by (auto simp: same_term_def node_id_def)
qed

lemma index_numbers:
  assumes "\<forall>e \<in> set es. made (snd e)" and "distinct (map index_key es)"
  shows "\<exists>index K. build decode es = Inr index \<and> distinct K \<and> int (length K) \<le> 2 ^ 32 * int (length es) \<and> (\<forall>k i n. k < length es \<and> denotes decode (snd (es ! k)) i n \<longrightarrow>
    (\<exists>m x. getIndex index (index_key (es ! k)) = Inr m \<and> get_global m i = Inr x \<and> numbers K x (global_term decode k (snd (es ! k)) i)))"
proof -
  have "\<forall>e \<in> set es. rdf_inv decode (snd e)" using assms(1) made_inv by blast
  then obtain index K where b: "build decode es = Inr index" "distinct K" "\<And>m. m < length es \<Longrightarrow> indexed decode K m index (es ! m)"
    and len: "int (length K) \<le> 2 ^ 32 * int (length es)"
    using build_ok [OF _ assms(2)] by blast
  have "\<exists>m x. getIndex index (index_key (es ! a)) = Inr m \<and> get_global m i = Inr x \<and> numbers K x (global_term decode a (snd (es ! a)) i)"
    if "a < length es" "denotes decode (snd (es ! a)) i n" for a i n
    using b(3) [OF that(1)] that(2) by (auto simp: indexed_def getIndex_def get_global_def mapping_of_eq denotes_def get_at_def in_range_def)
  with b(1,2) len show ?thesis by blast
qed

text \<open>
  C6. One number per term across graphs: for graphs with different keys, \<open>GraphNodeIndex::build\<close> does not fail, every node of every graph
  has a global number, and two nodes, of the same graph or of two graphs, have the same number exactly when they
  stand for the same IRI or for literals with the same datatype and packed bytes; blank nodes are never identified.
\<close>

theorem shared_numbers_identify_terms:
  assumes "\<forall>e \<in> set es. made (snd e)" and "distinct (map index_key es)" and "k < length es" and "l < length es"
    and "denotes decode (snd (es ! k)) i n" and "denotes decode (snd (es ! l)) j n'"
  shows "\<exists>index m m' x y. build decode es = Inr index \<and> getIndex index (index_key (es ! k)) = Inr m
    \<and> getIndex index (index_key (es ! l)) = Inr m' \<and> get_global m i = Inr x \<and> get_global m' j = Inr y
    \<and> (x = y \<longleftrightarrow> same_term (k, i, n) (l, j, n'))"
proof -
  obtain index K where b: "build decode es = Inr index" "distinct K"
    "\<And>k i n. k < length es \<Longrightarrow> denotes decode (snd (es ! k)) i n \<Longrightarrow>
      \<exists>m x. getIndex index (index_key (es ! k)) = Inr m \<and> get_global m i = Inr x \<and> numbers K x (global_term decode k (snd (es ! k)) i)"
    using index_numbers [OF assms(1,2), of decode] by blast
  from b(3) [OF assms(3,5)] b(3) [OF assms(4,6)] obtain m x m' y where
    "getIndex index (index_key (es ! k)) = Inr m" "get_global m i = Inr x" "numbers K x (global_term decode k (snd (es ! k)) i)"
    "getIndex index (index_key (es ! l)) = Inr m'" "get_global m' j = Inr y" "numbers K y (global_term decode l (snd (es ! l)) j)"
    by blast
  moreover from this(3,6) have "x = y \<longleftrightarrow> same_term (k, i, n) (l, j, n')"
    using numbers_inj [OF b(2)] numbers_functional same_global_term [OF assms(5,6), of k l] by metis
  ultimately show ?thesis using b(1) by blast
qed

lemma sample_made: "\<exists>g i. made g \<and> denotes sample_decode g i (NodeLiteral sample_literal)"
proof -
  obtain h where h: "mk_graph 6 3 0 0 = Inr h" "rdf_create ''g'' ''u'' [] 6 3 3 = Inr (sample_rdf (setBlobCapacity mk_propData 1048576) h)"
    using sample_create .
  obtain g where g: "addTriples (sample_rdf (setBlobCapacity mk_propData 1048576) h) sample_triples = Inr g"
    using sample_triples_run [of "setBlobCapacity mk_propData 1048576"] h(1) by (auto simp: okE_iff simp del: addTriples.simps)
  have i32: "is_i32 6" "is_i32 3" by (simp_all add: is_i32_def)
  have made: "made g" unfolding made_def using h(2) g i32 by blast
  have "\<forall>k < length sample_triples. triple_at sample_decode g (int k) (fst (sample_triples ! k))"
    using addTriples_ok [OF rdf_create_inv(1) [OF h(2) i32(1,2,2)] g] rdf_create_inv(2) [OF h(2) i32(1,2,2)] by simp
  then have "\<exists>i. denotes sample_decode g i (NodeLiteral sample_literal)"
    by (auto simp: sample_triples_def triple_at_def dest!: spec [of _ 0])
  with made show ?thesis by blast
qed

theorem shared_numbers_identify_terms_witness:
  "\<exists>g i index m m' x. made g \<and> denotes sample_decode g i (NodeLiteral sample_literal)
    \<and> build sample_decode [(''x'', g), (''y'', g)] = Inr index \<and> getIndex index ''x'' = Inr m \<and> getIndex index ''y'' = Inr m'
    \<and> get_global m i = Inr x \<and> get_global m' i = Inr x"
proof -
  obtain g i where made: "made g" and i: "denotes sample_decode g i (NodeLiteral sample_literal)" using sample_made by blast
  let ?es = "[(''x'', g), (''y'', g)]"
  have "(\<forall>e \<in> set ?es. made (snd e)) \<and> distinct (map index_key ?es) \<and> 0 < length ?es \<and> 1 < length ?es"
    using made by (simp add: index_key_def)
  from shared_numbers_identify_terms [of ?es 0 1 sample_decode i "NodeLiteral sample_literal" i "NodeLiteral sample_literal"] this i made
  have "\<exists>index m m' x. build sample_decode ?es = Inr index \<and> getIndex index ''x'' = Inr m \<and> getIndex index ''y'' = Inr m'
      \<and> get_global m i = Inr x \<and> get_global m' i = Inr x"
    by (auto simp: same_term_def index_key_def)
  with made i show ?thesis by blast
qed

end
