(* ===== verification/Catalog_Types.thy ===== *)
theory Catalog_Types
  imports Std_Text Serialization
begin

text \<open>
  The column types of the catalog and the definitions built from them (\<open>src/include/lingodb/catalog/Types.h\<close>, \<open>Column.h\<close>,
  \<open>Defs.h\<close> and their implementations under \<open>src/src/catalog\<close>): a type is a type identifier with a description that depends
  on it, printed by \<open>toString\<close> and written to the catalog file.  The MLIR type that a type stands for is not modelled.
\<close>

section \<open>Enumerations\<close>

text \<open>A scoped enumeration holds any value of its underlying type: one of its enumerators, in order from 0, or another code.\<close>

datatype 'e enum_val = Named 'e | Raw int

primrec position :: "'e list \<Rightarrow> 'e \<Rightarrow> nat" where
  "position [] e = 0"
| "position (x # xs) e = (if x = e then 0 else Suc (position xs e))"

definition enum_code :: "'e list \<Rightarrow> 'e enum_val \<Rightarrow> int" where
  "enum_code xs v = (case v of Named e \<Rightarrow> int (position xs e) | Raw c \<Rightarrow> c)"

definition enum_of :: "'e list \<Rightarrow> int \<Rightarrow> 'e enum_val" where
  "enum_of xs c = (if 0 \<le> c \<and> c < int (length xs) then Named (xs ! nat c) else Raw c)"

definition enum_ok :: "'e list \<Rightarrow> 'e enum_val \<Rightarrow> bool" where
  "enum_ok xs v \<longleftrightarrow> length xs \<le> 256 \<and> (case v of Named e \<Rightarrow> e \<in> set xs | Raw c \<Rightarrow> int (length xs) \<le> c \<and> c < 256)"

lemma position_nth: "e \<in> set xs \<Longrightarrow> position xs e < length xs \<and> xs ! position xs e = e"
  by (induction xs) auto

lemma codec_enum_val: "codec (ser_enum False (enum_code xs)) (de_enum False (enum_of xs)) (enum_ok xs) (\<lambda>x. x)"
proof
  fix v rest assume "enum_ok xs v"
  then have "enum_of xs (enum_code xs v) = v \<and> 0 \<le> enum_code xs v \<and> enum_code xs v < (if False then 2 ^ 16 else 2 ^ 8)"
    by (cases v) (auto simp: enum_ok_def enum_of_def enum_code_def dest!: position_nth)
  with codec.rd_wr [OF codec_enum [of False "enum_code xs" "enum_of xs"], of v rest]
  show "de_enum False (enum_of xs) (ser_enum False (enum_code xs) v @ rest) = Inr (v, rest)" by simp
qed

section \<open>Types\<close>

datatype logical_type = LT_INVALID | LT_SQLNULL | LT_BOOLEAN | LT_INT | LT_FLOAT | LT_DOUBLE | LT_DECIMAL | LT_DATE
  | LT_TIMESTAMP | LT_INTERVAL | LT_CHAR | LT_STRING | LT_NONE | LT_INDEX

definition logical_types :: "logical_type list" where
  "logical_types = [LT_INVALID, LT_SQLNULL, LT_BOOLEAN, LT_INT, LT_FLOAT, LT_DOUBLE, LT_DECIMAL, LT_DATE,
     LT_TIMESTAMP, LT_INTERVAL, LT_CHAR, LT_STRING, LT_NONE, LT_INDEX]"

datatype timestamp_unit = TU_SECONDS | TU_MILLIS | TU_MICROS | TU_NANOS

definition timestamp_units :: "timestamp_unit list" where
  "timestamp_units = [TU_SECONDS, TU_MILLIS, TU_MICROS, TU_NANOS]"

datatype date_unit = DU_DAY | DU_MILLIS

definition date_units :: "date_unit list" where
  "date_units = [DU_DAY, DU_MILLIS]"

datatype interval_unit = IU_MONTH | IU_DAYTIME

definition interval_units :: "interval_unit list" where
  "interval_units = [IU_MONTH, IU_DAYTIME]"

datatype type_info =
    IntTypeInfo bool int
  | DecimalTypeInfo int int
  | StringTypeInfo string "int option"
  | TimestampTypeInfo "string option" "timestamp_unit enum_val"
  | CharTypeInfo int
  | DateTypeInfo "date_unit enum_val"
  | IntervalTypeInfo "interval_unit enum_val"

record catalog_type =
  ct_id :: "logical_type enum_val"
  ct_info :: "type_info option"

definition makeIntType :: "int \<Rightarrow> bool \<Rightarrow> catalog_type" where
  "makeIntType width isSigned = \<lparr>ct_id = Named LT_INT, ct_info = Some (IntTypeInfo isSigned width)\<rparr>"

definition booleanType :: catalog_type where
  "booleanType = \<lparr>ct_id = Named LT_BOOLEAN, ct_info = None\<rparr>"

definition f32Type :: catalog_type where
  "f32Type = \<lparr>ct_id = Named LT_FLOAT, ct_info = None\<rparr>"

definition f64Type :: catalog_type where
  "f64Type = \<lparr>ct_id = Named LT_DOUBLE, ct_info = None\<rparr>"

definition decimalType :: "int \<Rightarrow> int \<Rightarrow> catalog_type" where
  "decimalType precision digits = \<lparr>ct_id = Named LT_DECIMAL, ct_info = Some (DecimalTypeInfo precision digits)\<rparr>"

definition charType :: "int \<Rightarrow> catalog_type" where
  "charType n = \<lparr>ct_id = Named LT_CHAR, ct_info = Some (CharTypeInfo n)\<rparr>"

definition stringType :: catalog_type where
  "stringType = \<lparr>ct_id = Named LT_STRING, ct_info = Some (StringTypeInfo [] None)\<rparr>"

definition timestampType :: catalog_type where
  "timestampType = \<lparr>ct_id = Named LT_TIMESTAMP, ct_info = Some (TimestampTypeInfo None (Named TU_NANOS))\<rparr>"

definition intervalDaytime :: catalog_type where
  "intervalDaytime = \<lparr>ct_id = Named LT_INTERVAL, ct_info = Some (IntervalTypeInfo (Named IU_DAYTIME))\<rparr>"

definition intervalMonths :: catalog_type where
  "intervalMonths = \<lparr>ct_id = Named LT_INTERVAL, ct_info = Some (IntervalTypeInfo (Named IU_MONTH))\<rparr>"

definition noneType :: catalog_type where
  "noneType = \<lparr>ct_id = Named LT_NONE, ct_info = None\<rparr>"

definition indexType :: catalog_type where
  "indexType = \<lparr>ct_id = Named LT_INDEX, ct_info = None\<rparr>"

section \<open>Printing\<close>

definition int_info_string :: "bool \<Rightarrow> int \<Rightarrow> string" where
  "int_info_string isSigned bitWidth = (if isSigned then ''int'' else ''uint'') @ int_to_string bitWidth"

definition decimal_info_string :: "int \<Rightarrow> int \<Rightarrow> string" where
  "decimal_info_string precision digits = ''decimal('' @ int_to_string precision @ '', '' @ int_to_string digits @ '')''"

definition string_info_string :: "string \<Rightarrow> int option \<Rightarrow> string" where
  "string_info_string collation maxLength = ''string''
     @ (if collation \<noteq> [] then ''<COLLATE '' @ collation @ ''>'' else [])
     @ (case maxLength of Some n \<Rightarrow> ''('' @ int_to_string n @ '')'' | None \<Rightarrow> [])"

definition timestamp_info_string :: "string option \<Rightarrow> timestamp_unit enum_val \<Rightarrow> string" where
  "timestamp_info_string timezone unit = ''timestamp<'' @ (case timezone of Some z \<Rightarrow> z @ '', '' | None \<Rightarrow> [])
     @ (case unit of Named TU_NANOS \<Rightarrow> ''ns'' | Named TU_MICROS \<Rightarrow> ''us'' | Named TU_MILLIS \<Rightarrow> ''ms'' | Named TU_SECONDS \<Rightarrow> ''s''
        | Raw _ \<Rightarrow> []) @ ''>''"

definition char_info_string :: "int \<Rightarrow> string" where
  "char_info_string n = ''char('' @ int_to_string n @ '')''"

definition date_info_string :: "date_unit enum_val \<Rightarrow> string" where
  "date_info_string unit = ''date<'' @ (case unit of Named DU_DAY \<Rightarrow> ''day'' | Named DU_MILLIS \<Rightarrow> ''ms'' | Raw _ \<Rightarrow> []) @ ''>''"

definition interval_info_string :: "interval_unit enum_val \<Rightarrow> string" where
  "interval_info_string unit =
     ''interval<'' @ (case unit of Named IU_MONTH \<Rightarrow> ''month'' | Named IU_DAYTIME \<Rightarrow> ''daytime'' | Raw _ \<Rightarrow> []) @ ''>''"

text \<open>A cast of the description to the wrong class gives a null pointer, which is then dereferenced.\<close>

definition type_toString :: "catalog_type \<Rightarrow> string res" where
  "type_toString t = (case ct_id t of
       Named LT_INVALID \<Rightarrow> Inr ''invalid''
     | Named LT_SQLNULL \<Rightarrow> Inr ''null''
     | Named LT_BOOLEAN \<Rightarrow> Inr ''bool''
     | Named LT_INT \<Rightarrow> (case ct_info t of Some (IntTypeInfo s w) \<Rightarrow> Inr (int_info_string s w) | _ \<Rightarrow> Inl OutOfBounds)
     | Named LT_FLOAT \<Rightarrow> Inr ''float''
     | Named LT_DOUBLE \<Rightarrow> Inr ''double''
     | Named LT_DECIMAL \<Rightarrow> (case ct_info t of Some (DecimalTypeInfo p s) \<Rightarrow> Inr (decimal_info_string p s) | _ \<Rightarrow> Inl OutOfBounds)
     | Named LT_DATE \<Rightarrow> (case ct_info t of Some (DateTypeInfo u) \<Rightarrow> Inr (date_info_string u) | _ \<Rightarrow> Inl OutOfBounds)
     | Named LT_TIMESTAMP \<Rightarrow>
         (case ct_info t of Some (TimestampTypeInfo z u) \<Rightarrow> Inr (timestamp_info_string z u) | _ \<Rightarrow> Inl OutOfBounds)
     | Named LT_INTERVAL \<Rightarrow> (case ct_info t of Some (IntervalTypeInfo u) \<Rightarrow> Inr (interval_info_string u) | _ \<Rightarrow> Inl OutOfBounds)
     | Named LT_CHAR \<Rightarrow> (case ct_info t of Some (CharTypeInfo n) \<Rightarrow> Inr (char_info_string n) | _ \<Rightarrow> Inl OutOfBounds)
     | Named LT_STRING \<Rightarrow> (case ct_info t of Some (StringTypeInfo c m) \<Rightarrow> Inr (string_info_string c m) | _ \<Rightarrow> Inl OutOfBounds)
     | Named LT_NONE \<Rightarrow> Inr ''none''
     | _ \<Rightarrow> Inr ''none'')"

section \<open>Writing and reading types\<close>

definition info_code :: "type_info \<Rightarrow> int" where
  "info_code i = (case i of IntTypeInfo _ _ \<Rightarrow> 0 | DecimalTypeInfo _ _ \<Rightarrow> 1 | StringTypeInfo _ _ \<Rightarrow> 2 | TimestampTypeInfo _ _ \<Rightarrow> 3
     | CharTypeInfo _ \<Rightarrow> 4 | DateTypeInfo _ \<Rightarrow> 5 | IntervalTypeInfo _ \<Rightarrow> 6)"

definition serializeConcrete :: "type_info \<Rightarrow> byte list" where
  "serializeConcrete i = (case i of
       IntTypeInfo isSigned bitWidth \<Rightarrow> writeProperty 0 ser_bool isSigned @ writeProperty 1 ser_size bitWidth
     | DecimalTypeInfo precision digits \<Rightarrow> writeProperty 0 ser_size precision @ writeProperty 1 ser_size digits
     | StringTypeInfo collation maxLength \<Rightarrow> writeProperty 0 ser_string collation @ writeProperty 1 (ser_opt ser_size) maxLength
     | TimestampTypeInfo timezone unit \<Rightarrow>
         writeProperty 0 (ser_opt ser_string) timezone @ writeProperty 1 (ser_enum False (enum_code timestamp_units)) unit
     | CharTypeInfo n \<Rightarrow> writeProperty 0 ser_size n
     | DateTypeInfo unit \<Rightarrow> writeProperty 0 (ser_enum False (enum_code date_units)) unit
     | IntervalTypeInfo unit \<Rightarrow> writeProperty 0 (ser_enum False (enum_code interval_units)) unit)"

definition info_serialize :: "type_info \<Rightarrow> byte list" where
  "info_serialize i = writeProperty 42 ser_u8 (info_code i) @ serializeConcrete i"

text \<open>The switch over the kind has no default: for another code the function ends without a result.\<close>

definition info_deserialize :: "type_info reader" where
  "info_deserialize f = bindR (readProperty 42 de_u8 f) (\<lambda>infoType f.
     if infoType = 0 then bindR (readProperty 0 de_bool f) (\<lambda>s f. bindR (readProperty 1 de_size f) (\<lambda>w f. Inr (IntTypeInfo s w, f)))
     else if infoType = 1 then bindR (readProperty 0 de_size f) (\<lambda>p f. bindR (readProperty 1 de_size f) (\<lambda>s f. Inr (DecimalTypeInfo p s, f)))
     else if infoType = 2 then
       bindR (readProperty 0 de_string f) (\<lambda>c f. bindR (readProperty 1 (de_opt de_size) f) (\<lambda>m f. Inr (StringTypeInfo c m, f)))
     else if infoType = 3 then
       bindR (readProperty 0 (de_opt de_string) f) (\<lambda>z f.
       bindR (readProperty 1 (de_enum False (enum_of timestamp_units)) f) (\<lambda>u f. Inr (TimestampTypeInfo z u, f)))
     else if infoType = 4 then bindR (readProperty 0 de_size f) (\<lambda>n f. Inr (CharTypeInfo n, f))
     else if infoType = 5 then bindR (readProperty 0 (de_enum False (enum_of date_units)) f) (\<lambda>u f. Inr (DateTypeInfo u, f))
     else if infoType = 6 then bindR (readProperty 0 (de_enum False (enum_of interval_units)) f) (\<lambda>u f. Inr (IntervalTypeInfo u, f))
     else Inl OutOfRange)"

definition type_serialize :: "catalog_type \<Rightarrow> byte list" where
  "type_serialize t = writeProperty 0 (ser_enum False (enum_code logical_types)) (ct_id t)
     @ writeProperty 1 (ser_ptr info_serialize) (ct_info t)"

definition type_deserialize :: "catalog_type reader" where
  "type_deserialize f = bindR (readProperty 0 (de_enum False (enum_of logical_types)) f) (\<lambda>i f.
     bindR (readProperty 1 (de_ptr info_deserialize) f) (\<lambda>info f. Inr (\<lparr>ct_id = i, ct_info = info\<rparr>, f)))"

abbreviation is_size :: "int \<Rightarrow> bool" where
  "is_size n \<equiv> 0 \<le> n \<and> n < 2 ^ 64"

text \<open>Every field has a value of its C++ type.\<close>

definition info_fits :: "type_info \<Rightarrow> bool" where
  "info_fits i = (case i of IntTypeInfo _ w \<Rightarrow> is_size w | DecimalTypeInfo p s \<Rightarrow> is_size p \<and> is_size s
     | StringTypeInfo c m \<Rightarrow> len64 c \<and> pred_option is_size m | TimestampTypeInfo z u \<Rightarrow> pred_option len64 z \<and> enum_ok timestamp_units u
     | CharTypeInfo n \<Rightarrow> is_size n | DateTypeInfo u \<Rightarrow> enum_ok date_units u | IntervalTypeInfo u \<Rightarrow> enum_ok interval_units u)"

definition type_fits :: "catalog_type \<Rightarrow> bool" where
  "type_fits t \<longleftrightarrow> enum_ok logical_types (ct_id t) \<and> pred_option info_fits (ct_info t)"

lemmas rd_property = codec.rd_wr [OF codec_property]

lemma option_map_id: "map_option (\<lambda>x. x) = (\<lambda>x. x)" and list_map_id: "map (\<lambda>x. x) = (\<lambda>xs. xs)"
  by (auto simp: option.map_ident)

lemmas codec_opt_id = codec_opt [where view = "\<lambda>x. x", unfolded option_map_id]
  and codec_ptr_id = codec_ptr [where view = "\<lambda>x. x", unfolded option_map_id]
  and codec_vec_id = codec_vec [where view = "\<lambda>x. x", unfolded list_map_id]

lemma codec_info: "codec info_serialize info_deserialize info_fits (\<lambda>x. x)"
proof
  fix i rest assume "info_fits i"
  then show "info_deserialize (info_serialize i @ rest) = Inr (i, rest)"
    by (cases i) (simp_all add: info_serialize_def info_deserialize_def serializeConcrete_def info_fits_def info_code_def
      rd_property [OF codec_u8] rd_property [OF codec_bool] rd_property [OF codec_size] rd_property [OF codec_string] rd_property [OF codec_enum_val]
      rd_property [OF codec_opt_id [OF codec_size]] rd_property [OF codec_opt_id [OF codec_string]])
qed

lemma codec_type: "codec type_serialize type_deserialize type_fits (\<lambda>x. x)"
  by unfold_locales
     (simp add: type_serialize_def type_deserialize_def type_fits_def rd_property [OF codec_enum_val]
       rd_property [OF codec_ptr_id [OF codec_info]])

section \<open>Columns and definitions\<close>

record catalog_column =
  columnName :: string
  logicalType :: catalog_type
  isNullable :: bool

definition column_serialize :: "catalog_column \<Rightarrow> byte list" where
  "column_serialize c = writeProperty 1 ser_string (columnName c) @ writeProperty 2 (ser_object type_serialize) (logicalType c)
     @ writeProperty 3 ser_bool (isNullable c)"

definition column_deserialize :: "catalog_column reader" where
  "column_deserialize f = bindR (readProperty 1 de_string f) (\<lambda>n f. bindR (readProperty 2 (de_object type_deserialize) f) (\<lambda>t f.
     bindR (readProperty 3 de_bool f) (\<lambda>b f. Inr (\<lparr>columnName = n, logicalType = t, isNullable = b\<rparr>, f))))"

record create_table_def =
  ctd_name :: string
  ctd_columns :: "catalog_column list"
  ctd_primaryKey :: "string list"

definition table_def_serialize :: "create_table_def \<Rightarrow> byte list" where
  "table_def_serialize d = writeProperty 1 ser_string (ctd_name d)
     @ writeProperty 2 (ser_vec (ser_object column_serialize)) (ctd_columns d)
     @ writeProperty 3 (ser_vec ser_string) (ctd_primaryKey d)"

definition table_def_deserialize :: "create_table_def reader" where
  "table_def_deserialize f = bindR (readProperty 1 de_string f) (\<lambda>n f.
     bindR (readProperty 2 (de_vec (de_object column_deserialize)) f) (\<lambda>cs f.
     bindR (readProperty 3 (de_vec de_string) f) (\<lambda>pk f. Inr (\<lparr>ctd_name = n, ctd_columns = cs, ctd_primaryKey = pk\<rparr>, f))))"

record create_function_def =
  cfd_name :: string
  cfd_language :: string
  cfd_code :: string
  cfd_returnType :: catalog_type
  cfd_argumentTypes :: "catalog_type list"

definition function_def_serialize :: "create_function_def \<Rightarrow> byte list" where
  "function_def_serialize d = writeProperty 1 ser_string (cfd_name d) @ writeProperty 2 ser_string (cfd_language d)
     @ writeProperty 3 ser_string (cfd_code d) @ writeProperty 4 (ser_object type_serialize) (cfd_returnType d)
     @ writeProperty 5 (ser_vec (ser_object type_serialize)) (cfd_argumentTypes d)"

definition function_def_deserialize :: "create_function_def reader" where
  "function_def_deserialize f = bindR (readProperty 1 de_string f) (\<lambda>n f. bindR (readProperty 2 de_string f) (\<lambda>l f.
     bindR (readProperty 3 de_string f) (\<lambda>c f. bindR (readProperty 4 (de_object type_deserialize) f) (\<lambda>r f.
     bindR (readProperty 5 (de_vec (de_object type_deserialize)) f) (\<lambda>args f.
     Inr (\<lparr>cfd_name = n, cfd_language = l, cfd_code = c, cfd_returnType = r, cfd_argumentTypes = args\<rparr>, f))))))"

definition column_fits :: "catalog_column \<Rightarrow> bool" where
  "column_fits c \<longleftrightarrow> len64 (columnName c) \<and> type_fits (logicalType c)"

definition table_def_fits :: "create_table_def \<Rightarrow> bool" where
  "table_def_fits d \<longleftrightarrow> len64 (ctd_name d) \<and> list_all column_fits (ctd_columns d) \<and> len64 (ctd_columns d)
     \<and> list_all len64 (ctd_primaryKey d) \<and> len64 (ctd_primaryKey d)"

definition function_def_fits :: "create_function_def \<Rightarrow> bool" where
  "function_def_fits d \<longleftrightarrow> len64 (cfd_name d) \<and> len64 (cfd_language d) \<and> len64 (cfd_code d) \<and> type_fits (cfd_returnType d)
     \<and> list_all type_fits (cfd_argumentTypes d) \<and> len64 (cfd_argumentTypes d)"

lemmas codec_types = codec_vec_id [OF codec_object [OF codec_type]]
  and codec_strings = codec_vec_id [OF codec_string]

lemma codec_column: "codec column_serialize column_deserialize column_fits (\<lambda>x. x)"
  by unfold_locales
     (simp add: column_serialize_def column_deserialize_def column_fits_def rd_property [OF codec_string]
       rd_property [OF codec_object [OF codec_type]] rd_property [OF codec_bool])

lemmas codec_columns = codec_vec_id [OF codec_object [OF codec_column]]

lemma codec_table_def: "codec table_def_serialize table_def_deserialize table_def_fits (\<lambda>x. x)"
  by unfold_locales
     (simp add: table_def_serialize_def table_def_deserialize_def table_def_fits_def rd_property [OF codec_string]
       rd_property [OF codec_columns] rd_property [OF codec_strings])

lemma codec_function_def: "codec function_def_serialize function_def_deserialize function_def_fits (\<lambda>x. x)"
  by unfold_locales
     (simp add: function_def_serialize_def function_def_deserialize_def function_def_fits_def rd_property [OF codec_string]
       rd_property [OF codec_object [OF codec_type]] rd_property [OF codec_types])

section \<open>Properties\<close>

text \<open>The description of a type belongs to its identifier.\<close>

definition type_ok :: "catalog_type \<Rightarrow> bool" where
  "type_ok t = (case ct_id t of
       Named LT_INT \<Rightarrow> (case ct_info t of Some (IntTypeInfo _ _) \<Rightarrow> True | _ \<Rightarrow> False)
     | Named LT_DECIMAL \<Rightarrow> (case ct_info t of Some (DecimalTypeInfo _ _) \<Rightarrow> True | _ \<Rightarrow> False)
     | Named LT_DATE \<Rightarrow> (case ct_info t of Some (DateTypeInfo _) \<Rightarrow> True | _ \<Rightarrow> False)
     | Named LT_TIMESTAMP \<Rightarrow> (case ct_info t of Some (TimestampTypeInfo _ _) \<Rightarrow> True | _ \<Rightarrow> False)
     | Named LT_INTERVAL \<Rightarrow> (case ct_info t of Some (IntervalTypeInfo _) \<Rightarrow> True | _ \<Rightarrow> False)
     | Named LT_CHAR \<Rightarrow> (case ct_info t of Some (CharTypeInfo _) \<Rightarrow> True | _ \<Rightarrow> False)
     | Named LT_STRING \<Rightarrow> (case ct_info t of Some (StringTypeInfo _ _) \<Rightarrow> True | _ \<Rightarrow> False)
     | _ \<Rightarrow> True)"

definition made_types :: "int \<Rightarrow> int \<Rightarrow> catalog_type list" where
  "made_types m n = [makeIntType m True, makeIntType m False, booleanType, f32Type, f64Type, decimalType m n, charType m, stringType,
     timestampType, intervalDaytime, intervalMonths, noneType, indexType]"

lemma toString_ok: "type_ok t \<longleftrightarrow> (\<exists>s. type_toString t = Inr s)"
proof (cases "ct_id t")
  case (Named i)
  then show ?thesis
    by (cases i; cases "ct_info t"; cases "the (ct_info t)") (simp_all add: type_ok_def type_toString_def)
qed (simp add: type_ok_def type_toString_def)

text \<open>
  C29. Types carry the description they need: every type that a factory function of \<open>Type\<close> makes has the description that
  belongs to its identifier, \<open>toString\<close> dereferences a null description exactly for the types where that is not so,
  and a type and its text come back from the catalog file.
\<close>

theorem types_carry_their_description:
  "list_all type_ok (made_types m n) \<and> (type_ok t \<longleftrightarrow> (\<exists>s. type_toString t = Inr s))
   \<and> (type_fits t \<longrightarrow> (\<exists>t'. type_deserialize (type_serialize t @ rest) = Inr (t', rest) \<and> type_toString t' = type_toString t))"
  using toString_ok [of t] codec.rd_wr [OF codec_type, of t rest]
  by (auto simp: made_types_def type_ok_def makeIntType_def booleanType_def f32Type_def f64Type_def decimalType_def charType_def
      stringType_def timestampType_def intervalDaytime_def intervalMonths_def noneType_def indexType_def)

theorem types_carry_their_description_witness:
  "\<exists>t'. type_deserialize (type_serialize (charType 9) @ [7]) = Inr (t', [7]) \<and> type_toString t' = Inr ''char(9)''"
proof -
  have "type_fits (charType 9)" by (simp add: type_fits_def charType_def enum_ok_def logical_types_def info_fits_def)
  moreover have "type_toString (charType 9) = Inr ''char(9)''" by code_simp
  ultimately show ?thesis using types_carry_their_description [of 0 0 "charType 9" "[7]"] by simp
qed

end
