(* ===== verification/Graph_Catalog.thy ===== *)
theory Graph_Catalog
  imports Graph_Index Catalog_Types
begin

text \<open>
  Graphs in the catalog (\<open>src/src/gengodb/catalog\<close>, and the \<open>serialize\<close> functions of \<open>GengoDBGraph\<close> and \<open>RdfGraph\<close>): the
  catalog file holds the name, the capacities, the node dictionary and the format of a graph; nodes, relationships and values
  are in the graph's own file, which is read on first use.  A null pointer in the catalog file, which is never written,
  is an error here.
\<close>

section \<open>Graphs\<close>

definition gf_serialize :: "graph_file \<Rightarrow> byte list" where
  "gf_serialize s = writeProperty 1 ser_string (fileName s) @ writeProperty 2 ser_int (pg_nodeCap (storage s))
     @ writeProperty 3 ser_int (pg_relCap (storage s)) @ writeProperty 4 ser_int (propCap (storage s))"

definition gf_deserialize :: "graph_file reader" where
  "gf_deserialize f = bindR (readProperty 1 de_string f) (\<lambda>name f. bindR (readProperty 2 de_int f) (\<lambda>nc f.
     bindR (readProperty 3 de_int f) (\<lambda>rc f. bindR (readProperty 4 de_int f) (\<lambda>pc f.
     bindE (mk_graphFile name nc rc pc) (\<lambda>s. Inr (s, f))))))"

definition not_null :: "'a option \<Rightarrow> 'a res" where
  "not_null x = (case x of Some v \<Rightarrow> Inr v | None \<Rightarrow> Inl OutOfBounds)"

definition rdf_serialize :: "(node_type \<Rightarrow> int) \<Rightarrow> rdf_graph \<Rightarrow> byte list" where
  "rdf_serialize code g = writeProperty 1 ser_string (rg_iri g) @ writeProperty 2 (ser_ptr gf_serialize) (Some (rg_store g))
     @ writeProperty 3 ser_string (rg_fileName g) @ writeProperty 4 (ser_ptr (dict_serialize code)) (Some (rg_nodes g))
     @ writeProperty 5 ser_string (rg_sourceFileName g)"

definition rdf_deserialize :: "(int \<Rightarrow> node_type) \<Rightarrow> rdf_graph reader" where
  "rdf_deserialize decode f = bindR (readProperty 1 de_string f) (\<lambda>iri f. bindR (readProperty 2 (de_ptr gf_deserialize) f) (\<lambda>store f.
     bindR (readProperty 3 de_string f) (\<lambda>name f. bindR (readProperty 4 (de_ptr (dict_deserialize decode)) f) (\<lambda>nodes f.
     bindR (readProperty 5 de_string f) (\<lambda>source f.
     bindE (not_null store) (\<lambda>store. bindE (not_null nodes) (\<lambda>nodes.
     Inr ((mk_rdfGraph iri store name source)\<lparr>rg_nodes := nodes\<rparr>, f))))))))"

section \<open>File formats\<close>

datatype file_format = FF_DEFAULT | FF_BINARY | FF_TURTLE | FF_NTRIPLES | FF_NQUADS | FF_RDFXML | FF_FUZZY_TURTLE

definition file_formats :: "file_format list" where
  "file_formats = [FF_DEFAULT, FF_BINARY, FF_TURTLE, FF_NTRIPLES, FF_NQUADS, FF_RDFXML, FF_FUZZY_TURTLE]"

definition getRDFParseFlags :: "file_format enum_val \<Rightarrow> parsing_flag" where
  "getRDFParseFlags format = (case format of Named FF_TURTLE \<Rightarrow> PfTurtle | Named FF_FUZZY_TURTLE \<Rightarrow> PfTurtle | _ \<Rightarrow> PfNone)"

definition formatExtension :: "file_format enum_val \<Rightarrow> string" where
  "formatExtension format =
     (if format = Named FF_FUZZY_TURTLE then ''.fttl'' else getRDFFileExtension (getRDFParseFlags format))"

record create_rdf_graph_def =
  crd_name :: string
  crd_iri :: string
  crd_format :: "file_format enum_val"
  crd_sourceFileName :: string
  crd_nodeCapacity :: int
  crd_relCapacity :: int
  crd_propCapacity :: int

definition rdf_def_serialize :: "create_rdf_graph_def \<Rightarrow> byte list" where
  "rdf_def_serialize d = writeProperty 1 ser_string (crd_name d) @ writeProperty 2 ser_string (crd_iri d)
     @ writeProperty 3 ser_int (enum_code file_formats (crd_format d)) @ writeProperty 4 ser_string (crd_sourceFileName d)
     @ writeProperty 5 ser_int (crd_nodeCapacity d) @ writeProperty 6 ser_int (crd_relCapacity d)
     @ writeProperty 7 ser_int (crd_propCapacity d)"

definition rdf_def_deserialize :: "create_rdf_graph_def reader" where
  "rdf_def_deserialize f = bindR (readProperty 1 de_string f) (\<lambda>name f. bindR (readProperty 2 de_string f) (\<lambda>iri f.
     bindR (readProperty 3 de_int f) (\<lambda>format f. bindR (readProperty 4 de_string f) (\<lambda>source f.
     bindR (readProperty 5 de_int f) (\<lambda>nc f. bindR (readProperty 6 de_int f) (\<lambda>rc f. bindR (readProperty 7 de_int f) (\<lambda>pc f.
     Inr (\<lparr>crd_name = name, crd_iri = iri, crd_format = enum_of file_formats format, crd_sourceFileName = source,
           crd_nodeCapacity = nc, crd_relCapacity = rc, crd_propCapacity = pc\<rparr>, f))))))))"

section \<open>Catalog entries of graphs\<close>

record rdf_entry =
  re_name :: string
  re_graph :: rdf_graph
  re_format :: "file_format enum_val"

definition entry_serialize :: "(node_type \<Rightarrow> int) \<Rightarrow> rdf_entry \<Rightarrow> byte list" where
  "entry_serialize code e = writeProperty 2 ser_string (re_name e) @ writeProperty 3 (ser_ptr (rdf_serialize code)) (Some (re_graph e))
     @ writeProperty 4 ser_int (enum_code file_formats (re_format e))"

definition entry_deserialize :: "(int \<Rightarrow> node_type) \<Rightarrow> rdf_entry reader" where
  "entry_deserialize decode f = bindR (readProperty 2 de_string f) (\<lambda>name f.
     bindR (readProperty 3 (de_ptr (rdf_deserialize decode)) f) (\<lambda>g f. bindR (readProperty 4 de_int f) (\<lambda>format f.
     bindE (not_null g) (\<lambda>g. Inr (\<lparr>re_name = name, re_graph = g, re_format = enum_of file_formats format\<rparr>, f)))))"

definition createFromCreateRdfGraphDef :: "create_rdf_graph_def \<Rightarrow> rdf_entry res" where
  "createFromCreateRdfGraphDef d =
     bindE (rdf_create (crd_name d) (crd_iri d) (crd_sourceFileName d) (crd_nodeCapacity d) (crd_relCapacity d) (crd_propCapacity d))
       (\<lambda>g. Inr \<lparr>re_name = crd_name d, re_graph = g, re_format = crd_format d\<rparr>)"

definition entry_setDBDir :: "rdf_entry \<Rightarrow> string \<Rightarrow> rdf_entry" where
  "entry_setDBDir e dir = e\<lparr>re_graph := rdf_setDBDir (re_graph e) dir\<rparr>"

definition entry_flush :: "file_system \<Rightarrow> rdf_entry \<Rightarrow> file_system res" where
  "entry_flush fs e = rdf_flush fs (re_graph e)"

definition entry_setShouldPersist :: "file_system \<Rightarrow> rdf_entry \<Rightarrow> bool \<Rightarrow> (file_system \<times> rdf_entry) res" where
  "entry_setShouldPersist fs e b = bindE (setPersist fs (re_graph e) b) (\<lambda>(fs, g). Inr (fs, e\<lparr>re_graph := g\<rparr>))"

definition entry_ensureFullyLoaded ::
  "(int \<Rightarrow> node_type) \<Rightarrow> (string \<Rightarrow> quad_item list) \<Rightarrow> (string \<Rightarrow> quad_item list) \<Rightarrow> file_system \<Rightarrow> rdf_entry \<Rightarrow> rdf_entry res option" where
  "entry_ensureFullyLoaded decode parse parse_file fs e =
     (let g = (if re_format e = Named FF_BINARY then setLoadedFromRdfFile (re_graph e) False
               else setFuzzy (setRdfParseFlags (setLoadedFromRdfFile (re_graph e) True) (getRDFParseFlags (re_format e)))
                      (re_format e = Named FF_FUZZY_TURTLE))
      in bindOE (rdf_ensureLoaded decode parse parse_file fs g) (\<lambda>g. Some (Inr (e\<lparr>re_graph := g\<rparr>))))"

text \<open>The term behind a node; a node of another kind than IRI, blank node or literal is given as a new blank node.\<close>

datatype entry_node = EnIri string | EnBlank string | EnLiteral made_literal | EnNewBlank

definition entry_getNode :: "(int \<Rightarrow> node_type) \<Rightarrow> rdf_entry \<Rightarrow> int \<Rightarrow> entry_node res" where
  "entry_getNode decode e i = bindE (dict_get decode (rg_nodes (re_graph e)) i) (\<lambda>n. case nid_type n of
       NtIRI \<Rightarrow> bindE (getIri decode (re_graph e) i) (\<lambda>iri. Inr (EnIri iri))
     | NtBNode \<Rightarrow> Inr (EnBlank (nid_local n))
     | NtLiteral \<Rightarrow> bindE (getLiteral decode (re_graph e) i) (\<lambda>l. Inr (EnLiteral l))
     | _ \<Rightarrow> Inr EnNewBlank)"

definition entry_getLocalId :: "(int \<Rightarrow> node_type) \<Rightarrow> rdf_entry \<Rightarrow> int \<Rightarrow> string res" where
  "entry_getLocalId decode e i = bindE (dict_get decode (rg_nodes (re_graph e)) i) (\<lambda>n. case nid_type n of
       NtIRI \<Rightarrow> Inr (nid_iri n) | NtBNode \<Rightarrow> Inr (nid_local n) | _ \<Rightarrow> Inr [])"

section \<open>The catalog entry of the node index\<close>

definition getGlobalId :: "graph_index \<Rightarrow> string \<Rightarrow> int \<Rightarrow> int res" where
  "getGlobalId index name i = bindE (getIndex index name) (\<lambda>m. Inr (get_global_safe m i))"

definition getLocalId :: "graph_index \<Rightarrow> string \<Rightarrow> int \<Rightarrow> int res" where
  "getLocalId index name i = bindE (getIndex index name) (\<lambda>m. Inr (get_local_safe m i))"

section \<open>Reading back\<close>

lemma enum_of_code: "enum_ok xs v \<Longrightarrow> enum_of xs (enum_code xs v) = v \<and> is_i32 (enum_code xs v)"
  by (cases v) (auto simp: enum_ok_def enum_of_def enum_code_def is_i32_def dest!: position_nth)

definition rdf_def_fits :: "create_rdf_graph_def \<Rightarrow> bool" where
  "rdf_def_fits d \<longleftrightarrow> len64 (crd_name d) \<and> len64 (crd_iri d) \<and> len64 (crd_sourceFileName d) \<and> enum_ok file_formats (crd_format d)
     \<and> is_i32 (crd_nodeCapacity d) \<and> is_i32 (crd_relCapacity d) \<and> is_i32 (crd_propCapacity d)"

lemma codec_rdf_def: "codec rdf_def_serialize rdf_def_deserialize rdf_def_fits (\<lambda>x. x)"
  by unfold_locales
     (simp add: rdf_def_serialize_def rdf_def_deserialize_def rdf_def_fits_def rd_property [OF codec_string]
       rd_property [OF codec_int] enum_of_code)

text \<open>A graph comes back from the catalog file without its contents: new storage of the same capacities.\<close>

definition gf_fits :: "graph_file \<Rightarrow> bool" where
  "gf_fits s \<longleftrightarrow> len64 (fileName s) \<and> is_i32 (pg_nodeCap (storage s)) \<and> is_i32 (pg_relCap (storage s)) \<and> is_i32 (propCap (storage s))
     \<and> (\<exists>s0. mk_graphFile (fileName s) (pg_nodeCap (storage s)) (pg_relCap (storage s)) (propCap (storage s)) = Inr s0)"

definition gf_emptied :: "graph_file \<Rightarrow> graph_file" where
  "gf_emptied s = projr (mk_graphFile (fileName s) (pg_nodeCap (storage s)) (pg_relCap (storage s)) (propCap (storage s)))"

lemma codec_gf: "codec gf_serialize gf_deserialize gf_fits gf_emptied"
  by unfold_locales
     (auto simp: gf_serialize_def gf_deserialize_def gf_fits_def gf_emptied_def rd_property [OF codec_string] rd_property [OF codec_int])

definition dict_fits :: "node_dict \<Rightarrow> bool" where
  "dict_fits d \<longleftrightarrow> dict_ok d \<and> strings_fit d"

lemma codec_dict: "node_codes code decode \<Longrightarrow> codec (dict_serialize code) (dict_deserialize decode) dict_fits (\<lambda>x. x)"
  by unfold_locales (simp add: dict_fits_def dict_round_trip)

definition rdf_fits :: "rdf_graph \<Rightarrow> bool" where
  "rdf_fits g \<longleftrightarrow> len64 (rg_iri g) \<and> gf_fits (rg_store g) \<and> len64 (rg_fileName g) \<and> dict_fits (rg_nodes g) \<and> len64 (rg_sourceFileName g)"

definition rdf_emptied :: "rdf_graph \<Rightarrow> rdf_graph" where
  "rdf_emptied g = (mk_rdfGraph (rg_iri g) (gf_emptied (rg_store g)) (rg_fileName g) (rg_sourceFileName g))\<lparr>rg_nodes := rg_nodes g\<rparr>"

lemma codec_rdf: "node_codes code decode \<Longrightarrow> codec (rdf_serialize code) (rdf_deserialize decode) rdf_fits rdf_emptied"
  by unfold_locales
     (simp add: rdf_serialize_def rdf_deserialize_def rdf_fits_def rdf_emptied_def not_null_def rd_property [OF codec_string]
       rd_property [OF codec_ptr [OF codec_gf]] rd_property [OF codec_ptr [OF codec_dict]])

definition entry_fits :: "rdf_entry \<Rightarrow> bool" where
  "entry_fits e \<longleftrightarrow> len64 (re_name e) \<and> rdf_fits (re_graph e) \<and> enum_ok file_formats (re_format e)"

lemma codec_rdf_entry:
  assumes "node_codes code decode"
  shows "codec (entry_serialize code) (entry_deserialize decode) entry_fits (\<lambda>e. e\<lparr>re_graph := rdf_emptied (re_graph e)\<rparr>)"
  by unfold_locales
     (simp add: entry_serialize_def entry_deserialize_def entry_fits_def not_null_def rd_property [OF codec_string]
       rd_property [OF codec_int] rd_property [OF codec_ptr [OF codec_rdf [OF assms]]] enum_of_code)

section \<open>Reloading\<close>

lemma emptied_storage:
  assumes "pg_wf p"
  obtains dst where "mk_pgraph (pg_nodeCap p) (pg_relCap p) (propCap p) = Inr dst" and "bufs_ok dst" and "pd_blobs (propData dst) = []"
    and "nodeMark (base dst) = 0" and "fits dst p" and "nodeCap (base dst) = nodeCap (base p)" and "relCap (base dst) = relCap (base p)"
    and "propCap dst = propCap p" and "pg_nodeCap dst = pg_nodeCap p" and "pg_relCap dst = pg_relCap p"
proof -
  have "0 \<le> nodeCap (base p)" "0 \<le> relCap (base p)" "0 \<le> propCap p" "pg_nodeCap p = nodeCap (base p)" "pg_relCap p = relCap (base p)"
    "nodeMark (base p) \<le> nodeCap (base p)" "relMark (base p) \<le> relCap (base p)" "propMark p \<le> propCap p"
    using assms by (auto simp: pg_wf_def)
  then show thesis using that
    by (simp add: mk_pgraph_def mk_graph_def bufs_ok_def setBlobCapacity_def mk_propData_def fits_def)
qed

lemma pg_wf_bufs: "pg_wf p \<Longrightarrow> bufs_ok p"
  by (auto simp: pg_wf_def bufs_ok_def)

text \<open>What the storage holds after a flush and a load into new storage of the same capacities.\<close>

definition same_storage :: "pgraph \<Rightarrow> pgraph \<Rightarrow> bool" where
  "same_storage p q \<longleftrightarrow> pg_ext p q \<and> pg_wf q \<and> nodeMark (base q) = nodeMark (base p) \<and> relMark (base q) = relMark (base p)
     \<and> (\<forall>i. 0 \<le> i \<and> i < relMark (base p) \<longrightarrow> at (rels (base q)) i = at (rels (base p)) i)"

lemma overlay_same_storage:
  assumes wf: "pg_wf p" and ok: "pd_ok (propData p)" and dst: "bufs_ok dst" "fits dst p"
    and caps: "nodeCap (base dst) = nodeCap (base p)" "relCap (base dst) = relCap (base p)" "propCap dst = propCap p"
      "pg_nodeCap dst = pg_nodeCap p" "pg_relCap dst = pg_relCap p"
  shows "same_storage p ((overlay dst p)\<lparr>propData := (propData dst)\<lparr>lst_i64 := lst_i64 (propData p), lst_ui64 := lst_ui64 (propData p),
      lst_double := lst_double (propData p), pd_blobs := map reloaded (pd_blobs (propData p))\<rparr>\<rparr>)"
proof -
  note e = overlay_entries [OF pg_wf_bufs [OF wf] dst]
  have len: "length (nodes (base dst)) = length (nodes (base p))" "length (rels (base dst)) = length (rels (base p))"
    "length (props dst) = length (props p)" using wf dst(1) caps(1-3) by (simp_all add: pg_wf_def bufs_ok_def)
  have b: "list_all (\<lambda>kt. bt_ok (snd kt)) (pd_blobs (propData p))" using wf by (simp add: pg_wf_def tables_ok_def)
  have "pg_nodeCap (overlay dst p) = pg_nodeCap dst" "pg_relCap (overlay dst p) = pg_relCap dst" by (simp_all add: overlay_def)
  moreover have "list_all (\<lambda>kt. bt_ok (snd kt)) (map reloaded (pd_blobs (propData p)))"
    using b reloaded_ok(1) by (auto simp: list_all_iff)
  ultimately show ?thesis
    using wf e len caps blob_bytes_reloaded [OF b]
    by (simp add: same_storage_def pg_ext_def pd_ext_def pg_wf_def tables_ok_def)
qed

definition put :: "file_system \<Rightarrow> string \<Rightarrow> byte list \<Rightarrow> file_system" where
  "put fs path bytes = fs\<lparr>fs_files := (fs_files fs)(path \<mapsto> bytes), fs_mtime := (fs_mtime fs)(path := fs_now fs)\<rparr>"

lemma put_simps [simp]: "fs_files (put fs path bytes) = (fs_files fs)(path \<mapsto> bytes)" "fs_mtime (put fs path bytes) = (fs_mtime fs)(path := fs_now fs)"
  "fs_now (put fs path bytes) = fs_now fs" "fs_writable (put fs path bytes) = fs_writable fs" "fs_readable (put fs path bytes) = fs_readable fs"
  by (simp_all add: put_def)

definition graph_bytes :: "graph_file \<Rightarrow> byte list" where
  "graph_bytes s = file_bytes (neo_of (storage s)) (propData (storage s))"

lemma flush_writes:
  assumes "pg_wf (storage s)" and "dbDir s \<noteq> []" and "fileName s \<noteq> []" and "fs_writable fs (graphPath (dbDir s) (fileName s))"
  shows "gf_flush fs s = Inr (put fs (graphPath (dbDir s) (fileName s)) (graph_bytes s))"
  using assms gd_serialize_ok [OF pg_wf_bufs [OF assms(1)]] by (simp add: gf_flush_def put_def graph_bytes_def Let_def)

lemma load_written:
  assumes "pg_wf (storage s)" and "typed (storage s)" and "pd_ok (propData (storage s))" and "dbDir s \<noteq> []" and "fileName s \<noteq> []"
    and "fs_files fs (graphPath (dbDir s) (fileName s)) = Some (graph_bytes s)" and "fs_readable fs (graphPath (dbDir s) (fileName s))"
  obtains q where "gf_ensureLoaded fs (setDBDir (gf_emptied s) (dbDir s)) = Inr \<lparr>storage = q, fileName = fileName s, dbDir = dbDir s, loaded = True\<rparr>"
    and "same_storage (storage s) q"
proof -
  let ?p = "storage s" and ?path = "graphPath (dbDir s) (fileName s)"
  obtain dst where d: "mk_pgraph (pg_nodeCap ?p) (pg_relCap ?p) (propCap ?p) = Inr dst" "bufs_ok dst" "pd_blobs (propData dst) = []"
    "nodeMark (base dst) = 0" "fits dst ?p" "nodeCap (base dst) = nodeCap (base ?p)" "relCap (base dst) = relCap (base ?p)"
    "propCap dst = propCap ?p" "pg_nodeCap dst = pg_nodeCap ?p" "pg_relCap dst = pg_relCap ?p"
    using emptied_storage [OF assms(1)] .
  have caps: "nodeCap (base ?p) < 2 ^ 31" "relCap (base ?p) < 2 ^ 31" "propCap ?p < 2 ^ 31" using assms(1) by (simp_all add: pg_wf_def)
  note rd = file_round_trip [OF pg_wf_bufs [OF assms(1)] assms(2,3) d(2,3,5) caps, of ?path]
  have "gf_emptied s = \<lparr>storage = dst, fileName = fileName s, dbDir = [], loaded = False\<rparr>"
    using d(1) by (simp add: gf_emptied_def mk_graphFile_def)
  then have "gf_ensureLoaded fs (setDBDir (gf_emptied s) (dbDir s)) = Inr \<lparr>storage = (overlay dst ?p)\<lparr>propData :=
      (propData dst)\<lparr>lst_i64 := lst_i64 (propData ?p), lst_ui64 := lst_ui64 (propData ?p), lst_double := lst_double (propData ?p),
        pd_blobs := map reloaded (pd_blobs (propData ?p))\<rparr>\<rparr>, fileName = fileName s, dbDir = dbDir s, loaded = True\<rparr>"
    using rd assms(4-7) d(4) by (simp add: gf_ensureLoaded_def setDBDir_def graph_bytes_def Let_def)
  then show thesis by (rule that [OF _ overlay_same_storage [OF assms(1,3) d(2,5,6-10)]])
qed

text \<open>A graph with the same dictionary and the same storage satisfies the invariant and holds the same triples.\<close>

lemma same_storage_inv:
  assumes "rdf_inv decode g" and "same_storage (pg g) (pg g')" and "rg_nodes g' = rg_nodes g" and "rg_literals g' = rg_literals g"
  shows "rdf_inv decode g'"
  using rdf_invD [OF assms(1)] assms(2-4) by (intro rdf_inv_grow [OF assms(1)]) (auto simp: same_storage_def rdf_ext_def)

lemma same_storage_triples:
  assumes "rdf_inv decode g" and "same_storage (pg g) (pg g')" and "rg_nodes g' = rg_nodes g" and "triple_at decode g i t"
  shows "triple_at decode g' i t"
  using assms by (intro triple_at_ext [OF _ rdf_invD(2) [OF assms(1)] assms(4)]) (simp add: same_storage_def rdf_ext_def)

lemma rdf_inv_setDBDir:
  assumes "rdf_inv decode g"
  shows "rdf_inv decode (rdf_setDBDir g dir)"
proof (rule same_storage_inv [OF assms])
  show "same_storage (pg g) (pg (rdf_setDBDir g dir))"
    using rdf_invD(2) [OF assms] by (simp add: rdf_setDBDir_def setDBDir_def same_storage_def)
qed (simp_all add: rdf_setDBDir_def)

lemma source_not_graph_file: "dir @ name @ getRDFFileExtension flags \<noteq> graphPath dir' name'"
proof
  assume "dir @ name @ getRDFFileExtension flags = graphPath dir' name'"
  then have "last (dir @ name @ getRDFFileExtension flags) = last (graphPath dir' name')" by simp
  then show False by (cases flags) (simp_all add: getRDFFileExtension_def graphPath_def)
qed

definition persistable :: "file_system \<Rightarrow> rdf_entry \<Rightarrow> bool" where
  "persistable fs e \<longleftrightarrow> (let g = re_graph e; s = rg_store g; path = graphPath (dbDir s) (fileName s) in
     typed (storage s) \<and> pd_ok (propData (storage s)) \<and> strings_fit (rg_nodes g)
     \<and> len64 (re_name e) \<and> len64 (rg_iri g) \<and> len64 (fileName s) \<and> len64 (rg_fileName g) \<and> len64 (rg_sourceFileName g)
     \<and> enum_ok file_formats (re_format e) \<and> rg_sourceFileName g \<noteq> [] \<and> dbDir s \<noteq> [] \<and> fileName s \<noteq> []
     \<and> fs_writable fs path \<and> fs_readable fs path)"

definition restored :: "(int \<Rightarrow> node_type) \<Rightarrow> rdf_graph \<Rightarrow> rdf_graph \<Rightarrow> bool" where
  "restored decode g g' \<longleftrightarrow> rg_iri g' = rg_iri g \<and> rg_nodes g' = rg_nodes g \<and> relMark (base (pg g')) = relMark (base (pg g))
     \<and> (\<forall>i t. triple_at decode g i t \<longrightarrow> triple_at decode g' i t)
     \<and> (\<forall>i. 0 \<le> i \<and> i < relMark (base (pg g)) \<longrightarrow> r_payload (at (rels (base (pg g'))) i) = r_payload (at (rels (base (pg g))) i))"

lemma restoredI:
  assumes "rdf_inv decode g" and "same_storage (pg g) (pg g')" and "rg_nodes g' = rg_nodes g" and "rg_iri g' = rg_iri g"
  shows "restored decode g g'"
  using same_storage_triples [OF assms(1-3)] assms(2-4) by (simp add: restored_def same_storage_def)

lemma gf_emptied_name:
  assumes "pg_wf (storage s)"
  shows "fileName (gf_emptied s) = fileName s"
proof -
  obtain dst where "mk_pgraph (pg_nodeCap (storage s)) (pg_relCap (storage s)) (propCap (storage s)) = Inr dst"
    using emptied_storage [OF assms] .
  then show ?thesis by (simp add: gf_emptied_def mk_graphFile_def)
qed

lemma entry_flushed:
  assumes "rdf_inv decode (re_graph e)" and "persistable fs e"
  shows "entry_flush fs e = Inr (put fs (graphPath (dbDir (rg_store (re_graph e))) (fileName (rg_store (re_graph e)))) (graph_bytes (rg_store (re_graph e))))"
  using assms rdf_invD(2) [OF assms(1)] by (simp add: entry_flush_def rdf_flush_def persistable_def Let_def flush_writes)

lemma persistable_fits:
  assumes "rdf_inv decode (re_graph e)" and "persistable fs e"
  shows "entry_fits e"
proof -
  let ?g = "re_graph e"
  note p = assms(2) [unfolded persistable_def Let_def] and wf = rdf_invD(1,2) [OF assms(1)]
  obtain dst where "mk_pgraph (pg_nodeCap (pg ?g)) (pg_relCap (pg ?g)) (propCap (pg ?g)) = Inr dst" using emptied_storage [OF wf(2)] .
  then have "gf_fits (rg_store ?g)" using p wf(2) by (auto simp: gf_fits_def mk_graphFile_def pg_wf_def is_i32_def)
  then show ?thesis using p wf(1) by (simp add: entry_fits_def rdf_fits_def dict_fits_def)
qed

text \<open>Loading a graph whose storage was flushed and whose source is not newer.\<close>

lemma load_flushed:
  assumes inv: "rdf_inv decode g" and ss: "same_storage (pg g) (storage st)" and "re_format e1 \<noteq> Named FF_BINARY"
    and "gf_ensureLoaded fs (rg_store (re_graph e1)) = Inr st"
    and "hasFreshCache fs (rg_store (re_graph e1))
      (rg_dbDir (re_graph e1) @ rg_sourceFileName (re_graph e1) @ getRDFFileExtension (getRDFParseFlags (re_format e1)))"
    and "\<not> rg_loaded (re_graph e1)" and "rg_nodes (re_graph e1) = rg_nodes g" and "rg_iri (re_graph e1) = rg_iri g"
    and "rg_literals (re_graph e1) = Map.empty"
  shows "\<exists>e2. entry_ensureFullyLoaded decode parse parse_file fs e1 = Some (Inr e2)
    \<and> restored decode g (re_graph e2) \<and> rg_literals (re_graph e2) = rg_literals g \<and> re_name e2 = re_name e1 \<and> re_format e2 = re_format e1"
proof -
  define g1 where "g1 = (setFuzzy (setRdfParseFlags (setLoadedFromRdfFile (re_graph e1) True)
      (getRDFParseFlags (re_format e1))) (re_format e1 = Named FF_FUZZY_TURTLE))\<lparr>rg_loaded := True, rg_store := st\<rparr>"
  define g2 where "g2 = g1\<lparr>rg_literals := rg_literals g\<rparr>"
  have f: "rg_nodes g2 = rg_nodes g" "rg_iri g2 = rg_iri g" "rg_literals g2 = rg_literals g" "pg g2 = storage st" "g2\<lparr>rg_literals := Map.empty\<rparr> = g1"
    using assms(7-9) by (simp_all add: g2_def g1_def setFuzzy_def setRdfParseFlags_def setLoadedFromRdfFile_def)
  have ss': "same_storage (pg g) (pg g2)" using ss f(4) by simp
  have rb: "rebuildLiteralNodeCache decode g1 = Inr g2"
    using rebuild_ok [OF same_storage_inv [OF inv ss' f(1,3)]] unfolding f(5) .
  have "entry_ensureFullyLoaded decode parse parse_file fs e1 = Some (Inr (e1\<lparr>re_graph := g2\<rparr>))"
    using assms(3-6) rb
    by (simp add: entry_ensureFullyLoaded_def rdf_ensureLoaded_def g1_def setFuzzy_def setRdfParseFlags_def setLoadedFromRdfFile_def Let_def)
  then show ?thesis using restoredI [OF inv ss' f(1,2)] f(3) by auto
qed

text \<open>An entry read back from the catalog finds its graph in the file that was flushed.\<close>

lemma entry_reloads:
  assumes inv: "rdf_inv decode (re_graph e)" and pe: "persistable fs0 e" and "re_format e \<noteq> Named FF_BINARY" and dir: "dbDir (rg_store (re_graph e)) = dir"
    and path: "path = graphPath dir (fileName (rg_store (re_graph e)))" and "fs_files fs path = Some (graph_bytes (rg_store (re_graph e)))" and "fs_readable fs path"
    and "source = dir @ rg_sourceFileName (re_graph e) @ getRDFFileExtension (getRDFParseFlags (re_format e))"
    and "fs_files fs source = None \<or> fs_mtime fs source \<le> fs_mtime fs path"
  shows "\<exists>e2. entry_ensureFullyLoaded decode parse parse_file fs (entry_setDBDir (e\<lparr>re_graph := rdf_emptied (re_graph e)\<rparr>) dir) = Some (Inr e2)
    \<and> restored decode (re_graph e) (re_graph e2) \<and> rg_literals (re_graph e2) = rg_literals (re_graph e)
    \<and> re_name e2 = re_name e \<and> re_format e2 = re_format e"
proof -
  let ?g = "re_graph e"
  note p = pe [unfolded persistable_def Let_def dir] and wf = rdf_invD(2) [OF inv]
  obtain q where q: "gf_ensureLoaded fs (setDBDir (gf_emptied (rg_store ?g)) dir) =
      Inr \<lparr>storage = q, fileName = fileName (rg_store ?g), dbDir = dir, loaded = True\<rparr>" "same_storage (pg ?g) q"
    using load_written [OF wf, of fs] p assms(6,7) unfolding path dir by blast
  have "hasFreshCache fs (setDBDir (gf_emptied (rg_store ?g)) dir) source"
    using assms(6,9) p gf_emptied_name [OF wf] by (auto simp: hasFreshCache_def path setDBDir_def Let_def)
  then show ?thesis
    using load_flushed [OF inv, of "\<lparr>storage = q, fileName = fileName (rg_store ?g), dbDir = dir, loaded = True\<rparr>"
        "entry_setDBDir (e\<lparr>re_graph := rdf_emptied ?g\<rparr>) dir" fs parse parse_file] q assms(3,8) p
    by (simp add: entry_setDBDir_def rdf_setDBDir_def rdf_emptied_def mk_rdfGraph_def)
qed

section \<open>Properties\<close>

text \<open>
  C4. A graph survives a restart: if a graph made by adding triples is flushed and its catalog entry is written, then the entry
  that is read back, given the same directory and loaded while its source file is not newer than the graph file, has
  the same dictionary, the same triples with the same truth degrees, and the same literal table.
\<close>

theorem graph_survives_restart:
  assumes "node_codes code decode" and "made g0" and "re_graph e = rdf_setDBDir g0 dir" and "persistable fs e"
    and "re_format e \<noteq> Named FF_BINARY"
    and "source = dir @ rg_sourceFileName g0 @ getRDFFileExtension (getRDFParseFlags (re_format e))"
    and "fs_files fs source = None \<or> fs_mtime fs source \<le> fs_now fs"
  shows "\<exists>fs' e1 e2. entry_flush fs e = Inr fs' \<and> entry_deserialize decode (entry_serialize code e @ rest) = Inr (e1, rest)
    \<and> entry_ensureFullyLoaded decode parse parse_file fs' (entry_setDBDir e1 dir) = Some (Inr e2)
    \<and> restored decode (re_graph e) (re_graph e2) \<and> rg_literals (re_graph e2) = rg_literals (re_graph e)"
proof -
  let ?g = "re_graph e" and ?path = "graphPath dir (fileName (rg_store (re_graph e)))"
  have inv: "rdf_inv decode ?g" unfolding assms(3) by (rule rdf_inv_setDBDir [OF made_inv [OF assms(2)]])
  have dir: "dbDir (rg_store ?g) = dir" "rg_sourceFileName ?g = rg_sourceFileName g0" using assms(3) by (simp_all add: rdf_setDBDir_def setDBDir_def)
  note fl = entry_flushed [OF inv assms(4), unfolded dir(1)]
  note rd = codec.rd_wr [OF codec_rdf_entry [OF assms(1)] persistable_fits [OF inv assms(4)], of rest]
  have "source \<noteq> ?path" unfolding assms(6) by (rule source_not_graph_file)
  moreover have "fs_readable fs ?path" using assms(4) by (simp add: persistable_def Let_def dir(1))
  ultimately show ?thesis
    using entry_reloads [OF inv assms(4,5) dir(1) refl, of "put fs ?path (graph_bytes (rg_store ?g))" source parse parse_file] fl rd assms(6,7) dir(2) by auto
qed

definition sample_fs :: file_system where
  "sample_fs = \<lparr>fs_files = Map.empty, fs_mtime = (\<lambda>_. 0), fs_now = 1, fs_writable = (\<lambda>_. True), fs_readable = (\<lambda>_. True)\<rparr>"

lemma sample_graph_run:
  "okE (\<lambda>h. okE (\<lambda>g. propData (pg g) = pd \<and> typed (pg g) \<and> strings_fit (rg_nodes g) \<and> rg_iri g = ''u'' \<and> rg_fileName g = ''g''
     \<and> rg_sourceFileName g = ''g'' \<and> fileName (rg_store g) = ''g'' \<and> node_from_rdf_literal g (XSD @ ''int'') (u32_bytes 4294967291) = 2)
     (addTriples (sample_rdf pd h) sample_triples)) (mk_graph 6 3 0 0)"
  by code_simp

text \<open>
  C30. A graph in the binary format forgets its literals: \<open>ensureFullyLoaded\<close> restores dictionary and triples but, since a
  binary graph is not loaded from an RDF file, never rebuilds the literal table, so that no literal of the graph is found any more.
\<close>

theorem binary_graph_forgets_literals:
  assumes "node_codes code decode" and "made g0" and "re_graph e = rdf_setDBDir g0 dir" and "persistable fs e"
    and "re_format e = Named FF_BINARY"
  shows "\<exists>fs' e1 e2. entry_flush fs e = Inr fs' \<and> entry_deserialize decode (entry_serialize code e @ rest) = Inr (e1, rest)
    \<and> entry_ensureFullyLoaded decode parse parse_file fs' (entry_setDBDir e1 dir) = Some (Inr e2)
    \<and> restored decode (re_graph e) (re_graph e2) \<and> (\<forall>datatype data. node_from_rdf_literal (re_graph e2) datatype data = - 1)"
proof -
  let ?g = "re_graph e"
  have inv: "rdf_inv decode ?g" unfolding assms(3) by (rule rdf_inv_setDBDir [OF made_inv [OF assms(2)]])
  have d: "dbDir (rg_store ?g) = dir" using assms(3) by (simp add: rdf_setDBDir_def setDBDir_def)
  note p = assms(4) [unfolded persistable_def Let_def d]
  let ?fs = "put fs (graphPath dir (fileName (rg_store ?g))) (graph_bytes (rg_store ?g))"
  obtain q where w: "gf_ensureLoaded ?fs (setDBDir (gf_emptied (rg_store ?g)) dir) =
      Inr \<lparr>storage = q, fileName = fileName (rg_store ?g), dbDir = dir, loaded = True\<rparr>" "same_storage (pg ?g) q"
    using load_written [OF rdf_invD(2) [OF inv], of ?fs] p unfolding d by auto
  note fl = entry_flushed [OF inv assms(4), unfolded d]
  note rd = codec.rd_wr [OF codec_rdf_entry [OF assms(1)] persistable_fits [OF inv assms(4)], of rest]
  define g1 where "g1 = (setLoadedFromRdfFile (rdf_setDBDir (rdf_emptied ?g) dir) False)\<lparr>rg_loaded := True,
    rg_store := \<lparr>storage = q, fileName = fileName (rg_store ?g), dbDir = dir, loaded = True\<rparr>\<rparr>"
  have f: "rg_nodes g1 = rg_nodes ?g" "rg_iri g1 = rg_iri ?g" "pg g1 = q" "rg_literals g1 = Map.empty"
    by (simp_all add: g1_def setLoadedFromRdfFile_def rdf_setDBDir_def rdf_emptied_def mk_rdfGraph_def)
  have "entry_ensureFullyLoaded decode parse parse_file ?fs (entry_setDBDir (e\<lparr>re_graph := rdf_emptied ?g\<rparr>) dir) = Some (Inr (e\<lparr>re_graph := g1\<rparr>))"
    using w(1) assms(5)
    by (simp add: entry_ensureFullyLoaded_def entry_setDBDir_def rdf_ensureLoaded_def g1_def setLoadedFromRdfFile_def rdf_setDBDir_def
        rdf_emptied_def mk_rdfGraph_def Let_def)
  moreover have "restored decode ?g g1" using w(2) f by (intro restoredI [OF inv]) simp_all
  ultimately show ?thesis using fl rd f(4) by (auto simp: node_from_rdf_literal_def Let_def)
qed

lemma sample_entry:
  obtains g where "made g" and "persistable sample_fs \<lparr>re_name = ''g'', re_graph = rdf_setDBDir g ''d'', re_format = format\<rparr>
      = enum_ok file_formats format" and "node_from_rdf_literal g (XSD @ ''int'') (u32_bytes 4294967291) = 2"
    and "fileName (rg_store g) = ''g''"
proof -
  let ?pd = "setBlobCapacity mk_propData 1048576"
  obtain h where h: "mk_graph 6 3 0 0 = Inr h" "rdf_create ''g'' ''u'' [] 6 3 3 = Inr (sample_rdf ?pd h)" using sample_create .
  obtain g where g: "addTriples (sample_rdf ?pd h) sample_triples = Inr g" "propData (pg g) = ?pd" "typed (pg g)" "strings_fit (rg_nodes g)"
    "rg_iri g = ''u''" "rg_fileName g = ''g''" "rg_sourceFileName g = ''g''" "fileName (rg_store g) = ''g''"
    "node_from_rdf_literal g (XSD @ ''int'') (u32_bytes 4294967291) = 2"
    using sample_graph_run [of ?pd] h(1) by (auto simp: okE_iff simp del: addTriples.simps)
  have i32: "is_i32 6" "is_i32 3" by (simp_all add: is_i32_def)
  have "made g" unfolding made_def using h(2) g(1) i32 by blast
  moreover have "pd_ok ?pd" by (simp add: pd_ok_def setBlobCapacity_def mk_propData_def)
  ultimately show thesis
    using g by (intro that) (simp_all add: persistable_def Let_def rdf_setDBDir_def setDBDir_def sample_fs_def)
qed

theorem graph_survives_restart_witness:
  "\<exists>e fs' e1 e2. entry_flush sample_fs e = Inr fs' \<and> entry_deserialize sample_decode (entry_serialize sample_code e @ [7]) = Inr (e1, [7])
    \<and> entry_ensureFullyLoaded sample_decode (\<lambda>_. []) (\<lambda>_. []) fs' (entry_setDBDir e1 ''d'') = Some (Inr e2)
    \<and> node_from_rdf_literal (re_graph e2) (XSD @ ''int'') (u32_bytes 4294967291) = 2"
proof -
  obtain g where g: "made g" "persistable sample_fs \<lparr>re_name = ''g'', re_graph = rdf_setDBDir g ''d'', re_format = Named FF_TURTLE\<rparr>
      = enum_ok file_formats (Named FF_TURTLE)" "node_from_rdf_literal g (XSD @ ''int'') (u32_bytes 4294967291) = 2"
    using sample_entry [of "Named FF_TURTLE"] by metis
  let ?e = "\<lparr>re_name = ''g'', re_graph = rdf_setDBDir g ''d'', re_format = Named FF_TURTLE\<rparr>"
  have "persistable sample_fs ?e" using g(2) by (simp add: enum_ok_def file_formats_def)
  from graph_survives_restart [OF sample_node_codes g(1) _ this _ refl, of "''d''" "[7]" "\<lambda>_. []" "\<lambda>_. []"]
  obtain fs' e1 e2 where e: "entry_flush sample_fs ?e = Inr fs'" "entry_deserialize sample_decode (entry_serialize sample_code ?e @ [7]) = Inr (e1, [7])"
    "entry_ensureFullyLoaded sample_decode (\<lambda>_. []) (\<lambda>_. []) fs' (entry_setDBDir e1 ''d'') = Some (Inr e2)"
    "rg_nodes (re_graph e2) = rg_nodes g" "rg_literals (re_graph e2) = rg_literals g"
    by (auto simp: sample_fs_def restored_def rdf_setDBDir_def)
  then have "node_from_rdf_literal (re_graph e2) (XSD @ ''int'') (u32_bytes 4294967291) = 2"
    using g(3) by (simp add: node_from_rdf_literal_def Let_def split: if_splits)
  with e show ?thesis by blast
qed

theorem binary_graph_forgets_literals_witness:
  "\<exists>e fs' e1 e2. node_from_rdf_literal (re_graph e) (XSD @ ''int'') (u32_bytes 4294967291) = 2 \<and> entry_flush sample_fs e = Inr fs'
    \<and> entry_deserialize sample_decode (entry_serialize sample_code e @ [7]) = Inr (e1, [7])
    \<and> entry_ensureFullyLoaded sample_decode (\<lambda>_. []) (\<lambda>_. []) fs' (entry_setDBDir e1 ''d'') = Some (Inr e2)
    \<and> node_from_rdf_literal (re_graph e2) (XSD @ ''int'') (u32_bytes 4294967291) = - 1"
proof -
  obtain g where g: "made g" "persistable sample_fs \<lparr>re_name = ''g'', re_graph = rdf_setDBDir g ''d'', re_format = Named FF_BINARY\<rparr>
      = enum_ok file_formats (Named FF_BINARY)" "node_from_rdf_literal g (XSD @ ''int'') (u32_bytes 4294967291) = 2"
    using sample_entry [of "Named FF_BINARY"] by metis
  let ?e = "\<lparr>re_name = ''g'', re_graph = rdf_setDBDir g ''d'', re_format = Named FF_BINARY\<rparr>"
  have "persistable sample_fs ?e" using g(2) by (simp add: enum_ok_def file_formats_def)
  from binary_graph_forgets_literals [OF sample_node_codes g(1) _ this, of "''d''" "[7]" "\<lambda>_. []" "\<lambda>_. []"]
  obtain fs' e1 e2 where "entry_flush sample_fs ?e = Inr fs'" "entry_deserialize sample_decode (entry_serialize sample_code ?e @ [7]) = Inr (e1, [7])"
    "entry_ensureFullyLoaded sample_decode (\<lambda>_. []) (\<lambda>_. []) fs' (entry_setDBDir e1 ''d'') = Some (Inr e2)"
    "node_from_rdf_literal (re_graph e2) (XSD @ ''int'') (u32_bytes 4294967291) = - 1"
    by auto
  moreover have "node_from_rdf_literal (re_graph ?e) (XSD @ ''int'') (u32_bytes 4294967291) = 2"
    using g(3) by (simp add: node_from_rdf_literal_def rdf_setDBDir_def Let_def split: if_splits)
  ultimately show ?thesis by blast
qed

end
