(* ===== verification/Catalog_Store.thy ===== *)
theory Catalog_Store
  imports Graph_Catalog
begin

text \<open>
  The catalog (\<open>src/include/lingodb/catalog/Catalog.h\<close>, \<open>src/src/catalog/Catalog.cpp\<close>): named entries, written to \<open>db.lingodb\<close> in the
  database directory by \<open>persist\<close> and read by \<open>create\<close>.  The virtual functions of \<open>CatalogEntry\<close> are a record of functions;
  the instance given here has the entries of graphs, functions and the node index.  Table and hash index entries hold Arrow
  data and are not part of it.  The back pointer to the catalog that \<open>setCatalog\<close> sets is not modelled.
\<close>

section \<open>Entries\<close>

record 'e entry_class =
  getName :: "'e \<Rightarrow> string"
  entryType :: "'e \<Rightarrow> int"
  serializeEntry :: "'e \<Rightarrow> byte list"
  deserializeEntry :: "int \<Rightarrow> 'e option reader"
  e_setDBDir :: "'e \<Rightarrow> string \<Rightarrow> 'e"
  e_setShouldPersist :: "file_system \<Rightarrow> 'e \<Rightarrow> bool \<Rightarrow> (file_system \<times> 'e) res"
  e_flush :: "file_system \<Rightarrow> 'e \<Rightarrow> file_system res"
  e_ensureFullyLoaded :: "file_system \<Rightarrow> 'e \<Rightarrow> 'e res option"

definition ce_serialize :: "'e entry_class \<Rightarrow> 'e \<Rightarrow> byte list" where
  "ce_serialize cls e = writeProperty 1 ser_u8 (entryType cls e) @ serializeEntry cls e"

text \<open>A shared pointer to an entry; the object that is read may itself turn out to be null.\<close>

definition ce_deserialize :: "'e entry_class \<Rightarrow> 'e option reader" where
  "ce_deserialize cls f = bindR (readProperty 1 de_u8 f) (\<lambda>t f. deserializeEntry cls t f)"

definition ce_read_ptr :: "'e entry_class \<Rightarrow> 'e option reader" where
  "ce_read_ptr cls f = bindR (de_ptr (ce_deserialize cls) f) (\<lambda>p f. Inr (case p of Some e \<Rightarrow> e | None \<Rightarrow> None, f))"

section \<open>The catalog\<close>

record 'e catalog =
  shouldPersist :: bool
  cat_dbDir :: string
  entries :: "string \<rightharpoonup> 'e"

definition binaryVersion :: int where
  "binaryVersion = 3"

definition createEmpty :: "'e catalog" where
  "createEmpty = \<lparr>shouldPersist = False, cat_dbDir = [], entries = Map.empty\<rparr>"

definition getEntry :: "'e catalog \<Rightarrow> string \<Rightarrow> 'e option" where
  "getEntry c name = entries c name"

definition getTypedEntry :: "'e entry_class \<Rightarrow> int list \<Rightarrow> 'e catalog \<Rightarrow> string \<Rightarrow> 'e option" where
  "getTypedEntry cls entryTypes c name = (case entries c name of None \<Rightarrow> None
     | Some e \<Rightarrow> if list_ex (\<lambda>t. entryType cls e = t) entryTypes then Some e else None)"

definition insertEntry :: "'e entry_class \<Rightarrow> file_system \<Rightarrow> 'e catalog \<Rightarrow> 'e \<Rightarrow> bool \<Rightarrow> (file_system \<times> 'e catalog) res" where
  "insertEntry cls fs c e replace =
     (if entries c (getName cls e) \<noteq> None \<and> \<not> replace then Inl (RuntimeError ''catalog entry already exists'')
      else bindE (e_setShouldPersist cls fs (e_setDBDir cls e (cat_dbDir c)) (shouldPersist c)) (\<lambda>(fs, e).
        Inr (fs, c\<lparr>entries := (entries c)(getName cls e \<mapsto> e)\<rparr>)))"

text \<open>The order in which an \<open>unordered_map\<close> is iterated is an argument.\<close>

primrec setPersistAll :: "'e entry_class \<Rightarrow> bool \<Rightarrow> file_system \<Rightarrow> (string \<rightharpoonup> 'e) \<Rightarrow> (string \<times> 'e) list \<Rightarrow> (file_system \<times> (string \<rightharpoonup> 'e)) res" where
  "setPersistAll cls b fs m [] = Inr (fs, m)"
| "setPersistAll cls b fs m (ke # es) =
     bindE (e_setShouldPersist cls fs (snd ke) b) (\<lambda>(fs, e). setPersistAll cls b fs (m(fst ke \<mapsto> e)) es)"

definition setShouldPersist :: "'e entry_class \<Rightarrow> (string \<times> 'e) list \<Rightarrow> file_system \<Rightarrow> 'e catalog \<Rightarrow> bool \<Rightarrow> (file_system \<times> 'e catalog) res" where
  "setShouldPersist cls es fs c b =
     bindE (setPersistAll cls b fs (entries c) es) (\<lambda>(fs, m). Inr (fs, c\<lparr>shouldPersist := b, entries := m\<rparr>))"

definition cat_serialize :: "'e entry_class \<Rightarrow> (string \<times> 'e) list \<Rightarrow> byte list" where
  "cat_serialize cls es = writeProperty 0 ser_size binaryVersion
     @ writeProperty 1 (ser_map ser_string (ser_ptr (ce_serialize cls))) (map (\<lambda>(k, e). (k, Some e)) es)"

definition cat_deserialize :: "'e entry_class \<Rightarrow> (string \<rightharpoonup> 'e option) reader" where
  "cat_deserialize cls f = bindR (readProperty 0 de_size f) (\<lambda>version f.
     if version \<noteq> binaryVersion then Inl (RuntimeError ''Catalog: version mismatch'')
     else readProperty 1 (de_map de_string (ce_read_ptr cls)) f)"

definition catalogPath :: "string \<Rightarrow> string" where
  "catalogPath dir = dir @ ''/db.lingodb''"

primrec flush_all :: "'e entry_class \<Rightarrow> file_system \<Rightarrow> (string \<times> 'e) list \<Rightarrow> file_system res" where
  "flush_all cls fs [] = Inr fs"
| "flush_all cls fs (ke # es) = bindE (e_flush cls fs (snd ke)) (\<lambda>fs. flush_all cls fs es)"

definition persist :: "'e entry_class \<Rightarrow> (string \<Rightarrow> bool) \<Rightarrow> (string \<times> 'e) list \<Rightarrow> file_system \<Rightarrow> 'e catalog \<Rightarrow> file_system res" where
  "persist cls dirExists es fs c =
     (if \<not> shouldPersist c then Inr fs
      else if \<not> dirExists (cat_dbDir c) then Inl (RuntimeError ''Catalog: dbDir does not exist'')
      else bindE (flush_all cls fs es) (\<lambda>fs.
        let path = catalogPath (cat_dbDir c) in
        if \<not> fs_writable fs path then Inl (RuntimeError ''Failed to open file for writing'')
        else Inr (fs\<lparr>fs_files := (fs_files fs)(path \<mapsto> writeProperty 0 (ser_object (cat_serialize cls)) es),
                     fs_mtime := (fs_mtime fs)(path := fs_now fs)\<rparr>)))"

text \<open>Reading from a file instead of a buffer changes only what is said about missing bytes.\<close>

definition from_file :: "'a reader \<Rightarrow> byte list \<Rightarrow> 'a res" where
  "from_file rd f = (case rd f of
       Inr (x, _) \<Rightarrow> Inr x
     | Inl e \<Rightarrow> Inl (if e = RuntimeError ''Read past end of buffer'' then RuntimeError ''Failed to read from file'' else e))"

primrec load_all :: "'e entry_class \<Rightarrow> file_system \<Rightarrow> (string \<rightharpoonup> 'e) \<Rightarrow> string list \<Rightarrow> (string \<rightharpoonup> 'e) res option" where
  "load_all cls fs m [] = Some (Inr m)"
| "load_all cls fs m (k # ks) = (case m k of
       None \<Rightarrow> load_all cls fs m ks
     | Some e \<Rightarrow> bindOE (e_ensureFullyLoaded cls fs e) (\<lambda>e. load_all cls fs (m(k \<mapsto> e)) ks))"

text \<open>\<open>order\<close> is the order in which the entries that were read are iterated; a null entry is dereferenced.\<close>

definition cat_create :: "'e entry_class \<Rightarrow> ((string \<rightharpoonup> 'e option) \<Rightarrow> string list) \<Rightarrow> file_system \<Rightarrow> string \<Rightarrow> bool \<Rightarrow> 'e catalog res option" where
  "cat_create cls order fs dir eagerLoading = (case fs_files fs (catalogPath dir) of
       None \<Rightarrow> Some (Inr (createEmpty\<lparr>cat_dbDir := dir\<rparr>))
     | Some f \<Rightarrow>
         if \<not> fs_readable fs (catalogPath dir) then Some (Inl (RuntimeError ''Failed to open file for reading''))
         else bindOE (Some (from_file (readProperty 0 (de_object (cat_deserialize cls))) f)) (\<lambda>m.
           if list_ex (\<lambda>k. m k = Some None) (order m) then Some (Inl OutOfBounds)
           else let ks = order m; m = (\<lambda>k. case m k of Some (Some e) \<Rightarrow> Some (e_setDBDir cls e dir) | _ \<Rightarrow> None) in
             if eagerLoading
             then bindOE (load_all cls fs m ks) (\<lambda>m. Some (Inr \<lparr>shouldPersist = False, cat_dbDir = dir, entries = m\<rparr>))
             else Some (Inr \<lparr>shouldPersist = False, cat_dbDir = dir, entries = m\<rparr>)))"

section \<open>What the catalog relies on\<close>

text \<open>
  An entry class for which every entry that satisfies \<open>ok\<close> is read back as \<open>view\<close> says, and keeps its name when its
  directory is set.
\<close>

locale stored_entries =
  fixes cls :: "'e entry_class" and ok :: "'e \<Rightarrow> bool" and view :: "'e \<Rightarrow> 'e"
  assumes type_u8: "ok e \<Longrightarrow> 0 \<le> entryType cls e \<and> entryType cls e < 2 ^ 8"
    and read_back: "ok e \<Longrightarrow> deserializeEntry cls (entryType cls e) (serializeEntry cls e @ rest) = Inr (Some (view e), rest)"
    and view_name: "ok e \<Longrightarrow> getName cls (view e) = getName cls e"
    and dir_name: "getName cls (e_setDBDir cls e dir) = getName cls e"
begin

lemma codec_entry_ptr: "codec (ser_ptr (ce_serialize cls)) (ce_read_ptr cls) (\<lambda>p. \<exists>e. p = Some e \<and> ok e) (map_option view)"
proof
  fix p rest assume "\<exists>e. p = Some e \<and> ok e"
  then obtain e where e: "p = Some e" "ok e" by blast
  have "ce_deserialize cls (ce_serialize cls e @ r) = Inr (Some (view e), r)" for r
    using codec.rd_wr [OF codec_property [OF codec_u8], of 1 "entryType cls e"] type_u8 [OF e(2)] read_back [OF e(2), of r]
    by (simp add: ce_serialize_def ce_deserialize_def)
  then have "codec (ce_serialize cls) (ce_deserialize cls) (\<lambda>x. x = e) (\<lambda>_. Some (view e))" by unfold_locales simp
  from codec.rd_wr [OF codec_ptr [OF this], of p rest] e(1)
  show "ce_read_ptr cls (ser_ptr (ce_serialize cls) p @ rest) = Inr (map_option view p, rest)" by (simp add: ce_read_ptr_def)
qed

lemma catalog_read_back:
  assumes "list_all (\<lambda>(k, e). len64 k \<and> ok e) es" and "distinct (map fst es)" and "len64 es"
  shows "readProperty 0 (de_object (cat_deserialize cls)) (writeProperty 0 (ser_object (cat_serialize cls)) es @ rest)
    = Inr (\<lambda>k. map_option (\<lambda>e. Some (view e)) (map_of es k), rest)"
proof -
  let ?es = "map (\<lambda>(k, e). (k, Some e)) es"
  have ok: "list_all (\<lambda>(k, p). len64 k \<and> (\<exists>e. p = Some e \<and> ok e)) ?es \<and> distinct (map fst ?es) \<and> len64 ?es"
    using assms by (auto simp: list_all_iff o_def case_prod_unfold)
  have "map_of (map (map_prod (\<lambda>k. k) (map_option view)) ?es) k = map_option (\<lambda>e. Some (view e)) (map_of es k)" for k
    by (induction es) auto
  then have m: "map_of (map (map_prod (\<lambda>k. k) (map_option view)) ?es) = (\<lambda>k. map_option (\<lambda>e. Some (view e)) (map_of es k))" by blast
  note rd = codec.rd_wr [OF codec_property [OF codec_map [OF codec_string codec_entry_ptr]] ok, unfolded m]
  have "codec (cat_serialize cls) (cat_deserialize cls) (\<lambda>x. x = es) (\<lambda>_ k. map_option (\<lambda>e. Some (view e)) (map_of es k))"
    using rd by unfold_locales (simp add: cat_serialize_def cat_deserialize_def binaryVersion_def codec.rd_wr [OF codec_property [OF codec_size]])
  from codec.rd_wr [OF codec_property [OF codec_object [OF this]], of 0 es rest] show ?thesis by simp
qed

text \<open>What was stored is found again, as it comes back from the file and with the directory set.\<close>

lemma restart:
  assumes "fs_files fs (catalogPath dir) = Some (writeProperty 0 (ser_object (cat_serialize cls)) es)" and "list_all (\<lambda>(k, e). len64 k \<and> ok e) es"
    and "distinct (map fst es)" and "len64 es" and "fs_readable fs (catalogPath dir)"
  shows "cat_create cls ks fs dir eager =
    (let m = \<lambda>k. map_option (\<lambda>e. e_setDBDir cls (view e) dir) (map_of es k) in
     bindOE (if eager then load_all cls fs m (ks (\<lambda>k. map_option (\<lambda>e. Some (view e)) (map_of es k))) else Some (Inr m))
       (\<lambda>m. Some (Inr \<lparr>shouldPersist = False, cat_dbDir = dir, entries = m\<rparr>)))"
proof -
  note rd = catalog_read_back [OF assms(2-4), of "[]"]
  have "(\<lambda>k. case map_option (\<lambda>e. Some (view e)) (map_of es k) of None \<Rightarrow> None | Some None \<Rightarrow> None | Some (Some e) \<Rightarrow> Some (e_setDBDir cls e dir))
      = (\<lambda>k. map_option (\<lambda>e. e_setDBDir cls (view e) dir) (map_of es k))"
    by (rule ext) (simp split: option.split)
  then show ?thesis using rd assms(1,5) by (simp add: cat_create_def from_file_def list_ex_iff Let_def)
qed

lemma persist_file:
  assumes "shouldPersist c" and "persist cls dirExists es fs c = Inr fs'"
  shows "fs_files fs' (catalogPath (cat_dbDir c)) = Some (writeProperty 0 (ser_object (cat_serialize cls)) es)"
  using assms by (auto simp: persist_def Let_def bindE_eq_Inr_iff split: if_splits)

lemma restart_names:
  assumes "\<And>k e. entries c k = Some e \<Longrightarrow> getName cls e = k" and "entries c = map_of es" and "list_all (\<lambda>(k, e). len64 k \<and> ok e) es"
    and "map_option (\<lambda>e. e_setDBDir cls (view e) dir) (entries c k) = Some e"
  shows "getName cls e = k"
proof -
  obtain e0 where e0: "entries c k = Some e0" "e = e_setDBDir cls (view e0) dir" using assms(4) by blast
  have "(k, e0) \<in> set es" using map_of_SomeD e0(1) assms(2) by simp
  then have "ok e0" using assms(3) by (auto simp: list_all_iff)
  then show ?thesis using view_name [of e0] dir_name [of "view e0" dir] assms(1) [OF e0(1)] e0(2) by simp
qed

end

section \<open>Functions, graphs and the node index\<close>

record function_entry =
  fe_name :: string
  fe_code :: string
  fe_returnType :: catalog_type
  fe_argumentTypes :: "catalog_type list"

definition function_serialize :: "function_entry \<Rightarrow> byte list" where
  "function_serialize e = writeProperty 1 ser_u8 3 @ writeProperty 2 ser_string (fe_name e) @ writeProperty 3 ser_string (fe_code e)
     @ writeProperty 4 (ser_object type_serialize) (fe_returnType e) @ writeProperty 5 (ser_vec (ser_object type_serialize)) (fe_argumentTypes e)"

definition c_function_deserialize :: "function_entry reader" where
  "c_function_deserialize f = bindR (readProperty 2 de_string f) (\<lambda>name f. bindR (readProperty 3 de_string f) (\<lambda>c f.
     bindR (readProperty 4 (de_object type_deserialize) f) (\<lambda>r f. bindR (readProperty 5 (de_vec (de_object type_deserialize)) f) (\<lambda>args f.
     Inr (\<lparr>fe_name = name, fe_code = c, fe_returnType = r, fe_argumentTypes = args\<rparr>, f)))))"

definition function_deserialize :: "function_entry reader" where
  "function_deserialize f = bindR (readProperty 1 de_u8 f) (\<lambda>t f.
     if t = 3 then c_function_deserialize f else Inl (RuntimeError ''Should not happen''))"

text \<open>The pointer to the index, whose mappings are pointers as well; \<open>order\<close> is the order in which its table is iterated.\<close>

type_synonym index_table = "string \<rightharpoonup> id_mapping option"

definition index_entry_serialize :: "(index_table \<Rightarrow> string list) \<Rightarrow> index_table option \<Rightarrow> byte list" where
  "index_entry_serialize order = writeProperty 2 (ser_ptr (\<lambda>m. index_serialize (map (\<lambda>k. (k, the (m k))) (order m))))"

definition index_entry_deserialize :: "index_table option reader" where
  "index_entry_deserialize = readProperty 2 (de_ptr index_deserialize)"

datatype db_entry = FunctionEntry function_entry | GraphEntry rdf_entry | IndexEntry "index_table option"

definition ENTRY_NAME :: string where
  "ENTRY_NAME = ''__gengodb_node_index__''"

text \<open>The readers of the table and hash index entries are the argument \<open>other\<close>.\<close>

definition db_deserialize :: "(int \<Rightarrow> node_type) \<Rightarrow> (int \<Rightarrow> db_entry option reader) \<Rightarrow> int \<Rightarrow> db_entry option reader" where
  "db_deserialize decode other t f =
     (if t = 0 then Inr (None, f)
      else if t = 1 \<or> t = 2 then other t f
      else if t = 3 then bindR (function_deserialize f) (\<lambda>e f. Inr (Some (FunctionEntry e), f))
      else if t = 4 then bindR (entry_deserialize decode f) (\<lambda>e f. Inr (Some (GraphEntry e), f))
      else if t = 5 then bindR (index_entry_deserialize f) (\<lambda>i f. Inr (Some (IndexEntry i), f))
      else Inl (RuntimeError ''deserialize: unknown catalog entry type''))"

definition db_class ::
  "(node_type \<Rightarrow> int) \<Rightarrow> (int \<Rightarrow> node_type) \<Rightarrow> (index_table \<Rightarrow> string list) \<Rightarrow> (int \<Rightarrow> db_entry option reader) \<Rightarrow> (string \<Rightarrow> quad_item list) \<Rightarrow> (string \<Rightarrow> quad_item list) \<Rightarrow> db_entry entry_class" where
  "db_class code decode order other parse parse_file = \<lparr>
     getName = (\<lambda>e. case e of FunctionEntry x \<Rightarrow> fe_name x | GraphEntry g \<Rightarrow> re_name g | IndexEntry _ \<Rightarrow> ENTRY_NAME),
     entryType = (\<lambda>e. case e of FunctionEntry _ \<Rightarrow> 3 | GraphEntry _ \<Rightarrow> 4 | IndexEntry _ \<Rightarrow> 5),
     serializeEntry = (\<lambda>e. case e of FunctionEntry x \<Rightarrow> function_serialize x | GraphEntry g \<Rightarrow> entry_serialize code g
        | IndexEntry i \<Rightarrow> index_entry_serialize order i),
     deserializeEntry = db_deserialize decode other,
     e_setDBDir = (\<lambda>e dir. case e of GraphEntry g \<Rightarrow> GraphEntry (entry_setDBDir g dir) | _ \<Rightarrow> e),
     e_setShouldPersist = (\<lambda>fs e b. case e of
          GraphEntry g \<Rightarrow> bindE (entry_setShouldPersist fs g b) (\<lambda>(fs, g). Inr (fs, GraphEntry g)) | _ \<Rightarrow> Inr (fs, e)),
     e_flush = (\<lambda>fs e. case e of GraphEntry g \<Rightarrow> entry_flush fs g | _ \<Rightarrow> Inr fs),
     e_ensureFullyLoaded = (\<lambda>fs e. case e of
          GraphEntry g \<Rightarrow> bindOE (entry_ensureFullyLoaded decode parse parse_file fs g) (\<lambda>g. Some (Inr (GraphEntry g))) | _ \<Rightarrow> Some (Inr e))\<rparr>"

definition function_fits :: "function_entry \<Rightarrow> bool" where
  "function_fits e \<longleftrightarrow> len64 (fe_name e) \<and> len64 (fe_code e) \<and> type_fits (fe_returnType e)
     \<and> list_all type_fits (fe_argumentTypes e) \<and> len64 (fe_argumentTypes e)"

lemma codec_function: "codec function_serialize function_deserialize function_fits (\<lambda>x. x)"
  by unfold_locales
     (simp add: function_serialize_def function_deserialize_def c_function_deserialize_def function_fits_def rd_property [OF codec_u8]
       rd_property [OF codec_string] rd_property [OF codec_object [OF codec_type]] rd_property [OF codec_types])

definition mapping_fits :: "id_mapping \<Rightarrow> bool" where
  "mapping_fits m \<longleftrightarrow> m = mapping_of (local_to_global m) \<and> list_all is_i64 (local_to_global m) \<and> len64 (local_to_global m)"

definition index_fits :: "(index_table \<Rightarrow> string list) \<Rightarrow> index_table \<Rightarrow> bool" where
  "index_fits order m \<longleftrightarrow> distinct (order m) \<and> set (order m) = dom m \<and> len64 (order m)
     \<and> list_all (\<lambda>k. len64 k \<and> pred_option mapping_fits (the (m k))) (order m)"

lemma codec_index: "codec (\<lambda>m. index_serialize (map (\<lambda>k. (k, the (m k))) (order m))) index_deserialize (index_fits order) (\<lambda>m. m)"
proof
  fix m rest assume ok: "index_fits order m"
  let ?es = "map (\<lambda>k. (k, the (m k))) (order m)"
  have "codec mapping_serialize mapping_deserialize mapping_fits (\<lambda>m. m)"
    by unfold_locales (rule codec.rd_wr [OF codec_mapping], auto simp: mapping_fits_def)
  note c = codec_map [OF codec_string codec_ptr [OF this]]
  have "map_of ?es = m"
  proof
    fix k show "map_of ?es k = m k"
      using ok by (cases "m k") (auto simp: index_fits_def map_of_map_restrict restrict_map_def)
  qed
  moreover have "list_all (\<lambda>(k, v). len64 k \<and> pred_option mapping_fits v) ?es \<and> distinct (map fst ?es) \<and> len64 ?es"
    using ok by (simp add: index_fits_def list_all_iff comp_def)
  ultimately show "index_deserialize (index_serialize ?es @ rest) = Inr (m, rest)"
    using rd_property [OF c, of _ ?es rest] by (simp add: index_serialize_def index_deserialize_def option_map_id map_prod_ident)
qed

lemma codec_index_entry: "codec (index_entry_serialize order) index_entry_deserialize (pred_option (index_fits order)) (\<lambda>x. x)"
  unfolding index_entry_serialize_def index_entry_deserialize_def by (rule codec_property [OF codec_ptr_id [OF codec_index]]) simp_all

definition db_fits :: "(index_table \<Rightarrow> string list) \<Rightarrow> db_entry \<Rightarrow> bool" where
  "db_fits order e = (case e of FunctionEntry x \<Rightarrow> function_fits x | GraphEntry g \<Rightarrow> entry_fits g | IndexEntry i \<Rightarrow> pred_option (index_fits order) i)"

definition db_view :: "db_entry \<Rightarrow> db_entry" where
  "db_view e = (case e of GraphEntry g \<Rightarrow> GraphEntry (g\<lparr>re_graph := rdf_emptied (re_graph g)\<rparr>) | _ \<Rightarrow> e)"

interpretation db: stored_entries "db_class code decode order other parse parse_file" "\<lambda>e. node_codes code decode \<and> db_fits order e" db_view
  for code decode order other parse parse_file
proof
  fix e rest dir
  let ?cls = "db_class code decode order other parse parse_file"
  show "getName ?cls (e_setDBDir ?cls e dir) = getName ?cls e"
    by (cases e) (simp_all add: db_class_def entry_setDBDir_def)
  assume ok: "node_codes code decode \<and> db_fits order e"
  show "0 \<le> entryType ?cls e \<and> entryType ?cls e < 2 ^ 8" by (cases e) (simp_all add: db_class_def)
  show "getName ?cls (db_view e) = getName ?cls e" by (cases e) (simp_all add: db_class_def db_view_def)
  show "deserializeEntry ?cls (entryType ?cls e) (serializeEntry ?cls e @ rest) = Inr (Some (db_view e), rest)"
  proof (cases e)
    case (FunctionEntry x)
    then show ?thesis using ok codec.rd_wr [OF codec_function, of x rest]
      by (simp add: db_class_def db_deserialize_def db_fits_def db_view_def)
  next
    case (GraphEntry g)
    then show ?thesis using ok codec.rd_wr [OF codec_rdf_entry [OF conjunct1 [OF ok]], of g rest]
      by (simp add: db_class_def db_deserialize_def db_fits_def db_view_def)
  next
    case (IndexEntry i)
    then show ?thesis using ok codec.rd_wr [OF codec_index_entry, of order i rest]
      by (simp add: db_class_def db_deserialize_def db_fits_def db_view_def)
  qed
qed

section \<open>New graphs\<close>

lemma new_storage:
  assumes "mk_pgraph nc rc pc = Inr q"
  shows "pg_nodeCap q = nc" and "pg_relCap q = rc" and "propCap q = pc" and "typed q" and "pd_ok (propData q)"
  using assms
  by (auto simp: mk_pgraph_def mk_graph_def typed_def bindE_eq_Inr_iff zero_node_def zero_rel_def zero_prop_def is_i32_def is_u32_def neo_rel_ok_def
      pack_rel_def neo_prop_ok_def pack_prop_def pd_ok_def setBlobCapacity_def mk_propData_def list_all_iff split: if_splits)

lemma new_graph:
  assumes "rdf_create name iri src nc rc pc = Inr g"
  shows "typed (pg g)" and "pd_ok (propData (pg g))" and "gf_emptied (rg_store g) = rg_store g" and "fileName (rg_store g) = name"
    and "\<not> rg_loaded g" and "rg_literals g = Map.empty" and "rg_nodes g = empty_dict"
proof -
  have g: "\<exists>i st. g = mk_rdfGraph i st name src" "rg_store g = \<lparr>storage = pg g, fileName = name, dbDir = [], loaded = False\<rparr>"
    and p: "mk_pgraph nc rc pc = Inr (pg g)"
    using assms by (auto simp: rdf_create_def mk_graphFile_def mk_rdfGraph_def bindE_eq_Inr_iff split: if_splits)
  note q = new_storage [OF p]
  show "typed (pg g)" "pd_ok (propData (pg g))" by (rule q(4), rule q(5))
  show n: "fileName (rg_store g) = name" by (subst g(2)) simp
  show "gf_emptied (rg_store g) = rg_store g" using g(2) [symmetric] n p q(1-3) by (simp add: gf_emptied_def mk_graphFile_def)
  show "\<not> rg_loaded g" "rg_literals g = Map.empty" "rg_nodes g = empty_dict" using g(1) by (auto simp: mk_rdfGraph_def)
qed

section \<open>Properties\<close>

text \<open>
  The catalog survives a restart: after \<open>persist\<close>, \<open>Catalog::create\<close> on the same directory finds under every
  name a function or the node index unchanged, and a graph entry with its dictionary, capacities and format, ready to load its contents from that directory,
  and finds nothing under any other name.
\<close>

theorem catalog_survives_restart:
  assumes "node_codes code decode" and "shouldPersist c" and "entries c = map_of es" and "list_all (\<lambda>(k, e). len64 k \<and> db_fits order e) es"
    and "distinct (map fst es)" and "len64 es" and "persist (db_class code decode order other parse parse_file) dirExists es fs c = Inr fs'"
    and "fs_readable fs' (catalogPath (cat_dbDir c))"
  shows "\<exists>c'. cat_create (db_class code decode order other parse parse_file) ks fs' (cat_dbDir c) False = Some (Inr c')
    \<and> getEntry c' name = (case getEntry c name of None \<Rightarrow> None
        | Some (GraphEntry g) \<Rightarrow> Some (GraphEntry (g\<lparr>re_graph := rdf_setDBDir (rdf_emptied (re_graph g)) (cat_dbDir c)\<rparr>))
        | Some e \<Rightarrow> Some e)"
proof -
  have es: "list_all (\<lambda>(k, e). len64 k \<and> node_codes code decode \<and> db_fits order e) es" using assms(1,4) by (auto simp: list_all_iff)
  note r = db.restart [OF db.persist_file [OF assms(2,7)] es assms(5,6,8), of ks False]
  show ?thesis
    unfolding r by (auto simp: assms(3) getEntry_def Let_def db_class_def db_view_def entry_setDBDir_def split: option.split db_entry.split)
qed

text \<open>
  C31. A graph inserted into a catalog that already persists its entries never sees its source: \<open>insertEntry\<close> flushes the
  new, still empty graph, whose file is then newer than the source, so that \<open>ensureFullyLoaded\<close> takes the empty file for a cache and
  returns a graph without triples, whatever the source contains.
\<close>

theorem persistent_insert_hides_source:
  assumes "createFromCreateRdfGraphDef d = Inr e" and "is_i32 (crd_nodeCapacity d)" and "is_i32 (crd_relCapacity d)" and "is_i32 (crd_propCapacity d)"
    and "crd_format d \<noteq> Named FF_BINARY" and "crd_name d \<noteq> []" and "shouldPersist c" and "cat_dbDir c \<noteq> []" and "getEntry c (crd_name d) = None"
    and "fs_writable fs (graphPath (cat_dbDir c) (crd_name d))" and "fs_readable fs (graphPath (cat_dbDir c) (crd_name d))"
    and "\<And>path. fs_mtime fs path \<le> fs_now fs"
  shows "\<exists>fs' c' e1 e2. insertEntry (db_class code decode order other parse parse_file) fs c (GraphEntry e) False = Inr (fs', c')
    \<and> getEntry c' (crd_name d) = Some (GraphEntry e1) \<and> entry_ensureFullyLoaded decode parse parse_file fs' e1 = Some (Inr e2)
    \<and> id_to_node (rg_nodes (re_graph e2)) = [] \<and> relMark (base (pg (re_graph e2))) = 0"
proof -
  let ?cls = "db_class code decode order other parse parse_file" and ?dir = "cat_dbDir c" and ?path = "graphPath (cat_dbDir c) (crd_name d)"
  obtain g where g: "rdf_create (crd_name d) (crd_iri d) (crd_sourceFileName d) (crd_nodeCapacity d) (crd_relCapacity d) (crd_propCapacity d) = Inr g"
    "e = \<lparr>re_name = crd_name d, re_graph = g, re_format = crd_format d\<rparr>"
    using assms(1) by (auto simp: createFromCreateRdfGraphDef_def bindE_eq_Inr_iff)
  note n = new_graph [OF g(1)]
  note inv = rdf_inv_setDBDir [OF rdf_create_inv(1) [OF g(1) assms(2-4)], of decode ?dir]
  let ?s = "setDBDir (rg_store g) ?dir"
  have wf: "pg_wf (pg g)" using rdf_invD(2) [OF inv] by (simp add: rdf_setDBDir_def setDBDir_def)
  have s: "storage ?s = pg g" "dbDir ?s = ?dir" "fileName ?s = crd_name d" "gf_emptied ?s = rg_store g"
    using n(3,4) by (simp_all add: setDBDir_def gf_emptied_def)
  let ?fs = "put fs ?path (graph_bytes ?s)"
  have fl: "gf_flush fs ?s = Inr ?fs" using flush_writes [of ?s fs] wf assms(6,8,10) s by simp
  obtain q where w: "gf_ensureLoaded ?fs ?s = Inr \<lparr>storage = q, fileName = crd_name d, dbDir = ?dir, loaded = True\<rparr>" "same_storage (pg g) q"
    using load_written [of ?s ?fs, unfolded s, OF wf n(1,2) assms(8,6)] assms(11) by auto
  let ?e1 = "\<lparr>re_name = crd_name d, re_graph = (rdf_setDBDir g ?dir)\<lparr>rg_persist := True\<rparr>, re_format = crd_format d\<rparr>"
  have ins: "insertEntry ?cls fs c (GraphEntry e) False = Inr (?fs, c\<lparr>entries := (entries c)(crd_name d \<mapsto> GraphEntry ?e1)\<rparr>)"
    using assms(7,9) fl
    by (simp add: insertEntry_def getEntry_def db_class_def g(2) entry_setDBDir_def entry_setShouldPersist_def setPersist_def rdf_flush_def
        rdf_setDBDir_def Let_def)
  have fresh: "hasFreshCache ?fs ?s source" for source
    using assms(6,8,12) s(2,3) by (auto simp: hasFreshCache_def Let_def)
  have "\<exists>e2. entry_ensureFullyLoaded decode parse parse_file ?fs ?e1 = Some (Inr e2)
      \<and> restored decode (rdf_setDBDir g ?dir) (re_graph e2) \<and> rg_literals (re_graph e2) = rg_literals (rdf_setDBDir g ?dir)
      \<and> re_name e2 = re_name ?e1 \<and> re_format e2 = re_format ?e1"
    by (rule load_flushed [OF inv, of "\<lparr>storage = q, fileName = crd_name d, dbDir = ?dir, loaded = True\<rparr>"])
       (use w fresh assms(5) n(5,6) s(1) in \<open>simp_all add: rdf_setDBDir_def\<close>)
  then show ?thesis
    using ins n(7) rdf_create_inv(2) [OF g(1) assms(2-4)]
    by (auto simp: getEntry_def restored_def rdf_setDBDir_def setDBDir_def empty_dict_def)
qed

definition sample_def :: create_rdf_graph_def where
  "sample_def = \<lparr>crd_name = ''g'', crd_iri = ''u'', crd_format = Named FF_TURTLE, crd_sourceFileName = ''g'',
     crd_nodeCapacity = 6, crd_relCapacity = 3, crd_propCapacity = 3\<rparr>"

definition sample_function :: function_entry where
  "sample_function = \<lparr>fe_name = ''f'', fe_code = ''c'', fe_returnType = booleanType, fe_argumentTypes = [decimalType 5 2]\<rparr>"

definition sample_db :: "rdf_entry \<Rightarrow> (string \<times> db_entry) list" where
  "sample_db e = [(''f'', FunctionEntry sample_function), (''g'', GraphEntry e)]"

definition sample_catalog :: "db_entry catalog" where
  "sample_catalog = \<lparr>shouldPersist = True, cat_dbDir = ''d'', entries = Map.empty\<rparr>"

lemma sample_def_created:
  obtains e where "createFromCreateRdfGraphDef sample_def = Inr e" and "entry_fits e" and "dbDir (rg_store (re_graph e)) = []"
proof -
  obtain q where q: "mk_pgraph 6 3 3 = Inr q" by (simp add: mk_pgraph_def mk_graph_def)
  note n = new_storage [OF q]
  let ?e = "\<lparr>re_name = ''g'', re_graph = mk_rdfGraph ''u'' \<lparr>storage = q, fileName = ''g'', dbDir = [], loaded = False\<rparr> ''g'' ''g'', re_format = Named FF_TURTLE\<rparr>"
  have "createFromCreateRdfGraphDef sample_def = Inr ?e"
    using q by (simp add: createFromCreateRdfGraphDef_def sample_def_def rdf_create_def mk_graphFile_def)
  moreover have "dict_fits empty_dict" by (simp add: dict_fits_def dict_ok_def strings_fit_def empty_dict_def fun_eq_iff)
  then have "entry_fits ?e" using q n(1-3)
    by (simp add: entry_fits_def rdf_fits_def gf_fits_def mk_rdfGraph_def mk_graphFile_def is_i32_def enum_ok_def file_formats_def)
  ultimately show thesis using that by (simp add: mk_rdfGraph_def)
qed

theorem catalog_survives_restart_witness:
  "\<exists>e fs' c'. createFromCreateRdfGraphDef sample_def = Inr e
    \<and> persist (db_class sample_code sample_decode (\<lambda>_. []) (\<lambda>_ _. Inl ShortRead) (\<lambda>_. []) (\<lambda>_. [])) (\<lambda>_. True) (sample_db e) sample_fs
         (sample_catalog\<lparr>entries := map_of (sample_db e)\<rparr>) = Inr fs'
    \<and> cat_create (db_class sample_code sample_decode (\<lambda>_. []) (\<lambda>_ _. Inl ShortRead) (\<lambda>_. []) (\<lambda>_. [])) (\<lambda>_. [''f'', ''g'']) fs' ''d'' False = Some (Inr c')
    \<and> getEntry c' ''f'' = Some (FunctionEntry sample_function)"
proof -
  let ?cls = "db_class sample_code sample_decode (\<lambda>_. []) (\<lambda>_ _. Inl ShortRead) (\<lambda>_. []) (\<lambda>_. [])"
  obtain e where e: "createFromCreateRdfGraphDef sample_def = Inr e" "entry_fits e" "dbDir (rg_store (re_graph e)) = []" using sample_def_created .
  let ?c = "sample_catalog\<lparr>entries := map_of (sample_db e)\<rparr>"
  have p: "\<exists>fs'. persist ?cls (\<lambda>_. True) (sample_db e) sample_fs ?c = Inr fs' \<and> fs_readable fs' (catalogPath (cat_dbDir ?c))"
    using e(3) by (simp add: persist_def sample_db_def sample_catalog_def db_class_def entry_flush_def rdf_flush_def gf_flush_def sample_fs_def Let_def)
  have "function_fits sample_function"
    by (simp add: function_fits_def sample_function_def type_fits_def info_fits_def booleanType_def decimalType_def enum_ok_def logical_types_def)
  then have f: "list_all (\<lambda>(k, e). len64 k \<and> db_fits (\<lambda>_. []) e) (sample_db e)" using e(2) by (simp add: sample_db_def db_fits_def)
  from p obtain fs' where fs': "persist ?cls (\<lambda>_. True) (sample_db e) sample_fs ?c = Inr fs'" "fs_readable fs' (catalogPath (cat_dbDir ?c))" by blast
  have s: "distinct (map fst (sample_db e))" "len64 (sample_db e)" "map fst (sample_db e) = [''f'', ''g'']" "shouldPersist ?c" "cat_dbDir ?c = ''d''"
    "entries ?c = map_of (sample_db e)" "getEntry ?c ''f'' = Some (FunctionEntry sample_function)"
    by (simp_all add: sample_db_def sample_catalog_def getEntry_def)
  from catalog_survives_restart [OF sample_node_codes s(4,6) f s(1,2) fs', of "\<lambda>_. [''f'', ''g'']" "''f''"] fs'(1) e(1) show ?thesis unfolding s by auto
qed

theorem persistent_insert_hides_source_witness:
  "\<exists>e fs' c' e1 e2. createFromCreateRdfGraphDef sample_def = Inr e
    \<and> insertEntry (db_class sample_code sample_decode (\<lambda>_. []) (\<lambda>_ _. Inl ShortRead) (\<lambda>_. []) (\<lambda>_. [])) sample_fs sample_catalog (GraphEntry e) False = Inr (fs', c')
    \<and> getEntry c' ''g'' = Some (GraphEntry e1) \<and> entry_ensureFullyLoaded sample_decode (\<lambda>_. []) (\<lambda>_. []) fs' e1 = Some (Inr e2)
    \<and> relMark (base (pg (re_graph e2))) = 0"
proof -
  obtain e where e: "createFromCreateRdfGraphDef sample_def = Inr e" using sample_def_created by metis
  from persistent_insert_hides_source [OF e, of sample_catalog sample_fs sample_code sample_decode "\<lambda>_. []" "\<lambda>_ _. Inl ShortRead" "\<lambda>_. []" "\<lambda>_. []"]
  obtain fs' c' e1 e2 where "insertEntry (db_class sample_code sample_decode (\<lambda>_. []) (\<lambda>_ _. Inl ShortRead) (\<lambda>_. []) (\<lambda>_. [])) sample_fs sample_catalog (GraphEntry e) False = Inr (fs', c')"
    "getEntry c' ''g'' = Some (GraphEntry e1)" "entry_ensureFullyLoaded sample_decode (\<lambda>_. []) (\<lambda>_. []) fs' e1 = Some (Inr e2)"
    "relMark (base (pg (re_graph e2))) = 0"
    by (auto simp: sample_def_def sample_catalog_def sample_fs_def is_i32_def getEntry_def)
  with e show ?thesis by blast
qed

end
