(* ===== verification/Std_Regex.thy ===== *)
theory Std_Regex
  imports Std_Text
begin

text \<open>
  The part of \<open>std::regex\<close> (ECMAScript grammar, \<open>icase\<close>, the "C" locale) that \<open>SparqlEngine.cpp\<close> uses: literal characters, character classes and
  their greedy repetition, groups, alternatives, word boundaries and the ends of the text.  A match is a position: the character before
  it, the text after it and the groups so far.  \<open>rx_match\<close> lists the matches in the order of the backtracking search.
\<close>

definition tolower :: "char \<Rightarrow> char" where
  "tolower c = (case map_of (zip ''ABCDEFGHIJKLMNOPQRSTUVWXYZ'' ''abcdefghijklmnopqrstuvwxyz'') c of
     None \<Rightarrow> c | Some l \<Rightarrow> l)"

definition isword :: "char \<Rightarrow> bool" where
  "isword c = (isalnum c \<or> c = CHR ''_'')"

record rx_pos =
  rx_prev :: "char option"
  rx_rest :: string
  rx_groups :: "nat \<rightharpoonup> string"

datatype rx =
    Cls "char \<Rightarrow> bool"
  | Many "char \<Rightarrow> bool"
  | Seq rx rx
  | Alt rx rx
  | Eps
  | Cap nat rx
  | Bound
  | AtStart
  | AtEnd

definition step_pos :: "rx_pos \<Rightarrow> char \<Rightarrow> string \<Rightarrow> rx_pos" where
  "step_pos p c cs = p\<lparr>rx_prev := Some c, rx_rest := cs\<rparr>"

primrec greedy :: "(char \<Rightarrow> bool) \<Rightarrow> rx_pos \<Rightarrow> string \<Rightarrow> rx_pos list" where
  "greedy q p [] = [p]"
| "greedy q p (c # cs) = (if q c then greedy q (step_pos p c cs) cs else []) @ [p]"

definition left_word :: "char option \<Rightarrow> bool" where
  "left_word b = (case b of None \<Rightarrow> False | Some c \<Rightarrow> isword c)"

definition right_word :: "string \<Rightarrow> bool" where
  "right_word s = (case s of [] \<Rightarrow> False | c # _ \<Rightarrow> isword c)"

primrec rx_match :: "rx \<Rightarrow> rx_pos \<Rightarrow> rx_pos list" where
  "rx_match (Cls q) p = (case rx_rest p of [] \<Rightarrow> [] | c # cs \<Rightarrow> if q c then [step_pos p c cs] else [])"
| "rx_match (Many q) p = greedy q p (rx_rest p)"
| "rx_match (Seq r s) p = concat (map (rx_match s) (rx_match r p))"
| "rx_match (Alt r s) p = rx_match r p @ rx_match s p"
| "rx_match Eps p = [p]"
| "rx_match (Cap i r) p = map (\<lambda>p'. p'\<lparr>rx_groups := (rx_groups p')(i \<mapsto> take (length (rx_rest p) - length (rx_rest p')) (rx_rest p))\<rparr>) (rx_match r p)"
| "rx_match Bound p = (if left_word (rx_prev p) = right_word (rx_rest p) then [] else [p])"
| "rx_match AtStart p = (if rx_prev p = None then [p] else [])"
| "rx_match AtEnd p = (if rx_rest p = [] then [p] else [])"

definition start_pos :: "char option \<Rightarrow> string \<Rightarrow> rx_pos" where
  "start_pos c s = \<lparr>rx_prev = c, rx_rest = s, rx_groups = Map.empty\<rparr>"

definition regex_match :: "rx \<Rightarrow> string \<Rightarrow> rx_pos option" where
  "regex_match r s = List.find (\<lambda>p. rx_rest p = []) (rx_match r (start_pos None s))"

primrec search_from :: "rx \<Rightarrow> char option \<Rightarrow> string \<Rightarrow> rx_pos option" where
  "search_from r b [] = (case rx_match r (start_pos b []) of [] \<Rightarrow> None | p # _ \<Rightarrow> Some p)"
| "search_from r b (c # cs) = (case rx_match r (start_pos b (c # cs)) of [] \<Rightarrow> search_from r (Some c) cs | p # _ \<Rightarrow> Some p)"

definition regex_search :: "rx \<Rightarrow> string \<Rightarrow> rx_pos option" where
  "regex_search r s = search_from r None s"

text \<open>The matches of \<open>sregex_iterator\<close>; \<open>n\<close> bounds their number, and every one is assumed to consume a character.\<close>

primrec regex_iterate :: "nat \<Rightarrow> rx \<Rightarrow> char option \<Rightarrow> string \<Rightarrow> rx_pos list" where
  "regex_iterate 0 r b s = []"
| "regex_iterate (Suc n) r b s = (case search_from r b s of
       None \<Rightarrow> []
     | Some p \<Rightarrow> p # regex_iterate n r (rx_prev p) (rx_rest p))"

definition group_str :: "nat \<Rightarrow> rx_pos \<Rightarrow> string" where
  "group_str i p = (case rx_groups p i of None \<Rightarrow> [] | Some s \<Rightarrow> s)"

section \<open>Building patterns\<close>

definition lit :: "char \<Rightarrow> rx" where
  "lit c = Cls (\<lambda>x. tolower x = tolower c)"

primrec lits :: "string \<Rightarrow> rx" where
  "lits [] = Eps"
| "lits (c # cs) = Seq (lit c) (lits cs)"

definition some_of :: "(char \<Rightarrow> bool) \<Rightarrow> rx" where
  "some_of q = Seq (Cls q) (Many q)"

definition opt :: "rx \<Rightarrow> rx" where
  "opt r = Alt r Eps"

primrec seqs :: "rx list \<Rightarrow> rx" where
  "seqs [] = Eps"
| "seqs (r # rs) = Seq r (seqs rs)"

definition no_gt :: "char \<Rightarrow> bool" where
  "no_gt c = (c \<noteq> CHR ''>'')"

section \<open>What the patterns match\<close>

definition advance :: "rx_pos \<Rightarrow> string \<Rightarrow> string \<Rightarrow> rx_pos" where
  "advance p u v = p\<lparr>rx_prev := (if u = [] then rx_prev p else Some (last u)), rx_rest := v\<rparr>"

lemma advance_simps [simp]: "rx_rest (advance p u v) = v" "rx_groups (advance p u v) = rx_groups p" "advance (advance p u v) [] v = advance p u v"
  "advance p [] (rx_rest p) = p"
  by (simp_all add: advance_def)

lemma advance_advance: "advance (advance p u v) u' v' = advance p (u @ u') v'"
  by (simp add: advance_def)

text \<open>\<open>matches r q\<close>: the pattern consumes exactly the texts that satisfy \<open>q\<close>, whatever surrounds them, and sets no group.\<close>

definition matches :: "rx \<Rightarrow> (string \<Rightarrow> bool) \<Rightarrow> bool" where
  "matches r q \<longleftrightarrow> (\<forall>p p'. p' \<in> set (rx_match r p) \<longleftrightarrow> (\<exists>u v. rx_rest p = u @ v \<and> q u \<and> p' = advance p u v))"

lemma matchesD: "matches r q \<Longrightarrow> p' \<in> set (rx_match r p) \<longleftrightarrow> (\<exists>u v. rx_rest p = u @ v \<and> q u \<and> p' = advance p u v)"
  by (simp add: matches_def)

lemma matches_cong: "matches r q \<Longrightarrow> (\<And>u. q u = q' u) \<Longrightarrow> matches r q'"
  by (simp add: matches_def)

lemma matches_Eps: "matches Eps (\<lambda>u. u = [])"
  by (auto simp: matches_def)

lemma matches_Cls: "matches (Cls q) (\<lambda>u. \<exists>c. u = [c] \<and> q c)"
  unfolding matches_def
proof (intro allI)
  fix p p'
  have "p' \<in> set (rx_match (Cls q) p) \<longleftrightarrow> (\<exists>c v. rx_rest p = c # v \<and> q c \<and> p' = advance p [c] v)"
    by (cases "rx_rest p") (auto simp: step_pos_def advance_def)
  then show "p' \<in> set (rx_match (Cls q) p) \<longleftrightarrow> (\<exists>u v. rx_rest p = u @ v \<and> (\<exists>c. u = [c] \<and> q c) \<and> p' = advance p u v)"
    by (metis append_Cons append_Nil)
qed

lemma greedy_set: "p' \<in> set (greedy q p s) \<longleftrightarrow> (\<exists>u v. s = u @ v \<and> list_all q u \<and> p' = (if u = [] then p else advance p u v))"
proof (induction s arbitrary: p)
  case (Cons c cs)
  have "p' \<in> set (greedy q (step_pos p c cs) cs) \<longleftrightarrow> (\<exists>u v. cs = u @ v \<and> list_all q u \<and> p' = advance p (c # u) v)"
    unfolding Cons.IH by (auto simp: step_pos_def advance_def)
  then have "p' \<in> set (greedy q p (c # cs)) \<longleftrightarrow> p' = p \<or> (\<exists>u v. cs = u @ v \<and> list_all q (c # u) \<and> p' = advance p (c # u) v)"
    by (cases "q c") simp_all
  also have "\<dots> \<longleftrightarrow> (\<exists>u v. c # cs = u @ v \<and> list_all q u \<and> p' = (if u = [] then p else advance p u v))"
  proof
    assume "p' = p \<or> (\<exists>u v. cs = u @ v \<and> list_all q (c # u) \<and> p' = advance p (c # u) v)"
    then show "\<exists>u v. c # cs = u @ v \<and> list_all q u \<and> p' = (if u = [] then p else advance p u v)"
      by (metis append_Cons append_Nil list.distinct(1) list.pred_inject(1))
  next
    assume "\<exists>u v. c # cs = u @ v \<and> list_all q u \<and> p' = (if u = [] then p else advance p u v)"
    then obtain u v where "c # cs = u @ v" "list_all q u" "p' = (if u = [] then p else advance p u v)" by blast
    then show "p' = p \<or> (\<exists>u v. cs = u @ v \<and> list_all q (c # u) \<and> p' = advance p (c # u) v)" by (cases u) auto
  qed
  finally show ?case .
qed auto

lemma matches_Many: "matches (Many q) (list_all q)"
proof -
  have "(if u = [] then p else advance p u v) = advance p u v" if "rx_rest p = u @ v" for p u v
    using that by (cases u) (auto simp: advance_def)
  then show ?thesis by (simp add: matches_def greedy_set cong: conj_cong)
qed

lemma matches_Seq:
  assumes "matches r q" and "matches s q'"
  shows "matches (Seq r s) (\<lambda>u. \<exists>x y. u = x @ y \<and> q x \<and> q' y)"
  unfolding matches_def
proof (intro allI)
  fix p p'
  have "p' \<in> set (rx_match (Seq r s) p) \<longleftrightarrow> (\<exists>p1. p1 \<in> set (rx_match r p) \<and> p' \<in> set (rx_match s p1))" by auto
  also have "\<dots> \<longleftrightarrow> (\<exists>x w. rx_rest p = x @ w \<and> q x \<and> (\<exists>y v. w = y @ v \<and> q' y \<and> p' = advance p (x @ y) v))"
    unfolding matchesD [OF assms(1)] matchesD [OF assms(2)] by (metis advance_advance advance_simps(1))
  also have "\<dots> \<longleftrightarrow> (\<exists>u v. rx_rest p = u @ v \<and> (\<exists>x y. u = x @ y \<and> q x \<and> q' y) \<and> p' = advance p u v)" by (metis append_assoc)
  finally show "p' \<in> set (rx_match (Seq r s) p) \<longleftrightarrow> (\<exists>u v. rx_rest p = u @ v \<and> (\<exists>x y. u = x @ y \<and> q x \<and> q' y) \<and> p' = advance p u v)" .
qed

lemma matches_lit: "matches (lit c) (\<lambda>u. map tolower u = [tolower c])"
  unfolding lit_def by (rule matches_cong [OF matches_Cls]) (auto simp: map_eq_Cons_conv)

lemma matches_lits: "matches (lits w) (\<lambda>u. map tolower u = map tolower w)"
proof (induction w)
  case (Cons c w)
  have "(\<exists>x y. u = x @ y \<and> map tolower x = [tolower c] \<and> map tolower y = map tolower w) \<longleftrightarrow> map tolower u = map tolower (c # w)" for u
    by (metis append_Cons append_Nil list.simps(9) map_eq_append_conv)
  then show ?case unfolding lits.simps by (rule matches_cong [OF matches_Seq [OF matches_lit Cons.IH]])
qed (simp add: matches_Eps)

lemma matches_some_of: "matches (some_of q) (\<lambda>u. u \<noteq> [] \<and> list_all q u)"
proof -
  have "(\<exists>x y. u = x @ y \<and> (\<exists>c. x = [c] \<and> q c) \<and> list_all q y) \<longleftrightarrow> u \<noteq> [] \<and> list_all q u" for u
    by (cases u) (auto, metis append_Cons append_Nil)
  then show ?thesis unfolding some_of_def by (rule matches_cong [OF matches_Seq [OF matches_Cls matches_Many]])
qed

lemma Cap_set:
  assumes "matches r q"
  shows "p' \<in> set (rx_match (Cap i r) p) \<longleftrightarrow>
    (\<exists>u v. rx_rest p = u @ v \<and> q u \<and> p' = (advance p u v)\<lparr>rx_groups := (rx_groups p)(i \<mapsto> u)\<rparr>)"
proof -
  have "p' \<in> set (rx_match (Cap i r) p) \<longleftrightarrow> (\<exists>p1. p1 \<in> set (rx_match r p)
      \<and> p' = p1\<lparr>rx_groups := (rx_groups p1)(i \<mapsto> take (length (rx_rest p) - length (rx_rest p1)) (rx_rest p))\<rparr>)" by auto
  also have "\<dots> \<longleftrightarrow> (\<exists>u v. rx_rest p = u @ v \<and> q u \<and> p' = (advance p u v)\<lparr>rx_groups := (rx_groups p)(i \<mapsto> take (length (u @ v) - length v) (u @ v))\<rparr>)"
    unfolding matchesD [OF assms] by (metis advance_simps(1,2))
  finally show ?thesis by simp
qed

lemma regex_match_some:
  assumes "p \<in> set (rx_match r (start_pos None s))" and "rx_rest p = []"
  obtains p' where "regex_match r s = Some p'" and "p' \<in> set (rx_match r (start_pos None s))" and "rx_rest p' = []"
proof (cases "regex_match r s")
  case None
  then show thesis using assms by (auto simp: regex_match_def find_None_iff)
next
  case (Some p')
  then have "p' \<in> set (rx_match r (start_pos None s))" "rx_rest p' = []" by (auto simp: regex_match_def find_Some_iff)
  then show thesis using that Some by blast
qed

lemma search_Alt:
  assumes "\<And>u v. s = u @ v \<Longrightarrow> rx_match r' (start_pos (if u = [] then b else Some (last u)) v) = []"
  shows "search_from (Alt r r') b s = search_from r b s"
  using assms
proof (induction s arbitrary: b)
  case (Cons c cs)
  have "rx_match r' (start_pos (if u = [] then Some c else Some (last u)) v) = []" if "cs = u @ v" for u v
    using Cons.prems [of "c # u" v] that by (simp split: if_splits)
  then have "search_from (Alt r r') (Some c) cs = search_from r (Some c) cs" by (rule Cons.IH)
  then show ?case using Cons.prems [of "[]" "c # cs"] by (simp split: list.split)
qed (simp split: list.split)

text \<open>Some match of the pattern satisfies \<open>Q\<close>: the rules that unfold a pattern.\<close>

definition runs :: "rx \<Rightarrow> rx_pos \<Rightarrow> (rx_pos \<Rightarrow> bool) \<Rightarrow> bool" where
  "runs r p Q \<longleftrightarrow> (\<exists>p'\<in>set (rx_match r p). Q p')"

lemma runs_nonempty: "rx_match r p \<noteq> [] \<Longrightarrow> runs r p (\<lambda>_. True)"
  by (auto simp: runs_def neq_Nil_conv)

lemma runs_matches: "matches r q \<Longrightarrow> runs r p Q \<longleftrightarrow> (\<exists>u v. rx_rest p = u @ v \<and> q u \<and> Q (advance p u v))"
  unfolding runs_def using matchesD by (metis (no_types))

lemma runs_Cap: "matches r q \<Longrightarrow> runs (Cap i r) p Q \<longleftrightarrow>
    (\<exists>u v. rx_rest p = u @ v \<and> q u \<and> Q ((advance p u v)\<lparr>rx_groups := (rx_groups p)(i \<mapsto> u)\<rparr>))"
  unfolding runs_def using Cap_set by (metis (no_types))

lemma runs_simps: "runs (Seq r s) p Q \<longleftrightarrow> runs r p (\<lambda>p1. runs s p1 Q)" "runs Eps p Q \<longleftrightarrow> Q p"
  "runs AtStart p Q \<longleftrightarrow> rx_prev p = None \<and> Q p" "runs AtEnd p Q \<longleftrightarrow> rx_rest p = [] \<and> Q p"
  "runs Bound p Q \<longleftrightarrow> left_word (rx_prev p) \<noteq> right_word (rx_rest p) \<and> Q p"
  by (auto simp: runs_def)

lemmas runs_rules = runs_simps runs_matches [OF matches_Many] runs_matches [OF matches_some_of] runs_matches [OF matches_lits]
  runs_Cap [OF matches_some_of]

end
