(* ===== verification/Sparql_Statements.thy ===== *)
theory Sparql_Statements
  imports Std_Regex
begin

text \<open>
  How the SPARQL engine cuts its input into statements and tells them apart (\<open>src/src/gengodb/execution/SparqlEngine.cpp\<close>): the
  statement accumulator, the settings directives and the \<open>LOAD\<close> statement.
\<close>

section \<open>White space\<close>

definition blanks :: string where
  "blanks = [CHR 0x20, CHR 0x09, CHR 0x0D, CHR 0x0A]"

definition trim :: "string \<Rightarrow> string" where
  "trim s = rev (dropWhile (\<lambda>c. c \<in> set blanks) (rev (dropWhile (\<lambda>c. c \<in> set blanks) s)))"

section \<open>The statement accumulator\<close>

text \<open>The nesting depth is an \<open>int\<close> in the code; inputs with fewer than \<open>2 ^ 31\<close> braces are taken for granted.\<close>

record accumulator =
  acc_buf :: string
  acc_depth :: int
  acc_inIri :: bool
  acc_inStr :: bool
  acc_delim :: char

definition new_accumulator :: accumulator where
  "new_accumulator = \<lparr>acc_buf = [], acc_depth = 0, acc_inIri = False, acc_inStr = False, acc_delim = CHR 0x00\<rparr>"

definition app :: "accumulator \<Rightarrow> string \<Rightarrow> accumulator" where
  "app a s = a\<lparr>acc_buf := acc_buf a @ s\<rparr>"

text \<open>A character that neither starts a comment nor an escape sequence, with the statement it completes.\<close>

definition feed_char :: "accumulator \<Rightarrow> char \<Rightarrow> accumulator \<times> string list" where
  "feed_char a c =
     (if acc_inIri a then ((app a [c])\<lparr>acc_inIri := (c \<noteq> CHR ''>'')\<rparr>, [])
      else if acc_inStr a then ((app a [c])\<lparr>acc_inStr := (c \<noteq> acc_delim a)\<rparr>, [])
      else if c = CHR ''<'' then ((app a [c])\<lparr>acc_inIri := True\<rparr>, [])
      else if c = CHR 0x22 \<or> c = CHR 0x27 then ((app a [c])\<lparr>acc_inStr := True, acc_delim := c\<rparr>, [])
      else if c = CHR ''{'' then ((app a [c])\<lparr>acc_depth := acc_depth a + 1\<rparr>, [])
      else if c = CHR ''}'' then ((app a [c])\<lparr>acc_depth := acc_depth a - 1\<rparr>, [])
      else if c = CHR '';'' \<and> acc_depth a \<le> 0 then (a\<lparr>acc_buf := []\<rparr>, [acc_buf a])
      else (app a [c], []))"

definition emit :: "string list \<Rightarrow> accumulator \<times> string list \<Rightarrow> accumulator \<times> string list" where
  "emit out r = (fst r, out @ snd r)"

lemma emit_simps [simp]: "emit [] r = r" "emit o1 (emit o2 r) = emit (o1 @ o2) r" "fst (emit o1 r) = fst r" "snd (emit o1 r) = o1 @ snd r"
  by (simp_all add: emit_def)

lemma dropWhile_shorter: "dropWhile q cs = y # ys \<Longrightarrow> length ys < length cs"
  by (metis length_dropWhile_le length_Cons less_eq_Suc_le)

function feed :: "accumulator \<Rightarrow> string \<Rightarrow> accumulator \<times> string list" where
  "feed a [] = (a, [])"
| "feed a (c # cs) =
     (if \<not> acc_inIri a \<and> acc_inStr a \<and> c = CHR 0x5C \<and> cs \<noteq> [] then feed (app a [c, hd cs]) (tl cs)
      else if \<not> acc_inIri a \<and> \<not> acc_inStr a \<and> c = CHR ''#'' then
        (case dropWhile (\<lambda>x. x \<noteq> CHR 0x0A) cs of [] \<Rightarrow> (a, []) | _ # cs' \<Rightarrow> feed (app a [CHR 0x0A]) cs')
      else emit (snd (feed_char a c)) (feed (fst (feed_char a c)) cs))"
  by pat_completeness auto

termination
  by (relation "measure (\<lambda>(_, cs). length cs)") (auto dest: dropWhile_shorter)

definition hasPending :: "accumulator \<Rightarrow> bool" where
  "hasPending a = list_ex (\<lambda>c. c \<notin> set blanks) (acc_buf a)"

definition atTopLevel :: "accumulator \<Rightarrow> bool" where
  "atTopLevel a = (acc_depth a \<le> 0 \<and> \<not> acc_inIri a \<and> \<not> acc_inStr a)"

section \<open>Settings directives\<close>

definition settingsNamespace :: string where
  "settingsNamespace = ''gengodb://sparql/settings/''"

definition loadStatementRegex :: rx where
  "loadStatementRegex = seqs [AtStart, lits ''LOAD'', Many isspace, lit (CHR ''<''), Cap 1 (some_of no_gt), lit (CHR ''>''), Many isspace, lits ''INTO'',
     some_of isspace, lits ''GRAPH'', Many isspace, lit (CHR ''<''), Cap 2 (some_of no_gt), lit (CHR ''>''), AtEnd]"

definition prefixRegex :: rx where
  "prefixRegex = seqs [lits ''PREFIX'', some_of isspace,
     opt (Cap 1 (Seq (Cls (\<lambda>c. isalpha c \<or> c = CHR ''_'')) (Many (\<lambda>c. isword c \<or> c = CHR ''-'')))), Many isspace, lit (CHR '':''), Many isspace,
     lit (CHR ''<''), Cap 2 (Many no_gt), lit (CHR ''>'')]"

text \<open>A \<open>std::map\<close> with its entries in ascending order of the keys.\<close>

fun str_less :: "string \<Rightarrow> string \<Rightarrow> bool" where
  "str_less _ [] = False"
| "str_less [] (_ # _) = True"
| "str_less (a # as) (b # bs) = ((of_char a :: nat) < of_char b \<or> a = b \<and> str_less as bs)"

primrec map_set :: "string \<Rightarrow> 'v \<Rightarrow> (string \<times> 'v) list \<Rightarrow> (string \<times> 'v) list" where
  "map_set k v [] = [(k, v)]"
| "map_set k v (e # es) = (if fst e = k then (k, v) # es else if str_less k (fst e) then (k, v) # e # es else e # map_set k v es)"

definition extractPrefixes :: "string \<Rightarrow> (string \<times> string) list" where
  "extractPrefixes stmt =
     foldl (\<lambda>m p. map_set (group_str 1 p) (group_str 2 p) m) [] (regex_iterate (length stmt) prefixRegex None stmt)"

text \<open>The two spellings of a directive: its full name, or its name under the label of the settings namespace.\<close>

definition directiveRegex :: "string \<Rightarrow> string option \<Rightarrow> (nat \<Rightarrow> rx) \<Rightarrow> rx" where
  "directiveRegex localName label arg =
     (let r = seqs [lit (CHR ''<''), lits settingsNamespace, lits localName, lit (CHR ''>''), arg 1] in
      case label of None \<Rightarrow> r
      | Some l \<Rightarrow> Alt r (seqs [Bound, lits l, lit (CHR '':''), lits localName, arg 2]))"

definition hasSettingsDirective :: "string \<Rightarrow> string \<Rightarrow> string option \<Rightarrow> bool" where
  "hasSettingsDirective stmt localName label =
     (regex_search (directiveRegex localName label (\<lambda>_. seqs [some_of isspace, lits ''true'', Bound])) stmt \<noteq> None)"

definition group_1_or_2 :: "rx_pos \<Rightarrow> string" where
  "group_1_or_2 p = (case rx_groups p 1 of Some s \<Rightarrow> s | None \<Rightarrow> group_str 2 p)"

definition settingsDirectiveIri :: "string \<Rightarrow> string \<Rightarrow> string option \<Rightarrow> string option" where
  "settingsDirectiveIri stmt localName label =
     map_option group_1_or_2 (regex_search (directiveRegex localName label
       (\<lambda>i. seqs [Many isspace, lit (CHR ''<''), Cap i (some_of no_gt), lit (CHR ''>'')])) stmt)"

definition stoi :: "string \<Rightarrow> int res" where
  "stoi s = (let n = read_int s in if n < 2 ^ 31 then Inr n else Inl OutOfRange)"

definition settingsDirectiveInt :: "string \<Rightarrow> string \<Rightarrow> string option \<Rightarrow> int option res" where
  "settingsDirectiveInt stmt localName label =
     (case regex_search (directiveRegex localName label (\<lambda>i. seqs [Many isspace, Cap i (some_of isdigit)])) stmt of
        None \<Rightarrow> Inr None
      | Some p \<Rightarrow> bindE (stoi (group_1_or_2 p)) (\<lambda>n. Inr (Some n)))"

record settings_directives =
  sd_persists :: bool
  sd_initialize :: bool
  sd_defaultGraph :: "string option"
  sd_capacity :: "int option"
  sd_nodeCapacity :: "int option"
  sd_relCapacity :: "int option"
  sd_propCapacity :: "int option"

definition settings_label :: "string \<Rightarrow> string option" where
  "settings_label stmt = map_option fst (List.find (\<lambda>(l, iri). iri = settingsNamespace) (extractPrefixes stmt))"

text \<open>The directives of a statement, under a given label of the namespace.\<close>

definition directives_under :: "string option \<Rightarrow> string \<Rightarrow> settings_directives option res" where
  "directives_under label stmt =
     bindE (settingsDirectiveInt stmt ''capacity'' label) (\<lambda>c.
     bindE (settingsDirectiveInt stmt ''nodeCapacity'' label) (\<lambda>nc.
     bindE (settingsDirectiveInt stmt ''edgeCapacity'' label) (\<lambda>rc.
     bindE (settingsDirectiveInt stmt ''propCapacity'' label) (\<lambda>pc.
     let d = \<lparr>sd_persists = hasSettingsDirective stmt ''persists'' label, sd_initialize = hasSettingsDirective stmt ''initialize'' label,
              sd_defaultGraph = settingsDirectiveIri stmt ''defaultGraph'' label, sd_capacity = c, sd_nodeCapacity = nc, sd_relCapacity = rc,
              sd_propCapacity = pc\<rparr> in
     Inr (if \<not> sd_persists d \<and> \<not> sd_initialize d \<and> sd_defaultGraph d = None \<and> c = None \<and> nc = None \<and> rc = None \<and> pc = None
          then None else Some d)))))"

definition detectSettingsDirectives :: "string \<Rightarrow> settings_directives option res" where
  "detectSettingsDirectives stmt = directives_under (settings_label stmt) stmt"

section \<open>Kinds of statements\<close>

datatype statement_kind = SkLoad | SkSettings | SkQuery

definition classifyStatement :: "string \<Rightarrow> statement_kind res" where
  "classifyStatement rawStmt = (let stmt = trim rawStmt in
     if regex_match loadStatementRegex stmt \<noteq> None then Inr SkLoad
     else bindE (detectSettingsDirectives stmt) (\<lambda>d. Inr (if d \<noteq> None then SkSettings else SkQuery)))"

section \<open>Feeding in pieces\<close>

definition whole_lines :: "string \<Rightarrow> bool" where
  "whole_lines s \<longleftrightarrow> s = [] \<or> last s = CHR 0x0A"

lemma feed_append: "whole_lines s \<Longrightarrow> feed a (s @ t) = emit (snd (feed a s)) (feed (fst (feed a s)) t)"
proof (induction a s rule: feed.induct)
  case (2 a c cs)
  have wl: "whole_lines cs" "cs \<noteq> [] \<Longrightarrow> whole_lines (tl cs)" and e: "cs = [] \<Longrightarrow> c = CHR 0x0A"
    using 2(4) by (auto simp: whole_lines_def neq_Nil_conv split: if_splits)
  show ?case
  proof (cases "dropWhile (\<lambda>x. x \<noteq> CHR 0x0A) cs")
    case Nil
    then have "CHR 0x0A \<notin> set cs" by (auto simp: dropWhile_eq_Nil_conv)
    then have "cs = []" using wl(1) last_in_set by (fastforce simp: whole_lines_def)
    then show ?thesis using 2 wl e by simp
  next
    case (Cons d ds)
    have "\<exists>us. cs = us @ d # ds" by (metis Cons takeWhile_dropWhile_id)
    then have "whole_lines ds" using wl(1) by (auto simp: whole_lines_def split: if_splits)
    moreover have "dropWhile (\<lambda>x. x \<noteq> CHR 0x0A) (cs @ t) = d # ds @ t"
      using Cons by (simp add: dropWhile_append flip: dropWhile_eq_Nil_conv)
    ultimately show ?thesis using 2 wl e Cons by (simp add: hd_append2 tl_append2)
  qed
qed simp

lemma feed_char_buf: "concat (map (\<lambda>t. t @ '';'') (snd (feed_char a c))) @ acc_buf (fst (feed_char a c)) = acc_buf a @ [c]"
  by (simp add: feed_char_def app_def)

lemma feed_conserves:
  assumes "CHR ''#'' \<notin> set s"
  shows "concat (map (\<lambda>t. t @ '';'') (snd (feed a s))) @ acc_buf (fst (feed a s)) = acc_buf a @ s"
  using assms
proof (induction a s rule: feed.induct)
  case (2 a c cs)
  show ?case
  proof (cases "\<not> acc_inIri a \<and> acc_inStr a \<and> c = CHR 0x5C \<and> cs \<noteq> []")
    case True
    then have "CHR ''#'' \<notin> set (tl cs)" using 2(4) by (cases cs) auto
    with True show ?thesis using 2(1) by (cases cs) (simp_all add: app_def)
  next
    case False
    have "feed a (c # cs) = emit (snd (feed_char a c)) (feed (fst (feed_char a c)) cs)"
      using False 2(4) by auto
    moreover have "concat (map (\<lambda>t. t @ '';'') (snd (feed (fst (feed_char a c)) cs))) @ acc_buf (fst (feed (fst (feed_char a c)) cs))
        = acc_buf (fst (feed_char a c)) @ cs" using 2(3) 2(4) False by auto
    ultimately show ?thesis using feed_char_buf [of a c] by (metis (no_types, lifting) append_Cons append_Nil append_assoc concat_append emit_simps(3,4) map_append)
  qed
qed simp

text \<open>The loop of the interactive tool: every line is fed with its line break.\<close>

primrec feed_all :: "accumulator \<Rightarrow> string list \<Rightarrow> accumulator \<times> string list" where
  "feed_all a [] = (a, [])"
| "feed_all a (l # ls) = (let (a', o1) = feed a (l @ [CHR 0x0A]); (a'', o2) = feed_all a' ls in (a'', o1 @ o2))"

section \<open>Properties\<close>



lemma unique_split:
  assumes "u @ c # v = u' @ c # v'" and "list_all q u" and "list_all q u'" and "\<not> q c"
  shows "u = u'" and "v = v'"
proof -
  have "takeWhile q (u @ c # v) = u" "takeWhile q (u' @ c # v') = u'" using assms(2-4) by (simp_all add: list_all_iff takeWhile_append)
  then show "u = u'" using assms(1) by simp
  with assms(1) show "v = v'" by simp
qed

lemma tolower_punct: "tolower x = CHR ''<'' \<longleftrightarrow> x = CHR ''<''" "tolower x = CHR ''>'' \<longleftrightarrow> x = CHR ''>''" "tolower x = CHR '':'' \<longleftrightarrow> x = CHR '':''"
  by (simp_all add: tolower_def)

lemma matches_punct: "matches (lit (CHR ''<'')) (\<lambda>u. u = ''<'')" "matches (lit (CHR ''>'')) (\<lambda>u. u = ''>'')"
  by (rule matches_cong [OF matches_lit], auto simp: tolower_def [of "CHR ''<''"] tolower_def [of "CHR ''>''"] map_eq_Cons_conv tolower_punct)+

text \<open>The texts the \<open>LOAD\<close> pattern accepts, with the two IRIs.\<close>

definition load_shape :: "string \<Rightarrow> string \<Rightarrow> string \<Rightarrow> bool" where
  "load_shape s source graph \<longleftrightarrow> (\<exists>l w1 w2 i w3 g w4. s = l @ w1 @ ''<'' @ source @ ''>'' @ w2 @ i @ w3 @ g @ w4 @ ''<'' @ graph @ ''>''
     \<and> map tolower l = ''load'' \<and> map tolower i = ''into'' \<and> map tolower g = ''graph''
     \<and> list_all isspace w1 \<and> list_all isspace w2 \<and> w3 \<noteq> [] \<and> list_all isspace w3 \<and> list_all isspace w4
     \<and> source \<noteq> [] \<and> list_all no_gt source \<and> graph \<noteq> [] \<and> list_all no_gt graph)"

lemma load_regex_runs:
  "runs loadStatementRegex (start_pos None s) (\<lambda>p. rx_rest p = [] \<and> P (rx_groups p)) \<longleftrightarrow> (\<exists>a b. load_shape s a b \<and> P [1 \<mapsto> a, 2 \<mapsto> b])"
proof -
  have w: "map tolower ''LOAD'' = ''load''" "map tolower ''INTO'' = ''into''" "map tolower ''GRAPH'' = ''graph''" by (simp_all add: tolower_def)
  show ?thesis
    unfolding loadStatementRegex_def seqs.simps runs_rules w load_shape_def runs_matches [OF matches_punct(1)] runs_matches [OF matches_punct(2)]
    by (simp add: start_pos_def, rule iffI; (elim exE conjE, hypsubst, (rule exI conjI refl | assumption)+))
qed

lemma space_not_lower: "isspace c \<Longrightarrow> tolower c = c"
  by (simp add: isspace_def, elim disjE) (simp_all add: tolower_def)

lemma unique_word:
  assumes "u @ i @ v = u' @ i' @ v'" and "list_all isspace u" and "list_all isspace u'" and "map tolower i = d # w" and "map tolower i' = d # w"
    and "\<not> isspace d"
  shows "v = v'"
proof -
  obtain c cs c' cs' where i: "i = c # cs" "i' = c' # cs'" "tolower c = d" "tolower c' = d" using assms(4,5) by auto
  then have "\<not> isspace c" "\<not> isspace c'" using space_not_lower assms(6) by metis+
  then have "takeWhile isspace (u @ i @ v) = u" "takeWhile isspace (u' @ i' @ v') = u'"
    using assms(2,3) i by (simp_all add: list_all_iff takeWhile_append)
  then have "i @ v = i' @ v'" using assms(1) by simp
  moreover have "length i = length i'" using assms(4,5) by (metis length_map)
  ultimately show ?thesis by simp
qed

lemma load_shape_unique:
  assumes "load_shape s a b" and "load_shape s a' b'"
  shows "a' = a \<and> b' = b"
proof -
  obtain l w1 w2 i w3 g w4 where s: "s = l @ w1 @ CHR ''<'' # a @ CHR ''>'' # w2 @ i @ w3 @ g @ w4 @ CHR ''<'' # b @ ''>''"
    "map tolower l = ''load''" "list_all isspace w1" "list_all no_gt a" "list_all no_gt b"
    "map tolower i = ''into''" "list_all isspace w2" "map tolower g = ''graph''" "list_all isspace w3" "list_all isspace w4"
    using assms(1) unfolding load_shape_def append_Cons append_Nil by (elim exE conjE) (rule that)
  obtain l' w1' w2' i' w3' g' w4' where s': "s = l' @ w1' @ CHR ''<'' # a' @ CHR ''>'' # w2' @ i' @ w3' @ g' @ w4' @ CHR ''<'' # b' @ ''>''"
    "map tolower l' = ''load''" "list_all isspace w1'" "list_all no_gt a'" "list_all no_gt b'"
    "map tolower i' = ''into''" "list_all isspace w2'" "map tolower g' = ''graph''" "list_all isspace w3'" "list_all isspace w4'"
    using assms(2) unfolding load_shape_def append_Cons append_Nil by (elim exE conjE) (rule that)
  have n: "\<not> isspace (CHR ''<'')" "\<not> no_gt (CHR ''>'')" by (simp_all add: isspace_def no_gt_def)
  have "length l = 4" "length l' = 4" using arg_cong [OF s(2), of length] arg_cong [OF s'(2), of length] by simp_all
  with s(1) s'(1) have "w1 @ CHR ''<'' # a @ CHR ''>'' # w2 @ i @ w3 @ g @ w4 @ CHR ''<'' # b @ ''>''
      = w1' @ CHR ''<'' # a' @ CHR ''>'' # w2' @ i' @ w3' @ g' @ w4' @ CHR ''<'' # b' @ ''>''" by (simp add: append_eq_append_conv)
  from unique_split(2) [OF this s(3) s'(3) n(1)] have r: "a @ CHR ''>'' # w2 @ i @ w3 @ g @ w4 @ CHR ''<'' # b @ ''>''
      = a' @ CHR ''>'' # w2' @ i' @ w3' @ g' @ w4' @ CHR ''<'' # b' @ ''>''" .
  note a = unique_split [OF r s(4) s'(4) n(2)]
  have "w3 @ g @ w4 @ CHR ''<'' # b @ ''>'' = w3' @ g' @ w4' @ CHR ''<'' # b' @ ''>''"
    by (rule unique_word [OF a(2) s(7) s'(7) s(6) s'(6)]) (simp add: isspace_def)
  then have "w4 @ CHR ''<'' # b @ ''>'' = w4' @ CHR ''<'' # b' @ ''>''"
    by (rule unique_word [OF _ s(9) s'(9) s(8) s'(8)]) (simp add: isspace_def)
  from unique_split(2) [OF this s(10) s'(10) n(1)] show ?thesis using a(1) by simp
qed

lemma load_statement_shape:
  assumes "regex_match loadStatementRegex s \<noteq> None"
  shows "\<exists>source graph. load_shape s source graph"
proof -
  have "runs loadStatementRegex (start_pos None s) (\<lambda>p. rx_rest p = [] \<and> True)"
    using assms by (auto simp: runs_def regex_match_def find_Some_iff intro!: bexI)
  then show ?thesis unfolding load_regex_runs [of s "\<lambda>_. True"] by blast
qed

text \<open>A \<open>LOAD\<close> statement goes through the accumulator in one piece, whatever characters its IRIs contain.\<close>

definition plain :: "char \<Rightarrow> bool" where
  "plain c \<longleftrightarrow> c \<notin> set [CHR ''#'', CHR ''<'', CHR 0x22, CHR 0x27, CHR ''{'', CHR ''}'', CHR '';'']"

lemma app_simps [simp]: "app (app a u) v = app a (u @ v)" "app a [] = a" "acc_inIri (app a u) = acc_inIri a" "acc_inStr (app a u) = acc_inStr a"
  by (simp_all add: app_def)

lemma feed_plain: "list_all plain u \<Longrightarrow> \<not> acc_inIri a \<Longrightarrow> \<not> acc_inStr a \<Longrightarrow> feed a (u @ v) = feed (app a u) v"
proof (induction u arbitrary: a)
  case (Cons c u)
  then have "feed_char a c = (app a [c], [])" "c \<noteq> CHR ''#''" by (simp_all add: plain_def feed_char_def)
  then show ?case using Cons by simp
qed simp

lemma feed_in_iri: "list_all no_gt u \<Longrightarrow> acc_inIri a \<Longrightarrow> feed a (u @ CHR ''>'' # v) = feed ((app a (u @ ''>''))\<lparr>acc_inIri := False\<rparr>) v"
proof (induction u arbitrary: a)
  case (Cons c u)
  then have "feed_char a c = (app a [c], [])" by (simp add: no_gt_def feed_char_def app_def)
  then show ?case using Cons by simp
qed (simp add: feed_char_def)

lemma feed_iri:
  assumes "list_all no_gt u" and "\<not> acc_inIri a" and "\<not> acc_inStr a"
  shows "feed a (CHR ''<'' # u @ CHR ''>'' # v) = feed (app a (''<'' @ u @ ''>'')) v"
proof -
  have "feed a (CHR ''<'' # u @ CHR ''>'' # v) = feed ((app a ''<'')\<lparr>acc_inIri := True\<rparr>) (u @ CHR ''>'' # v)"
    using assms(2,3) by (simp add: feed_char_def)
  also have "\<dots> = feed (app a (''<'' @ u @ ''>'')) v"
    using feed_in_iri [OF assms(1), of "(app a ''<'')\<lparr>acc_inIri := True\<rparr>" v] assms(2) by (cases a) (simp add: app_def)
  finally show ?thesis .
qed

lemma plain_tolower: "list_all plain (map tolower u) \<Longrightarrow> list_all plain u"
  by (induction u) (auto simp: plain_def tolower_def)

lemma plain_space: "list_all isspace u \<Longrightarrow> list_all plain u" "list_all (\<lambda>c. c \<in> set blanks) u \<Longrightarrow> list_all plain u"
  by (induction u) (auto simp: plain_def isspace_def blanks_def)

lemma trim_split: "\<exists>u v. s = u @ trim s @ v \<and> list_all (\<lambda>c. c \<in> set blanks) u \<and> list_all (\<lambda>c. c \<in> set blanks) v"
proof -
  let ?p = "\<lambda>c. c \<in> set blanks" and ?t = "dropWhile (\<lambda>c. c \<in> set blanks) s"
  have "?t = trim s @ rev (takeWhile ?p (rev ?t))" unfolding trim_def by (metis rev_append rev_rev_ident takeWhile_dropWhile_id)
  then have "s = takeWhile ?p s @ trim s @ rev (takeWhile ?p (rev ?t))" by (metis takeWhile_dropWhile_id)
  moreover have "list_all ?p (takeWhile ?p s)" "list_all ?p (rev (takeWhile ?p (rev ?t)))" by (auto simp: list_all_iff dest: set_takeWhileD)
  ultimately show ?thesis by blast
qed

lemma load_single_statement:
  assumes "load_shape (trim body) source graph"
  shows "snd (feed new_accumulator (body @ [CHR 0x0A] @ '';'')) = [body @ [CHR 0x0A]]"
proof -
  obtain u v where uv: "body = u @ trim body @ v" "list_all plain u" "list_all plain v" using trim_split [of body] plain_space(2) by blast
  obtain l w1 w2 i w3 g w4 where s: "trim body = l @ w1 @ ''<'' @ source @ ''>'' @ w2 @ i @ w3 @ g @ w4 @ ''<'' @ graph @ ''>''"
    "map tolower l = ''load''" "list_all isspace w1" "list_all no_gt source" "list_all no_gt graph"
    "map tolower i = ''into''" "list_all isspace w2" "map tolower g = ''graph''" "list_all isspace w3" "list_all isspace w4"
    using assms unfolding load_shape_def by (elim exE conjE) (rule that)
  have w: "list_all plain l" "list_all plain i" "list_all plain g"
    by (rule plain_tolower, unfold s(2) s(6) s(8), simp add: plain_def)+
  define z where "z = v @ [CHR 0x0A]"
  have z: "list_all plain z" using uv(3) by (simp add: z_def plain_def)
  have n: "\<not> acc_inIri new_accumulator" "\<not> acc_inStr new_accumulator" by (simp_all add: new_accumulator_def)
  have b: "body @ [CHR 0x0A] = u @ l @ w1 @ CHR ''<'' # source @ CHR ''>'' # w2 @ i @ w3 @ g @ w4 @ CHR ''<'' # graph @ CHR ''>'' # z"
    using uv(1) s(1) by (simp add: z_def)
  have "body @ [CHR 0x0A] @ '';'' = (body @ [CHR 0x0A]) @ '';''" by simp
  also have "feed new_accumulator \<dots> = feed (app new_accumulator (body @ [CHR 0x0A])) '';''"
    unfolding b by (simp add: feed_plain feed_iri uv(2) z w s(3-5,7,9,10) n plain_space(1) del: feed.simps(2))
  also have "snd \<dots> = [body @ [CHR 0x0A]]" by (simp add: feed_char_def app_def new_accumulator_def)
  finally show ?thesis .
qed

text \<open>
  C17. The \<open>LOAD\<close> pattern accepts exactly the texts made of the words LOAD, INTO and GRAPH in any case, white space and two
  IRIs in angle brackets, and its groups are the two IRIs.
\<close>

theorem load_statements_recognised:
  "(\<exists>p. regex_match loadStatementRegex s = Some p \<and> group_str 1 p = source \<and> group_str 2 p = graph) \<longleftrightarrow> load_shape s source graph"
proof
  assume "\<exists>p. regex_match loadStatementRegex s = Some p \<and> group_str 1 p = source \<and> group_str 2 p = graph"
  then obtain p where p: "regex_match loadStatementRegex s = Some p" "group_str 1 p = source" "group_str 2 p = graph" by blast
  then have "p \<in> set (rx_match loadStatementRegex (start_pos None s))" "rx_rest p = []" by (auto simp: regex_match_def find_Some_iff)
  then have "runs loadStatementRegex (start_pos None s) (\<lambda>p'. rx_rest p' = [] \<and> rx_groups p' = rx_groups p)" by (auto simp: runs_def)
  then obtain a b where "load_shape s a b" "rx_groups p = [1 \<mapsto> a, 2 \<mapsto> b]" unfolding load_regex_runs [of s "\<lambda>g. g = rx_groups p"] by metis
  then show "load_shape s source graph" using p(2,3) by (simp add: group_str_def)
next
  assume sh: "load_shape s source graph"
  then have "runs loadStatementRegex (start_pos None s) (\<lambda>p'. rx_rest p' = [] \<and> True)" unfolding load_regex_runs [of s "\<lambda>_. True"] by blast
  then obtain p0 where "p0 \<in> set (rx_match loadStatementRegex (start_pos None s))" "rx_rest p0 = []" by (auto simp: runs_def)
  then obtain p where p: "regex_match loadStatementRegex s = Some p" "p \<in> set (rx_match loadStatementRegex (start_pos None s))" "rx_rest p = []"
    by (rule regex_match_some)
  then have "runs loadStatementRegex (start_pos None s) (\<lambda>p'. rx_rest p' = [] \<and> rx_groups p' = rx_groups p)" by (auto simp: runs_def)
  then obtain a b where "load_shape s a b" "rx_groups p = [1 \<mapsto> a, 2 \<mapsto> b]" unfolding load_regex_runs [of s "\<lambda>g. g = rx_groups p"] by metis
  then show "\<exists>p. regex_match loadStatementRegex s = Some p \<and> group_str 1 p = source \<and> group_str 2 p = graph"
    using load_shape_unique [OF sh] p(1) by (auto simp: group_str_def)
qed

text \<open>A colon directly after a word, followed by the name of the directive.\<close>

primrec after_word :: "string \<Rightarrow> char option \<Rightarrow> string \<Rightarrow> bool" where
  "after_word n b [] = False"
| "after_word n b (c # cs) = (left_word b \<and> c = CHR '':'' \<and> map tolower (take (length n) cs) = map tolower n \<or> after_word n (Some c) cs)"

lemma after_wordI:
  assumes "left_word (if u = [] then b else Some (last u))" and "map tolower m = map tolower n"
  shows "after_word n b (u @ CHR '':'' # m @ v)"
  using assms(1)
proof (induction u arbitrary: b)
  case Nil
  have "length m = length n" using assms(2) by (metis length_map)
  then show ?case using Nil assms(2) by (simp add: take_append)
next
  case (Cons c u)
  then show ?case by (cases "u = []") auto
qed

lemma bound_colon_runs:
  assumes "runs (seqs [Bound, lits [], lit (CHR '':''), lits n, r]) p Q"
  obtains m w where "rx_rest p = CHR '':'' # m @ w" and "map tolower m = map tolower n" and "left_word (rx_prev p)"
proof -
  obtain u v m w where "left_word (rx_prev p) \<noteq> right_word (rx_rest p)" "rx_rest p = u @ v" "map tolower u = [tolower (CHR '':'')]" "v = m @ w"
    "map tolower m = map tolower n"
    using assms unfolding seqs.simps lits.simps(1) runs_simps runs_matches [OF matches_lit] runs_matches [OF matches_lits] advance_simps
    by (elim exE conjE) (rule that)
  moreover from this(3) have "u = '':''" by (auto simp: tolower_def [of "CHR '':''"] map_eq_Cons_conv tolower_punct)
  ultimately show thesis using that by (simp add: right_word_def isword_def isalnum_def isalpha_def isdigit_def)
qed

lemma empty_label_search:
  assumes "\<not> after_word localName None stmt"
  shows "regex_search (directiveRegex localName (Some []) arg) stmt = regex_search (directiveRegex localName None arg) stmt"
proof -
  let ?r = "seqs [Bound, lits [], lit (CHR '':''), lits localName, arg 2]"
  have "rx_match ?r (start_pos (if u = [] then None else Some (last u)) v) = []" if s: "stmt = u @ v" for u v
  proof (rule ccontr)
    let ?p = "start_pos (if u = [] then None else Some (last u)) v"
    assume "rx_match ?r ?p \<noteq> []"
    then have "runs ?r ?p (\<lambda>_. True)" by (rule runs_nonempty)
    then obtain m w where "v = CHR '':'' # m @ w" "map tolower m = map tolower localName" "left_word (if u = [] then None else Some (last u))"
      by (rule bound_colon_runs) (simp add: start_pos_def)
    then show False using after_wordI [of u None m localName w] s assms by simp
  qed
  then have "search_from (Alt r0 ?r) None stmt = search_from r0 None stmt" for r0 by (rule search_Alt)
  then show ?thesis unfolding directiveRegex_def regex_search_def Let_def option.case by simp
qed

text \<open>
  C32. The empty prefix is not understood as a label of the settings namespace, for none of the seven directives: the word boundary that the patterns ask for
  before the colon is there only when the colon directly follows a word, so that in a statement where this never happens the directives written with the
  empty prefix are not found.  What is detected is what would be detected if there were no prefix.
\<close>

theorem empty_prefix_not_recognised:
  assumes "settings_label stmt = Some []"
    and "list_all (\<lambda>n. \<not> after_word n None stmt) [''persists'', ''initialize'', ''defaultGraph'', ''capacity'', ''nodeCapacity'', ''edgeCapacity'', ''propCapacity'']"
  shows "detectSettingsDirectives stmt = directives_under None stmt"
  using assms(2)
  by (simp add: detectSettingsDirectives_def directives_under_def assms(1) hasSettingsDirective_def settingsDirectiveIri_def settingsDirectiveInt_def
      empty_label_search)

abbreviation sample_directives :: string where
  "sample_directives \<equiv> ''PREFIX :<gengodb://sparql/settings/> {:persists true . :defaultGraph <u> . :capacity 5}''"

theorem empty_prefix_not_recognised_witness:
  "settings_label sample_directives = Some [] \<and> detectSettingsDirectives sample_directives = Inr None \<and> classifyStatement sample_directives = Inr SkQuery"
proof -
  have l: "settings_label sample_directives = Some []"
    and a: "list_all (\<lambda>n. \<not> after_word n None sample_directives)
      [''persists'', ''initialize'', ''defaultGraph'', ''capacity'', ''nodeCapacity'', ''edgeCapacity'', ''propCapacity'']" by code_simp+
  have "directives_under None sample_directives = Inr None" by code_simp
  then have d: "detectSettingsDirectives sample_directives = Inr None" using empty_prefix_not_recognised [OF l a] by simp
  have "trim sample_directives = sample_directives" "regex_match loadStatementRegex sample_directives = None" by code_simp+
  then show ?thesis using l d by (simp add: classifyStatement_def)
qed

end
