(* ===== verification/Sparql_Engine.thy ===== *)
theory Sparql_Engine
  imports Catalog_Store Sparql_Statements "HOL-Library.List_Lexorder" "HOL-Library.Char_ord"
begin

text \<open>
  The SPARQL engine (\<open>src/include/gengodb/execution/SparqlEngine.h\<close>, \<open>src/src/gengodb/execution/SparqlEngine.cpp\<close>): loading graphs, settings and the
  dispatch of statements.  A pointer that \<open>loadedGraphs\<close> keeps is the key of the catalog entry it points into.  An exception is
  a value without a state: what a statement has changed before it throws is not described.
\<close>

section \<open>Names of graphs\<close>

definition before_last :: "char \<Rightarrow> string \<Rightarrow> string" where
  "before_last c s = (if c \<in> set s then rev (tl (dropWhile (\<lambda>x. x \<noteq> c) (rev s))) else s)"

definition after_last :: "char \<Rightarrow> string \<Rightarrow> string" where
  "after_last c s = rev (takeWhile (\<lambda>x. x \<noteq> c) (rev s))"

definition uriAlias :: "string \<Rightarrow> string" where
  "uriAlias uri =
     (let name = before_last (CHR ''.'') (after_last (CHR ''/'') (before_last (CHR ''#'') uri));
          name = (if name = [] then ''graph'' else name);
          r = map (\<lambda>c. if isalnum c \<or> c = CHR ''_'' then c else CHR ''_'') name
      in if r = [] \<or> isdigit (hd r) then ''g_'' @ r else r)"

section \<open>State and surroundings\<close>

record engine_state =
  es_catalog :: "db_entry catalog"
  es_dbDir :: string
  es_loadedGraphs :: "(string \<times> string) list"
  es_defaultGraph :: string
  es_nodeCapacity :: int
  es_relCapacity :: int
  es_propCapacity :: int

definition DEFAULT_CAPACITY :: int where
  "DEFAULT_CAPACITY = 1024"

definition new_engine :: "db_entry catalog \<Rightarrow> string \<Rightarrow> engine_state" where
  "new_engine c dir = \<lparr>es_catalog = c, es_dbDir = dir, es_loadedGraphs = [], es_defaultGraph = ''gengodb://sparql/settings/defaultGraph#rdf'',
     es_nodeCapacity = DEFAULT_CAPACITY, es_relCapacity = DEFAULT_CAPACITY, es_propCapacity = DEFAULT_CAPACITY\<rparr>"

text \<open>
  What the engine calls outside of the modelled code: the codes of node types, the parser of RDF files and the IRI check of rdf4cpp, the readers
  of the other catalog entries; further the iteration orders of hash tables and the existence of directories.  The translation and the execution of
  queries, which belong to the repository but are not modelled, may fail and may not return (\<open>None\<close>).
\<close>

datatype translate_failure = UnsupportedFeature string | OtherFailure string

record 'r env =
  ev_code :: "node_type \<Rightarrow> int"
  ev_decode :: "int \<Rightarrow> node_type"
  ev_parse :: "string \<Rightarrow> quad_item list"
  ev_parse_file :: "string \<Rightarrow> quad_item list"
  ev_iri_error :: "string \<Rightarrow> error option"
  ev_other :: "int \<Rightarrow> db_entry option reader"
  ev_index_order :: "index_table \<Rightarrow> string list"
  ev_order :: "(string \<rightharpoonup> db_entry) \<Rightarrow> (string \<times> db_entry) list"
  ev_read_order :: "(string \<rightharpoonup> db_entry option) \<Rightarrow> string list"
  ev_dirExists :: "string \<Rightarrow> bool"
  ev_translate :: "string \<Rightarrow> string \<Rightarrow> (translate_failure + string) option"
  ev_execute :: "db_entry catalog \<Rightarrow> string \<Rightarrow> (string + 'r) option"

definition ev_class :: "'r env \<Rightarrow> db_entry entry_class" where
  "ev_class ev = db_class (ev_code ev) (ev_decode ev) (ev_index_order ev) (ev_other ev) (ev_parse ev) (ev_parse_file ev)"

section \<open>Loading a graph\<close>

definition endsWith :: "string \<Rightarrow> string \<Rightarrow> bool" where
  "endsWith s ext = (length s \<ge> length ext \<and> drop (length s - length ext) s = ext)"

definition load_format :: "string \<Rightarrow> file_format res" where
  "load_format sourceIri =
     (if endsWith sourceIri ''.ttl'' then Inr FF_TURTLE
      else if endsWith sourceIri ''.fttl'' then Inr FF_FUZZY_TURTLE
      else Inl (RuntimeError (''LOAD: only Turtle (.ttl) and Fuzzy-Turtle (.fttl) sources are supported for now: <'' @ sourceIri @ ''>'')))"

text \<open>The entry of a graph, loaded in place.\<close>

definition load_entry :: "'r env \<Rightarrow> file_system \<Rightarrow> engine_state \<Rightarrow> string \<Rightarrow> rdf_entry \<Rightarrow> engine_state res option" where
  "load_entry ev fs st name e =
     bindOE (entry_ensureFullyLoaded (ev_decode ev) (ev_parse ev) (ev_parse_file ev) fs e) (\<lambda>e.
     Some (Inr (st\<lparr>es_catalog := (es_catalog st)\<lparr>entries := (entries (es_catalog st))(name \<mapsto> GraphEntry e)\<rparr>\<rparr>)))"

definition push_loaded :: "engine_state \<Rightarrow> string \<Rightarrow> string \<Rightarrow> engine_state" where
  "push_loaded st name key = st\<lparr>es_loadedGraphs := es_loadedGraphs st @ [(name, key)]\<rparr>"

definition load_new :: "'r env \<Rightarrow> file_system \<Rightarrow> engine_state \<Rightarrow> create_rdf_graph_def \<Rightarrow> (file_system \<times> engine_state) res option" where
  "load_new ev fs st d =
     bindOE (Some (createFromCreateRdfGraphDef d)) (\<lambda>e.
     bindOE (Some (insertEntry (ev_class ev) fs (es_catalog st) (GraphEntry e) False)) (\<lambda>(fs, c).
     case entries c (re_name e) of
       Some (GraphEntry e) \<Rightarrow> bindOE (load_entry ev fs (st\<lparr>es_catalog := c\<rparr>) (re_name e) e) (\<lambda>st. Some (Inr (fs, push_loaded st (re_name e) (re_name e))))
     | _ \<Rightarrow> Some (Inl OutOfBounds)))"

definition handleLoad :: "'r env \<Rightarrow> file_system \<Rightarrow> engine_state \<Rightarrow> string \<Rightarrow> string \<Rightarrow> (file_system \<times> engine_state) res option" where
  "handleLoad ev fs st sourceIri graphIri =
     bindOE (Some (load_format sourceIri)) (\<lambda>format.
     if take 7 sourceIri \<noteq> ''file://'' then Some (Inl (RuntimeError (''LOAD: only file:// source IRIs are supported for now: <'' @ sourceIri @ ''>'')))
     else let name = uriAlias graphIri; filename = uriAlias sourceIri;
              expectedPath = es_dbDir st @ filename @ formatExtension (Named format) in
       if fs_files fs expectedPath = None
       then Some (Inl (RuntimeError (''LOAD: expected RDF file at '' @ [CHR 0x27] @ expectedPath @ [CHR 0x27] @ '' (derived from GRAPH <'' @ sourceIri
              @ ''>) but it was not found'')))
       else case getTypedEntry (ev_class ev) [4] (es_catalog st) name of
         Some (GraphEntry e) \<Rightarrow>
           bindOE (if re_format e \<noteq> Named FF_BINARY then load_entry ev fs st name e else Some (Inr st)) (\<lambda>st.
           Some (Inr (fs, push_loaded st (re_name e) name)))
       | _ \<Rightarrow> (case ev_iri_error ev graphIri of
           Some err \<Rightarrow> Some (Inl err)
         | None \<Rightarrow> load_new ev fs st \<lparr>crd_name = name, crd_iri = graphIri, crd_format = Named format, crd_sourceFileName = filename,
             crd_nodeCapacity = es_nodeCapacity st, crd_relCapacity = es_relCapacity st, crd_propCapacity = es_propCapacity st\<rparr>))"

section \<open>Settings\<close>

definition set_capacity :: "string \<Rightarrow> int option \<Rightarrow> (int \<Rightarrow> engine_state \<Rightarrow> engine_state) \<Rightarrow> engine_state \<Rightarrow> engine_state res" where
  "set_capacity name value f st = (case value of
       None \<Rightarrow> Inr st
     | Some n \<Rightarrow> if n \<le> 0 then Inl (RuntimeError (name @ '' must be a positive integer'')) else Inr (f n st))"

definition set_capacities :: "engine_state \<Rightarrow> settings_directives \<Rightarrow> engine_state res" where
  "set_capacities st d =
     bindE (set_capacity ''capacity'' (sd_capacity d) (\<lambda>n st. st\<lparr>es_nodeCapacity := n, es_relCapacity := n, es_propCapacity := n\<rparr>) st) (\<lambda>st.
     bindE (set_capacity ''nodeCapacity'' (sd_nodeCapacity d) (\<lambda>n st. st\<lparr>es_nodeCapacity := n\<rparr>) st) (\<lambda>st.
     bindE (set_capacity ''edgeCapacity'' (sd_relCapacity d) (\<lambda>n st. st\<lparr>es_relCapacity := n\<rparr>) st) (\<lambda>st.
     set_capacity ''propCapacity'' (sd_propCapacity d) (\<lambda>n st. st\<lparr>es_propCapacity := n\<rparr>) st)))"

text \<open>The graphs behind the pointers; a key without a graph entry would be a dangling pointer.\<close>

primrec loaded_graphs :: "db_entry catalog \<Rightarrow> (string \<times> string) list \<Rightarrow> (string \<times> rdf_graph) list res" where
  "loaded_graphs c [] = Inr []"
| "loaded_graphs c (nk # ns) = (case entries c (snd nk) of
       Some (GraphEntry e) \<Rightarrow> bindE (loaded_graphs c ns) (\<lambda>gs. Inr ((fst nk, re_graph e) # gs))
     | _ \<Rightarrow> Inl OutOfBounds)"

definition rebuild_index :: "'r env \<Rightarrow> file_system \<Rightarrow> engine_state \<Rightarrow> (file_system \<times> engine_state) res" where
  "rebuild_index ev fs st =
     bindE (loaded_graphs (es_catalog st) (es_loadedGraphs st)) (\<lambda>gs.
     bindE (build (ev_decode ev) gs) (\<lambda>index.
     bindE (insertEntry (ev_class ev) fs (es_catalog st) (IndexEntry (Some (\<lambda>k. map_option Some (index k)))) True) (\<lambda>(fs, c).
     Inr (fs, st\<lparr>es_catalog := c\<rparr>))))"

text \<open>
  The errors that are C++ exceptions.  A failed assertion and \<open>std::terminate\<close> end the process; after an access outside of a buffer, or with
  bytes that were never read, the behaviour is not defined.
\<close>

definition is_exception :: "error \<Rightarrow> bool" where
  "is_exception e = (case e of AssertFail _ \<Rightarrow> False | Terminated \<Rightarrow> False | OutOfBounds \<Rightarrow> False | ShortRead \<Rightarrow> False | _ \<Rightarrow> True)"

definition in_destructor :: "'a res \<Rightarrow> 'a res" where
  "in_destructor r = (case r of Inl e \<Rightarrow> Inl (if is_exception e then Terminated else e) | Inr x \<Rightarrow> Inr x)"

text \<open>
  The new session is created before the old one is given up; giving it up destroys its catalog, which writes itself once more in its destructor.
\<close>

definition persist_session :: "'r env \<Rightarrow> file_system \<Rightarrow> engine_state \<Rightarrow> (file_system \<times> engine_state) res option" where
  "persist_session ev fs st =
     bindOE (Some (setShouldPersist (ev_class ev) (ev_order ev (entries (es_catalog st))) fs (es_catalog st) True)) (\<lambda>(fs, c).
     bindOE (Some (persist (ev_class ev) (ev_dirExists ev) (ev_order ev (entries c)) fs c)) (\<lambda>fs.
     bindOE (cat_create (ev_class ev) (ev_read_order ev) fs (es_dbDir st) True) (\<lambda>c'.
     bindOE (Some (in_destructor (persist (ev_class ev) (ev_dirExists ev) (ev_order ev (entries c)) fs c))) (\<lambda>fs.
     Some (Inr (fs, st\<lparr>es_catalog := c',
       es_loadedGraphs := map (\<lambda>n. (n, n)) (filter (\<lambda>n. getTypedEntry (ev_class ev) [4] c' n \<noteq> None) (map fst (es_loadedGraphs st)))\<rparr>))))))"

definition handleSettings :: "'r env \<Rightarrow> file_system \<Rightarrow> engine_state \<Rightarrow> settings_directives \<Rightarrow> (file_system \<times> engine_state) res option" where
  "handleSettings ev fs st d =
     bindOE (Some (set_capacities st d)) (\<lambda>st.
     bindOE (Some (if sd_initialize d then rebuild_index ev fs st else Inr (fs, st))) (\<lambda>(fs, st).
     bindOE (if sd_persists d then persist_session ev fs st else Some (Inr (fs, st))) (\<lambda>(fs, st).
     Some (Inr (fs, case sd_defaultGraph d of None \<Rightarrow> st | Some g \<Rightarrow> st\<lparr>es_defaultGraph := g\<rparr>)))))"

section \<open>Statements\<close>

text \<open>
  Statements as the HTTP endpoint runs them (\<open>throwOnError\<close>): an unsupported feature of SPARQL is thrown as such, every other failure as an error.
\<close>

datatype fault = Unsupported string | Fault error

definition handleQuery :: "'r env \<Rightarrow> engine_state \<Rightarrow> string \<Rightarrow> string option \<Rightarrow> (fault + 'r) option" where
  "handleQuery ev st stmt defaultGraphOverride =
     (case ev_translate ev stmt (case defaultGraphOverride of None \<Rightarrow> es_defaultGraph st | Some g \<Rightarrow> g) of
        None \<Rightarrow> None
      | Some (Inl (UnsupportedFeature what)) \<Rightarrow> Some (Inl (Unsupported what))
      | Some (Inl (OtherFailure what)) \<Rightarrow> Some (Inl (Fault (RuntimeError (''Error translating SPARQL: '' @ what))))
      | Some (Inr mlirText) \<Rightarrow> (case ev_execute ev (es_catalog st) mlirText of
          None \<Rightarrow> None
        | Some (Inl message) \<Rightarrow> Some (Inl (Fault (RuntimeError message)))
        | Some (Inr r) \<Rightarrow> Some (Inr r)))"

definition handleStatement ::
  "'r env \<Rightarrow> file_system \<Rightarrow> engine_state \<Rightarrow> string \<Rightarrow> string option \<Rightarrow> (fault + (file_system \<times> engine_state \<times> 'r option)) option" where
  "handleStatement ev fs st rawStmt defaultGraphOverride = (let stmt = trim rawStmt in
     if stmt = [] then Some (Inr (fs, st, None))
     else case regex_match loadStatementRegex stmt of
       Some m \<Rightarrow> map_option (map_sum Fault (\<lambda>(fs, st). (fs, st, None))) (handleLoad ev fs st (group_str 1 m) (group_str 2 m))
     | None \<Rightarrow> (case detectSettingsDirectives stmt of
         Inl e \<Rightarrow> Some (Inl (Fault e))
       | Inr (Some d) \<Rightarrow> map_option (map_sum Fault (\<lambda>(fs, st). (fs, st, None))) (handleSettings ev fs st d)
       | Inr None \<Rightarrow> map_option (map_sum (\<lambda>x. x) (\<lambda>r. (fs, st, Some r))) (handleQuery ev st stmt defaultGraphOverride)))"

section \<open>The pointers to loaded graphs\<close>

definition graph_keys :: "db_entry catalog \<Rightarrow> string set" where
  "graph_keys c = {k. \<exists>e. entries c k = Some (GraphEntry e)}"

definition pointers_ok :: "engine_state \<Rightarrow> bool" where
  "pointers_ok st \<longleftrightarrow> snd ` set (es_loadedGraphs st) \<subseteq> graph_keys (es_catalog st)"

lemma loaded_graphs_iff: "(\<exists>gs. loaded_graphs c ns = Inr gs) \<longleftrightarrow> snd ` set ns \<subseteq> graph_keys c"
  by (induction ns) (auto simp: graph_keys_def bindE_eq_Inr_iff split: option.splits db_entry.splits)

lemma load_entry_keys:
  "load_entry ev fs st name e = Some (Inr st') \<Longrightarrow>
   graph_keys (es_catalog st') = insert name (graph_keys (es_catalog st)) \<and> es_loadedGraphs st' = es_loadedGraphs st"
  by (auto simp: load_entry_def graph_keys_def bindOE_eq_Inr_iff)

lemma insert_graph_keys:
  assumes "insertEntry (ev_class ev) fs c (GraphEntry e) b = Inr (fs', c')"
  shows "graph_keys c' = insert (re_name e) (graph_keys c)"
  using assms
  by (auto simp: insertEntry_def ev_class_def db_class_def graph_keys_def entry_setDBDir_def entry_setShouldPersist_def setPersist_def Let_def
      bindE_eq_Inr_iff split: if_splits)

lemma insert_index_keys:
  assumes "insertEntry (ev_class ev) fs c (IndexEntry i) b = Inr (fs', c')"
  shows "graph_keys c' = graph_keys c - {ENTRY_NAME}"
  using assms by (auto simp: insertEntry_def ev_class_def db_class_def graph_keys_def split: if_splits)

lemma typed_graph:
  "getTypedEntry (ev_class ev) [4] c n = Some e \<Longrightarrow> \<exists>g. e = GraphEntry g \<and> entries c n = Some (GraphEntry g)"
  by (cases e) (auto simp: getTypedEntry_def ev_class_def db_class_def split: option.splits if_splits)

lemma load_new_pointers:
  assumes "pointers_ok st" and "load_new ev fs st d = Some (Inr (fs', st'))"
  shows "pointers_ok st'"
proof -
  obtain e fs1 c where i: "insertEntry (ev_class ev) fs (es_catalog st) (GraphEntry e) False = Inr (fs1, c)"
    and r: "(case entries c (re_name e) of
       Some (GraphEntry e) \<Rightarrow> bindOE (load_entry ev fs1 (st\<lparr>es_catalog := c\<rparr>) (re_name e) e) (\<lambda>st. Some (Inr (fs1, push_loaded st (re_name e) (re_name e))))
     | _ \<Rightarrow> Some (Inl OutOfBounds)) = Some (Inr (fs', st'))"
    using assms(2) by (auto simp: load_new_def bindOE_eq_Inr_iff)
  have "re_name e \<in> graph_keys c" using insert_graph_keys [OF i] by blast
  then obtain e1 where "entries c (re_name e) = Some (GraphEntry e1)" by (auto simp: graph_keys_def)
  with r obtain st1 where l: "load_entry ev fs1 (st\<lparr>es_catalog := c\<rparr>) (re_name e1) e1 = Some (Inr st1)" "st' = push_loaded st1 (re_name e1) (re_name e1)"
    by (auto simp: bindOE_eq_Inr_iff)
  from insert_graph_keys [OF i] load_entry_keys [OF l(1)] l(2) assms(1) show ?thesis by (auto simp: pointers_ok_def push_loaded_def)
qed

lemma handleLoad_pointers:
  assumes "pointers_ok st" and "handleLoad ev fs st source graph = Some (Inr (fs', st'))"
  shows "pointers_ok st'"
proof (cases "getTypedEntry (ev_class ev) [4] (es_catalog st) (uriAlias graph)")
  case None
  then show ?thesis using assms(2) load_new_pointers [OF assms(1)]
    by (auto simp: handleLoad_def Let_def bindOE_eq_Inr_iff split: if_splits option.splits)
next
  case (Some x)
  from typed_graph [OF this] obtain e where e: "x = GraphEntry e" "entries (es_catalog st) (uriAlias graph) = Some (GraphEntry e)" by blast
  then have k: "uriAlias graph \<in> graph_keys (es_catalog st)" by (auto simp: graph_keys_def)
  obtain st1 where "st' = push_loaded st1 (re_name e) (uriAlias graph)" "st1 = st \<or> load_entry ev fs st (uriAlias graph) e = Some (Inr st1)"
    using assms(2) Some e(1) by (auto simp: handleLoad_def Let_def bindOE_eq_Inr_iff split: if_splits)
  with load_entry_keys [of ev fs st "uriAlias graph" e st1] k assms(1) show ?thesis by (fastforce simp: pointers_ok_def push_loaded_def)
qed

lemma set_capacity_cases: "set_capacity name v f st = Inr st' \<Longrightarrow> st' = st \<or> (\<exists>n. st' = f n st)"
  by (auto simp: set_capacity_def split: option.splits if_splits)

lemma set_capacities_same:
  assumes "set_capacities st d = Inr st'"
  shows "es_catalog st' = es_catalog st \<and> es_loadedGraphs st' = es_loadedGraphs st \<and> es_dbDir st' = es_dbDir st"
proof -
  obtain s1 s2 s3 where "set_capacity ''capacity'' (sd_capacity d) (\<lambda>n st. st\<lparr>es_nodeCapacity := n, es_relCapacity := n, es_propCapacity := n\<rparr>) st = Inr s1"
    "set_capacity ''nodeCapacity'' (sd_nodeCapacity d) (\<lambda>n st. st\<lparr>es_nodeCapacity := n\<rparr>) s1 = Inr s2"
    "set_capacity ''edgeCapacity'' (sd_relCapacity d) (\<lambda>n st. st\<lparr>es_relCapacity := n\<rparr>) s2 = Inr s3"
    "set_capacity ''propCapacity'' (sd_propCapacity d) (\<lambda>n st. st\<lparr>es_propCapacity := n\<rparr>) s3 = Inr st'"
    using assms unfolding set_capacities_def bindE_eq_Inr_iff by blast
  from this [THEN set_capacity_cases] show ?thesis by auto
qed

lemma persist_session_pointers: "persist_session ev fs st = Some (Inr (fs', st')) \<Longrightarrow> pointers_ok st'"
  by (auto simp: persist_session_def bindOE_eq_Inr_iff pointers_ok_def graph_keys_def dest!: typed_graph)

lemma rebuild_index_pointers:
  assumes "pointers_ok st" and "rebuild_index ev fs st = Inr (fs', st')"
  shows "pointers_ok st' \<longleftrightarrow> ENTRY_NAME \<notin> snd ` set (es_loadedGraphs st)"
proof -
  obtain i c where "insertEntry (ev_class ev) fs (es_catalog st) (IndexEntry i) True = Inr (fs', c)" "st' = st\<lparr>es_catalog := c\<rparr>"
    using assms(2) by (auto simp: rebuild_index_def bindE_eq_Inr_iff)
  then show ?thesis using insert_index_keys [of ev fs "es_catalog st" i True fs' c] assms(1)
    by (simp add: pointers_ok_def subset_Diff_insert)
qed

lemma handleSettings_pointers:
  assumes "pointers_ok st" and "handleSettings ev fs st d = Some (Inr (fs', st'))"
  shows "pointers_ok st' \<longleftrightarrow> \<not> (sd_initialize d \<and> \<not> sd_persists d \<and> ENTRY_NAME \<in> snd ` set (es_loadedGraphs st))"
proof -
  obtain st1 fs2 st2 fs3 st3 where s: "set_capacities st d = Inr st1" "(if sd_initialize d then rebuild_index ev fs st1 else Inr (fs, st1)) = Inr (fs2, st2)"
    "(if sd_persists d then persist_session ev fs2 st2 else Some (Inr (fs2, st2))) = Some (Inr (fs3, st3))"
    "st' = (case sd_defaultGraph d of None \<Rightarrow> st3 | Some g \<Rightarrow> st3\<lparr>es_defaultGraph := g\<rparr>)"
    using assms(2) by (auto simp: handleSettings_def bindOE_eq_Inr_iff)
  have 1: "pointers_ok st1" "es_loadedGraphs st1 = es_loadedGraphs st" using set_capacities_same [OF s(1)] assms(1) by (simp_all add: pointers_ok_def)
  have 2: "pointers_ok st2 \<longleftrightarrow> \<not> (sd_initialize d \<and> ENTRY_NAME \<in> snd ` set (es_loadedGraphs st))"
    using s(2) rebuild_index_pointers [OF 1(1), of ev fs fs2 st2] 1 by (auto split: if_splits)
  have "pointers_ok st' = pointers_ok st3" using s(4) by (auto simp: pointers_ok_def split: option.splits)
  moreover have "if sd_persists d then pointers_ok st3 else st3 = st2" using s(3) persist_session_pointers by (auto split: if_splits)
  ultimately show ?thesis using 2 by (auto split: if_splits)
qed

lemma map_sum_Inr_iff: "map_sum f g x = Inr y \<longleftrightarrow> (\<exists>z. x = Inr z \<and> y = g z)"
  by (cases x) auto

text \<open>
  A graph with the name of the node index breaks the pointers: rebuilding the index replaces its catalog entry, and rebuilding it once more reads the freed graph.
\<close>

lemma index_replaces_graph:
  assumes "ENTRY_NAME \<in> snd ` set (es_loadedGraphs st)" and "rebuild_index ev fs st = Inr (fs', st')"
  shows "rebuild_index ev fs' st' = Inl OutOfBounds"
proof -
  obtain i c where i: "insertEntry (ev_class ev) fs (es_catalog st) (IndexEntry i) True = Inr (fs', c)" "st' = st\<lparr>es_catalog := c\<rparr>"
    using assms(2) by (auto simp: rebuild_index_def bindE_eq_Inr_iff)
  have "entries c ENTRY_NAME \<noteq> Some (GraphEntry e)" for e using insert_index_keys [OF i(1)] by (auto simp: graph_keys_def)
  then have "loaded_graphs c ns = Inl OutOfBounds" if "ENTRY_NAME \<in> snd ` set ns" for ns
    using that by (induction ns) (auto split: option.split db_entry.split)
  then show ?thesis using assms(1) i(2) by (simp add: rebuild_index_def)
qed

lemma loaded_entry_stays:
  assumes "rg_loaded (re_graph e)"
  shows "\<exists>e'. entry_ensureFullyLoaded decode parse parse_file fs e = Some (Inr e') \<and> re_name e' = re_name e
    \<and> pg (re_graph e') = pg (re_graph e) \<and> rg_nodes (re_graph e') = rg_nodes (re_graph e) \<and> rg_iri (re_graph e') = rg_iri (re_graph e)"
  using assms by (simp add: entry_ensureFullyLoaded_def rdf_ensureLoaded_def setLoadedFromRdfFile_def setFuzzy_def setRdfParseFlags_def Let_def)

text \<open>An instance: hash tables iterated in the order of their keys.\<close>

definition key_order :: "(string \<rightharpoonup> 'e) \<Rightarrow> string list" where
  "key_order m = sorted_list_of_set (dom m)"

definition entry_order :: "(string \<rightharpoonup> 'e) \<Rightarrow> (string \<times> 'e) list" where
  "entry_order m = map (\<lambda>k. (k, the (m k))) (key_order m)"

definition sample_env :: "nat env" where
  "sample_env = \<lparr>ev_code = sample_code, ev_decode = sample_decode, ev_parse = (\<lambda>_. []), ev_parse_file = (\<lambda>_. []), ev_iri_error = (\<lambda>_. None),
     ev_other = (\<lambda>_ _. Inl ShortRead), ev_index_order = (\<lambda>_. []), ev_order = entry_order, ev_read_order = key_order, ev_dirExists = (\<lambda>_. True),
     ev_translate = (\<lambda>s g. Some (Inr s)), ev_execute = (\<lambda>c q. Some (Inr (length q)))\<rparr>"

definition sample_session :: "db_entry \<Rightarrow> engine_state" where
  "sample_session x = (new_engine \<lparr>shouldPersist = False, cat_dbDir = ''d'', entries = [''g'' \<mapsto> x]\<rparr> ''d'')\<lparr>es_loadedGraphs := [(''g'', ''g'')]\<rparr>"

section \<open>Properties\<close>

text \<open>A settings statement that rebuilds the node index and does not reopen the session.\<close>

definition only_initialises :: "string \<Rightarrow> bool" where
  "only_initialises stmt \<longleftrightarrow> regex_match loadStatementRegex (trim stmt) = None
     \<and> (\<exists>d. detectSettingsDirectives (trim stmt) = Inr (Some d) \<and> sd_initialize d \<and> \<not> sd_persists d)"

text \<open>
  C21. When the pointers to loaded graphs are valid, they are valid after every statement that completes, with exactly one exception: when a graph under
  the name of the node index is loaded, a statement that rebuilds the index without reopening the session leaves its pointer dangling.  As long as the
  pointers are valid the graphs behind them can be read.
\<close>

theorem loaded_graphs_stay_valid:
  assumes "pointers_ok st" and "handleStatement ev fs st stmt defaultGraph = Some (Inr (fs', st', r))"
  shows "(pointers_ok st' \<longleftrightarrow> \<not> (only_initialises stmt \<and> ENTRY_NAME \<in> snd ` set (es_loadedGraphs st)))
    \<and> (pointers_ok st' \<longleftrightarrow> (\<exists>gs. loaded_graphs (es_catalog st') (es_loadedGraphs st') = Inr gs))"
proof -
  have e: "detectSettingsDirectives [] = Inr None" by code_simp
  have "pointers_ok st' \<longleftrightarrow> \<not> (only_initialises stmt \<and> ENTRY_NAME \<in> snd ` set (es_loadedGraphs st))"
  proof (cases "trim stmt \<noteq> [] \<and> regex_match loadStatementRegex (trim stmt) = None \<and> (\<exists>d. detectSettingsDirectives (trim stmt) = Inr (Some d))")
    case True
    then obtain d where d: "detectSettingsDirectives (trim stmt) = Inr (Some d)" by blast
    then have "handleSettings ev fs st d = Some (Inr (fs', st'))"
      using assms(2) True by (auto simp: handleStatement_def Let_def map_sum_Inr_iff)
    from handleSettings_pointers [OF assms(1) this] show ?thesis using True d by (auto simp: only_initialises_def)
  next
    case False
    then have "\<not> only_initialises stmt" using e by (auto simp: only_initialises_def)
    moreover have "pointers_ok st'" using assms(2) False handleLoad_pointers [OF assms(1)] assms(1)
      by (auto simp: handleStatement_def Let_def map_sum_Inr_iff split: if_splits option.splits sum.splits)
    ultimately show ?thesis by simp
  qed
  then show ?thesis by (simp add: loaded_graphs_iff pointers_ok_def)
qed

lemma initialise_statement:
  "trim ''<gengodb://sparql/settings/initialize> true'' = ''<gengodb://sparql/settings/initialize> true''"
  "regex_match loadStatementRegex ''<gengodb://sparql/settings/initialize> true'' = None"
  "detectSettingsDirectives ''<gengodb://sparql/settings/initialize> true'' = Inr (Some \<lparr>sd_persists = False, sd_initialize = True, sd_defaultGraph = None,
     sd_capacity = None, sd_nodeCapacity = None, sd_relCapacity = None, sd_propCapacity = None\<rparr>)"
  by code_simp+

lemma initialise_sample:
  assumes "rg_nodes (re_graph e) = empty_dict" and "st = (new_engine \<lparr>shouldPersist = False, cat_dbDir = ''d'', entries = [k \<mapsto> GraphEntry e]\<rparr> ''d'')\<lparr>es_loadedGraphs := [(k, k)]\<rparr>"
  shows "\<exists>st'. handleStatement sample_env sample_fs st ''<gengodb://sparql/settings/initialize> true'' None = Some (Inr (sample_fs, st', None))"
  by (simp add: handleStatement_def initialise_statement handleSettings_def set_capacities_def set_capacity_def rebuild_index_def build_def number_graph_def
      insertEntry_def ev_class_def db_class_def new_engine_def assms empty_dict_def dict_size_def to_i32_def Let_def)

theorem loaded_graphs_stay_valid_witness:
  "\<exists>e st1 st2. handleStatement sample_env sample_fs (sample_session (GraphEntry e)) ''<gengodb://sparql/settings/initialize> true'' None
      = Some (Inr (sample_fs, st1, None)) \<and> pointers_ok st1
    \<and> handleStatement sample_env sample_fs
        ((new_engine \<lparr>shouldPersist = False, cat_dbDir = ''d'', entries = [ENTRY_NAME \<mapsto> GraphEntry e]\<rparr> ''d'')\<lparr>es_loadedGraphs := [(ENTRY_NAME, ENTRY_NAME)]\<rparr>)
        ''<gengodb://sparql/settings/initialize> true'' None = Some (Inr (sample_fs, st2, None)) \<and> \<not> pointers_ok st2"
proof -
  obtain e where "createFromCreateRdfGraphDef sample_def = Inr e" using sample_def_created by metis
  then have e: "rg_nodes (re_graph e) = empty_dict"
    by (auto simp: createFromCreateRdfGraphDef_def rdf_create_def mk_rdfGraph_def sample_def_def bindE_eq_Inr_iff)
  let ?st = "\<lambda>k. (new_engine \<lparr>shouldPersist = False, cat_dbDir = ''d'', entries = [k \<mapsto> GraphEntry e]\<rparr> ''d'')\<lparr>es_loadedGraphs := [(k, k)]\<rparr>"
  have p: "pointers_ok (?st k)" for k by (simp add: pointers_ok_def new_engine_def graph_keys_def)
  have o: "only_initialises ''<gengodb://sparql/settings/initialize> true''" by (simp add: only_initialises_def initialise_statement)
  obtain st1 st2 where st: "handleStatement sample_env sample_fs (?st ''g'') ''<gengodb://sparql/settings/initialize> true'' None = Some (Inr (sample_fs, st1, None))"
    "handleStatement sample_env sample_fs (?st ENTRY_NAME) ''<gengodb://sparql/settings/initialize> true'' None = Some (Inr (sample_fs, st2, None))"
    using initialise_sample [OF e refl] by metis
  have "pointers_ok st1" using loaded_graphs_stay_valid [OF p st(1)] by (simp add: ENTRY_NAME_def)
  moreover have "\<not> pointers_ok st2" using loaded_graphs_stay_valid [OF p st(2)] o by simp
  ultimately show ?thesis using st unfolding sample_session_def by blast
qed

text \<open>
  C33. Graphs are told apart by the last part of their IRI only: when a graph with the same alias is loaded already, \<open>LOAD\<close> reports success, but
  leaves that graph and the catalog as they are and never reads the source it was given, even if the IRI of the graph is another one.
\<close>

theorem load_with_same_alias_ignored:
  assumes "entries (es_catalog st) (uriAlias graphIri) = Some (GraphEntry e)" and "rg_loaded (re_graph e)" and "load_format sourceIri = Inr format"
    and "take 7 sourceIri = ''file://''" and "fs_files fs (es_dbDir st @ uriAlias sourceIri @ formatExtension (Named format)) \<noteq> None"
  shows "\<exists>st'. handleLoad ev fs st sourceIri graphIri = Some (Inr (fs, st')) \<and> es_loadedGraphs st' = es_loadedGraphs st @ [(re_name e, uriAlias graphIri)]
    \<and> (\<forall>k. k \<noteq> uriAlias graphIri \<longrightarrow> entries (es_catalog st') k = entries (es_catalog st) k)
    \<and> (\<exists>e'. entries (es_catalog st') (uriAlias graphIri) = Some (GraphEntry e') \<and> pg (re_graph e') = pg (re_graph e)
          \<and> rg_nodes (re_graph e') = rg_nodes (re_graph e) \<and> rg_iri (re_graph e') = rg_iri (re_graph e))"
proof -
  have t: "getTypedEntry (ev_class ev) [4] (es_catalog st) (uriAlias graphIri) = Some (GraphEntry e)"
    using assms(1) by (simp add: getTypedEntry_def ev_class_def db_class_def)
  obtain e' where "entry_ensureFullyLoaded (ev_decode ev) (ev_parse ev) (ev_parse_file ev) fs e = Some (Inr e')" "re_name e' = re_name e"
    "pg (re_graph e') = pg (re_graph e)" "rg_nodes (re_graph e') = rg_nodes (re_graph e)" "rg_iri (re_graph e') = rg_iri (re_graph e)"
    using loaded_entry_stays [OF assms(2)] by metis
  then show ?thesis using assms t by (auto simp: handleLoad_def load_entry_def push_loaded_def Let_def)
qed

definition sample_file :: file_system where
  "sample_file = sample_fs\<lparr>fs_files := [''db.ttl'' \<mapsto> [1]]\<rparr>"

theorem load_with_same_alias_ignored_witness:
  "\<exists>e st'. rg_iri (re_graph e) = ''u'' \<and> handleLoad sample_env sample_file (sample_session (GraphEntry e)) ''file://b.ttl'' ''http://other/g'' = Some (Inr (sample_file, st'))
    \<and> (\<exists>e'. entries (es_catalog st') ''g'' = Some (GraphEntry e') \<and> rg_iri (re_graph e') = ''u'')"
proof -
  obtain e0 where e0: "createFromCreateRdfGraphDef sample_def = Inr e0" using sample_def_created by metis
  let ?e = "e0\<lparr>re_graph := (re_graph e0)\<lparr>rg_loaded := True\<rparr>\<rparr>"
  have i: "rg_iri (re_graph ?e) = ''u''" using e0
    by (auto simp: createFromCreateRdfGraphDef_def rdf_create_def mk_rdfGraph_def sample_def_def bindE_eq_Inr_iff)
  have a: "uriAlias ''http://other/g'' = ''g''" "uriAlias ''file://b.ttl'' = ''b''" "load_format ''file://b.ttl'' = Inr FF_TURTLE" "formatExtension (Named FF_TURTLE) = ''.ttl''"
    by code_simp+
  have "entries (es_catalog (sample_session (GraphEntry ?e))) (uriAlias ''http://other/g'') = Some (GraphEntry ?e)"
    by (simp add: a sample_session_def new_engine_def)
  from load_with_same_alias_ignored [OF this _ a(3), of sample_file sample_env]
  have "\<exists>st'. handleLoad sample_env sample_file (sample_session (GraphEntry ?e)) ''file://b.ttl'' ''http://other/g'' = Some (Inr (sample_file, st'))
      \<and> (\<exists>e'. entries (es_catalog st') ''g'' = Some (GraphEntry e') \<and> rg_iri (re_graph e') = ''u'')"
    unfolding a i by (auto simp: sample_file_def sample_session_def new_engine_def)
  with i show ?thesis by blast
qed

end
