(* ===== verification/Sparql_Session.thy ===== *)
theory Sparql_Session
  imports Sparql_Engine
begin

text \<open>
  What the directive \<open>persists\<close> does to the graphs: the engine writes every graph and the catalog, opens a new session on the same
  directory and goes on with the graphs it finds there.
\<close>

section \<open>Entries that can be stored\<close>

definition source_path :: "string \<Rightarrow> rdf_entry \<Rightarrow> string" where
  "source_path dir e = dir @ rg_sourceFileName (re_graph e) @ getRDFFileExtension (getRDFParseFlags (re_format e))"

definition storable :: "'r env \<Rightarrow> file_system \<Rightarrow> string \<Rightarrow> string \<Rightarrow> db_entry \<Rightarrow> bool" where
  "storable ev fs dir k x \<longleftrightarrow> len64 k \<and> (case x of
       GraphEntry e \<Rightarrow> rdf_inv (ev_decode ev) (re_graph e) \<and> persistable fs e \<and> re_format e \<noteq> Named FF_BINARY
         \<and> dbDir (rg_store (re_graph e)) = dir \<and> fileName (rg_store (re_graph e)) = k
         \<and> (fs_files fs (source_path dir e) = None \<or> fs_mtime fs (source_path dir e) \<le> fs_now fs)
     | _ \<Rightarrow> db_fits (ev_index_order ev) x)"

definition all_storable :: "'r env \<Rightarrow> file_system \<Rightarrow> string \<Rightarrow> (string \<times> db_entry) list \<Rightarrow> bool" where
  "all_storable ev fs dir es \<longleftrightarrow> list_all (\<lambda>(k, x). storable ev fs dir k x) es"

text \<open>The entry after \<open>setShouldPersist\<close>.\<close>

definition marked :: "db_entry \<Rightarrow> db_entry" where
  "marked x = (case x of GraphEntry e \<Rightarrow> GraphEntry (e\<lparr>re_graph := (re_graph e)\<lparr>rg_persist := True\<rparr>\<rparr>) | _ \<Rightarrow> x)"

definition put_entry :: "string \<Rightarrow> file_system \<Rightarrow> string \<times> db_entry \<Rightarrow> file_system" where
  "put_entry dir fs kx = (case snd kx of GraphEntry e \<Rightarrow> put fs (graphPath dir (fst kx)) (graph_bytes (rg_store (re_graph e))) | _ \<Rightarrow> fs)"

lemma catalog_not_graph: "catalogPath dir \<noteq> graphPath dir' k"
proof
  assume "catalogPath dir = graphPath dir' k"
  then have "last (catalogPath dir) = last (graphPath dir' k)" by simp
  then show False by (simp add: catalogPath_def graphPath_def)
qed

lemma source_not_catalog: "source_path dir e \<noteq> catalogPath dir'"
proof
  assume "source_path dir e = catalogPath dir'"
  then have "last (source_path dir e) = last (catalogPath dir')" by simp
  then show False by (cases "getRDFParseFlags (re_format e)") (simp_all add: source_path_def getRDFFileExtension_def catalogPath_def)
qed

lemma graphPath_inject [simp]: "graphPath dir k = graphPath dir k' \<longleftrightarrow> k = k'"
  by (simp add: graphPath_def)

lemma persistable_put [simp]: "persistable (put fs path bytes) e = persistable fs e"
  by (simp add: persistable_def)

lemma storable_put_graph: "storable ev (put fs (graphPath dir' k') bytes) dir k x = storable ev fs dir k x"
proof -
  have "source_path dir e \<noteq> graphPath dir' k'" for e unfolding source_path_def by (rule source_not_graph_file)
  then show ?thesis by (simp add: storable_def split: db_entry.split)
qed

lemma storable_put_entry: "storable ev (put_entry dir' fs kx) dir k x = storable ev fs dir k x"
  by (simp add: put_entry_def storable_put_graph split: db_entry.split)

lemma storable_put_catalog: "storable ev (put fs (catalogPath dir') bytes) dir k x = storable ev fs dir k x"
  using source_not_catalog by (auto simp: storable_def split: db_entry.split)

lemma rdf_inv_persist: "rdf_inv decode g \<Longrightarrow> rdf_inv decode (g\<lparr>rg_persist := b\<rparr>)"
  by (rule same_storage_inv) (use rdf_invD(2) in \<open>auto simp: same_storage_def\<close>)

lemma storable_marked: "storable ev fs dir k x \<Longrightarrow> storable ev fs dir k (marked x)"
  by (cases x) (auto simp: storable_def marked_def source_path_def persistable_def Let_def rdf_inv_persist)

lemma storable_fits: "storable ev fs dir k x \<Longrightarrow> len64 k \<and> db_fits (ev_index_order ev) x"
  using persistable_fits by (auto simp: storable_def db_fits_def split: db_entry.splits)

section \<open>Writing\<close>

lemma flush_entry:
  assumes "storable ev fs dir k x"
  shows "e_flush (ev_class ev) fs x = Inr (put_entry dir fs (k, x))"
  using assms entry_flushed by (auto simp: storable_def put_entry_def ev_class_def db_class_def split: db_entry.splits)

lemma mark_entry:
  assumes "storable ev fs dir k x"
  shows "e_setShouldPersist (ev_class ev) fs x True = Inr (put_entry dir fs (k, x), marked x)"
proof (cases x)
  case (GraphEntry e)
  have "entry_flush fs (e\<lparr>re_graph := (re_graph e)\<lparr>rg_persist := True\<rparr>\<rparr>) = Inr (put_entry dir fs (k, marked x))"
    using flush_entry [OF storable_marked [OF assms]] GraphEntry by (simp add: marked_def ev_class_def db_class_def)
  then show ?thesis using GraphEntry
    by (simp add: ev_class_def db_class_def entry_setShouldPersist_def setPersist_def entry_flush_def marked_def put_entry_def Let_def)
qed (simp_all add: ev_class_def db_class_def marked_def put_entry_def)

lemma all_storable_put_entry [simp]: "all_storable ev (put_entry dir' fs kx) dir es = all_storable ev fs dir es"
  by (simp add: all_storable_def storable_put_entry)

lemma all_storable_put_all [simp]: "all_storable ev (foldl (put_entry dir') fs es') dir es = all_storable ev fs dir es"
  by (induction es' arbitrary: fs) simp_all

lemma all_storable_put_catalog [simp]: "all_storable ev (put fs (catalogPath dir') bytes) dir es = all_storable ev fs dir es"
  by (simp add: all_storable_def storable_put_catalog)

lemma flush_all_writes: "all_storable ev fs dir es \<Longrightarrow> flush_all (ev_class ev) fs es = Inr (foldl (put_entry dir) fs es)"
proof (induction es arbitrary: fs)
  case (Cons kx es)
  then have "storable ev fs dir (fst kx) (snd kx)" "all_storable ev (put_entry dir fs kx) dir es" by (auto simp: all_storable_def storable_put_entry)
  then show ?case using flush_entry [of ev fs dir "fst kx" "snd kx"] Cons.IH by simp
qed simp

lemma setPersistAll_writes:
  "all_storable ev fs dir es \<Longrightarrow> setPersistAll (ev_class ev) True fs m es =
     Inr (foldl (put_entry dir) fs es, foldl (\<lambda>m kx. m(fst kx \<mapsto> marked (snd kx))) m es)"
proof (induction es arbitrary: fs m)
  case (Cons kx es)
  then have "storable ev fs dir (fst kx) (snd kx)" "all_storable ev (put_entry dir fs kx) dir es" by (auto simp: all_storable_def storable_put_entry)
  then show ?case using mark_entry [of ev fs dir "fst kx" "snd kx"] Cons.IH by simp
qed simp

lemma put_entry_simps [simp]: "fs_now (put_entry dir fs kx) = fs_now fs" "fs_readable (put_entry dir fs kx) = fs_readable fs"
  "fs_writable (put_entry dir fs kx) = fs_writable fs"
  by (simp_all add: put_entry_def split: db_entry.split)

lemma put_all_simps [simp]: "fs_now (foldl (put_entry dir) fs es) = fs_now fs" "fs_readable (foldl (put_entry dir) fs es) = fs_readable fs"
  "fs_writable (foldl (put_entry dir) fs es) = fs_writable fs"
  by (induction es arbitrary: fs) simp_all

lemma put_all_other:
  "(\<And>k. k \<in> fst ` set es \<Longrightarrow> p \<noteq> graphPath dir k) \<Longrightarrow>
   fs_files (foldl (put_entry dir) fs es) p = fs_files fs p \<and> fs_mtime (foldl (put_entry dir) fs es) p = fs_mtime fs p"
  by (induction es arbitrary: fs) (auto simp: put_entry_def split: db_entry.split)

lemma put_all_at:
  "distinct (map fst es) \<Longrightarrow> (k, GraphEntry e) \<in> set es \<Longrightarrow>
   fs_files (foldl (put_entry dir) fs es) (graphPath dir k) = Some (graph_bytes (rg_store (re_graph e)))
   \<and> fs_mtime (foldl (put_entry dir) fs es) (graphPath dir k) = fs_now fs"
proof (induction es arbitrary: fs)
  case (Cons kx es)
  show ?case
  proof (cases "kx = (k, GraphEntry e)")
    case True
    have "graphPath dir k \<noteq> graphPath dir k'" if "k' \<in> fst ` set es" for k' using that Cons.prems(1) True by auto
    then have "k' \<in> fst ` set es \<Longrightarrow> graphPath dir k \<noteq> graphPath dir k'" for k' by blast
    note o = put_all_other [OF this, where fs = "put_entry dir fs kx"]
    have "put_entry dir fs kx = put fs (graphPath dir k) (graph_bytes (rg_store (re_graph e)))" using True by (simp add: put_entry_def)
    then show ?thesis using o by simp
  next
    case False
    then show ?thesis using Cons.IH [of "put_entry dir fs kx"] Cons.prems by auto
  qed
qed simp

section \<open>Reading back\<close>

definition kept :: "'r env \<Rightarrow> db_entry \<Rightarrow> db_entry \<Rightarrow> bool" where
  "kept ev x y = (case x of
       GraphEntry e \<Rightarrow> (\<exists>e'. y = GraphEntry e' \<and> re_name e' = re_name e \<and> re_format e' = re_format e
         \<and> restored (ev_decode ev) (re_graph e) (re_graph e') \<and> rg_literals (re_graph e') = rg_literals (re_graph e))
     | _ \<Rightarrow> y = x)"

lemma kept_marked:
  assumes "storable ev fs dir k x" and "kept ev (marked x) y"
  shows "kept ev x y"
proof (cases x)
  case (GraphEntry e)
  let ?g = "re_graph e"
  have inv: "rdf_inv (ev_decode ev) ?g" using assms(1) GraphEntry by (simp add: storable_def)
  have "triple_at (ev_decode ev) (?g\<lparr>rg_persist := True\<rparr>) i t" if "triple_at (ev_decode ev) ?g i t" for i t
    by (rule same_storage_triples [OF inv _ _ that]) (use rdf_invD(2) [OF inv] in \<open>auto simp: same_storage_def\<close>)
  then show ?thesis using assms(2) GraphEntry by (auto simp: kept_def marked_def restored_def)
qed (use assms(2) in \<open>simp_all add: kept_def marked_def\<close>)

lemma load_all_ok:
  assumes "distinct ks" and "\<And>k x. k \<in> set ks \<Longrightarrow> m k = Some x \<Longrightarrow> \<exists>y. e_ensureFullyLoaded cls fs x = Some (Inr y) \<and> R k y"
  shows "\<exists>m'. load_all cls fs m ks = Some (Inr m') \<and> (\<forall>k. m' k = None \<longleftrightarrow> m k = None) \<and> (\<forall>k y. k \<in> set ks \<longrightarrow> m' k = Some y \<longrightarrow> R k y)
    \<and> (\<forall>k. k \<notin> set ks \<longrightarrow> m' k = m k)"
  using assms
proof (induction ks arbitrary: m)
  case (Cons k ks)
  show ?case
  proof (cases "m k")
    case None
    then show ?thesis using Cons.IH [of m] Cons.prems by auto
  next
    case (Some x)
    then obtain y where y: "e_ensureFullyLoaded cls fs x = Some (Inr y)" "R k y" using Cons.prems(2) by auto
    have "\<exists>z. e_ensureFullyLoaded cls fs x' = Some (Inr z) \<and> R k' z" if "k' \<in> set ks" "(m(k \<mapsto> y)) k' = Some x'" for k' x'
      using that Cons.prems by (auto split: if_splits)
    from Cons.IH [of "m(k \<mapsto> y)", OF _ this] Cons.prems(1) obtain m' where "load_all cls fs (m(k \<mapsto> y)) ks = Some (Inr m')"
      "\<forall>j. m' j = None \<longleftrightarrow> (m(k \<mapsto> y)) j = None" "\<forall>j z. j \<in> set ks \<longrightarrow> m' j = Some z \<longrightarrow> R j z" "\<forall>j. j \<notin> set ks \<longrightarrow> m' j = (m(k \<mapsto> y)) j" unfolding distinct.simps by blast
    with Some y Cons.prems(1) show ?thesis by auto
  qed
qed simp

lemma reload_entry:
  assumes st: "storable ev fs dir k x" and es: "distinct (map fst es)" "(k, x) \<in> set es"
    and fs2: "fs2 = put (foldl (put_entry dir) fs es) (catalogPath dir) bytes"
  shows "\<exists>y. e_ensureFullyLoaded (ev_class ev) fs2 (e_setDBDir (ev_class ev) (db_view x) dir) = Some (Inr y) \<and> kept ev x y"
proof (cases x)
  case (GraphEntry e)
  let ?path = "graphPath dir k"
  note s = st [unfolded storable_def GraphEntry db_entry.case]
  have at: "fs_files fs2 ?path = Some (graph_bytes (rg_store (re_graph e)))" "fs_mtime fs2 ?path = fs_now fs"
    using put_all_at [OF es(1), of k e dir fs] es(2) GraphEntry catalog_not_graph [of dir dir k] by (simp_all add: fs2)
  have "source_path dir e \<noteq> graphPath dir k'" for k' unfolding source_path_def by (rule source_not_graph_file)
  then have "fs_files fs2 (source_path dir e) = fs_files fs (source_path dir e)" "fs_mtime fs2 (source_path dir e) = fs_mtime fs (source_path dir e)"
    using put_all_other [of es "source_path dir e" dir fs] source_not_catalog [of dir e dir] by (simp_all add: fs2)
  then have src: "fs_files fs2 (source_path dir e) = None \<or> fs_mtime fs2 (source_path dir e) \<le> fs_mtime fs2 ?path" using s at(2) by simp
  have "fs_readable fs2 ?path" using s by (auto simp: fs2 persistable_def Let_def)
  then have "\<exists>e2. entry_ensureFullyLoaded (ev_decode ev) (ev_parse ev) (ev_parse_file ev) fs2 (entry_setDBDir (e\<lparr>re_graph := rdf_emptied (re_graph e)\<rparr>) dir) = Some (Inr e2)
      \<and> restored (ev_decode ev) (re_graph e) (re_graph e2) \<and> rg_literals (re_graph e2) = rg_literals (re_graph e) \<and> re_name e2 = re_name e \<and> re_format e2 = re_format e"
    using s at(1) src by (intro entry_reloads [where path = ?path and source = "source_path dir e" and ?fs0.0 = fs]) (auto simp: source_path_def)
  then show ?thesis using GraphEntry by (auto simp: ev_class_def db_class_def db_view_def kept_def)
qed (auto simp: ev_class_def db_class_def db_view_def kept_def)

section \<open>The whole directive\<close>

text \<open>A hash table is iterated over its entries, each once.\<close>

definition iterates :: "((string \<rightharpoonup> 'e) \<Rightarrow> (string \<times> 'e) list) \<Rightarrow> bool" where
  "iterates order \<longleftrightarrow> (\<forall>m. finite (dom m) \<longrightarrow> map_of (order m) = m \<and> distinct (map fst (order m)))"

definition iterates_keys :: "((string \<rightharpoonup> 'e) \<Rightarrow> string list) \<Rightarrow> bool" where
  "iterates_keys ks \<longleftrightarrow> (\<forall>m. finite (dom m) \<longrightarrow> set (ks m) = dom m \<and> distinct (ks m))"

lemma iterates_mem: "iterates order \<Longrightarrow> finite (dom m) \<Longrightarrow> (k, x) \<in> set (order m) \<longleftrightarrow> m k = Some x"
  by (metis iterates_def map_of_SomeD map_of_is_SomeI)

lemma iterates_length:
  assumes "iterates order" and "finite (dom m)"
  shows "length (order m) = card (dom m)"
proof -
  have "dom m = set (map fst (order m))" using assms by (metis dom_map_of_conv_image_fst iterates_def list.set_map)
  then show ?thesis using assms by (metis distinct_card iterates_def length_map)
qed

lemma mark_all_at:
  "distinct (map fst es) \<Longrightarrow> foldl (\<lambda>m kx. m(fst kx \<mapsto> marked (snd kx))) m es k =
     (case map_of es k of None \<Rightarrow> m k | Some x \<Rightarrow> Some (marked x))"
proof (induction es arbitrary: m)
  case (Cons kx es)
  then show ?case by (cases "fst kx = k") (auto simp: map_of_eq_None_iff [THEN iffD2] split: option.split)
qed simp

lemma mark_all:
  assumes "distinct (map fst es)" and "map_of es = m"
  shows "foldl (\<lambda>m kx. m(fst kx \<mapsto> marked (snd kx))) m es = (\<lambda>k. map_option marked (m k))"
  by (rule ext) (simp add: mark_all_at [OF assms(1)] assms(2) split: option.split)

lemma persist_writes:
  assumes "shouldPersist c" and "ev_dirExists ev (cat_dbDir c)" and "all_storable ev fs (cat_dbDir c) es" and "fs_writable fs (catalogPath (cat_dbDir c))"
  shows "persist (ev_class ev) (ev_dirExists ev) es fs c = Inr (put (foldl (put_entry (cat_dbDir c)) fs es) (catalogPath (cat_dbDir c))
    (writeProperty 0 (ser_object (cat_serialize (ev_class ev))) es))"
  using assms flush_all_writes [OF assms(3)] by (simp add: persist_def put_def Let_def)

text \<open>Opening a session on what was written finds every entry again.\<close>

lemma reopen:
  assumes codes: "node_codes (ev_code ev) (ev_decode ev)" and es: "distinct (map fst es)" "len64 es" "all_storable ev fs dir es"
    and ks: "iterates_keys (ev_read_order ev)" and rd: "fs_readable fs (catalogPath dir)"
    and fs2: "fs2 = put (foldl (put_entry dir) fs es) (catalogPath dir) (writeProperty 0 (ser_object (cat_serialize (ev_class ev))) es)"
  shows "\<exists>c'. cat_create (ev_class ev) (ev_read_order ev) fs2 dir True = Some (Inr c') \<and> cat_dbDir c' = dir
    \<and> (\<forall>k. rel_option (kept ev) (map_of es k) (entries c' k))"
proof -
  let ?m = "\<lambda>k. map_option (\<lambda>e. e_setDBDir (ev_class ev) (db_view e) dir) (map_of es k)"
  let ?r = "\<lambda>k. map_option (\<lambda>e. Some (db_view e)) (map_of es k)"
  have fits: "list_all (\<lambda>(k, x). len64 k \<and> node_codes (ev_code ev) (ev_decode ev) \<and> db_fits (ev_index_order ev) x) es"
    using es(3) codes storable_fits by (fastforce simp: all_storable_def list_all_iff)
  have c: "cat_create (ev_class ev) (ev_read_order ev) fs2 dir True =
      bindOE (load_all (ev_class ev) fs2 ?m (ev_read_order ev ?r)) (\<lambda>m. Some (Inr \<lparr>shouldPersist = False, cat_dbDir = dir, entries = m\<rparr>))"
    unfolding ev_class_def
    by (subst db.restart [OF _ fits es(1,2)]) (use rd in \<open>simp_all add: fs2 ev_class_def [symmetric] Let_def\<close>)
  have dom: "dom ?r = dom (map_of es)" by (auto simp: dom_def)
  have keys: "set (ev_read_order ev ?r) = dom (map_of es)" "distinct (ev_read_order ev ?r)"
    using ks dom finite_dom_map_of [of es] unfolding iterates_keys_def by (metis, metis)
  have "\<exists>y. e_ensureFullyLoaded (ev_class ev) fs2 z = Some (Inr y) \<and> (\<forall>x. map_of es k = Some x \<longrightarrow> kept ev x y)"
    if "?m k = Some z" for k z
  proof -
    from that obtain x where x: "map_of es k = Some x" "z = e_setDBDir (ev_class ev) (db_view x) dir" by auto
    then have "(k, x) \<in> set es" by (simp add: map_of_SomeD)
    moreover from this have "storable ev fs dir k x" using es(3) by (auto simp: all_storable_def list_all_iff)
    ultimately show ?thesis using reload_entry [OF _ es(1) _ fs2] x by auto
  qed
  from load_all_ok [OF keys(2), of ?m "ev_class ev" fs2 "\<lambda>k y. \<forall>x. map_of es k = Some x \<longrightarrow> kept ev x y", OF this]
  obtain m' where m': "load_all (ev_class ev) fs2 ?m (ev_read_order ev ?r) = Some (Inr m')" "\<forall>k. m' k = None \<longleftrightarrow> ?m k = None"
    "\<forall>k y. k \<in> set (ev_read_order ev ?r) \<longrightarrow> m' k = Some y \<longrightarrow> (\<forall>x. map_of es k = Some x \<longrightarrow> kept ev x y)" by blast
  have "rel_option (kept ev) (map_of es k) (m' k)" for k
    using m'(2) [rule_format, of k] m'(3) [rule_format, of k] keys(1) by (cases "map_of es k"; cases "m' k") auto
  then show ?thesis using c m'(1) by simp
qed

lemma same_loaded:
  assumes "\<And>n k. (n, k) \<in> set (es_loadedGraphs st) \<Longrightarrow> n = k \<and> k \<in> graph_keys (es_catalog st)"
    and "\<And>k. rel_option (kept ev) (entries (es_catalog st) k) (entries c' k)"
  shows "map (\<lambda>n. (n, n)) (filter (\<lambda>n. getTypedEntry (ev_class ev) [4] c' n \<noteq> None) (map fst (es_loadedGraphs st))) = es_loadedGraphs st"
proof -
  have "getTypedEntry (ev_class ev) [4] c' n \<noteq> None" if "(n, k) \<in> set (es_loadedGraphs st)" for n k
    using assms(1) [OF that] assms(2) [of n]
    by (cases "entries c' n") (auto simp: graph_keys_def getTypedEntry_def kept_def ev_class_def db_class_def)
  then have "filter (\<lambda>n. getTypedEntry (ev_class ev) [4] c' n \<noteq> None) (map fst (es_loadedGraphs st)) = map fst (es_loadedGraphs st)"
    by (auto simp: filter_id_conv)
  moreover have "map (\<lambda>n. (n, n)) (map fst (es_loadedGraphs st)) = es_loadedGraphs st"
    using assms(1) by (auto simp: comp_def intro: map_idI)
  ultimately show ?thesis by simp
qed

section \<open>Properties\<close>

text \<open>
  C5. The directive \<open>persists\<close> completes and changes nothing that queries can see: it writes every graph and the catalog, opens a new
  session on the directory, and the new catalog has the same entries under the same names, every graph with the same dictionary, triples, truth
  degrees and literal table; the list of loaded graphs stays the same.
\<close>

theorem persisting_keeps_the_session:
  assumes "node_codes (ev_code ev) (ev_decode ev)" and "iterates (ev_order ev)" and "iterates_keys (ev_read_order ev)"
    and "finite (dom (entries (es_catalog st)))" and "card (dom (entries (es_catalog st))) < 2 ^ 64" and "cat_dbDir (es_catalog st) = es_dbDir st"
    and "ev_dirExists ev (es_dbDir st)" and "fs_writable fs (catalogPath (es_dbDir st))" and "fs_readable fs (catalogPath (es_dbDir st))"
    and "\<And>k x. entries (es_catalog st) k = Some x \<Longrightarrow> storable ev fs (es_dbDir st) k x"
    and "\<And>n k. (n, k) \<in> set (es_loadedGraphs st) \<Longrightarrow> n = k \<and> k \<in> graph_keys (es_catalog st)"
  shows "\<exists>fs' st'. persist_session ev fs st = Some (Inr (fs', st')) \<and> es_loadedGraphs st' = es_loadedGraphs st
    \<and> (\<forall>k. rel_option (kept ev) (entries (es_catalog st) k) (entries (es_catalog st') k))"
proof -
  let ?c = "es_catalog st" and ?dir = "es_dbDir st"
  let ?es = "ev_order ev (entries ?c)"
  let ?m1 = "\<lambda>k. map_option marked (entries ?c k)"
  let ?es1 = "ev_order ev ?m1"
  let ?c1 = "?c\<lparr>shouldPersist := True, entries := ?m1\<rparr>"
  have fin1: "finite (dom ?m1)" and dom1: "dom ?m1 = dom (entries ?c)" using assms(4) by (simp_all add: dom_def)
  have it: "map_of ?es = entries ?c" "distinct (map fst ?es)" "map_of ?es1 = ?m1" "distinct (map fst ?es1)"
    using assms(2,4) fin1 unfolding iterates_def by blast+
  have len: "len64 ?es1" using iterates_length [OF assms(2) fin1] assms(5) dom1 by simp
  have st0: "all_storable ev fs ?dir ?es" using assms(10) iterates_mem [OF assms(2,4)] by (auto simp: all_storable_def list_all_iff)
  have st1: "all_storable ev fs ?dir ?es1"
    using assms(10) iterates_mem [OF assms(2) fin1] by (auto simp: all_storable_def list_all_iff intro!: storable_marked)
  define fs1 where "fs1 = foldl (put_entry ?dir) fs ?es"
  have s1: "all_storable ev fs1 ?dir ?es1" using st1 by (simp add: fs1_def)
  let ?bytes = "writeProperty 0 (ser_object (cat_serialize (ev_class ev))) ?es1"
  define fs2 where "fs2 = put (foldl (put_entry ?dir) fs1 ?es1) (catalogPath ?dir) ?bytes"
  have a: "setShouldPersist (ev_class ev) ?es fs ?c True = Inr (fs1, ?c1)"
    using setPersistAll_writes [OF st0] mark_all [OF it(2,1)] by (simp add: setShouldPersist_def fs1_def)
  have b: "persist (ev_class ev) (ev_dirExists ev) ?es1 fs1 ?c1 = Inr fs2"
    using persist_writes [of ?c1 ev fs1 ?es1] assms(6-8) s1 by (simp add: fs1_def fs2_def)
  have rd: "fs_readable fs1 (catalogPath ?dir)" using assms(9) by (simp add: fs1_def)
  obtain c' where c': "cat_create (ev_class ev) (ev_read_order ev) fs2 ?dir True = Some (Inr c')" "\<forall>k. rel_option (kept ev) (?m1 k) (entries c' k)"
    using reopen [OF assms(1) it(4) len s1 assms(3) rd fs2_def] it(3) by auto
  have "\<exists>fs3. persist (ev_class ev) (ev_dirExists ev) ?es1 fs2 ?c1 = Inr fs3"
    using persist_writes [of ?c1 ev fs2 ?es1] assms(6-8) s1 by (simp add: fs1_def fs2_def)
  then obtain fs3 where d: "persist (ev_class ev) (ev_dirExists ev) ?es1 fs2 ?c1 = Inr fs3" by blast
  have kept: "rel_option (kept ev) (entries ?c k) (entries c' k)" for k
    using c'(2) [rule_format, of k] kept_marked [OF assms(10)] by (cases "entries ?c k"; cases "entries c' k") auto
  with same_loaded [of st ev c'] assms(11) show ?thesis using a b c'(1) d by (simp add: persist_session_def in_destructor_def)
qed

lemma key_order_iterates: "iterates_keys key_order"
  by (simp add: iterates_keys_def key_order_def)

lemma entry_order_iterates: "iterates entry_order"
  unfolding iterates_def
proof (intro allI impI conjI)
  fix m :: "string \<rightharpoonup> 'e" assume fin: "finite (dom m)"
  show "map_of (entry_order m) = m"
  proof
    fix k show "map_of (entry_order m) k = m k"
      using fin by (cases "m k") (auto simp: entry_order_def key_order_def map_of_map_restrict restrict_map_def)
  qed
  show "distinct (map fst (entry_order m))" by (simp add: entry_order_def key_order_def comp_def)
qed

theorem persisting_keeps_the_session_witness:
  "\<exists>e fs' st'. persist_session sample_env sample_fs (sample_session (GraphEntry e)) = Some (Inr (fs', st'))
    \<and> es_loadedGraphs st' = [(''g'', ''g'')] \<and> (\<exists>y. entries (es_catalog st') ''g'' = Some y \<and> kept sample_env (GraphEntry e) y)"
proof -
  obtain g where g: "made g" "persistable sample_fs \<lparr>re_name = ''g'', re_graph = rdf_setDBDir g ''d'', re_format = Named FF_TURTLE\<rparr>
      = enum_ok file_formats (Named FF_TURTLE)" "fileName (rg_store g) = ''g''"
    using sample_entry [of "Named FF_TURTLE"] by metis
  let ?e = "\<lparr>re_name = ''g'', re_graph = rdf_setDBDir g ''d'', re_format = Named FF_TURTLE\<rparr>"
  let ?st = "sample_session (GraphEntry ?e)"
  have "persistable sample_fs ?e" using g(2) by (simp add: enum_ok_def file_formats_def)
  then have x: "storable sample_env sample_fs ''d'' ''g'' (GraphEntry ?e)"
    using rdf_inv_setDBDir [OF made_inv [OF g(1)]] g(3)
    by (simp add: storable_def sample_env_def rdf_setDBDir_def setDBDir_def) (simp add: sample_fs_def)
  have st: "entries (es_catalog ?st) = [''g'' \<mapsto> GraphEntry ?e]" "es_dbDir ?st = ''d''" "cat_dbDir (es_catalog ?st) = ''d''" "es_loadedGraphs ?st = [(''g'', ''g'')]"
    by (simp_all add: sample_session_def new_engine_def)
  have ev: "ev_code sample_env = sample_code" "ev_decode sample_env = sample_decode" "ev_order sample_env = entry_order"
    "ev_read_order sample_env = key_order" "ev_dirExists sample_env = (\<lambda>_. True)" by (simp_all add: sample_env_def)
  have "\<exists>fs' st'. persist_session sample_env sample_fs ?st = Some (Inr (fs', st')) \<and> es_loadedGraphs st' = [(''g'', ''g'')]
    \<and> (\<forall>k. rel_option (kept sample_env) ([''g'' \<mapsto> GraphEntry ?e] k) (entries (es_catalog st') k))"
    by (rule persisting_keeps_the_session [of sample_env ?st sample_fs, unfolded ev st, OF sample_node_codes entry_order_iterates key_order_iterates])
       (use x in \<open>auto simp: graph_keys_def st split: if_splits\<close>, simp_all add: sample_fs_def)
  then obtain fs' st' where r: "persist_session sample_env sample_fs ?st = Some (Inr (fs', st'))" "es_loadedGraphs st' = [(''g'', ''g'')]"
    "rel_option (kept sample_env) ([''g'' \<mapsto> GraphEntry ?e] ''g'') (entries (es_catalog st') ''g'')" by blast
  from r(3) obtain y where "entries (es_catalog st') ''g'' = Some y" "kept sample_env (GraphEntry ?e) y" by (auto simp: option_rel_Some1)
  with r(1,2) show ?thesis by blast
qed

end
