(* ===== verification/Sparql_Results.thy ===== *)
theory Sparql_Results
  imports Sparql_Statements
begin

text \<open>
  How the HTTP endpoint reads form data and writes results (\<open>src/src/tools/sparql-endpoint.cpp\<close>): URL decoding, the rows of a result table and
  the four result formats.  A table of Arrow is what the code reads of it: names, chunked columns and the number of rows.
  The JSON library is represented by a datatype of JSON values.
\<close>

section \<open>Form data\<close>

definition hex_digits :: "(char \<times> nat) list" where
  "hex_digits = zip ''0123456789abcdefABCDEF'' [0, 1, 2, 3, 4, 5, 6, 7, 8, 9, 10, 11, 12, 13, 14, 15, 10, 11, 12, 13, 14, 15]"

definition isxdigit :: "char \<Rightarrow> bool" where
  "isxdigit c = (map_of hex_digits c \<noteq> None)"

definition hex_val :: "char \<Rightarrow> nat" where
  "hex_val c = (case map_of hex_digits c of None \<Rightarrow> 0 | Some n \<Rightarrow> n)"

fun urlDecode :: "string \<Rightarrow> string" where
  "urlDecode [] = []"
| "urlDecode (c # cs) =
     (if c = CHR ''+'' then CHR '' '' # urlDecode cs
      else case cs of
        h # l # rest \<Rightarrow>
          if c = CHR ''%'' \<and> isxdigit h \<and> isxdigit l then char_of (16 * hex_val h + hex_val l) # urlDecode rest
          else c # urlDecode cs
      | _ \<Rightarrow> c # urlDecode cs)"

text \<open>The pieces between the separators, the last one included.\<close>

primrec split_at :: "char \<Rightarrow> string \<Rightarrow> string list" where
  "split_at d [] = [[]]"
| "split_at d (c # cs) = (if c = d then [] # split_at d cs else case split_at d cs of p # ps \<Rightarrow> (c # p) # ps | [] \<Rightarrow> [[c]])"

definition key_value :: "string \<Rightarrow> string \<times> string" where
  "key_value pair = (let k = takeWhile (\<lambda>c. c \<noteq> CHR ''='') pair in (urlDecode k, urlDecode (drop (Suc (length k)) pair)))"

definition form_step :: "(string \<rightharpoonup> string) \<Rightarrow> string \<Rightarrow> (string \<rightharpoonup> string)" where
  "form_step m pair = (if pair = [] then m else let (k, v) = key_value pair in if k = [] then m else m(k \<mapsto> v))"

definition parseFormEncoded :: "string \<Rightarrow> (string \<rightharpoonup> string)" where
  "parseFormEncoded body = foldl form_step Map.empty (split_at (CHR ''&'') body)"

section \<open>Rows\<close>

datatype arrow_chunk = StringArray "string option list" | LargeStringArray "string option list" | OtherArray "bool list"

primrec chunk_length :: "arrow_chunk \<Rightarrow> nat" where
  "chunk_length (StringArray vs) = length vs"
| "chunk_length (LargeStringArray vs) = length vs"
| "chunk_length (OtherArray vs) = length vs"

primrec arrowStringAt :: "arrow_chunk \<Rightarrow> nat \<Rightarrow> string option" where
  "arrowStringAt (StringArray vs) i = vs ! i"
| "arrowStringAt (LargeStringArray vs) i = vs ! i"
| "arrowStringAt (OtherArray vs) i = None"

record arrow_table =
  at_fields :: "string list"
  at_columns :: "arrow_chunk list list"
  at_rows :: nat

record table_rows =
  tr_vars :: "string list"
  tr_rows :: "string option list list"

text \<open>
  The cursor of a column: the chunks from the current one on, and the position in it.  The positions are \<open>int\<close>s in the code; chunks of
  fewer than \<open>2 ^ 31\<close> values, and fewer chunks than that, are taken for granted.
\<close>

fun skip_chunks :: "arrow_chunk list \<times> nat \<Rightarrow> arrow_chunk list \<times> nat" where
  "skip_chunks ([], w) = ([], w)"
| "skip_chunks (c # cs, w) = (if w \<ge> chunk_length c then skip_chunks (cs, 0) else (c # cs, w))"

definition next_value :: "arrow_chunk list \<times> nat \<Rightarrow> string option \<times> (arrow_chunk list \<times> nat)" where
  "next_value cur = (case skip_chunks cur of
       ([], w) \<Rightarrow> (None, ([], w))
     | (c # cs, w) \<Rightarrow> (arrowStringAt c w, (c # cs, w + 1)))"

primrec extract_from :: "nat \<Rightarrow> (arrow_chunk list \<times> nat) list \<Rightarrow> string option list list" where
  "extract_from 0 curs = []"
| "extract_from (Suc n) curs = map (\<lambda>cur. fst (next_value cur)) curs # extract_from n (map (\<lambda>cur. snd (next_value cur)) curs)"

definition extractRows :: "arrow_table option \<Rightarrow> table_rows" where
  "extractRows table = (case table of
       None \<Rightarrow> \<lparr>tr_vars = [], tr_rows = []\<rparr>
     | Some t \<Rightarrow> if at_columns t = [] then \<lparr>tr_vars = at_fields t, tr_rows = []\<rparr>
         else \<lparr>tr_vars = at_fields t, tr_rows = extract_from (at_rows t) (map (\<lambda>cs. (cs, 0)) (at_columns t))\<rparr>)"

section \<open>Formats\<close>

datatype result_format = FmtCsv | FmtTsv | FmtSparqlJson | FmtSparqlXml

primrec contains :: "string \<Rightarrow> string \<Rightarrow> bool" where
  "contains p [] = (p = [])"
| "contains p (c # cs) = (take (length p) (c # cs) = p \<or> contains p cs)"

definition negotiateFormat :: "string \<Rightarrow> result_format" where
  "negotiateFormat accept =
     (if contains ''text/csv'' accept then FmtCsv
      else if contains ''text/tab-separated-values'' accept then FmtTsv
      else if contains ''application/sparql-results+xml'' accept then FmtSparqlXml
      else FmtSparqlJson)"

definition contentTypeFor :: "result_format \<Rightarrow> string" where
  "contentTypeFor fmt = (case fmt of
       FmtCsv \<Rightarrow> ''text/csv; charset=utf-8''
     | FmtTsv \<Rightarrow> ''text/tab-separated-values; charset=utf-8''
     | FmtSparqlJson \<Rightarrow> ''application/sparql-results+json; charset=utf-8''
     | FmtSparqlXml \<Rightarrow> ''application/sparql-results+xml; charset=utf-8'')"

definition dquote :: char where
  "dquote = CHR 0x22"

definition cr :: char where
  "cr = CHR 0x0D"

definition lf :: char where
  "lf = CHR 0x0A"

definition backslash :: char where
  "backslash = CHR 0x5C"

definition csvEscape :: "string \<Rightarrow> string" where
  "csvEscape v =
     (if list_ex (\<lambda>c. c \<in> set [CHR '','', dquote, lf, cr]) v
      then [dquote] @ concat (map (\<lambda>c. if c = dquote then [dquote, dquote] else [c]) v) @ [dquote]
      else v)"

text \<open>The cells of a line with a separator between them.\<close>

fun joined :: "string \<Rightarrow> string list \<Rightarrow> string" where
  "joined d [] = []"
| "joined d [x] = x"
| "joined d (x # xs) = x @ d @ joined d xs"

definition cell :: "(string \<Rightarrow> string) \<Rightarrow> string option \<Rightarrow> string" where
  "cell f v = (case v of None \<Rightarrow> [] | Some s \<Rightarrow> f s)"

definition toCsv :: "table_rows \<Rightarrow> string" where
  "toCsv t = joined '','' (map csvEscape (tr_vars t)) @ [cr, lf]
     @ concat (map (\<lambda>row. joined '','' (map (cell csvEscape) row) @ [cr, lf]) (tr_rows t))"

definition tsvEscape :: "string \<Rightarrow> string" where
  "tsvEscape v = concat (map (\<lambda>c. if c = CHR 0x09 then [backslash, CHR ''t''] else if c = lf then [backslash, CHR ''n''] else if c = cr then [] else [c]) v)"

definition toTsv :: "table_rows \<Rightarrow> string" where
  "toTsv t = joined [CHR 0x09] (map (\<lambda>v. ''?'' @ v) (tr_vars t)) @ [lf]
     @ concat (map (\<lambda>row. joined [CHR 0x09] (map (cell tsvEscape) row) @ [lf]) (tr_rows t))"

section \<open>Terms\<close>

record term_info =
  ti_type :: string
  ti_value :: string
  ti_datatype :: "string option"
  ti_lang :: "string option"

fun unescapeLexicalForm :: "string \<Rightarrow> string" where
  "unescapeLexicalForm [] = []"
| "unescapeLexicalForm (c # cs) =
     (case cs of [] \<Rightarrow> [c]
      | d # ds \<Rightarrow>
          if c = backslash \<and> d = dquote then dquote # unescapeLexicalForm ds
          else if c = backslash \<and> d = backslash then backslash # unescapeLexicalForm ds
          else if c = backslash \<and> d = CHR ''n'' then lf # unescapeLexicalForm ds
          else if c = backslash \<and> d = CHR ''r'' then cr # unescapeLexicalForm ds
          else c # unescapeLexicalForm cs)"

text \<open>The text up to the quotation mark that ends the literal, and what follows that mark, if there is one.\<close>

fun scan_quoted :: "string \<Rightarrow> string \<times> string option" where
  "scan_quoted [] = ([], None)"
| "scan_quoted (c # cs) =
     (if c = dquote then ([], Some cs)
      else case cs of
        d # ds \<Rightarrow> if c = backslash then (let (u, r) = scan_quoted ds in (c # d # u, r)) else (let (u, r) = scan_quoted cs in (c # u, r))
      | [] \<Rightarrow> ([c], None))"

definition classifyTerm :: "string \<Rightarrow> term_info" where
  "classifyTerm lexical =
     (if length lexical \<ge> 2 \<and> hd lexical = CHR ''<'' \<and> last lexical = CHR ''>''
      then \<lparr>ti_type = ''uri'', ti_value = butlast (tl lexical), ti_datatype = None, ti_lang = None\<rparr>
      else if take 2 lexical = ''_:'' then \<lparr>ti_type = ''bnode'', ti_value = drop 2 lexical, ti_datatype = None, ti_lang = None\<rparr>
      else if lexical \<noteq> [] \<and> hd lexical = dquote then
        (case scan_quoted (tl lexical) of
           (u, Some suffix) \<Rightarrow> (let value = unescapeLexicalForm u in
             if suffix \<noteq> [] \<and> hd suffix = CHR ''@'' then \<lparr>ti_type = ''literal'', ti_value = value, ti_datatype = None, ti_lang = Some (tl suffix)\<rparr>
             else if length suffix \<ge> 4 \<and> take 3 suffix = ''^^<'' \<and> last suffix = CHR ''>''
             then \<lparr>ti_type = ''literal'', ti_value = value, ti_datatype = Some (butlast (drop 3 suffix)), ti_lang = None\<rparr>
             else \<lparr>ti_type = ''literal'', ti_value = value, ti_datatype = None, ti_lang = None\<rparr>)
         | (u, None) \<Rightarrow> \<lparr>ti_type = ''literal'', ti_value = lexical, ti_datatype = None, ti_lang = None\<rparr>)
      else \<lparr>ti_type = ''literal'', ti_value = lexical, ti_datatype = None, ti_lang = None\<rparr>)"

section \<open>SPARQL results in JSON and XML\<close>

datatype json = JString string | JArray "json list" | JObject "(string \<times> json) list"

definition opt_member :: "string \<Rightarrow> string option \<Rightarrow> (string \<times> json) list \<Rightarrow> (string \<times> json) list" where
  "opt_member k v m = (case v of None \<Rightarrow> m | Some s \<Rightarrow> map_set k (JString s) m)"

definition json_term :: "term_info \<Rightarrow> json" where
  "json_term ti = JObject (opt_member ''xml:lang'' (ti_lang ti) (opt_member ''datatype'' (ti_datatype ti)
     (map_set ''value'' (JString (ti_value ti)) (map_set ''type'' (JString (ti_type ti)) []))))"

definition json_binding :: "string list \<Rightarrow> string option list \<Rightarrow> json" where
  "json_binding vars row = JObject (foldl (\<lambda>m (v, c). case c of None \<Rightarrow> m | Some s \<Rightarrow> map_set v (json_term (classifyTerm s)) m) [] (zip vars row))"

definition toSparqlJson :: "table_rows \<Rightarrow> json" where
  "toSparqlJson t = JObject [(''head'', JObject [(''vars'', JArray (map JString (tr_vars t)))]),
     (''results'', JObject [(''bindings'', JArray (map (json_binding (tr_vars t)) (tr_rows t)))])]"

definition xml_char :: "char \<Rightarrow> string" where
  "xml_char c = (if c = CHR ''&'' then ''&amp;'' else if c = CHR ''<'' then ''&lt;'' else if c = CHR ''>'' then ''&gt;''
     else if c = dquote then ''&quot;'' else [c])"

definition xmlEscape :: "string \<Rightarrow> string" where
  "xmlEscape v = concat (map xml_char v)"

definition quoted :: "string \<Rightarrow> string" where
  "quoted s = [dquote] @ s @ [dquote]"

definition xml_attr :: "string \<Rightarrow> string option \<Rightarrow> string" where
  "xml_attr k v = (case v of None \<Rightarrow> [] | Some s \<Rightarrow> '' '' @ k @ ''='' @ quoted (xmlEscape s))"

definition xml_term :: "term_info \<Rightarrow> string" where
  "xml_term ti =
     (if ti_type ti = ''uri'' then ''<uri>'' @ xmlEscape (ti_value ti) @ ''</uri>''
      else if ti_type ti = ''bnode'' then ''<bnode>'' @ xmlEscape (ti_value ti) @ ''</bnode>''
      else ''<literal'' @ xml_attr ''datatype'' (ti_datatype ti) @ xml_attr ''xml:lang'' (ti_lang ti) @ ''>'' @ xmlEscape (ti_value ti) @ ''</literal>'')"

definition xml_result :: "string list \<Rightarrow> string option list \<Rightarrow> string" where
  "xml_result vars row = ''    <result>'' @ [lf]
     @ concat (map (\<lambda>(v, c). case c of None \<Rightarrow> []
         | Some s \<Rightarrow> ''      <binding name='' @ quoted (xmlEscape v) @ ''>'' @ xml_term (classifyTerm s) @ ''</binding>'' @ [lf]) (zip vars row))
     @ ''    </result>'' @ [lf]"

definition toSparqlXml :: "table_rows \<Rightarrow> string" where
  "toSparqlXml t = ''<?xml version='' @ quoted ''1.0'' @ '' encoding='' @ quoted ''utf-8'' @ ''?>'' @ [lf]
     @ ''<sparql xmlns='' @ quoted ''http://www.w3.org/2005/sparql-results#'' @ ''>'' @ [lf] @ ''  <head>'' @ [lf]
     @ concat (map (\<lambda>v. ''    <variable name='' @ quoted (xmlEscape v) @ ''/>'' @ [lf]) (tr_vars t))
     @ ''  </head>'' @ [lf] @ ''  <results>'' @ [lf] @ concat (map (xml_result (tr_vars t)) (tr_rows t))
     @ ''  </results>'' @ [lf] @ ''</sparql>'' @ [lf]"

text \<open>The text of a JSON value is what the library's \<open>dump\<close> gives, which throws when a string is not valid UTF-8.\<close>

definition serialize :: "(json \<Rightarrow> string res) \<Rightarrow> result_format \<Rightarrow> arrow_table option \<Rightarrow> string res" where
  "serialize dump fmt table = (let rows = extractRows table in case fmt of
       FmtCsv \<Rightarrow> Inr (toCsv rows) | FmtTsv \<Rightarrow> Inr (toTsv rows) | FmtSparqlJson \<Rightarrow> dump (toSparqlJson rows) | FmtSparqlXml \<Rightarrow> Inr (toSparqlXml rows))"

section \<open>Rows and chunks\<close>

primrec chunk_values :: "arrow_chunk \<Rightarrow> string option list" where
  "chunk_values (StringArray vs) = vs"
| "chunk_values (LargeStringArray vs) = vs"
| "chunk_values (OtherArray vs) = map (\<lambda>_. None) vs"

definition column_values :: "arrow_chunk list \<Rightarrow> string option list" where
  "column_values cs = concat (map chunk_values cs)"

definition value_at :: "string option list \<Rightarrow> nat \<Rightarrow> string option" where
  "value_at vs i = (if i < length vs then vs ! i else None)"

lemma chunk_values_simps [simp]: "length (chunk_values c) = chunk_length c" "i < chunk_length c \<Longrightarrow> chunk_values c ! i = arrowStringAt c i"
  by (cases c; simp)+

text \<open>What is left to read at a cursor.\<close>

definition remaining :: "arrow_chunk list \<times> nat \<Rightarrow> string option list" where
  "remaining cur = drop (snd cur) (column_values (fst cur))"

definition cursor_ok :: "arrow_chunk list \<times> nat \<Rightarrow> bool" where
  "cursor_ok cur = (case fst cur of [] \<Rightarrow> True | c # _ \<Rightarrow> snd cur \<le> chunk_length c)"

lemma column_values_simps [simp]: "column_values [] = []" "column_values (c # cs) = chunk_values c @ column_values cs"
  by (simp_all add: column_values_def)

lemma skip_chunks_ok: "cursor_ok cur \<Longrightarrow> remaining (skip_chunks cur) = remaining cur"
proof (induction cur rule: skip_chunks.induct)
  case (2 c cs w)
  have "cursor_ok (cs, 0)" by (cases cs) (simp_all add: cursor_ok_def)
  with 2 show ?case by (auto simp: remaining_def cursor_ok_def)
qed simp

lemma skip_chunks_inside: "skip_chunks cur = (c # cs, w) \<Longrightarrow> w < chunk_length c"
  by (induction cur rule: skip_chunks.induct) (auto split: if_splits)

lemma next_value_ok:
  assumes "cursor_ok cur"
  shows "fst (next_value cur) = value_at (remaining cur) 0 \<and> remaining (snd (next_value cur)) = tl (remaining cur) \<and> cursor_ok (snd (next_value cur))"
proof (cases "skip_chunks cur")
  case (Pair cs w)
  show ?thesis
  proof (cases cs)
    case Nil
    then show ?thesis using skip_chunks_ok [OF assms] Pair by (simp add: next_value_def remaining_def value_at_def cursor_ok_def)
  next
    case (Cons c cs')
    then have w: "w < chunk_length c" using skip_chunks_inside Pair by simp
    have r: "remaining cur = drop w (chunk_values c) @ column_values cs'" using skip_chunks_ok [OF assms] Pair Cons w by (simp add: remaining_def)
    moreover have "drop w (chunk_values c) = arrowStringAt c w # drop (Suc w) (chunk_values c)" using w Cons_nth_drop_Suc [of w "chunk_values c"] by simp
    ultimately have "remaining cur = arrowStringAt c w # drop (Suc w) (chunk_values c) @ column_values cs'" by simp
    then show ?thesis using Pair Cons w by (simp add: next_value_def value_at_def cursor_ok_def) (simp add: remaining_def)
  qed
qed

lemma extract_from_ok:
  "list_all cursor_ok curs \<Longrightarrow> extract_from n curs = map (\<lambda>r. map (\<lambda>cur. value_at (remaining cur) r) curs) [0..<n]"
proof (induction n arbitrary: curs)
  case (Suc n)
  have ok: "list_all cursor_ok (map (\<lambda>cur. snd (next_value cur)) curs)" using Suc.prems next_value_ok by (auto simp: list_all_iff)
  have v: "value_at (remaining (snd (next_value cur))) r = value_at (remaining cur) (Suc r)" if "cursor_ok cur" for cur r
    using next_value_ok [OF that] by (cases "remaining cur") (auto simp: value_at_def)
  have "extract_from (Suc n) curs = map (\<lambda>cur. value_at (remaining cur) 0) curs # map (\<lambda>r. map (\<lambda>cur. value_at (remaining cur) (Suc r)) curs) [0..<n]"
    using Suc.IH [OF ok] Suc.prems next_value_ok v by (auto simp: list_all_iff)
  also have "\<dots> = map (\<lambda>r. map (\<lambda>cur. value_at (remaining cur) r) curs) [0..<Suc n]"
    by (simp add: upt_conv_Cons map_Suc_upt [symmetric] comp_def del: upt_Suc)
  finally show ?case .
qed simp

section \<open>Reading what was written\<close>

text \<open>
  Terms in the notation of N-Triples.  A literal is written as plain characters and escape sequences; the character after the backslash tells the
  sequences apart, and the digits of \<open>\u\<close> and \<open>\U\<close> are plain characters.
\<close>

datatype piece = Plain char | Escaped char

datatype result_term = RtUri string | RtBnode string | RtPlain "piece list" | RtTyped "piece list" string | RtLang "piece list" string

primrec piece_ok :: "piece \<Rightarrow> bool" where
  "piece_ok (Plain c) = (c \<noteq> dquote \<and> c \<noteq> backslash)"
| "piece_ok (Escaped c) = True"

primrec piece_text :: "piece \<Rightarrow> string" where
  "piece_text (Plain c) = [c]"
| "piece_text (Escaped c) = [backslash, c]"

text \<open>What a piece stands for in the value that is reported: four escape sequences are decoded, the others are kept as they are written.\<close>

primrec piece_value :: "piece \<Rightarrow> string" where
  "piece_value (Plain c) = [c]"
| "piece_value (Escaped c) = (if c = dquote \<or> c = backslash then [c] else if c = CHR ''n'' then [lf] else if c = CHR ''r'' then [cr] else [backslash, c])"

definition pieces_text :: "piece list \<Rightarrow> string" where
  "pieces_text ps = concat (map piece_text ps)"

definition pieces_value :: "piece list \<Rightarrow> string" where
  "pieces_value ps = concat (map piece_value ps)"

primrec term_ok :: "result_term \<Rightarrow> bool" where
  "term_ok (RtUri v) = True"
| "term_ok (RtBnode v) = True"
| "term_ok (RtPlain ps) = list_all piece_ok ps"
| "term_ok (RtTyped ps d) = list_all piece_ok ps"
| "term_ok (RtLang ps l) = list_all piece_ok ps"

primrec term_text :: "result_term \<Rightarrow> string" where
  "term_text (RtUri v) = ''<'' @ v @ ''>''"
| "term_text (RtBnode v) = ''_:'' @ v"
| "term_text (RtPlain ps) = quoted (pieces_text ps)"
| "term_text (RtTyped ps d) = quoted (pieces_text ps) @ ''^^<'' @ d @ ''>''"
| "term_text (RtLang ps l) = quoted (pieces_text ps) @ ''@'' @ l"

primrec term_meaning :: "result_term \<Rightarrow> term_info" where
  "term_meaning (RtUri v) = \<lparr>ti_type = ''uri'', ti_value = v, ti_datatype = None, ti_lang = None\<rparr>"
| "term_meaning (RtBnode v) = \<lparr>ti_type = ''bnode'', ti_value = v, ti_datatype = None, ti_lang = None\<rparr>"
| "term_meaning (RtPlain ps) = \<lparr>ti_type = ''literal'', ti_value = pieces_value ps, ti_datatype = None, ti_lang = None\<rparr>"
| "term_meaning (RtTyped ps d) = \<lparr>ti_type = ''literal'', ti_value = pieces_value ps, ti_datatype = Some d, ti_lang = None\<rparr>"
| "term_meaning (RtLang ps l) = \<lparr>ti_type = ''literal'', ti_value = pieces_value ps, ti_datatype = None, ti_lang = Some l\<rparr>"

text \<open>A value in the canonical form of N-Triples, which has the four escape sequences only.\<close>

definition canonical :: "string \<Rightarrow> piece list" where
  "canonical v = map (\<lambda>c. if c = dquote \<or> c = backslash then Escaped c else if c = lf then Escaped (CHR ''n'')
     else if c = cr then Escaped (CHR ''r'') else Plain c) v"

lemmas special_chars = dquote_def backslash_def lf_def cr_def

lemma pieces_simps [simp]: "pieces_text [] = []" "pieces_text (p # ps) = piece_text p @ pieces_text ps"
  "pieces_value [] = []" "pieces_value (p # ps) = piece_value p @ pieces_value ps"
  by (simp_all add: pieces_text_def pieces_value_def)

lemma scan_pieces: "list_all piece_ok ps \<Longrightarrow> scan_quoted (pieces_text ps @ dquote # r) = (pieces_text ps, Some r)"
proof (induction ps)
  case (Cons p ps)
  obtain d ds where "pieces_text ps @ dquote # r = d # ds" by (cases "pieces_text ps") auto
  with Cons show ?case by (cases p) (auto simp: special_chars)
qed simp

lemma unescape_plain: "c \<noteq> backslash \<Longrightarrow> unescapeLexicalForm (c # cs) = c # unescapeLexicalForm cs"
  by (cases cs) simp_all

lemma unescape_pieces: "list_all piece_ok ps \<Longrightarrow> unescapeLexicalForm (pieces_text ps) = pieces_value ps"
proof (induction ps)
  case (Cons p ps)
  then show ?case
  proof (cases p)
    case (Escaped c)
    show ?thesis
    proof (cases "c \<in> set [dquote, backslash, CHR ''n'', CHR ''r'']")
      case True
      then show ?thesis using Cons Escaped by (auto simp: special_chars)
    next
      case False
      then have "unescapeLexicalForm (backslash # c # pieces_text ps) = backslash # unescapeLexicalForm (c # pieces_text ps)" by simp
      then show ?thesis using Cons Escaped False unescape_plain [of c "pieces_text ps"] by simp
    qed
  qed (simp add: unescape_plain del: unescapeLexicalForm.simps)
qed simp

lemma canonical_pieces: "list_all piece_ok (canonical v)" "pieces_value (canonical v) = v"
  by (induction v) (auto simp: canonical_def special_chars)

lemma classify_quoted:
  assumes "list_all piece_ok ps"
  shows "classifyTerm (quoted (pieces_text ps) @ r) =
     (if r \<noteq> [] \<and> hd r = CHR ''@'' then \<lparr>ti_type = ''literal'', ti_value = pieces_value ps, ti_datatype = None, ti_lang = Some (tl r)\<rparr>
      else if length r \<ge> 4 \<and> take 3 r = ''^^<'' \<and> last r = CHR ''>''
      then \<lparr>ti_type = ''literal'', ti_value = pieces_value ps, ti_datatype = Some (butlast (drop 3 r)), ti_lang = None\<rparr>
      else \<lparr>ti_type = ''literal'', ti_value = pieces_value ps, ti_datatype = None, ti_lang = None\<rparr>)"
  by (simp add: classifyTerm_def quoted_def scan_pieces [OF assms] unescape_pieces [OF assms] Let_def) (simp add: dquote_def)

section \<open>CSV\<close>

text \<open>A reader of CSV files as RFC 4180 describes them; the number of cells and of lines is bounded by \<open>n\<close>.\<close>

fun csv_quoted :: "string \<Rightarrow> string \<times> string" where
  "csv_quoted [] = ([], [])"
| "csv_quoted (c # cs) =
     (if c \<noteq> dquote then (let (v, r) = csv_quoted cs in (c # v, r))
      else case cs of [] \<Rightarrow> ([], []) | d # ds \<Rightarrow> if d = dquote then (let (v, r) = csv_quoted ds in (dquote # v, r)) else ([], cs))"

definition csv_cell :: "string \<Rightarrow> string \<times> string" where
  "csv_cell s = (if s \<noteq> [] \<and> hd s = dquote then csv_quoted (tl s)
     else (takeWhile (\<lambda>c. c \<noteq> CHR '','' \<and> c \<noteq> cr) s, dropWhile (\<lambda>c. c \<noteq> CHR '','' \<and> c \<noteq> cr) s))"

primrec csv_line :: "nat \<Rightarrow> string \<Rightarrow> string list \<times> string" where
  "csv_line 0 s = ([], s)"
| "csv_line (Suc n) s = (let (v, r) = csv_cell s in
     if r \<noteq> [] \<and> hd r = CHR '','' then (let (vs, r') = csv_line n (tl r) in (v # vs, r')) else ([v], drop 2 r))"

primrec csv_lines :: "nat \<Rightarrow> string \<Rightarrow> string list list" where
  "csv_lines 0 s = []"
| "csv_lines (Suc n) s = (if s = [] then [] else let (vs, r) = csv_line (length s) s in vs # csv_lines n r)"

definition csv_read :: "string \<Rightarrow> string list list" where
  "csv_read s = csv_lines (length s) s"

definition csv_body :: "string \<Rightarrow> string" where
  "csv_body v = concat (map (\<lambda>c. if c = dquote then [dquote, dquote] else [c]) v)"

lemma csv_quoted_body:
  assumes "d \<noteq> dquote"
  shows "csv_quoted (csv_body v @ dquote # d # r) = (v, d # r)"
proof (induction v)
  case (Cons c v)
  then show ?case by (cases "c = dquote") (simp_all add: csv_body_def)
qed (use assms in \<open>simp add: csv_body_def\<close>)

lemma csv_cell_escape:
  assumes "d = CHR '','' \<or> d = cr"
  shows "csv_cell (csvEscape v @ d # r) = (v, d # r)"
proof (cases "list_ex (\<lambda>c. c \<in> set [CHR '','', dquote, lf, cr]) v")
  case True
  then have "csvEscape v = dquote # csv_body v @ [dquote]" by (simp add: csvEscape_def csv_body_def)
  moreover have "d \<noteq> dquote" using assms by (auto simp: special_chars)
  ultimately show ?thesis using csv_quoted_body by (simp add: csv_cell_def)
next
  case False
  then have v: "csvEscape v = v" "list_all (\<lambda>c. c \<noteq> CHR '','' \<and> c \<noteq> cr) v" "dquote \<notin> set v"
    by (auto simp: csvEscape_def list_ex_iff list_all_iff)
  have "hd (v @ d # r) \<noteq> dquote" using v(3) assms by (cases v) (auto simp: special_chars)
  moreover have "takeWhile (\<lambda>c. c \<noteq> CHR '','' \<and> c \<noteq> cr) (v @ d # r) = v" "dropWhile (\<lambda>c. c \<noteq> CHR '','' \<and> c \<noteq> cr) (v @ d # r) = d # r"
    using v(2) assms by (auto simp: list_all_iff takeWhile_append dropWhile_append)
  ultimately show ?thesis by (simp add: csv_cell_def v(1))
qed

lemma csv_line_joined:
  "vs \<noteq> [] \<Longrightarrow> length vs \<le> n \<Longrightarrow> csv_line n (joined '','' (map csvEscape vs) @ cr # lf # r) = (vs, r)"
proof (induction vs arbitrary: n rule: induct_list012)
  case (2 x)
  then obtain m where "n = Suc m" by (cases n) auto
  then show ?case by (simp add: csv_cell_escape) (simp add: cr_def)
next
  case (3 x y zs)
  then obtain m where "n = Suc m" "length (y # zs) \<le> m" by (cases n) auto
  with 3 show ?case by (simp add: csv_cell_escape)
qed simp

lemma length_joined: "length vs \<le> Suc (length (joined '','' (map f vs)))"
  by (induction vs rule: induct_list012) auto

definition csv_text :: "string list list \<Rightarrow> string" where
  "csv_text rows = concat (map (\<lambda>vs. joined '','' (map csvEscape vs) @ [cr, lf]) rows)"

lemma csv_lines_text: "[] \<notin> set rows \<Longrightarrow> length rows \<le> n \<Longrightarrow> csv_lines n (csv_text rows) = rows"
proof (induction rows arbitrary: n)
  case Nil
  then show ?case by (cases n) (simp_all add: csv_text_def)
next
  case (Cons vs rows)
  then obtain m where m: "n = Suc m" "length rows \<le> m" by (cases n) auto
  let ?s = "joined '','' (map csvEscape vs) @ cr # lf # csv_text rows"
  have "csv_line (length ?s) ?s = (vs, csv_text rows)"
    using Cons.prems(1) length_joined [of vs csvEscape] by (intro csv_line_joined) auto
  then show ?case using Cons.IH [of m] Cons.prems(1) m by (simp add: csv_text_def)
qed

lemma length_csv_text: "length rows \<le> length (csv_text rows)"
  by (induction rows) (auto simp: csv_text_def)

lemma toCsv_text: "toCsv t = csv_text (tr_vars t # map (map (\<lambda>c. case c of None \<Rightarrow> [] | Some s \<Rightarrow> s)) (tr_rows t))"
proof -
  have "csvEscape [] = []" by (simp add: csvEscape_def)
  then have "cell csvEscape = (\<lambda>c. csvEscape (case c of None \<Rightarrow> [] | Some s \<Rightarrow> s))"
    by (auto simp: cell_def fun_eq_iff split: option.split)
  then show ?thesis by (simp add: toCsv_def csv_text_def comp_def)
qed

section \<open>Escapes\<close>

text \<open>The character references of XML.\<close>

definition entities :: "(string \<times> char) list" where
  "entities = [(''amp;'', CHR ''&''), (''lt;'', CHR ''<''), (''gt;'', CHR ''>''), (''quot;'', dquote)]"

fun xml_unescape :: "string \<Rightarrow> string" where
  "xml_unescape [] = []"
| "xml_unescape (c # cs) =
     (if c \<noteq> CHR ''&'' then c # xml_unescape cs
      else case List.find (\<lambda>(w, _). take (length w) cs = w) entities of
        Some (w, d) \<Rightarrow> d # xml_unescape (drop (length w) cs)
      | None \<Rightarrow> c # xml_unescape cs)"

lemma xml_unescape_escape: "xml_unescape (xmlEscape v) = v"
proof (induction v)
  case (Cons c v)
  then show ?case by (auto simp: xmlEscape_def xml_char_def entities_def dquote_def)
qed (simp add: xmlEscape_def)

lemma xml_escape_safe: "set (xmlEscape v) \<inter> {CHR ''<'', CHR ''>'', dquote} = {}"
  by (auto simp: xmlEscape_def xml_char_def dquote_def split: if_splits)

text \<open>Percent encoding of every character but letters and digits.\<close>

definition hex_digit :: "nat \<Rightarrow> char" where
  "hex_digit n = ''0123456789ABCDEF'' ! n"

definition url_char :: "char \<Rightarrow> string" where
  "url_char c = (if isalnum c then [c] else let n = of_char c :: nat in [CHR ''%'', hex_digit (n div 16), hex_digit (n mod 16)])"

definition urlEncode :: "string \<Rightarrow> string" where
  "urlEncode s = concat (map url_char s)"

definition form_text :: "(string \<times> string) list \<Rightarrow> string" where
  "form_text kvs = joined ''&'' (map (\<lambda>(k, v). urlEncode k @ ''='' @ urlEncode v) kvs)"

lemma nat_below_16: "n < 16 \<Longrightarrow> n \<in> set [0, 1, 2, 3, 4, 5, 6, 7, 8, 9, 10, 11, 12, 13, 14, 15 :: nat]"
  by simp arith

lemma hex_digit_facts:
  assumes "n < 16"
  shows "isxdigit (hex_digit n) \<and> hex_val (hex_digit n) = n \<and> isalnum (hex_digit n)"
proof -
  have "list_all (\<lambda>n. isxdigit (hex_digit n) \<and> hex_val (hex_digit n) = n \<and> isalnum (hex_digit n)) [0, 1, 2, 3, 4, 5, 6, 7, 8, 9, 10, 11, 12, 13, 14, 15]"
    by code_simp
  then show ?thesis using nat_below_16 [OF assms] by (auto simp: list_all_iff)
qed

lemma url_char_decode: "urlDecode (url_char c @ s) = c # urlDecode s"
proof (cases "isalnum c")
  case True
  then have "c \<noteq> CHR ''+''" "c \<noteq> CHR ''%''" by (auto simp: isalnum_def isdigit_def isalpha_def)
  then show ?thesis using True by (simp add: url_char_def split: list.split)
next
  case False
  let ?n = "of_char c :: nat"
  have "?n < 256" by (simp add: of_char_def)
  then have "?n div 16 < 16" "?n mod 16 < 16" "16 * (?n div 16) + ?n mod 16 = ?n" by (auto simp: div_less_iff_less_mult)
  then show ?thesis using False hex_digit_facts by (simp add: url_char_def Let_def)
qed

lemma urlDecode_plain: "c \<noteq> CHR ''+'' \<Longrightarrow> c \<noteq> CHR ''%'' \<Longrightarrow> urlDecode (c # cs) = c # urlDecode cs"
  and urlDecode_plus: "urlDecode (CHR ''+'' # cs) = CHR '' '' # urlDecode cs"
  by (simp_all split: list.split)

lemma urlDecode_encode: "urlDecode (urlEncode s) = s"
  by (induction s) (simp_all add: urlEncode_def url_char_decode)

lemma url_encode_safe: "c \<in> set (urlEncode s) \<Longrightarrow> isalnum c \<or> c = CHR ''%''"
proof -
  have "isalnum c \<or> c = CHR ''%''" if "c \<in> set (url_char d)" for c d
  proof -
    have "(of_char d :: nat) < 256" by (simp add: of_char_def)
    then have "(of_char d :: nat) div 16 < 16" "(of_char d :: nat) mod 16 < 16" by (auto simp: div_less_iff_less_mult)
    then have "isalnum (hex_digit (of_char d div 16))" "isalnum (hex_digit (of_char d mod 16))" using hex_digit_facts by blast+
    then show ?thesis using that by (auto simp: url_char_def Let_def split: if_splits)
  qed
  then show "c \<in> set (urlEncode s) \<Longrightarrow> isalnum c \<or> c = CHR ''%''" by (auto simp: urlEncode_def)
qed

lemma split_at_ne: "split_at d s \<noteq> []"
  by (induction s) (auto split: list.split)

lemma split_at_none: "d \<notin> set p \<Longrightarrow> split_at d p = [p]"
  by (induction p) auto

lemma split_at_append: "d \<notin> set p \<Longrightarrow> split_at d (p @ d # s) = p # split_at d s"
  by (induction p) auto

lemma split_at_joined: "ps \<noteq> [] \<Longrightarrow> list_all (\<lambda>p. d \<notin> set p) ps \<Longrightarrow> split_at d (joined [d] ps) = ps"
  by (induction ps rule: induct_list012) (auto simp: split_at_none split_at_append)

lemma key_value_pair: "key_value (urlEncode k @ CHR ''='' # urlEncode v) = (k, v)"
proof -
  have "\<not> (isalnum (CHR ''='') \<or> CHR ''='' = CHR ''%'')" by (simp add: isalnum_def isdigit_def isalpha_def)
  then have "CHR ''='' \<notin> set (urlEncode k)" using url_encode_safe by blast
  then have "takeWhile (\<lambda>c. c \<noteq> CHR ''='') (urlEncode k @ CHR ''='' # urlEncode v) = urlEncode k" by (auto simp: takeWhile_append)
  then show ?thesis by (simp add: key_value_def urlDecode_encode)
qed

lemma form_pieces:
  "foldl form_step m (map (\<lambda>(k, v). urlEncode k @ ''='' @ urlEncode v) kvs) = m ++ map_of (rev kvs)"
  if "list_all (\<lambda>kv. fst kv \<noteq> []) kvs"
  using that
proof (induction kvs arbitrary: m)
  case (Cons kv kvs)
  obtain k v where kv: "kv = (k, v)" by (cases kv)
  have "form_step m (urlEncode k @ ''='' @ urlEncode v) = m(k \<mapsto> v)" using Cons.prems kv by (simp add: form_step_def key_value_pair)
  then show ?case using Cons kv by simp
qed simp

section \<open>Properties\<close>

text \<open>
  C34. Results do not depend on how a column is cut into chunks: row \<open>r\<close> of the extracted rows holds, for every column, the value at
  position \<open>r\<close> of the column as a whole, and nothing where the column is shorter.
\<close>

theorem rows_ignore_chunks:
  "extractRows (Some t) = \<lparr>tr_vars = at_fields t, tr_rows = (if at_columns t = [] then []
     else map (\<lambda>r. map (\<lambda>col. value_at (column_values col) r) (at_columns t)) [0..<at_rows t])\<rparr>"
proof -
  have "list_all cursor_ok (map (\<lambda>cs. (cs, 0)) (at_columns t))" by (auto simp: list_all_iff cursor_ok_def split: list.split)
  from extract_from_ok [OF this] show ?thesis by (simp add: extractRows_def remaining_def comp_def)
qed

text \<open>
  C20. Every term in the notation of N-Triples, an IRI, a blank node or a literal with or without a language tag or a datatype, is taken apart into
  its kind, its value, its language tag and its datatype.  In the value of a literal the escapes of the quotation mark, the backslash, the line feed and the
  carriage return are decoded, and every other escape sequence is reported as it is written; IRIs are reported as they are written.  The value of a
  literal in canonical form, which has these four escapes only, is reported whatever characters it contains.
\<close>

theorem terms_taken_apart:
  "(term_ok t \<longrightarrow> classifyTerm (term_text t) = term_meaning t)
   \<and> classifyTerm (term_text (RtPlain (canonical v))) = \<lparr>ti_type = ''literal'', ti_value = v, ti_datatype = None, ti_lang = None\<rparr>"
proof -
  have all: "classifyTerm (term_text t) = term_meaning t" if "term_ok t" for t
  proof (cases t)
    case (RtTyped ps d)
    have "last (''^^<'' @ d @ ''>'') = CHR ''>''" by simp
    then show ?thesis using RtTyped that classify_quoted [of ps "''^^<'' @ d @ ''>''"] by (simp add: butlast_append)
  next
    case (RtUri v)
    then show ?thesis by (simp add: classifyTerm_def butlast_append)
  next
    case (RtBnode v)
    then show ?thesis by (simp add: classifyTerm_def)
  next
    case (RtPlain ps)
    then show ?thesis using that classify_quoted [of ps "[]"] by simp
  next
    case (RtLang ps l)
    then show ?thesis using that classify_quoted [of ps "''@'' @ l"] by simp
  qed
  from all [of "RtPlain (canonical v)"] all [of t] show ?thesis using canonical_pieces by simp
qed

theorem terms_taken_apart_witness:
  "classifyTerm ([dquote, CHR ''a'', backslash, CHR ''t'', backslash, CHR ''n'', dquote] @ ''@en'')
     = \<lparr>ti_type = ''literal'', ti_value = [CHR ''a'', backslash, CHR ''t'', lf], ti_datatype = None, ti_lang = Some ''en''\<rparr>"
  using terms_taken_apart [of "RtLang [Plain (CHR ''a''), Escaped (CHR ''t''), Escaped (CHR ''n'')] ''en''" "[]"]
  by (simp add: quoted_def special_chars)

text \<open>
  C19. A CSV reader gets back from the CSV result the names of the variables and every row, whatever characters the values contain; an unbound value
  reads as the empty text.
\<close>

theorem csv_result_read_back:
  assumes "tr_vars t \<noteq> []" and "[] \<notin> set (tr_rows t)"
  shows "csv_read (toCsv t) = tr_vars t # map (map (\<lambda>c. case c of None \<Rightarrow> [] | Some s \<Rightarrow> s)) (tr_rows t)"
  unfolding csv_read_def toCsv_text using assms by (intro csv_lines_text length_csv_text) auto

theorem csv_result_read_back_witness:
  "csv_read (toCsv \<lparr>tr_vars = [''x'', ''y''], tr_rows = [[Some (''a,'' @ [dquote] @ ''b''), None]]\<rparr>) = [[''x'', ''y''], [''a,'' @ [dquote] @ ''b'', []]]"
  using csv_result_read_back [of "\<lparr>tr_vars = [''x'', ''y''], tr_rows = [[Some (''a,'' @ [dquote] @ ''b''), None]]\<rparr>"] by simp

text \<open>
  C35. Form data decodes to what was encoded: a form with non-empty keys, each key and value percent-encoded, is read as the map of its fields, the last
  value for a key that occurs more than once.
\<close>

theorem form_data_read_back:
  assumes "list_all (\<lambda>kv. fst kv \<noteq> []) kvs"
  shows "parseFormEncoded (form_text kvs) = map_of (rev kvs)"
proof (cases "kvs = []")
  case True
  then show ?thesis by (simp add: parseFormEncoded_def form_text_def form_step_def)
next
  case False
  have "\<not> (isalnum (CHR ''&'') \<or> CHR ''&'' = CHR ''%'')" by (simp add: isalnum_def isdigit_def isalpha_def)
  then have "CHR ''&'' \<notin> set (urlEncode s)" for s using url_encode_safe by blast
  then have "split_at (CHR ''&'') (form_text kvs) = map (\<lambda>(k, v). urlEncode k @ ''='' @ urlEncode v) kvs"
    unfolding form_text_def using False by (intro split_at_joined) (auto simp: list_all_iff)
  then show ?thesis using form_pieces [OF assms] by (simp add: parseFormEncoded_def)
qed

theorem form_data_read_back_witness:
  "parseFormEncoded (form_text [(''query'', ''a & b''), (''c d'', ''='')]) ''query'' = Some ''a & b''"
  using form_data_read_back [of "[(''query'', ''a & b''), (''c d'', ''='')]"] by simp

text \<open>
  The TSV result is ambiguous: the backslash is not escaped, so a value with a tabulator and the value with a backslash and the letter t in its
  place are written as the same text, and carriage returns are dropped.
\<close>

theorem tsv_result_ambiguous:
  "toTsv \<lparr>tr_vars = vs, tr_rows = [[Some (u @ [CHR 0x09] @ w)]]\<rparr> = toTsv \<lparr>tr_vars = vs, tr_rows = [[Some (u @ [backslash, CHR ''t''] @ w)]]\<rparr>
   \<and> toTsv \<lparr>tr_vars = vs, tr_rows = [[Some (u @ [cr] @ w)]]\<rparr> = toTsv \<lparr>tr_vars = vs, tr_rows = [[Some (u @ w)]]\<rparr>"
  by (simp add: toTsv_def cell_def tsvEscape_def special_chars)

end
