(* ===== verification/Fuzzy_Turtle.thy ===== *)
theory Fuzzy_Turtle
  imports Fuzzy_Parser "HOL-Library.Multiset"
begin

text \<open>
  The fuzzy Turtle reader returns on every input.  When it accepts the input, the text it delivers is the input with exactly the truth degrees
  blanked, and the degrees it delivers are those of the input and ones.
\<close>

section \<open>The parser's invariant\<close>

definition p_ok :: "string \<Rightarrow> parser \<Rightarrow> bool" where
  "p_ok s p \<longleftrightarrow> token_at s (p_cur p, p_lex p)"

text \<open>The input that is left, in tokens at most.\<close>

definition left :: "string \<Rightarrow> parser \<Rightarrow> nat" where
  "left s p = (if at_end p then 0 else 1 + (length s - lx_pos (p_lex p)))"

definition blank_tokens :: "string \<Rightarrow> token list \<Rightarrow> string" where
  "blank_tokens out ts = foldl (\<lambda>out t. blank out (t_begin t) (t_end t)) out (degree_tokens ts)"

text \<open>
  What the parser has done between two of its states: it has read some tokens, blanked the degrees among them, and pushed these degrees
  and some ones.
\<close>

definition delivers :: "string \<Rightarrow> parser \<Rightarrow> parser \<Rightarrow> bool" where
  "delivers s p p' \<longleftrightarrow> (\<exists>ts ds k. reads s (p_cur p, p_lex p) ts (p_cur p', p_lex p') \<and> p_out p' = blank_tokens (p_out p) ts
     \<and> p_degrees p' = p_degrees p @ ds \<and> mset ds = mset (map t_degree (degree_tokens ts)) + replicate_mset k float_one)"

lemma deliversI:
  "reads s (p_cur p, p_lex p) ts (p_cur p', p_lex p') \<Longrightarrow> p_out p' = blank_tokens (p_out p) ts \<Longrightarrow> p_degrees p' = p_degrees p @ ds
     \<Longrightarrow> mset ds = mset (map t_degree (degree_tokens ts)) + replicate_mset k float_one \<Longrightarrow> delivers s p p'"
  unfolding delivers_def by blast

lemma degree_tokens_append [simp]: "degree_tokens (ts @ us) = degree_tokens ts @ degree_tokens us" and degree_tokens_Nil [simp]: "degree_tokens [] = []"
  by (simp_all add: degree_tokens_def)

lemma blank_tokens_append: "blank_tokens out (ts @ us) = blank_tokens (blank_tokens out ts) us" and blank_tokens_Nil [simp]: "blank_tokens out [] = out"
  by (simp_all add: blank_tokens_def)

lemma delivers_refl: "delivers s p p"
  by (rule deliversI [of _ _ "[]" _ "[]" 0]) (simp_all add: reads_none)

lemma delivers_trans:
  assumes "delivers s p q" and "delivers s q r"
  shows "delivers s p r"
proof -
  obtain ts ds k where a: "reads s (p_cur p, p_lex p) ts (p_cur q, p_lex q)" "p_out q = blank_tokens (p_out p) ts"
    "p_degrees q = p_degrees p @ ds" "mset ds = mset (map t_degree (degree_tokens ts)) + replicate_mset k float_one"
    using assms(1) unfolding delivers_def by blast
  obtain us es l where b: "reads s (p_cur q, p_lex q) us (p_cur r, p_lex r)" "p_out r = blank_tokens (p_out q) us"
    "p_degrees r = p_degrees q @ es" "mset es = mset (map t_degree (degree_tokens us)) + replicate_mset l float_one"
    using assms(2) unfolding delivers_def by blast
  have m: "replicate_mset (k + l) float_one = replicate_mset k float_one + replicate_mset l float_one"
    by (induction k) simp_all
  show ?thesis
    by (rule deliversI [OF reads_trans [OF b(1) a(1)], of "ds @ es" "k + l"])
       (simp_all only: blank_tokens_append a b mset_append degree_tokens_append map_append m append_assoc ac_simps)
qed

lemma delivers_depth [simp]: "delivers s p (q\<lparr>p_depth := d\<rparr>) = delivers s p q" "delivers s (p\<lparr>p_depth := d\<rparr>) q = delivers s p q"
  by (simp_all add: delivers_def)

lemma delivers_push: "delivers s p (push_degree p)"
  by (rule deliversI [of _ _ "[]" _ "[float_one]" 1]) (simp_all add: reads_none push_degree_def)

definition runs :: "nat \<Rightarrow> string \<Rightarrow> parser \<Rightarrow> parser res option \<Rightarrow> bool" where
  "runs d s p r \<longleftrightarrow> (\<exists>q. r = Some q \<and> (\<forall>p'. q = Inr p' \<longrightarrow> p_ok s p' \<and> left s p' + d \<le> left s p \<and> delivers s p p'))"

lemma runsI:
  "(\<And>p'. q = Inr p' \<Longrightarrow> p_ok s p' \<and> left s p' + d \<le> left s p \<and> delivers s p p')
     \<Longrightarrow> runs d s p (Some q)"
  by (auto simp: runs_def)

lemma runs_fail [simp]: "runs d s p (Some (Inl e))"
  by (simp add: runs_def)

lemma runs_return: "p_ok s p \<Longrightarrow> runs 0 s p (Some (Inr p))"
  by (simp add: runs_def delivers_refl)

lemma runs_if: "(b \<Longrightarrow> runs d s p x) \<Longrightarrow> (\<not> b \<Longrightarrow> runs d s p y) \<Longrightarrow> runs d s p (if b then x else y)"
  by simp

lemma runs_mono: "runs d s p r \<Longrightarrow> d' \<le> d \<Longrightarrow> runs d' s p r"
  by (force simp: runs_def)

lemma runs_bind:
  assumes "runs d1 s p m" and "\<And>p'. p_ok s p' \<Longrightarrow> left s p' + d1 \<le> left s p \<Longrightarrow> runs d2 s p' (f p')"
  shows "runs (d1 + d2) s p (bindOE m f)"
proof -
  obtain q where q: "m = Some q" "\<And>p'. q = Inr p' \<Longrightarrow> p_ok s p' \<and> left s p' + d1 \<le> left s p \<and> delivers s p p'"
    using assms(1) by (auto simp: runs_def)
  show ?thesis
  proof (cases q)
    case (Inr p')
    then have "runs d2 s p' (f p')" using q(2) assms(2) by blast
    with q(2) [OF Inr] Inr q(1) show ?thesis unfolding runs_def using delivers_trans by fastforce
  qed (use q(1) in simp)
qed

lemma runs_bind_weak:
  assumes "runs d1 s p m" and "\<And>p'. p_ok s p' \<Longrightarrow> left s p' + d1 \<le> left s p \<Longrightarrow> runs 0 s p' (f p')" and "d \<le> d1"
  shows "runs d s p (bindOE m f)"
  using runs_mono [OF runs_bind [OF assms(1,2)]] assms(3) by simp

lemma p_ok_depth [simp]: "p_ok s (p\<lparr>p_depth := d\<rparr>) = p_ok s p"
  by (simp add: p_ok_def)

lemma left_depth [simp]: "left s (p\<lparr>p_depth := d\<rparr>) = left s p"
  by (simp add: left_def at_end_def)

lemma p_ok_push [simp]: "p_ok s (push_degree p) = p_ok s p"
  by (simp add: p_ok_def push_degree_def)

lemma left_push [simp]: "left s (push_degree p) = left s p"
  by (simp add: left_def at_end_def push_degree_def)

lemma runs_push: "runs d s (push_degree p) r \<Longrightarrow> runs d s p r"
  using delivers_trans [OF delivers_push] by (fastforce simp: runs_def)

lemma punct_push [simp]: "isPunct (push_degree p) c = isPunct p c"
  by (simp add: isPunct_def push_degree_def)

section \<open>Tokens\<close>

lemma advance_reads:
  assumes "advance s p = Inr p'" and "\<not> at_end p"
  shows "reads s (p_cur p, p_lex p) [p_cur p] (p_cur p', p_lex p')" and "p_ok s p'" and "p_degrees p' = p_degrees p"
    and "p_out p' = p_out p" and "p_ok s p \<Longrightarrow> left s p' < left s p"
proof -
  obtain t lx where t: "lex_next s (p_lex p) = Inr (t, lx)" and p': "p' = p\<lparr>p_lex := lx, p_cur := t\<rparr>"
    using assms(1) by (auto simp: advance_def bindE_eq_Inr_iff)
  show "reads s (p_cur p, p_lex p) [p_cur p] (p_cur p', p_lex p')"
    using reads_token [OF reads_none _ t] assms(2) by (simp add: p' at_end_def)
  show "p_ok s p'" "p_degrees p' = p_degrees p" "p_out p' = p_out p" using token_at_next [OF t] by (simp_all add: p' p_ok_def)
  show "left s p' < left s p" if "p_ok s p"
    using token_at_next [OF t] that assms(2) by (auto simp: p' left_def at_end_def p_ok_def token_at_def)
qed

lemma runs_advance:
  assumes "p_ok s p" and "\<not> at_end p" and "t_kind (p_cur p) \<noteq> TDegree"
  shows "runs (Suc 0) s p (Some (advance s p))"
proof (rule runsI)
  fix p' assume "advance s p = Inr p'"
  note a = advance_reads [OF this assms(2)]
  have "delivers s p p'" by (rule deliversI [OF a(1), of "[]" 0]) (use a(3,4) assms(3) in \<open>simp_all add: degree_tokens_def blank_tokens_def\<close>)
  then show "p_ok s p' \<and> left s p' + Suc 0 \<le> left s p \<and> delivers s p p'" using a(2,5) assms(1) by simp
qed

lemma isPunct_kind: "isPunct p c \<Longrightarrow> \<not> at_end p" "isPunct p c \<Longrightarrow> t_kind (p_cur p) \<noteq> TDegree"
  by (auto simp: isPunct_def at_end_def)

lemma runs_punct: "p_ok s p \<Longrightarrow> isPunct p c \<Longrightarrow> runs (Suc 0) s p (Some (advance s p))"
  using isPunct_kind by (auto intro: runs_advance)

lemma runs_expectPunct: "p_ok s p \<Longrightarrow> runs (Suc 0) s p (Some (expectPunct s p c))"
  by (auto simp: expectPunct_def intro: runs_punct)

lemma runs_expectTerm: "p_ok s p \<Longrightarrow> runs (Suc 0) s p (Some (expectTerm s p))"
  by (auto simp: expectTerm_def at_end_def intro!: runs_advance)

lemma Some_bindE: "Some (bindE m f) = bindOE (Some m) (\<lambda>x. Some (f x))"
  by (cases m) auto

lemma runs_parseSimple:
  assumes "p_ok s p"
  shows "runs (Suc 0) s p (Some (parseSimple s p))"
proof (cases "t_kind (p_cur p) = TString")
  case True
  show ?thesis
    unfolding parseSimple_def Some_bindE if_P [OF True]
    by (rule runs_bind_weak [OF runs_advance [OF assms]])
       (auto simp: Some_bindE at_end_def True
         intro: runs_return runs_mono [OF runs_advance] runs_bind_weak [OF runs_advance] runs_mono [OF runs_expectTerm])
next
  case False
  then show ?thesis using assms by (auto simp: parseSimple_def at_end_def intro!: runs_advance)
qed

lemma foldl_blank_at:
  "length (foldl blank_at out is) = length out
   \<and> (\<forall>i. foldl blank_at out is ! i = (if i \<in> set is \<and> i < length out \<and> out ! i \<noteq> newline then CHR 0x20 else out ! i))"
proof (induction "is" arbitrary: out)
  case (Cons j js)
  have l: "length (blank_at out j) = length out" by (simp add: blank_at_def)
  have n: "blank_at out j ! i = (if i = j \<and> j < length out \<and> out ! j \<noteq> newline then CHR 0x20 else out ! i)" for i
    by (cases "j < length out") (auto simp: blank_at_def nth_list_update list_update_beyond)
  show ?case using Cons [of "blank_at out j"] by (auto simp: l n)
qed simp

lemma length_blank [simp]: "length (blank out b e) = length out"
  by (simp add: blank_def foldl_blank_at)

lemma nth_blank:
  "blank out b e ! i = (if b \<le> i \<and> i < e \<and> i < length out \<and> out ! i \<noteq> newline then CHR 0x20 else out ! i)"
  by (simp add: blank_def foldl_blank_at)

text \<open>An object and the degree that may follow it.\<close>

lemma delivers_degree:
  assumes "delivers s (push_degree p) q" and "t_kind (p_cur q) = TDegree" and "p_ok s q"
    and "advance s (q\<lparr>p_degrees := (p_degrees q)[length (p_degrees p) := t_degree (p_cur q)],
          p_out := blank (p_out q) (t_begin (p_cur q)) (t_end (p_cur q))\<rparr>) = Inr p'" (is "advance s ?q = Inr p'")
  shows "delivers s p p'" and "p_ok s p'" and "left s p' \<le> left s q"
proof -
  have ne: "\<not> at_end ?q" using assms(2) by (simp add: at_end_def)
  note a = advance_reads [OF assms(4) ne]
  obtain ts ds k where d: "reads s (p_cur p, p_lex p) ts (p_cur q, p_lex q)" "p_out q = blank_tokens (p_out p) ts"
    "p_degrees q = p_degrees p @ float_one # ds" "mset ds = mset (map t_degree (degree_tokens ts)) + replicate_mset k float_one"
    using assms(1) by (auto simp: delivers_def push_degree_def)
  have r: "reads s (p_cur q, p_lex q) [p_cur q] (p_cur p', p_lex p')" using a(1) by simp
  have "blank (p_out q) (t_begin (p_cur q)) (t_end (p_cur q)) = blank_tokens (p_out p) (ts @ [p_cur q])"
    using assms(2) d(2) by (simp add: blank_tokens_append) (simp add: blank_tokens_def degree_tokens_def)
  moreover have "degree_tokens [p_cur q] = [p_cur q]" using assms(2) by (simp add: degree_tokens_def)
  ultimately show "delivers s p p'"
    by (intro deliversI [OF reads_trans [OF r d(1)], of "t_degree (p_cur q) # ds" k])
       (use a(3,4) d(3,4) in \<open>simp_all add: list_update_append\<close>)
  have q: "p_ok s ?q" "left s ?q = left s q" using assms(3) by (simp_all add: p_ok_def left_def at_end_def)
  show "p_ok s p'" "left s p' \<le> left s q" using a(2,5) q by simp_all
qed

lemma runs_object_degree:
  assumes "runs (Suc 0) s (push_degree p) m"
  shows "runs (Suc 0) s p (bindOE m (\<lambda>q. Some (parseDegree s (length (p_degrees p)) q)))"
proof -
  obtain r where r: "m = Some r" "\<And>q. r = Inr q \<Longrightarrow> p_ok s q \<and> left s q + Suc 0 \<le> left s p \<and> delivers s (push_degree p) q"
    using assms by (auto simp: runs_def)
  show ?thesis
  proof (cases r)
    case (Inr q)
    have q: "p_ok s q" "left s q + Suc 0 \<le> left s p" "delivers s (push_degree p) q" using r(2) [OF Inr] by simp_all
    have e: "t_begin (p_cur q) + length (t_text (p_cur q)) = t_end (p_cur q)" by (simp add: t_end_def)
    have "runs (Suc 0) s p (Some (parseDegree s (length (p_degrees p)) q))"
    proof (rule runsI)
      fix p' assume "parseDegree s (length (p_degrees p)) q = Inr p'"
      then consider "t_kind (p_cur q) = TDegree" "advance s (q\<lparr>p_degrees := (p_degrees q)[length (p_degrees p) := t_degree (p_cur q)],
          p_out := blank (p_out q) (t_begin (p_cur q)) (t_end (p_cur q))\<rparr>) = Inr p'"
        | "p' = q" unfolding parseDegree_def e by (auto split: if_splits)
      then show "p_ok s p' \<and> left s p' + Suc 0 \<le> left s p \<and> delivers s p p'"
      proof cases
        case 1
        then show ?thesis using delivers_degree [OF q(3) 1(1) q(1) 1(2)] q(2) by simp
      next
        case 2
        then show ?thesis using q delivers_trans [OF delivers_push q(3)] by simp
      qed
    qed
    then show ?thesis using r(1) Inr by simp
  qed (use r(1) in simp)
qed

section \<open>The grammar\<close>

lemma runs_skipSemicolons:
  "p_ok s p \<Longrightarrow> left s p < k \<Longrightarrow> runs 0 s p (skipSemicolons k s p)"
proof (induction k arbitrary: p)
  case (Suc k)
  show ?case
  proof (cases "isPunct p (CHR '';'')")
    case True
    show ?thesis unfolding skipSemicolons.simps if_P [OF True]
      by (rule runs_bind_weak [OF runs_punct [OF Suc.prems(1) True]])
         (use Suc in auto)
  qed (use Suc.prems(1) in \<open>simp add: runs_return\<close>)
qed simp

definition grammar_runs :: "nat \<Rightarrow> string \<Rightarrow> bool" where
  "grammar_runs k s \<longleftrightarrow> (\<forall>p. p_ok s p \<longrightarrow>
     (4 * left s p + 2 \<le> k \<longrightarrow> runs (Suc 0) s p (parsePredicateObjectList k s p)
        \<and> runs 0 s p (predicateObjectLoop k s p) \<and> runs 0 s p (parseObjectList k s p)
        \<and> runs 0 s p (objectLoop k s p) \<and> runs 0 s p (collectionLoop k s p))
     \<and> (4 * left s p + 1 \<le> k \<longrightarrow> runs (Suc 0) s p (parseObject k s p)))"

lemma grammar_runsD:
  assumes "grammar_runs k s" and "p_ok s p"
  shows "4 * left s p + 2 \<le> k \<Longrightarrow> runs (Suc 0) s p (parsePredicateObjectList k s p)"
    and "4 * left s p + 2 \<le> k \<Longrightarrow> runs 0 s p (predicateObjectLoop k s p)"
    and "4 * left s p + 2 \<le> k \<Longrightarrow> runs 0 s p (parseObjectList k s p)"
    and "4 * left s p + 2 \<le> k \<Longrightarrow> runs 0 s p (objectLoop k s p)"
    and "4 * left s p + 2 \<le> k \<Longrightarrow> runs 0 s p (collectionLoop k s p)"
    and "4 * left s p + 1 \<le> k \<Longrightarrow> runs (Suc 0) s p (parseObject k s p)"
  using assms by (auto simp: grammar_runs_def)

lemma runs_verb_objects:
  assumes "grammar_runs k s" and "p_ok s p" and "4 * left s p + 1 \<le> k"
  shows "runs (Suc 0) s p (bindOE (Some (expectTerm s p)) (\<lambda>p.
     bindOE (parseObjectList k s p) (\<lambda>p. predicateObjectLoop k s p)))"
proof (rule runs_bind_weak [OF runs_expectTerm [OF assms(2)]])
  fix p' assume p': "p_ok s p'" "left s p' + Suc 0 \<le> left s p"
  show "runs 0 s p' (bindOE (parseObjectList k s p') (\<lambda>p. predicateObjectLoop k s p))"
    by (rule runs_bind_weak [OF grammar_runsD(3) [OF assms(1) p'(1)]])
       (use p' assms in \<open>auto intro!: grammar_runsD(2)\<close>)
qed simp

lemma runs_predicateObjectLoop:
  assumes "grammar_runs k s" and "p_ok s p" and "4 * left s p + 1 \<le> k"
  shows "runs 0 s p (predicateObjectLoop (Suc k) s p)"
proof (cases "isPunct p (CHR '';'')")
  case True
  show ?thesis unfolding predicateObjectLoop.simps if_P [OF True]
    by (rule runs_bind_weak [OF runs_skipSemicolons [OF assms(2)]])
       (use assms in \<open>auto intro: runs_return runs_mono [OF runs_verb_objects [OF assms(1)]]\<close>)
qed (use assms in \<open>simp add: runs_return\<close>)

lemma runs_objectLoop:
  assumes "grammar_runs k s" and "p_ok s p" and "4 * left s p + 1 \<le> k"
  shows "runs 0 s p (objectLoop (Suc k) s p)"
proof (cases "isPunct p (CHR '','')")
  case True
  show ?thesis unfolding objectLoop.simps if_P [OF True]
  proof (rule runs_bind_weak [OF runs_punct [OF assms(2) True]])
    fix p' assume p': "p_ok s p'" "left s p' + Suc 0 \<le> left s p"
    show "runs 0 s p' (bindOE (parseObject k s p') (\<lambda>p. objectLoop k s p))"
      by (rule runs_bind_weak [OF grammar_runsD(6) [OF assms(1) p'(1)]])
         (use p' assms in \<open>auto intro!: grammar_runsD(4)\<close>)
  qed simp
qed (use assms in \<open>simp add: runs_return\<close>)

lemma runs_collectionLoop:
  assumes "grammar_runs k s" and "p_ok s p" and "4 * left s p + 1 \<le> k"
  shows "runs 0 s p (collectionLoop (Suc k) s p)"
proof (cases "isPunct p (CHR '')'')")
  case True
  then show ?thesis using runs_mono [OF runs_punct [OF assms(2) True], of 0] by simp
next
  case False
  have "runs 0 s p (bindOE (parseObject k s p) (\<lambda>p. collectionLoop k s (push_degree p)))" if "\<not> at_end p"
  proof (rule runs_bind_weak [OF grammar_runsD(6) [OF assms]])
    fix p' assume p': "p_ok s p'" "left s p' + Suc 0 \<le> left s p"
    then have "runs 0 s (push_degree p') (collectionLoop k s (push_degree p'))"
      using assms by (intro grammar_runsD(5)) auto
    then show "runs 0 s p' (collectionLoop k s (push_degree p'))" by (rule runs_push)
  qed simp
  with False show ?thesis by simp
qed

lemma runs_bracketed:
  assumes "grammar_runs k s" and "p_ok s p" and "4 * left s p + 2 \<le> k + 4" and "isPunct p b"
  shows "runs (Suc 0) s p (bindOE (Some (advance s p)) (\<lambda>p.
     bindOE (if \<not> isPunct p c then parsePredicateObjectList k s p else Some (Inr p)) (\<lambda>p. Some (expectPunct s p c))))"
proof (rule runs_bind_weak [OF runs_punct [OF assms(2,4)]])
  fix p' assume p': "p_ok s p'" "left s p' + Suc 0 \<le> left s p"
  have "runs 0 s p' (if \<not> isPunct p' c then parsePredicateObjectList k s p' else Some (Inr p'))"
    using p' assms(3) by (auto intro!: runs_return runs_mono [OF grammar_runsD(1) [OF assms(1)]])
  then show "runs 0 s p' (bindOE (if \<not> isPunct p' c then parsePredicateObjectList k s p' else Some (Inr p'))
      (\<lambda>p. Some (expectPunct s p c)))"
    by (rule runs_bind_weak) (auto intro: runs_mono [OF runs_expectPunct])
qed simp

lemma runs_collection:
  assumes "grammar_runs k s" and "p_ok s p" and "4 * left s p + 2 \<le> k"
  shows "runs 0 s p (parseCollectionItems k s p)"
proof -
  have "runs 0 s (p\<lparr>p_depth := p_depth p + 1\<rparr>) (collectionLoop k s (p\<lparr>p_depth := p_depth p + 1\<rparr>))"
    using assms by (intro grammar_runsD(5)) auto
  then show ?thesis unfolding parseCollectionItems_def runs_def by (auto split: sum.splits simp: bindOE_def)
qed

lemma runs_parenthesised:
  assumes "grammar_runs k s" and "p_ok s p" and "4 * left s p + 2 \<le> k + 4" and "isPunct p b"
  shows "runs (Suc 0) s p (bindOE (Some (advance s p)) (parseCollectionItems k s))"
  by (rule runs_bind_weak [OF runs_punct [OF assms(2,4)]]) (use assms in \<open>auto intro!: runs_collection\<close>)

lemma parseObject_alt:
  "parseObject (Suc k) s p = (let idx = length (p_degrees p); p = push_degree p in
     bindOE
       (if isPunct p (CHR ''['') then
          bindOE (Some (advance s p)) (\<lambda>p.
          bindOE (if \<not> isPunct p (CHR '']'') then parsePredicateObjectList k s p else Some (Inr p)) (\<lambda>p.
          Some (expectPunct s p (CHR '']''))))
        else if isPunct p (CHR ''('') then bindOE (Some (advance s p)) (parseCollectionItems k s)
        else Some (parseSimple s p))
       (\<lambda>p. Some (parseDegree s idx p)))"
  unfolding parseObject.simps parseCollectionItems_def by (rule refl)

lemma runs_parseObject:
  assumes "grammar_runs k s" and "p_ok s p" and "4 * left s p \<le> k"
  shows "runs (Suc 0) s p (parseObject (Suc k) s p)"
proof -
  define q where "q = push_degree p"
  have q: "p_ok s q" "4 * left s q + 2 \<le> k + 4" using assms by (auto simp: q_def)
  have "runs (Suc 0) s q (if isPunct q (CHR ''['') then
          bindOE (Some (advance s q)) (\<lambda>p.
          bindOE (if \<not> isPunct p (CHR '']'') then parsePredicateObjectList k s p else Some (Inr p)) (\<lambda>p.
          Some (expectPunct s p (CHR '']''))))
        else if isPunct q (CHR ''('') then bindOE (Some (advance s q)) (parseCollectionItems k s)
        else Some (parseSimple s q))"
    using runs_bracketed [OF assms(1) q] runs_parenthesised [OF assms(1) q]
      runs_parseSimple [OF q(1)] by (auto split: if_split)
  from runs_object_degree [OF this [unfolded q_def]] show ?thesis
    unfolding parseObject_alt Let_def by simp
qed

lemma runs_parseObjectList:
  assumes "grammar_runs k s" and "p_ok s p" and "4 * left s p + 1 \<le> k"
  shows "runs 0 s p (parseObjectList (Suc k) s p)"
  unfolding parseObjectList.simps
  by (rule runs_bind_weak [OF grammar_runsD(6) [OF assms]])
     (use assms in \<open>auto intro!: grammar_runsD(4)\<close>)

lemma grammar_runs: "grammar_runs k s"
proof (induction k)
  case (Suc k)
  show ?case unfolding grammar_runs_def [of "Suc k"]
  proof (intro allI impI conjI)
    fix p assume p: "p_ok s p"
    show "runs (Suc 0) s p (parseObject (Suc k) s p)" if "4 * left s p + 1 \<le> Suc k"
      using that by (intro runs_parseObject [OF Suc p]) simp
    assume "4 * left s p + 2 \<le> Suc k"
    then have k: "4 * left s p + 1 \<le> k" by simp
    show "runs (Suc 0) s p (parsePredicateObjectList (Suc k) s p)"
      unfolding parsePredicateObjectList.simps by (rule runs_verb_objects [OF Suc p k])
    show "runs 0 s p (predicateObjectLoop (Suc k) s p)" by (rule runs_predicateObjectLoop [OF Suc p k])
    show "runs 0 s p (parseObjectList (Suc k) s p)" by (rule runs_parseObjectList [OF Suc p k])
    show "runs 0 s p (objectLoop (Suc k) s p)" by (rule runs_objectLoop [OF Suc p k])
    show "runs 0 s p (collectionLoop (Suc k) s p)" by (rule runs_collectionLoop [OF Suc p k])
  qed
qed (simp add: grammar_runs_def)

lemma runs_parsePredicateObjectList:
  "p_ok s p \<Longrightarrow> 4 * left s p + 2 \<le> k \<Longrightarrow> runs 0 s p (parsePredicateObjectList k s p)"
  by (rule runs_mono [OF grammar_runsD(1) [OF grammar_runs]]) simp_all

lemma runs_parseTriples:
  assumes "p_ok s p" and "4 * left s p + 2 \<le> k"
  shows "runs (Suc 0) s p (parseTriples k s p)"
proof (cases "isPunct p (CHR ''['')")
  case True
  show ?thesis unfolding parseTriples_def if_P [OF True] Let_def
  proof (rule runs_bind_weak [OF runs_punct [OF assms(1) True]])
    fix p' assume p': "p_ok s p'" "left s p' + Suc 0 \<le> left s p"
    let ?e = "isPunct p' (CHR '']'')"
    show "runs 0 s p' (bindOE (if \<not> ?e then parsePredicateObjectList k s p' else Some (Inr p')) (\<lambda>p.
        bindOE (Some (expectPunct s p (CHR '']''))) (\<lambda>p.
        if ?e \<or> \<not> isPunct p (CHR ''.'') then parsePredicateObjectList k s p else Some (Inr p))))"
    proof (rule runs_bind_weak)
      show "runs 0 s p' (if \<not> ?e then parsePredicateObjectList k s p' else Some (Inr p'))"
        using p' assms(2) by (auto intro: runs_return runs_parsePredicateObjectList)
      fix p'' assume p'': "p_ok s p''" "left s p'' + 0 \<le> left s p'"
      show "runs 0 s p'' (bindOE (Some (expectPunct s p'' (CHR '']''))) (\<lambda>p.
        if ?e \<or> \<not> isPunct p (CHR ''.'') then parsePredicateObjectList k s p else Some (Inr p)))"
        by (rule runs_bind_weak [OF runs_expectPunct [OF p''(1)]])
           (use p' p'' assms(2) in \<open>auto intro: runs_return runs_parsePredicateObjectList\<close>)
    qed simp
  qed simp
next
  case False
  show ?thesis unfolding parseTriples_def if_not_P [OF False]
  proof (rule runs_bind_weak)
    show "runs (Suc 0) s p (if isPunct p (CHR ''('') then bindOE (Some (advance s p)) (parseCollectionItems k s)
        else Some (expectTerm s p))"
      using assms by (auto intro: runs_expectTerm runs_parenthesised [OF grammar_runs])
  qed (use assms(2) in \<open>auto intro: runs_parsePredicateObjectList\<close>)
qed

lemma runs_optional_term:
  "p_ok s p \<Longrightarrow> runs 0 s p (Some (if b then expectTerm s p else Inr p))"
  by (auto intro: runs_return runs_mono [OF runs_expectTerm])

lemma runs_parseStatement:
  assumes "p_ok s p" and "4 * left s p + 2 \<le> k" and "\<not> at_end p"
  shows "runs (Suc 0) s p (parseStatement k s p)"
proof -
  have pre: "runs (Suc 0) s p (Some (bindE (advance s p) (\<lambda>p. bindE (if b then expectTerm s p else Inr p) f)))"
    if "t_kind (p_cur p) = TDirective \<or> isKeyword p ''PREFIX'' \<or> isKeyword p ''BASE''" "\<And>p. p_ok s p \<Longrightarrow> runs 0 s p (Some (f p))" for b f
  proof -
    have "t_kind (p_cur p) \<noteq> TDegree" using that(1) by (auto simp: isKeyword_def)
    then show ?thesis unfolding Some_bindE
      by (intro runs_bind_weak [OF runs_advance [OF assms(1,3)]] runs_bind_weak [OF runs_optional_term]) (simp_all add: that(2))
  qed
  have trm: "runs 0 s p (Some (expectTerm s p))" if "p_ok s p" for p
    using runs_mono [OF runs_expectTerm [OF that]] by simp
  have dot: "runs 0 s p (Some (bindE (expectTerm s p) (\<lambda>p. expectPunct s p c)))" if "p_ok s p" for p c
    unfolding Some_bindE
    by (rule runs_bind_weak [OF trm [OF that]]) (auto intro: runs_mono [OF runs_expectPunct])
  have trp: "runs (Suc 0) s p (bindOE (parseTriples k s p) (\<lambda>p. Some (expectPunct s p c)))" for c
    by (rule runs_bind_weak [OF runs_parseTriples [OF assms(1,2)]]) (auto intro: runs_mono [OF runs_expectPunct])
  show ?thesis unfolding parseStatement_def Let_def by (intro runs_if runs_fail pre trm dot trp) simp_all
qed

lemma runs_parseDocument: "p_ok s p \<Longrightarrow> 4 * left s p + 3 \<le> k \<Longrightarrow> runs 0 s p (parseDocument k s p)"
proof (induction k arbitrary: p)
  case (Suc k)
  show ?case
  proof (cases "at_end p")
    case False
    show ?thesis unfolding parseDocument.simps if_not_P [OF False]
      by (rule runs_bind_weak [OF runs_parseStatement [OF Suc.prems(1) _ False]]) (use Suc in auto)
  qed (use Suc.prems in \<open>simp add: runs_return\<close>)
qed simp

lemma mk_parser_ok:
  assumes "mk_parser s = Inr p"
  shows "p_ok s p" and "lex_next s mk_lexer = Inr (p_cur p, p_lex p)" and "p_out p = s" and "p_degrees p = []"
proof -
  show l: "lex_next s mk_lexer = Inr (p_cur p, p_lex p)" and "p_out p = s" "p_degrees p = []"
    using assms by (auto simp: mk_parser_def advance_def bindE_eq_Inr_iff)
  show "p_ok s p" using token_at_next [OF l] by (simp add: p_ok_def)
qed

lemma parseDocument_returns:
  assumes "mk_parser s = Inr p"
  obtains q where "parseDocument (parse_fuel s) s p = Some q" and "\<And>p'. q = Inr p' \<Longrightarrow> p_ok s p' \<and> delivers s p p'"
proof -
  have "4 * left s p + 3 \<le> parse_fuel s" by (auto simp: left_def parse_fuel_def)
  from runs_parseDocument [OF mk_parser_ok(1) [OF assms] this] show thesis
    by (auto simp: runs_def intro: that)
qed

lemma parseDocument_end: "parseDocument k s p = Some (Inr p') \<Longrightarrow> at_end p'"
  by (induction k arbitrary: p) (auto simp: bindOE_eq_Inr_iff split: if_splits)

text \<open>The whole input has been read, and its degrees have been blanked and delivered.\<close>

lemma loadFuzzyTTL_ok:
  assumes "loadFuzzyTTL s = Some (Inr (out, ds))"
  obtains ts k where "tokens s = Some (Inr ts)" and "out = blank_tokens s ts"
    and "mset ds = mset (map t_degree (degree_tokens ts)) + replicate_mset k float_one"
    and "\<forall>t \<in> set ts. piece s t" and "sorted_wrt (\<lambda>t u. t_end t \<le> t_begin u) ts"
proof -
  obtain p p' where p: "mk_parser s = Inr p" "parseDocument (parse_fuel s) s p = Some (Inr p')"
    "out = p_out p'" "ds = p_degrees p'"
    using assms by (auto simp: loadFuzzyTTL_def bindOE_eq_Inr_iff)
  note m = mk_parser_ok [OF p(1)]
  have "delivers s p p'" using parseDocument_returns [OF p(1)] p(2) by (metis option.inject)
  then obtain ts k where d: "reads s (p_cur p, p_lex p) ts (p_cur p', p_lex p')" "out = blank_tokens s ts"
    "mset ds = mset (map t_degree (degree_tokens ts)) + replicate_mset k float_one"
    using p(3,4) m(3,4) by (auto simp: delivers_def)
  have "tokens s = Some (Inr ts)" using tokens_all [OF m(2) d(1)] parseDocument_end [OF p(2)] by (simp add: at_end_def)
  with d that show thesis using reads_pieces [OF d(1)] m(1) by (auto simp: p_ok_def)
qed

lemma nth_blank_tokens:
  assumes "\<forall>t \<in> set ts. piece s t"
  shows "length (blank_tokens s ts) = length s \<and> (\<forall>i < length s. blank_tokens s ts ! i =
    (if s ! i \<noteq> newline \<and> (\<exists>t \<in> set (degree_tokens ts). t_begin t \<le> i \<and> i < t_end t) then CHR 0x20 else s ! i))"
  using assms
proof (induction ts rule: rev_induct)
  case (snoc t ts)
  show ?case
  proof (cases "t_kind t = TDegree")
    case True
    then have "blank_tokens s (ts @ [t]) = blank (blank_tokens s ts) (t_begin t) (t_end t)" "degree_tokens [t] = [t]"
      by (simp_all add: blank_tokens_append) (simp_all add: blank_tokens_def degree_tokens_def)
    then show ?thesis using snoc by (auto simp: nth_blank)
  next
    case False
    then have "blank_tokens s (ts @ [t]) = blank_tokens s ts" "degree_tokens [t] = []"
      by (simp_all add: blank_tokens_append) (simp_all add: blank_tokens_def degree_tokens_def)
    then show ?thesis using snoc by simp
  qed
qed simp

lemma other_tokens_kept:
  assumes "\<forall>t \<in> set ts. piece s t" and "sorted_wrt (\<lambda>t u. t_end t \<le> t_begin u) ts" and "t \<in> set ts" and "t_kind t \<noteq> TDegree"
  shows "substr (blank_tokens s ts) (t_begin t) (length (t_text t)) = t_text t"
proof -
  have t: "t_begin t < t_end t" "t_end t \<le> length s" "t_text t = substr s (t_begin t) (t_end t - t_begin t)"
    using assms(1,3) by (auto simp: piece_def)
  have l: "length (t_text t) = t_end t - t_begin t" by (simp add: t_end_def)
  note b = nth_blank_tokens [OF assms(1)]
  have "blank_tokens s ts ! j = s ! j" if j: "t_begin t \<le> j" "j < t_end t" for j
  proof -
    have "\<not> (t_begin u \<le> j \<and> j < t_end u)" if "u \<in> set (degree_tokens ts)" for u
    proof -
      have u: "u \<in> set ts" "u \<noteq> t" using that assms(4) by (auto simp: degree_tokens_def)
      then obtain m k where "m < length ts" "k < length ts" "ts ! m = t" "ts ! k = u" "m \<noteq> k" using assms(3) by (auto simp: in_set_conv_nth)
      then have "t_end u \<le> t_begin t \<or> t_end t \<le> t_begin u"
        using sorted_wrt_nth_less [OF assms(2), of m k] sorted_wrt_nth_less [OF assms(2), of k m] by (cases "m < k") auto
      then show ?thesis using j by auto
    qed
    then show ?thesis using b j t(2) by auto
  qed
  then have "substr (blank_tokens s ts) (t_begin t) (t_end t - t_begin t) = substr s (t_begin t) (t_end t - t_begin t)"
    using b t(1,2) by (intro nth_equalityI) (auto simp: substr_def)
  then show ?thesis unfolding l using t(3) by simp
qed

lemma loadFuzzyTTL_defined: "\<exists>r. loadFuzzyTTL s = Some r"
proof (cases "mk_parser s")
  case (Inr p)
  then obtain q where "parseDocument (parse_fuel s) s p = Some q" using parseDocument_returns by metis
  with Inr show ?thesis by (cases q) (simp_all add: loadFuzzyTTL_def)
qed (simp add: loadFuzzyTTL_def)

section \<open>Properties of the reader\<close>

text \<open>
  C22. \<open>loadFuzzyTTL\<close> returns on every input, with a result or with an error: neither the lexer nor the
  recursive descent loops forever.
\<close>

theorem loadFuzzyTTL_returns: "loadFuzzyTTL s \<noteq> None"
  using loadFuzzyTTL_defined by simp

text \<open>
  C8. The plain Turtle text that \<open>loadFuzzyTTL\<close> produces is the input with the truth degrees blanked, and nothing else: it has the same
  length; a character is blanked exactly when it is not a line break and belongs to a degree token of the input; and every other
  token, a string literal with braces in it for instance, stands there unchanged.
\<close>

theorem loadFuzzyTTL_blanks_degrees:
  assumes "loadFuzzyTTL s = Some (Inr (out, ds))"
  shows "\<exists>ts. tokens s = Some (Inr ts) \<and> length out = length s
    \<and> (\<forall>i < length s. out ! i = (if s ! i \<noteq> newline \<and> (\<exists>t \<in> set (degree_tokens ts). t_begin t \<le> i \<and> i < t_end t) then CHR 0x20 else s ! i))
    \<and> (\<forall>t \<in> set ts. t_kind t \<noteq> TDegree \<longrightarrow> substr out (t_begin t) (length (t_text t)) = t_text t)"
proof -
  obtain ts k where ts: "tokens s = Some (Inr ts)" "out = blank_tokens s ts" "\<forall>t \<in> set ts. piece s t"
    "sorted_wrt (\<lambda>t u. t_end t \<le> t_begin u) ts" using loadFuzzyTTL_ok [OF assms] by metis
  show ?thesis using ts(1) nth_blank_tokens [OF ts(3)] other_tokens_kept [OF ts(3,4)] unfolding ts(2) by blast
qed

abbreviation sample_fttl :: string where
  "sample_fttl \<equiv> ''a b '' @ [quote2] @ ''{1}'' @ [quote2] @ ''{0.5}.''"

lemma loadFuzzyTTL_sample:
  "loadFuzzyTTL sample_fttl = Some (Inr (''a b '' @ [quote2] @ ''{1}'' @ [quote2] @ ''     .'', [0x3F000000]))"
  by code_simp

lemma tokens_sample:
  "okOE (\<lambda>ts. map t_kind ts = [TName, TName, TString, TDegree, TPunct] \<and> t_begin (ts ! 3) = 9 \<and> t_end (ts ! 3) = 14 \<and> t_begin (ts ! 2) = 4
     \<and> t_text (ts ! 2) = [quote2] @ ''{1}'' @ [quote2] \<and> t_degree (ts ! 3) = 0x3F000000) (tokens sample_fttl)"
  by code_simp

theorem loadFuzzyTTL_blanks_degrees_witness:
  "\<exists>out ds. loadFuzzyTTL sample_fttl = Some (Inr (out, ds)) \<and> out ! 10 = CHR 0x20
     \<and> substr out 4 5 = [quote2] @ ''{1}'' @ [quote2]"
proof -
  obtain ts where ts: "tokens sample_fttl = Some (Inr ts)" "map t_kind ts = [TName, TName, TString, TDegree, TPunct]" "t_begin (ts ! 3) = 9"
    "t_end (ts ! 3) = 14" "t_begin (ts ! 2) = 4" "t_text (ts ! 2) = [quote2] @ ''{1}'' @ [quote2]"
    using tokens_sample by (auto simp: okOE_iff)
  obtain out ds where o: "loadFuzzyTTL sample_fttl = Some (Inr (out, ds))" using loadFuzzyTTL_sample by blast
  have c: "\<forall>i < 15. out ! i = (if sample_fttl ! i \<noteq> newline \<and> (\<exists>t \<in> set (degree_tokens ts). t_begin t \<le> i \<and> i < t_end t) then CHR 0x20 else sample_fttl ! i)"
    "\<forall>t \<in> set ts. t_kind t \<noteq> TDegree \<longrightarrow> substr out (t_begin t) (length (t_text t)) = t_text t"
    using loadFuzzyTTL_blanks_degrees [OF o] ts(1) by auto
  have l: "length ts = 5" using arg_cong [OF ts(2), of length] by simp
  then have k: "ts ! 2 \<in> set ts" "ts ! 3 \<in> set ts" "t_kind (ts ! 2) = TString" "t_kind (ts ! 3) = TDegree"
    using ts(2) arg_cong [OF ts(2), of "\<lambda>xs. xs ! 2"] arg_cong [OF ts(2), of "\<lambda>xs. xs ! 3"] by auto
  then have "ts ! 3 \<in> set (degree_tokens ts)" by (simp add: degree_tokens_def)
  then have "\<exists>t \<in> set (degree_tokens ts). t_begin t \<le> 10 \<and> 10 < t_end t" by (rule bexI [rotated]) (simp add: ts(3,4))
  then have "out ! 10 = CHR 0x20" using c(1) [rule_format, of 10] by simp
  moreover have "substr out 4 5 = [quote2] @ ''{1}'' @ [quote2]" using c(2) [rule_format, OF k(1)] k(3) ts(5,6) by (simp add: eval_nat_numeral)
  ultimately show ?thesis using o by blast
qed



end
