(* ===== verification/Sparql_Endpoint.thy ===== *)
theory Sparql_Endpoint
  imports Sparql_Session Sparql_Results Fuzzy_Turtle
begin

text \<open>
  The HTTP endpoint (\<open>src/src/tools/sparql-endpoint.cpp\<close>): the two routes over the engine.  A request is what the routes read of it; sockets and the
  HTTP library are left out.  A request is answered; or the process ends, because a failed assertion and \<open>std::terminate\<close> are not exceptions; or
  its outcome is undefined, after an access outside of a buffer; or the translation or the execution of a query does not return (\<open>None\<close>).
  Both routes catch the exceptions of the statements they run, and what they do before takes strings apart only, so that \<open>handleConnection\<close> has no
  exception of \<open>route\<close> to answer with the status 500.  After a statement that threw, the state is not described.
\<close>

section \<open>Requests and responses\<close>

datatype verb = GET | POST | OtherVerb

record request =
  rq_method :: verb
  rq_target :: string
  rq_contentType :: string
  rq_accept :: string
  rq_body :: string

record response =
  rs_status :: nat
  rs_contentType :: string
  rs_body :: string

definition makeResponse :: "nat \<Rightarrow> string \<Rightarrow> string \<Rightarrow> response" where
  "makeResponse status contentType body = \<lparr>rs_status = status, rs_contentType = contentType, rs_body = body\<rparr>"

datatype answer = Answered "(file_system \<times> engine_state) option" response | Crashed error | Undefined error

text \<open>The engine's queries give tables; \<open>ep_dump\<close> and \<open>ep_what\<close> are the JSON printer and the messages of exceptions.\<close>

record endpoint =
  ep_env :: "arrow_table option env"
  ep_dump :: "json \<Rightarrow> string res"
  ep_what :: "error \<Rightarrow> string"

definition error_answer :: "endpoint \<Rightarrow> (file_system \<times> engine_state) option \<Rightarrow> error \<Rightarrow> answer" where
  "error_answer ep w e =
     (if is_exception e then Answered w (makeResponse 400 ''text/plain'' (''Error: '' @ ep_what ep e @ [lf]))
      else if e = OutOfBounds \<or> e = ShortRead then Undefined e
      else Crashed e)"

section \<open>Updates\<close>

datatype update_result = Updated file_system engine_state nat string | Failed "(file_system \<times> engine_state) option" fault

primrec run_updates :: "endpoint \<Rightarrow> file_system \<Rightarrow> engine_state \<Rightarrow> nat \<Rightarrow> string \<Rightarrow> string list \<Rightarrow> update_result option" where
  "run_updates ep fs st executed log [] = Some (Updated fs st executed log)"
| "run_updates ep fs st executed log (raw # rest) = (let stmt = trim raw in
     if stmt = [] then run_updates ep fs st executed log rest
     else case classifyStatement stmt of
       Inl e \<Rightarrow> Some (Failed (Some (fs, st)) (Fault e))
     | Inr SkQuery \<Rightarrow> Some (Failed (Some (fs, st)) (Fault (RuntimeError ''statement is not a LOAD or settings directive; SELECT queries must go to /sparql'')))
     | Inr _ \<Rightarrow> (case handleStatement (ep_env ep) fs st stmt None of
         None \<Rightarrow> None
       | Some (Inl flt) \<Rightarrow> Some (Failed None flt)
       | Some (Inr (fs, st, _)) \<Rightarrow> run_updates ep fs st (executed + 1) (log @ ''OK'' @ [lf]) rest))"

definition update_body :: "request \<Rightarrow> string option" where
  "update_body req = (if contains ''application/x-www-form-urlencoded'' (rq_contentType req) then parseFormEncoded (rq_body req) ''update'' else Some (rq_body req))"

definition fault_error :: "fault \<Rightarrow> error" where
  "fault_error flt = (case flt of Unsupported what \<Rightarrow> RuntimeError what | Fault e \<Rightarrow> e)"

definition handleUpdate :: "endpoint \<Rightarrow> file_system \<Rightarrow> engine_state \<Rightarrow> request \<Rightarrow> answer option" where
  "handleUpdate ep fs st req =
     (if rq_method req \<noteq> POST then Some (Answered (Some (fs, st)) (makeResponse 405 ''text/plain'' (''Only POST is allowed on /sparql-update'' @ [lf])))
      else case update_body req of
        None \<Rightarrow> Some (Answered (Some (fs, st)) (makeResponse 400 ''text/plain'' (''Missing required '' @ [CHR 0x27] @ ''update'' @ [CHR 0x27] @ '' field'' @ [lf])))
      | Some body \<Rightarrow>
          (case run_updates ep fs st 0 [] (snd (feed new_accumulator (body @ [lf] @ '';''))) of
             None \<Rightarrow> None
           | Some (Failed w flt) \<Rightarrow> Some (error_answer ep w (fault_error flt))
           | Some (Updated fs st executed log) \<Rightarrow>
               if executed = 0 then Some (Answered (Some (fs, st)) (makeResponse 400 ''text/plain'' (''No statements found in request body'' @ [lf])))
               else Some (Answered (Some (fs, st)) (makeResponse 200 ''text/plain'' log))))"

section \<open>Queries\<close>

definition query_text :: "request \<Rightarrow> (string \<rightharpoonup> string) \<Rightarrow> string option" where
  "query_text req urlParams =
     (if rq_method req = GET then urlParams ''query''
      else if contains ''application/sparql-query'' (rq_contentType req) then Some (rq_body req)
      else parseFormEncoded (rq_body req) ''query'')"

definition default_graph :: "(string \<rightharpoonup> string) \<Rightarrow> string option" where
  "default_graph urlParams = (case urlParams ''default-graph-uri'' of None \<Rightarrow> None | Some g \<Rightarrow> if g = [] then None else Some g)"

definition run_query :: "endpoint \<Rightarrow> file_system \<Rightarrow> engine_state \<Rightarrow> request \<Rightarrow> string \<Rightarrow> string option \<Rightarrow> answer option" where
  "run_query ep fs st req stmt defaultGraphOverride = (case classifyStatement stmt of
       Inl e \<Rightarrow> Some (error_answer ep (Some (fs, st)) e)
     | Inr kind \<Rightarrow> (case handleStatement (ep_env ep) fs st stmt defaultGraphOverride of
         None \<Rightarrow> None
       | Some (Inl (Unsupported what)) \<Rightarrow> Some (Answered None (makeResponse 501 ''text/plain'' (''Not implemented: '' @ what @ [lf])))
       | Some (Inl (Fault e)) \<Rightarrow> Some (error_answer ep None e)
       | Some (Inr (fs, st, r)) \<Rightarrow>
           if kind \<noteq> SkQuery then Some (Answered (Some (fs, st)) (makeResponse 200 ''text/plain'' (''OK'' @ [lf])))
           else let fmt = negotiateFormat (rq_accept req) in
             (case serialize (ep_dump ep) fmt (case r of None \<Rightarrow> None | Some table \<Rightarrow> table) of
                Inl e \<Rightarrow> Some (error_answer ep (Some (fs, st)) e)
              | Inr body \<Rightarrow> Some (Answered (Some (fs, st)) (makeResponse 200 (contentTypeFor fmt) body)))))"

definition handleQueryRoute :: "endpoint \<Rightarrow> file_system \<Rightarrow> engine_state \<Rightarrow> request \<Rightarrow> string \<Rightarrow> answer option" where
  "handleQueryRoute ep fs st req queryString =
     (if rq_method req \<noteq> GET \<and> rq_method req \<noteq> POST
      then Some (Answered (Some (fs, st)) (makeResponse 405 ''text/plain'' (''Only GET or POST is allowed on /sparql'' @ [lf])))
      else let urlParams = parseFormEncoded queryString in
        case query_text req urlParams of
          None \<Rightarrow> Some (Answered (Some (fs, st)) (makeResponse 400 ''text/plain'' (''Missing required '' @ [CHR 0x27] @ ''query'' @ [CHR 0x27] @ '' parameter'' @ [lf])))
        | Some text \<Rightarrow>
            if trim text = [] then Some (Answered (Some (fs, st)) (makeResponse 400 ''text/plain'' (''Missing required '' @ [CHR 0x27] @ ''query'' @ [CHR 0x27] @ '' parameter'' @ [lf])))
            else run_query ep fs st req (trim text) (default_graph urlParams))"

text \<open>The target up to the first question mark, and what follows it.\<close>

definition rq_path :: "request \<Rightarrow> string" where
  "rq_path req = takeWhile (\<lambda>c. c \<noteq> CHR ''?'') (rq_target req)"

definition rq_query :: "request \<Rightarrow> string" where
  "rq_query req = drop (Suc (length (rq_path req))) (rq_target req)"

definition route :: "endpoint \<Rightarrow> file_system \<Rightarrow> engine_state \<Rightarrow> request \<Rightarrow> answer option" where
  "route ep fs st req =
     (if rq_path req = ''/sparql-update'' then handleUpdate ep fs st req
      else if rq_path req = ''/sparql'' then handleQueryRoute ep fs st req (rq_query req)
      else Some (Answered (Some (fs, st)) (makeResponse 404 ''text/plain'' (''Not found'' @ [lf]))))"

section \<open>Only queries can hang\<close>

text \<open>A call returns, with a value or with an error.\<close>

definition returns :: "'a option \<Rightarrow> bool" where
  "returns r \<longleftrightarrow> r \<noteq> None"

named_theorems returns_intro

lemma returns_Some [returns_intro]: "returns (Some x)"
  by (simp add: returns_def)

lemma returns_bindOE [returns_intro]: "returns m \<Longrightarrow> (\<And>x. returns (f x)) \<Longrightarrow> returns (bindOE m f)"
  by (cases m) (auto simp: returns_def bindOE_def split: sum.split)

lemma returns_if [returns_intro]: "returns a \<Longrightarrow> returns b \<Longrightarrow> returns (if c then a else b)"
  by simp

lemma returns_pair [returns_intro]: "(\<And>a b. returns (f a b)) \<Longrightarrow> returns (case p of (a, b) \<Rightarrow> f a b)"
  by (cases p) simp

lemma returns_option [returns_intro]: "returns a \<Longrightarrow> (\<And>x. returns (f x)) \<Longrightarrow> returns (case v of None \<Rightarrow> a | Some x \<Rightarrow> f x)"
  by (cases v) simp_all

lemma returns_entry [returns_intro]:
  "(\<And>x. returns (f x)) \<Longrightarrow> (\<And>x. returns (g x)) \<Longrightarrow> (\<And>x. returns (h x)) \<Longrightarrow> returns (case e of FunctionEntry x \<Rightarrow> f x | GraphEntry x \<Rightarrow> g x | IndexEntry x \<Rightarrow> h x)"
  by (cases e) simp_all

lemma returns_map [returns_intro]: "returns m \<Longrightarrow> returns (map_option f m)"
  by (cases m) (simp_all add: returns_def)

lemma returns_sum [returns_intro]: "(\<And>x. returns (f x)) \<Longrightarrow> (\<And>x. returns (g x)) \<Longrightarrow> returns (case s of Inl x \<Rightarrow> f x | Inr x \<Rightarrow> g x)"
  by (cases s) simp_all

lemma loadFuzzy_returns [returns_intro]: "returns (loadFuzzyTriples parse fs g)"
proof (cases "fs_files fs (rg_dbDir g @ rg_sourceFileName g @ ''.fttl'')")
  case (Some content)
  obtain r where "loadFuzzyTTL (map char_of_byte content) = Some r" using loadFuzzyTTL_defined by metis
  then show ?thesis using Some by (auto simp: returns_def loadFuzzyTriples_def Let_def split: sum.split error.split)
qed (simp add: returns_def loadFuzzyTriples_def)

lemma rdf_ensureLoaded_returns [returns_intro]: "returns (rdf_ensureLoaded decode parse parse_file fs g)"
  unfolding rdf_ensureLoaded_def Let_def loadTriples_def by (intro returns_intro)

lemma entry_returns [returns_intro]: "returns (entry_ensureFullyLoaded decode parse parse_file fs e)"
  unfolding entry_ensureFullyLoaded_def Let_def by (intro returns_intro)

lemma load_all_returns [returns_intro]: "returns (load_all (ev_class ev) fs m ks)"
proof (induction ks arbitrary: m)
  case (Cons k ks)
  have "returns (e_ensureFullyLoaded (ev_class ev) fs x)" for x
    unfolding ev_class_def db_class_def entry_class.simps by (intro returns_intro)
  then show ?case unfolding load_all.simps by (intro returns_intro Cons.IH)
qed (simp add: returns_def)

lemma create_returns [returns_intro]: "returns (cat_create (ev_class ev) order fs dir eager)"
  unfolding cat_create_def Let_def by (intro returns_intro)

lemma handleLoad_returns [returns_intro]: "returns (handleLoad ev fs st source graph)"
  unfolding handleLoad_def load_new_def load_entry_def Let_def by (intro returns_intro)

lemma handleSettings_returns [returns_intro]: "returns (handleSettings ev fs st d)"
  unfolding handleSettings_def persist_session_def by (intro returns_intro)

lemma dropWhile_idem: "dropWhile p (dropWhile p xs) = dropWhile p xs"
  by (induction xs) auto

lemma dropWhile_hd: "xs \<noteq> [] \<Longrightarrow> \<not> p (hd xs) \<Longrightarrow> dropWhile p xs = xs"
  by (cases xs) auto

lemma dropWhile_rev: "dropWhile p (rev (dropWhile p (rev (dropWhile p s)))) = rev (dropWhile p (rev (dropWhile p s)))"
proof (cases "dropWhile p (rev (dropWhile p s)) = []")
  case False
  define u where "u = dropWhile p s"
  have ne: "dropWhile p (rev u) \<noteq> []" using False by (simp add: u_def)
  then have "u \<noteq> []" by (cases u) auto
  then have h: "\<not> p (hd u)" unfolding u_def by (rule hd_dropWhile)
  have "rev u = takeWhile p (rev u) @ dropWhile p (rev u)" by simp
  then have "u = rev (dropWhile p (rev u)) @ rev (takeWhile p (rev u))" by (metis rev_append rev_rev_ident)
  then have "hd (rev (dropWhile p (rev u))) = hd u" using ne by (metis Nil_is_rev_conv hd_append2)
  then show ?thesis using h ne unfolding u_def [symmetric] by (intro dropWhile_hd) simp_all
next
  case True
  show ?thesis unfolding True by simp
qed

lemma trim_trim [simp]: "trim (trim s) = trim s"
  unfolding trim_def dropWhile_rev rev_rev_ident dropWhile_idem by (rule refl)

lemma statement_query:
  assumes "classifyStatement (trim s) = Inr SkQuery" and "trim s \<noteq> []"
  shows "handleStatement ev fs st (trim s) g = map_option (map_sum (\<lambda>x. x) (\<lambda>r. (fs, st, Some r))) (handleQuery ev st (trim s) g)"
  using assms by (auto simp: handleStatement_def classifyStatement_def Let_def bindE_eq_Inr_iff split: option.split sum.split if_splits)

lemma statement_returns:
  assumes "classifyStatement (trim s) = Inr k" and "k \<noteq> SkQuery"
  shows "\<exists>r. handleStatement ev fs st (trim s) g = Some r"
proof -
  have "returns (handleStatement ev fs st (trim s) g)"
  proof (cases "regex_match loadStatementRegex (trim s)")
    case None
    then obtain d where "detectSettingsDirectives (trim s) = Inr (Some d)"
      using assms by (auto simp: classifyStatement_def Let_def bindE_eq_Inr_iff split: if_splits)
    then show ?thesis using None unfolding handleStatement_def Let_def trim_trim by (auto intro!: returns_intro)
  qed (auto simp: handleStatement_def Let_def intro!: returns_intro)
  then show ?thesis by (simp add: returns_def)
qed

lemma run_updates_returns: "\<exists>r. run_updates ep fs st n log stmts = Some r"
proof (induction stmts arbitrary: fs st n log)
  case (Cons raw rest)
  show ?case
  proof (cases "classifyStatement (trim raw)")
    case (Inr k)
    then show ?thesis
    proof (cases "k = SkQuery")
      case False
      obtain r where "handleStatement (ep_env ep) fs st (trim raw) None = Some r" using statement_returns [OF Inr False] by blast
      then show ?thesis using Cons Inr False by (cases k) (auto simp: Let_def split: sum.split prod.split)
    qed (simp add: Cons Let_def)
  qed (simp add: Cons Let_def)
qed simp

section \<open>Updates and queries\<close>

text \<open>The engine with another translation and execution of queries.\<close>

definition other_queries :: "(string \<Rightarrow> string \<Rightarrow> (translate_failure + string) option) \<Rightarrow> (db_entry catalog \<Rightarrow> string \<Rightarrow> (string + 'r) option) \<Rightarrow> 'r env \<Rightarrow> 'r env" where
  "other_queries t x ev = ev\<lparr>ev_translate := t, ev_execute := x\<rparr>"

lemma other_queries_fields: "ev_decode (other_queries t x ev) = ev_decode ev" "ev_parse (other_queries t x ev) = ev_parse ev"
  "ev_parse_file (other_queries t x ev) = ev_parse_file ev" "ev_iri_error (other_queries t x ev) = ev_iri_error ev" "ev_order (other_queries t x ev) = ev_order ev"
  "ev_read_order (other_queries t x ev) = ev_read_order ev" "ev_dirExists (other_queries t x ev) = ev_dirExists ev" "ev_class (other_queries t x ev) = ev_class ev"
  by (simp_all add: other_queries_def ev_class_def)

lemma other_queries_same [simp]:
  "handleLoad (other_queries t x ev) = handleLoad ev" "handleSettings (other_queries t x ev) = handleSettings ev"
proof -
  have e: "load_entry (other_queries t x ev) = load_entry ev" "rebuild_index (other_queries t x ev) = rebuild_index ev"
    "persist_session (other_queries t x ev) = persist_session ev"
    unfolding load_entry_def rebuild_index_def persist_session_def other_queries_fields by (rule refl)+
  have n: "load_new (other_queries t x ev) = load_new ev" unfolding load_new_def other_queries_fields e by (rule refl)
  show "handleLoad (other_queries t x ev) = handleLoad ev" "handleSettings (other_queries t x ev) = handleSettings ev"
    unfolding handleLoad_def handleSettings_def other_queries_fields e n by (rule refl)+
qed

lemma handleStatement_other_queries:
  assumes "trim stmt = stmt" and "classifyStatement stmt = Inr k" and "k \<noteq> SkQuery"
  shows "handleStatement (other_queries t x ev) fs st stmt g = handleStatement ev fs st stmt g"
  using assms by (auto simp: handleStatement_def classifyStatement_def Let_def bindE_eq_Inr_iff split: option.split sum.split if_splits)

lemma run_updates_other_queries:
  "run_updates (ep\<lparr>ep_env := other_queries t x (ep_env ep)\<rparr>) fs st n log stmts = run_updates ep fs st n log stmts"
proof (induction stmts arbitrary: fs st n log)
  case (Cons raw rest)
  show ?case
  proof (cases "classifyStatement (trim raw)")
    case (Inr k)
    then show ?thesis using Cons.IH handleStatement_other_queries [OF trim_trim Inr, of t x "ep_env ep" fs st None]
      by (cases k) (simp_all add: Let_def split: option.split sum.split)
  qed (simp add: Cons.IH Let_def)
qed simp

section \<open>Both routes\<close>

lemma statement_default_graph:
  assumes "classifyStatement (trim s) = Inr k" and "k \<noteq> SkQuery"
  shows "handleStatement ev fs st (trim s) g = handleStatement ev fs st (trim s) g'"
  using assms by (auto simp: handleStatement_def classifyStatement_def Let_def bindE_eq_Inr_iff split: option.split sum.split if_splits)

lemma statement_fault:
  assumes "classifyStatement (trim s) = Inr k" and "k \<noteq> SkQuery" and "handleStatement ev fs st (trim s) g = Some r"
  shows "r \<noteq> Inl (Unsupported what)"
proof -
  have "map_sum Fault f z \<noteq> Inl (Unsupported what)" for z :: "error + 'z" and f :: "'z \<Rightarrow> 'y" by (cases z) simp_all
  then show ?thesis using assms
    by (auto simp: handleStatement_def classifyStatement_def Let_def bindE_eq_Inr_iff split: option.splits sum.splits if_splits)
qed

lemma trim_append_blank: "c \<in> set blanks \<Longrightarrow> trim (s @ [c]) = trim s"
  by (cases "dropWhile (\<lambda>c. c \<in> set blanks) s = []") (simp_all add: trim_def dropWhile_append flip: dropWhile_eq_Nil_conv)

lemma empty_statement: "classifyStatement [] = Inr SkQuery"
  by code_simp

section \<open>Properties\<close>

definition statuses :: "nat list" where
  "statuses = [200, 400, 404, 405, 501]"

text \<open>
  C18. Every request is answered with one of the statuses 200, 400, 404, 405 and 501, or ends the process with a failed assertion or \<open>std::terminate\<close>,
  or runs into undefined behaviour by an access outside of a buffer or a short read, or does not return.  The last can happen to a query sent to \<open>/sparql\<close> only, and only
  because its translation or its execution does not return: everything else, reading a graph, rebuilding the index, persisting and reopening a
  session, comes to an end.
\<close>

theorem only_queries_hang:
  "case route ep fs st req of
     Some (Answered w rs) \<Rightarrow> rs_status rs \<in> set statuses
   | Some (Crashed e) \<Rightarrow> e = Terminated \<or> (\<exists>msg. e = AssertFail msg)
   | Some (Undefined e) \<Rightarrow> e = OutOfBounds \<or> e = ShortRead
   | None \<Rightarrow> rq_path req = ''/sparql'' \<and> (\<exists>text. query_text req (parseFormEncoded (rq_query req)) = Some text
       \<and> classifyStatement (trim text) = Inr SkQuery
       \<and> handleQuery (ep_env ep) st (trim text) (default_graph (parseFormEncoded (rq_query req))) = None)"
  (is "?good (route ep fs st req)")
proof -
  have err: "?good (Some (error_answer ep w e))" for w e
    by (cases e) (simp_all add: error_answer_def is_exception_def makeResponse_def statuses_def)
  have upd: "?good (handleUpdate ep fs st req)"
  proof (cases "update_body req")
    case (Some body)
    obtain r where "run_updates ep fs st 0 [] (snd (feed new_accumulator (body @ [lf] @ '';''))) = Some r" using run_updates_returns by blast
    then show ?thesis using err Some by (cases r) (auto simp: handleUpdate_def statuses_def makeResponse_def)
  qed (auto simp: handleUpdate_def statuses_def makeResponse_def)
  have qry: "?good (run_query ep fs st req (trim q) g)"
    if "rq_path req = ''/sparql''" "query_text req (parseFormEncoded (rq_query req)) = Some q" "trim q \<noteq> []"
      "g = default_graph (parseFormEncoded (rq_query req))" for q g
  proof (cases "classifyStatement (trim q)")
    case (Inr k)
    show ?thesis
    proof (cases "handleStatement (ep_env ep) fs st (trim q) g")
      case None
      then have "k = SkQuery" using statement_returns [OF Inr, of "ep_env ep" fs st g] by auto
      then have "handleQuery (ep_env ep) st (trim q) g = None" using None statement_query [of q "ep_env ep" fs st g] Inr that(3) by simp
      then show ?thesis using None Inr that \<open>k = SkQuery\<close> by (simp add: run_query_def)
    next
      case (Some r)
      then show ?thesis using err Inr
        by (auto simp: run_query_def statuses_def makeResponse_def Let_def split: sum.split fault.split prod.split)
    qed
  qed (use err in \<open>simp add: run_query_def\<close>)
  have "?good (handleQueryRoute ep fs st req (rq_query req))" if p: "rq_path req = ''/sparql''"
  proof (cases "query_text req (parseFormEncoded (rq_query req))")
    case (Some q)
    then show ?thesis using qry [OF p Some] by (cases "trim q = []") (simp_all add: handleQueryRoute_def Let_def statuses_def makeResponse_def)
  qed (simp add: handleQueryRoute_def Let_def statuses_def makeResponse_def)
  then show ?thesis using upd by (simp add: route_def statuses_def makeResponse_def)
qed

text \<open>
  C36. The update route runs no queries: its answer and its effect do not depend on how queries are translated and executed.
\<close>

theorem updates_run_no_query:
  "rq_path req = ''/sparql-update'' \<longrightarrow>
   route (ep\<lparr>ep_env := other_queries t x (ep_env ep)\<rparr>) fs st req = route ep fs st req"
  by (simp add: route_def handleUpdate_def run_updates_other_queries error_answer_def Let_def split: option.split update_result.split)

definition sample_endpoint :: endpoint where
  "sample_endpoint = \<lparr>ep_env = \<lparr>ev_code = sample_code, ev_decode = sample_decode, ev_parse = (\<lambda>_. []), ev_parse_file = (\<lambda>_. []), ev_iri_error = (\<lambda>_. None),
     ev_other = (\<lambda>_ _. Inl ShortRead), ev_index_order = (\<lambda>_. []), ev_order = entry_order, ev_read_order = key_order, ev_dirExists = (\<lambda>_. True),
     ev_translate = (\<lambda>s g. Some (Inr s)), ev_execute = (\<lambda>c q. Some (Inr None))\<rparr>, ep_dump = (\<lambda>_. Inr []), ep_what = (\<lambda>_. [])\<rparr>"

definition sample_request :: "verb \<Rightarrow> string \<Rightarrow> string \<Rightarrow> request" where
  "sample_request m target body = \<lparr>rq_method = m, rq_target = target, rq_contentType = [], rq_accept = [], rq_body = body\<rparr>"

theorem updates_run_no_query_witness:
  "route (sample_endpoint\<lparr>ep_env := other_queries (\<lambda>_ _. None) (\<lambda>_ _. None) (ep_env sample_endpoint)\<rparr>) sample_fs
     (new_engine createEmpty ''d'') (sample_request POST ''/sparql-update'' ''SELECT 1'')
   = route sample_endpoint sample_fs (new_engine createEmpty ''d'') (sample_request POST ''/sparql-update'' ''SELECT 1'')"
  by (rule updates_run_no_query [rule_format]) (simp add: sample_request_def rq_path_def)

text \<open>
  C37. Updates are not confined to the update route.  A \<open>LOAD\<close> statement, or a settings statement that the accumulator takes for a single statement, has the same
  answer and the same effect on the engine and the files when it is sent as the query of a \<open>GET\<close> or a \<open>POST\<close> request to \<open>/sparql\<close> as when it is sent to
  \<open>/sparql-update\<close>.
\<close>

theorem routes_agree_on_updates:
  assumes "rq_method upd = POST" and "rq_path upd = ''/sparql-update''" and "update_body upd = Some body"
    and "rq_method qry \<in> set [GET, POST]" and "rq_path qry = ''/sparql''"
    and "query_text qry (parseFormEncoded (rq_query qry)) = Some text" and "trim text = trim body"
    and "classifyStatement (trim body) = Inr k"
    and "k = SkLoad \<or> k = SkSettings \<and> snd (feed new_accumulator (body @ [lf] @ '';'')) = [body @ [lf]]"
  shows "route ep fs st qry = route ep fs st upd"
proof -
  let ?g = "default_graph (parseFormEncoded (rq_query qry))"
  have k: "k \<noteq> SkQuery" using assms(9) by auto
  have f: "snd (feed new_accumulator (body @ [lf] @ '';'')) = [body @ [lf]]"
    using assms(9)
  proof
    assume "k = SkLoad"
    then have "regex_match loadStatementRegex (trim body) \<noteq> None"
      using assms(8) by (auto simp: classifyStatement_def Let_def bindE_eq_Inr_iff split: if_splits)
    then show ?thesis using load_single_statement load_statement_shape unfolding lf_def by blast
  qed simp
  have t: "trim (body @ [lf]) = trim body" by (simp add: trim_append_blank blanks_def lf_def)
  have ne: "trim body \<noteq> []" using assms(8) k empty_statement by (metis sum.inject(2))
  obtain r where r: "handleStatement (ep_env ep) fs st (trim body) None = Some r" using statement_returns [OF assms(8) k] by blast
  have g: "handleStatement (ep_env ep) fs st (trim body) ?g = Some r"
    using statement_default_graph [OF assms(8) k, of "ep_env ep" fs st ?g None] r by simp
  have "route ep fs st upd = (case r of Inl flt \<Rightarrow> Some (error_answer ep None (fault_error flt))
     | Inr (fs, st, _) \<Rightarrow> Some (Answered (Some (fs, st)) (makeResponse 200 ''text/plain'' (''OK'' @ [lf]))))"
    using assms(1-3) f t ne r assms(8) k
    by (cases k) (auto simp: route_def handleUpdate_def Let_def split: sum.split prod.split)
  moreover have "route ep fs st qry = (case r of Inl flt \<Rightarrow> Some (error_answer ep None (fault_error flt))
     | Inr (fs, st, _) \<Rightarrow> Some (Answered (Some (fs, st)) (makeResponse 200 ''text/plain'' (''OK'' @ [lf]))))"
    using assms(4) [unfolded list.set insert_iff] assms(5-8) ne g k statement_fault [OF assms(8) k g]
    by (auto simp: route_def handleQueryRoute_def run_query_def fault_error_def Let_def split: sum.split prod.split fault.split)
  ultimately show ?thesis by simp
qed

theorem routes_agree_on_updates_witness:
  "\<exists>st'. route sample_endpoint sample_fs (new_engine createEmpty ''d'') (sample_request GET ''/sparql?query=<gengodb://sparql/settings/capacity>+17'' [])
     = Some (Answered (Some (sample_fs, st')) (makeResponse 200 ''text/plain'' (''OK'' @ [lf]))) \<and> es_nodeCapacity st' = 17
     \<and> route sample_endpoint sample_fs (new_engine createEmpty ''d'') (sample_request POST ''/sparql-update'' ''<gengodb://sparql/settings/capacity> 17'')
     = Some (Answered (Some (sample_fs, st')) (makeResponse 200 ''text/plain'' (''OK'' @ [lf])))"
proof -
  let ?q = "''query=<gengodb://sparql/settings/capacity>+17''" and ?stmt = "''<gengodb://sparql/settings/capacity> 17''"
  let ?st = "new_engine createEmpty ''d''" and ?qry = "sample_request GET ''/sparql?query=<gengodb://sparql/settings/capacity>+17'' []"
  let ?upd = "sample_request POST ''/sparql-update'' ?stmt"
  let ?st' = "?st\<lparr>es_nodeCapacity := 17, es_relCapacity := 17, es_propCapacity := 17\<rparr>"
  have q1: "parseFormEncoded ?q ''query'' = Some ?stmt"
    by (simp add: parseFormEncoded_def form_step_def key_value_def urlDecode_plain urlDecode_plus del: urlDecode.simps(2))
  have q: "trim ?stmt = ?stmt" "regex_match loadStatementRegex ?stmt = None" "classifyStatement ?stmt = Inr SkSettings"
    "snd (feed new_accumulator (?stmt @ [lf] @ '';'')) = [?stmt @ [lf]]" by code_simp+
  have d: "detectSettingsDirectives ?stmt = Inr (Some \<lparr>sd_persists = False, sd_initialize = False, sd_defaultGraph = None,
      sd_capacity = Some 17, sd_nodeCapacity = None, sd_relCapacity = None, sd_propCapacity = None\<rparr>)" by code_simp
  have h: "handleStatement (ep_env sample_endpoint) sample_fs ?st ?stmt g = Some (Inr (sample_fs, ?st', None))" for g
    by (simp add: handleStatement_def q d handleSettings_def set_capacities_def set_capacity_def Let_def)
  have r: "rq_method ?upd = POST" "rq_path ?upd = ''/sparql-update''" "update_body ?upd = Some ?stmt" "rq_method ?qry \<in> set [GET, POST]"
    "rq_path ?qry = ''/sparql''" "query_text ?qry (parseFormEncoded (rq_query ?qry)) = Some ?stmt"
    using q1 by (simp_all add: sample_request_def rq_path_def rq_query_def update_body_def query_text_def)
  have "route sample_endpoint sample_fs ?st ?qry = Some (Answered (Some (sample_fs, ?st')) (makeResponse 200 ''text/plain'' (''OK'' @ [lf])))"
    using r(5,6) h by (simp add: sample_request_def [of GET] route_def handleQueryRoute_def run_query_def q Let_def)
  moreover have "route sample_endpoint sample_fs ?st ?qry = route sample_endpoint sample_fs ?st ?upd"
    by (rule routes_agree_on_updates [OF r, of SkSettings]) (simp_all only: q, simp_all)
  ultimately show ?thesis by auto
qed

end
