(* ===== verification/Graph_Registry.thy ===== *)
theory Graph_Registry
  imports Pg_Machine
begin

text \<open>
  The built-in graph types (\<open>BuiltinGraphs.h\<close>) and \<open>GraphStorage\<close> (\<open>Graph.h\<close>, \<open>Graph.cpp\<close>), the registry
  that maps raw addresses handed out to generated code back to graphs and entry identifiers.
  Addresses are integers; an object of the C++ heap is an entry of the map \<open>objs\<close>, which
  records where its stores were allocated. The registry itself is the list \<open>mem\<close> of
  (start, length, graph) triples in registration order.
\<close>

section \<open>Built-in graphs\<close>

record payload =
  pl_a :: "64 word"
  pl_b :: "64 word"
  pl_c :: "64 word"

type_synonym simple_graph = "(64 word, 64 word) graph"

type_synonym align_graph = "(payload, 64 word) graph"

definition mk_simpleGraph :: "int \<Rightarrow> int \<Rightarrow> simple_graph res" where
  "mk_simpleGraph nodeCapacity relCapacity = mk_graph nodeCapacity relCapacity 0 0"

definition sg_addNode :: "simple_graph \<Rightarrow> 64 word \<Rightarrow> (int \<times> simple_graph) res" where
  "sg_addNode g val = addNode g val"

definition sg_addRelationship :: "simple_graph \<Rightarrow> int \<Rightarrow> int \<Rightarrow> 64 word \<Rightarrow> (int \<times> simple_graph) res" where
  "sg_addRelationship g from to val = addRelationship g from to 0 val"

definition sg_removeNode :: "simple_graph \<Rightarrow> int \<Rightarrow> simple_graph res option" where
  "sg_removeNode g i = removeNode g i"

definition sg_removeRelationship :: "simple_graph \<Rightarrow> int \<Rightarrow> simple_graph res" where
  "sg_removeRelationship g i = removeRelationship g i"

definition setNodeValue :: "simple_graph \<Rightarrow> int \<Rightarrow> 64 word \<Rightarrow> simple_graph res" where
  "setNodeValue g i v = bindE (node g i) (\<lambda>_. upd_node g i (\<lambda>n. n\<lparr>n_payload := v\<rparr>))"

definition getNodeValue :: "simple_graph \<Rightarrow> int \<Rightarrow> 64 word res" where
  "getNodeValue g i = bindE (node g i) (\<lambda>n. Inr (n_payload n))"

definition setRelValue :: "simple_graph \<Rightarrow> int \<Rightarrow> 64 word \<Rightarrow> simple_graph res" where
  "setRelValue g i v = bindE (rel g i) (\<lambda>_. upd_rel g i (\<lambda>r. r\<lparr>r_payload := v\<rparr>))"

definition getRelValue :: "simple_graph \<Rightarrow> int \<Rightarrow> 64 word res" where
  "getRelValue g i = bindE (rel g i) (\<lambda>r. Inr (r_payload r))"

definition mk_alignGraph :: "int \<Rightarrow> int \<Rightarrow> align_graph res" where
  "mk_alignGraph nodeCapacity relCapacity = mk_graph nodeCapacity relCapacity \<lparr>pl_a = 0, pl_b = 0, pl_c = 0\<rparr> 0"

definition align_addNode :: "align_graph \<Rightarrow> (int \<times> align_graph) res" where
  "align_addNode g = addNode g \<lparr>pl_a = 0, pl_b = 0, pl_c = 0\<rparr>"

definition align_addRelationship :: "align_graph \<Rightarrow> int \<Rightarrow> int \<Rightarrow> (int \<times> align_graph) res" where
  "align_addRelationship g from to = addRelationship g from to 0 0"

definition align_removeNode :: "align_graph \<Rightarrow> int \<Rightarrow> align_graph res option" where
  "align_removeNode g i = removeNode g i"

definition align_removeRelationship :: "align_graph \<Rightarrow> int \<Rightarrow> align_graph res" where
  "align_removeRelationship g i = removeRelationship g i"

section \<open>Objects and the registry\<close>

record stores =
  node_ptr :: int
  rel_ptr :: int
  prop_ptr :: int

datatype builtin =
    SimpleGraph simple_graph stores
  | PropertyGraph pgraph stores
  | AlignmentGraph align_graph stores

fun type_id :: "builtin \<Rightarrow> int" where
  "type_id (SimpleGraph g s) = 0"
| "type_id (PropertyGraph g s) = 1"
| "type_id (AlignmentGraph g s) = 2"

text \<open>The sizes fixed by the \<open>static_assert\<close>s of the header.\<close>

fun sizeof_node :: "builtin \<Rightarrow> int" where
  "sizeof_node (SimpleGraph g s) = 24"
| "sizeof_node (PropertyGraph g s) = 16"
| "sizeof_node (AlignmentGraph g s) = 40"

fun sizeof_rel :: "builtin \<Rightarrow> int" where
  "sizeof_rel (SimpleGraph g s) = 40"
| "sizeof_rel (PropertyGraph g s) = 36"
| "sizeof_rel (AlignmentGraph g s) = 40"

definition sizeof_prop :: int where
  "sizeof_prop = 24"

fun stores_of :: "builtin \<Rightarrow> stores" where
  "stores_of (SimpleGraph g s) = s"
| "stores_of (PropertyGraph g s) = s"
| "stores_of (AlignmentGraph g s) = s"

fun h_nodeHighWater :: "builtin \<Rightarrow> int" where
  "h_nodeHighWater (SimpleGraph g s) = nodeMark g"
| "h_nodeHighWater (PropertyGraph g s) = nodeMark (base g)"
| "h_nodeHighWater (AlignmentGraph g s) = nodeMark g"

fun h_relHighWater :: "builtin \<Rightarrow> int" where
  "h_relHighWater (SimpleGraph g s) = relMark g"
| "h_relHighWater (PropertyGraph g s) = relMark (base g)"
| "h_relHighWater (AlignmentGraph g s) = relMark g"

fun h_freeNodes :: "builtin \<Rightarrow> nat" where
  "h_freeNodes (SimpleGraph g s) = length (freeNodes g)"
| "h_freeNodes (PropertyGraph g s) = length (freeNodes (base g))"
| "h_freeNodes (AlignmentGraph g s) = length (freeNodes g)"

fun h_freeRels :: "builtin \<Rightarrow> nat" where
  "h_freeRels (SimpleGraph g s) = length (freeRels g)"
| "h_freeRels (PropertyGraph g s) = length (freeRels (base g))"
| "h_freeRels (AlignmentGraph g s) = length (freeRels g)"

definition to_u64 :: "int \<Rightarrow> int" where
  "to_u64 x = x mod 2 ^ 64"

definition h_nodeCount :: "builtin \<Rightarrow> int" where
  "h_nodeCount b = to_u64 (to_u64 (h_nodeHighWater b) - int (h_freeNodes b))"

definition h_relCount :: "builtin \<Rightarrow> int" where
  "h_relCount b = to_u64 (to_u64 (h_relHighWater b) - int (h_freeRels b))"

definition h_propCount :: "builtin \<Rightarrow> int" where
  "h_propCount b = to_u64 (h_nodeCount b + h_relCount b)"

record registry =
  mem :: "(int \<times> int \<times> int) list"
  objs :: "int \<rightharpoonup> builtin"
  cleanups :: "int list"

definition gs_add :: "registry \<Rightarrow> int \<Rightarrow> int \<Rightarrow> int \<Rightarrow> registry" where
  "gs_add R start len graph = R\<lparr>mem := mem R @ [(start, len, graph)]\<rparr>"

definition gs_remove :: "registry \<Rightarrow> int \<Rightarrow> registry" where
  "gs_remove R graph = R\<lparr>mem := filter (\<lambda>(start, len, g). g \<noteq> graph) (mem R)\<rparr>"

fun lookup_mem :: "(int \<times> int \<times> int) list \<Rightarrow> int \<Rightarrow> int res" where
  "lookup_mem [] ref = Inl (AssertFail ''unknown graph storage; did you register your graph?'')"
| "lookup_mem ((start, len, g) # ms) ref =
     (if g = ref \<or> start \<le> ref \<and> ref < start + len then Inr g else lookup_mem ms ref)"

definition lookupGraph :: "registry \<Rightarrow> int \<Rightarrow> int res" where
  "lookupGraph R ref = lookup_mem (mem R) ref"

definition knowsGraph :: "registry \<Rightarrow> int \<Rightarrow> bool" where
  "knowsGraph R ref = list_ex (\<lambda>(start, len, g). start = ref) (mem R)"

text \<open>The object behind an address, for the \<open>switch\<close> on its type; a dangling address is undefined.\<close>

definition graph_at :: "registry \<Rightarrow> int \<Rightarrow> builtin res" where
  "graph_at R ref = bindE (lookupGraph R ref) (\<lambda>g.
     case objs R g of Some b \<Rightarrow> Inr b | None \<Rightarrow> Inl OutOfBounds)"

definition graphPtr :: "registry \<Rightarrow> int \<Rightarrow> int res" where
  "graphPtr R ref = lookupGraph R ref"

text \<open>\<open>lookupGraph<GraphT>\<close>, which also asserts the type tag of the object.\<close>

definition lookupGraph_as :: "int \<Rightarrow> registry \<Rightarrow> int \<Rightarrow> builtin res" where
  "lookupGraph_as tag R ref = bindE (graph_at R ref) (\<lambda>b.
     bindE (assertE (type_id b = tag) ''BuiltinGraph::type(ptr)'') (\<lambda>_. Inr b))"

definition nodeCount :: "registry \<Rightarrow> int \<Rightarrow> int res" where
  "nodeCount R ref = bindE (graph_at R ref) (\<lambda>b. Inr (h_nodeCount b))"

definition relCount :: "registry \<Rightarrow> int \<Rightarrow> int res" where
  "relCount R ref = bindE (graph_at R ref) (\<lambda>b. Inr (h_relCount b))"

definition propCount :: "registry \<Rightarrow> int \<Rightarrow> int res" where
  "propCount R ref = bindE (graph_at R ref) (\<lambda>b. case b of
       PropertyGraph g s \<Rightarrow> Inr (to_u64 (to_u64 (propMark g) - int (length (freeProps g))))
     | _ \<Rightarrow> Inr (h_propCount b))"

definition nodeStorePtr :: "registry \<Rightarrow> int \<Rightarrow> int res" where
  "nodeStorePtr R ref = bindE (graph_at R ref) (\<lambda>b. Inr (node_ptr (stores_of b)))"

definition relStorePtr :: "registry \<Rightarrow> int \<Rightarrow> int res" where
  "relStorePtr R ref = bindE (graph_at R ref) (\<lambda>b. Inr (rel_ptr (stores_of b)))"

definition only_property :: "builtin \<Rightarrow> (pgraph \<Rightarrow> stores \<Rightarrow> 'a res) \<Rightarrow> 'a res" where
  "only_property b k = (case b of PropertyGraph g s \<Rightarrow> k g s | _ \<Rightarrow> Inl (AssertFail ''should not happen''))"

definition propStorePtr :: "registry \<Rightarrow> int \<Rightarrow> int res" where
  "propStorePtr R ref = bindE (graph_at R ref) (\<lambda>b. only_property b (\<lambda>g s. Inr (prop_ptr s)))"

definition nodeHighWater :: "registry \<Rightarrow> int \<Rightarrow> int res" where
  "nodeHighWater R ref = bindE (graph_at R ref) (\<lambda>b. Inr (h_nodeHighWater b))"

definition relHighWater :: "registry \<Rightarrow> int \<Rightarrow> int res" where
  "relHighWater R ref = bindE (graph_at R ref) (\<lambda>b. Inr (h_relHighWater b))"

definition propHighWater :: "registry \<Rightarrow> int \<Rightarrow> int res" where
  "propHighWater R ref = bindE (graph_at R ref) (\<lambda>b. only_property b (\<lambda>g s. Inr (propMark g)))"

text \<open>
  Pointer differences are divided as unsigned 64-bit integers and narrowed to the 32-bit
  identifier; pointer sums wrap at 64 bits.
\<close>

definition ptr_index :: "int \<Rightarrow> int \<Rightarrow> int \<Rightarrow> int" where
  "ptr_index ref store sz = to_i32 (to_u64 (ref - store) div sz)"

definition ptr_elem :: "int \<Rightarrow> int \<Rightarrow> int \<Rightarrow> int" where
  "ptr_elem store i sz = to_u64 (store + i * sz)"

definition nodeId :: "registry \<Rightarrow> int \<Rightarrow> int res" where
  "nodeId R ref = bindE (graph_at R ref) (\<lambda>b. Inr (ptr_index ref (node_ptr (stores_of b)) (sizeof_node b)))"

definition relId :: "registry \<Rightarrow> int \<Rightarrow> int res" where
  "relId R ref = bindE (graph_at R ref) (\<lambda>b. Inr (ptr_index ref (rel_ptr (stores_of b)) (sizeof_rel b)))"

definition propId :: "registry \<Rightarrow> int \<Rightarrow> int res" where
  "propId R ref = bindE (graph_at R ref) (\<lambda>b. only_property b (\<lambda>g s.
     Inr (ptr_index ref (prop_ptr s) sizeof_prop)))"

text \<open>An entry read through a pointer: defined where the pointer is the address of an entry.\<close>

definition deref :: "'e list \<Rightarrow> int \<Rightarrow> int \<Rightarrow> int \<Rightarrow> 'e res" where
  "deref es store sz ref =
     (if store \<le> ref \<and> (ref - store) mod sz = 0 then get_at es ((ref - store) div sz) else Inl OutOfBounds)"

definition h_firstRelId :: "builtin \<Rightarrow> int \<Rightarrow> int res" where
  "h_firstRelId b ref = (case b of
       SimpleGraph g s \<Rightarrow> bindE (deref (nodes g) (node_ptr s) (sizeof_node b) ref) (\<lambda>n. Inr (firstRelId n))
     | PropertyGraph g s \<Rightarrow> bindE (deref (nodes (base g)) (node_ptr s) (sizeof_node b) ref) (\<lambda>n. Inr (firstRelId n))
     | AlignmentGraph g s \<Rightarrow> bindE (deref (nodes g) (node_ptr s) (sizeof_node b) ref) (\<lambda>n. Inr (firstRelId n)))"

definition getRelationshipLListHeadOf :: "registry \<Rightarrow> int \<Rightarrow> int res" where
  "getRelationshipLListHeadOf R ref = bindE (graph_at R ref) (\<lambda>b. bindE (h_firstRelId b ref) (\<lambda>i.
     Inr (ptr_elem (rel_ptr (stores_of b)) i (sizeof_rel b))))"

definition getNodePropertyLListHeadOf :: "registry \<Rightarrow> int \<Rightarrow> int res" where
  "getNodePropertyLListHeadOf R ref = bindE (graph_at R ref) (\<lambda>b. only_property b (\<lambda>g s.
     bindE (deref (nodes (base g)) (node_ptr s) (sizeof_node b) ref) (\<lambda>n.
     Inr (ptr_elem (prop_ptr s) (n_payload n) sizeof_prop))))"

definition getRelPropertyLListHeadOf :: "registry \<Rightarrow> int \<Rightarrow> int res" where
  "getRelPropertyLListHeadOf R ref = bindE (graph_at R ref) (\<lambda>b. only_property b (\<lambda>g s.
     bindE (deref (rels (base g)) (rel_ptr s) (sizeof_rel b) ref) (\<lambda>r.
     Inr (ptr_elem (prop_ptr s) (r_payload r) sizeof_prop))))"

text \<open>The table iterator yields one buffer, the whole store below the high-water mark.\<close>

record table_iterator =
  entrySize :: int
  entryCount :: int
  it_ptr :: int
  it_valid :: bool

definition getCurrentBuffer :: "table_iterator \<Rightarrow> int \<times> int" where
  "getCurrentBuffer it = (to_u64 (entrySize it * entryCount it), it_ptr it)"

definition it_next :: "table_iterator \<Rightarrow> table_iterator" where
  "it_next it = it\<lparr>it_valid := False\<rparr>"

definition mk_iterator :: "int \<Rightarrow> int \<Rightarrow> int \<Rightarrow> table_iterator" where
  "mk_iterator sz cnt ptr = \<lparr>entrySize = sz, entryCount = to_u64 cnt, it_ptr = ptr, it_valid = True\<rparr>"

definition createNodeIterator :: "registry \<Rightarrow> int \<Rightarrow> table_iterator res" where
  "createNodeIterator R ref = bindE (graph_at R ref) (\<lambda>b.
     Inr (mk_iterator (sizeof_node b) (h_nodeHighWater b) (node_ptr (stores_of b))))"

definition createRelIterator :: "registry \<Rightarrow> int \<Rightarrow> table_iterator res" where
  "createRelIterator R ref = bindE (graph_at R ref) (\<lambda>b.
     Inr (mk_iterator (sizeof_rel b) (h_relHighWater b) (rel_ptr (stores_of b))))"

definition createPropIterator :: "registry \<Rightarrow> int \<Rightarrow> table_iterator res" where
  "createPropIterator R ref = bindE (graph_at R ref) (\<lambda>b. only_property b (\<lambda>g s.
     Inr (mk_iterator sizeof_prop (propMark g) (prop_ptr s))))"

section \<open>Registration\<close>

definition sg_register :: "registry \<Rightarrow> int \<Rightarrow> simple_graph \<Rightarrow> stores \<Rightarrow> registry" where
  "sg_register R this g s =
     (let R = gs_add R (node_ptr s) (nodeCap g * 24) this;
          R = gs_add R (rel_ptr s) (relCap g * 40) this in
      R\<lparr>cleanups := cleanups R @ [this]\<rparr>)"

definition align_register :: "registry \<Rightarrow> int \<Rightarrow> align_graph \<Rightarrow> stores \<Rightarrow> registry" where
  "align_register R this g s =
     (let R = gs_add R (node_ptr s) (nodeCap g * 40) this;
          R = gs_add R (rel_ptr s) (relCap g * 40) this in
      R\<lparr>cleanups := cleanups R @ [this]\<rparr>)"

definition pg_register :: "registry \<Rightarrow> int \<Rightarrow> pgraph \<Rightarrow> stores \<Rightarrow> registry" where
  "pg_register R this g s =
     (if persists g \<and> knowsGraph R this then R
      else
        let R = (if persists g then R else R\<lparr>cleanups := cleanups R @ [this]\<rparr>);
            R = gs_add R (node_ptr s) (pg_nodeCap g * 16) this;
            R = gs_add R (rel_ptr s) (pg_relCap g * 36) this in
        gs_add R (prop_ptr s) (propCap g * sizeof_prop) this)"

text \<open>The cleanup run when the execution context ends: unregister and delete the object.\<close>

definition gs_cleanup :: "registry \<Rightarrow> int \<Rightarrow> registry" where
  "gs_cleanup R this = (let R = gs_remove R this in R\<lparr>objs := (objs R)(this := None)\<rparr>)"

section \<open>Lookup in a well-formed registry\<close>

text \<open>
  Ranges registered for different graphs are disjoint, and a graph object lies in no range of
  another graph.
\<close>

definition range_of :: "int \<times> int \<times> int \<Rightarrow> int set" where
  "range_of m = (case m of (start, len, g) \<Rightarrow> insert g {start..<start + len})"

definition mem_ok :: "(int \<times> int \<times> int) list \<Rightarrow> bool" where
  "mem_ok ms \<longleftrightarrow> (\<forall>m\<in>set ms. \<forall>m'\<in>set ms. snd (snd m) \<noteq> snd (snd m') \<longrightarrow> range_of m \<inter> range_of m' = {})"

lemma lookup_mem_Inr: "lookup_mem ms ref = Inr g \<Longrightarrow> \<exists>m\<in>set ms. snd (snd m) = g \<and> ref \<in> range_of m"
  by (induction ms ref rule: lookup_mem.induct) (auto simp: range_of_def split: if_splits)

lemma lookup_mem_in:
  assumes "mem_ok ms" and "m \<in> set ms" and "ref \<in> range_of m"
  shows "lookup_mem ms ref = Inr (snd (snd m))"
proof -
  have "\<exists>g. lookup_mem ms ref = Inr g"
    using assms(2,3) by (induction ms ref rule: lookup_mem.induct) (auto simp: range_of_def)
  then obtain g where g: "lookup_mem ms ref = Inr g" by blast
  then obtain m' where "m' \<in> set ms" "snd (snd m') = g" "ref \<in> range_of m'"
    using lookup_mem_Inr by blast
  with assms g show ?thesis by (fastforce simp: mem_ok_def)
qed

lemma lookup_mem_filter:
  assumes "mem_ok ms"
  shows "lookup_mem (filter (\<lambda>(start, len, g). g \<noteq> graph) ms) ref =
    (case lookup_mem ms ref of Inl e \<Rightarrow> Inl e
     | Inr g \<Rightarrow> if g = graph then Inl (AssertFail ''unknown graph storage; did you register your graph?'') else Inr g)"
  using assms
proof (induction ms)
  case Nil
  then show ?case by simp
next
  case (Cons m ms)
  obtain start len g where m: "m = (start, len, g)" by (cases m) auto
  have ok: "mem_ok ms" using Cons.prems by (simp add: mem_ok_def)
  show ?case
  proof (cases "ref \<in> range_of m \<and> g = graph")
    case True
    have "lookup_mem ms ref = Inr h \<Longrightarrow> h = graph" for h
    proof -
      assume "lookup_mem ms ref = Inr h"
      then obtain m' where "m' \<in> set ms" "snd (snd m') = h" "ref \<in> range_of m'" using lookup_mem_Inr by blast
      with True Cons.prems m show "h = graph" by (fastforce simp: mem_ok_def)
    qed
    moreover have "lookup_mem ms ref = Inl e \<Longrightarrow> e = AssertFail ''unknown graph storage; did you register your graph?''" for e
      by (induction ms ref rule: lookup_mem.induct) (auto split: if_splits)
    ultimately show ?thesis
      using True m Cons.IH [OF ok] by (auto simp: range_of_def split: sum.splits)
  next
    case False
    then show ?thesis using m Cons.IH [OF ok] by (auto simp: range_of_def)
  qed
qed

section \<open>Entry addresses\<close>

lemma ptr_index_elem:
  assumes "0 \<le> i" and "is_i32 i" and "0 < sz" and "0 \<le> store" and "store + i * sz < 2 ^ 64"
  shows "ptr_index (ptr_elem store i sz) store sz = i"
proof -
  have "0 \<le> i * sz" "i * sz < 2 ^ 64" using assms by simp_all
  with assms show ?thesis
    by (simp add: ptr_index_def ptr_elem_def to_u64_def)
qed

lemma ptr_elem_in:
  assumes "0 \<le> i" and "i < cap" and "0 < sz" and "0 \<le> store" and "store + cap * sz \<le> 2 ^ 64"
  shows "ptr_elem store i sz = store + i * sz" and "store \<le> ptr_elem store i sz"
    and "ptr_elem store i sz < store + cap * sz" and "store + i * sz < 2 ^ 64"
proof -
  have a: "0 \<le> i * sz" "i * sz < cap * sz" using assms by simp_all
  then have b: "0 \<le> store + i * sz" "store + i * sz < 2 ^ 64" using assms by linarith+
  then show e: "ptr_elem store i sz = store + i * sz" and "store + i * sz < 2 ^ 64"
    by (simp_all add: ptr_elem_def to_u64_def)
  show "store \<le> ptr_elem store i sz" "ptr_elem store i sz < store + cap * sz"
    using a unfolding e by linarith+
qed

lemma pool_count:
  assumes p: "pool_ok mark cap free" and cap: "cap < 2 ^ 31"
  shows "to_u64 (to_u64 mark - int (length free)) = int (card (live mark free))"
proof -
  have "length free \<le> nat mark"
    using p card_mono [of "{0..<mark}" "set free"] by (auto simp: pool_ok_def distinct_card)
  moreover have "0 \<le> mark" "mark < 2 ^ 31" using p cap by (simp_all add: pool_ok_def)
  ultimately show ?thesis
    using card_live [OF p] by (simp add: to_u64_def of_nat_diff)
qed

text \<open>A store of a live object is registered, lies in the address space, and holds \<open>cap\<close> entries.\<close>

definition registered :: "registry \<Rightarrow> int \<Rightarrow> builtin \<Rightarrow> int \<Rightarrow> int \<Rightarrow> int \<Rightarrow> bool" where
  "registered R this b store cap sz \<longleftrightarrow> mem_ok (mem R) \<and> (store, cap * sz, this) \<in> set (mem R)
     \<and> objs R this = Some b \<and> 0 \<le> store \<and> store + cap * sz \<le> 2 ^ 64 \<and> 0 < sz \<and> cap < 2 ^ 31"

lemma registered_lookup:
  assumes "registered R this b store cap sz" and "0 \<le> i" and "i < cap"
  shows "graph_at R (ptr_elem store i sz) = Inr b" and "ptr_index (ptr_elem store i sz) store sz = i"
    and "deref es store sz (ptr_elem store i sz) = get_at es i"
proof -
  note r = assms(1) [unfolded registered_def]
  note e = ptr_elem_in [OF assms(2,3), of sz store]
  have "ptr_elem store i sz \<in> range_of (store, cap * sz, this)"
    using e r by (simp add: range_of_def)
  then show "graph_at R (ptr_elem store i sz) = Inr b"
    using lookup_mem_in r by (fastforce simp: graph_at_def lookupGraph_def)
  show "ptr_index (ptr_elem store i sz) store sz = i"
    using assms(2,3) e(4) r by (intro ptr_index_elem) (auto simp: is_i32_def)
  show "deref es store sz (ptr_elem store i sz) = get_at es i"
    using e(1,2) r by (simp add: deref_def)
qed

section \<open>Properties\<close>

text \<open>
  Addresses and identifiers correspond: for the stores of a registered property graph, the
  address of the \<open>i\<close>-th node, relationship or property entry is mapped back to \<open>i\<close> by \<open>nodeId\<close>, \<open>relId\<close>
  and \<open>propId\<close>.
\<close>

theorem entry_address_round_trip:
  assumes "b = PropertyGraph g s"
    and "registered R this b (node_ptr s) nc 16" and "registered R this b (rel_ptr s) rc 36"
    and "registered R this b (prop_ptr s) pc 24"
  shows "(\<forall>i. 0 \<le> i \<and> i < nc \<longrightarrow> nodeId R (ptr_elem (node_ptr s) i (sizeof_node b)) = Inr i)
    \<and> (\<forall>i. 0 \<le> i \<and> i < rc \<longrightarrow> relId R (ptr_elem (rel_ptr s) i (sizeof_rel b)) = Inr i)
    \<and> (\<forall>i. 0 \<le> i \<and> i < pc \<longrightarrow> propId R (ptr_elem (prop_ptr s) i sizeof_prop) = Inr i)"
  using registered_lookup [OF assms(2)] registered_lookup [OF assms(3)] registered_lookup [OF assms(4)] assms(1)
  by (simp add: nodeId_def relId_def propId_def only_property_def sizeof_prop_def)

text \<open>
  The list heads handed to generated code point at the right entries: for a live node of a
  property graph, \<open>getRelationshipLListHeadOf\<close> of its address is the address of its first
  relationship and \<open>getNodePropertyLListHeadOf\<close> the address of its first property.
\<close>

theorem list_head_addresses:
  assumes "b = PropertyGraph g s" and "registered R this b (node_ptr s) nc 16"
    and "pg_repr g A" and "node_live (base g) n" and "nodeCap (base g) = nc"
  shows "getRelationshipLListHeadOf R (ptr_elem (node_ptr s) n 16) =
      Inr (ptr_elem (rel_ptr s) (if aadj (ag A) n = [] then GRAPH_NONE else hd (aadj (ag A) n)) 36)
    \<and> getNodePropertyLListHeadOf R (ptr_elem (node_ptr s) n 16) =
      Inr (ptr_elem (prop_ptr s) (if aprops A (NodeOwner n) = [] then GRAPH_NONE else hd (aprops A (NodeOwner n))) 24)"
proof -
  obtain h where h: "pool_inv g" "graph_repr (base g) h" "forget h = ag A"
    "chains_ok g (owners h) (head h) (aprops A)" "\<And>i. i \<in> liveProps g \<Longrightarrow> apval A i = pdata g i"
    using pg_reprE [OF assms(3)] by blast
  have n: "n \<in> liveNodes (base g)" using assms(4) by (simp add: node_live_iff)
  have r: "in_range (nodes (base g)) n" "0 \<le> n" "n < nc"
    using live_node_range [OF _ n] h(2) assms(5) by (auto simp: graph_repr_def stores_ok_def in_range_def)
  note l = registered_lookup [OF assms(2) r(2,3)]
  have adj: "firstRelId (at (nodes (base g)) n) = (if aadj (ag A) n = [] then GRAPH_NONE else hd (aadj (ag A) n))"
    using head_of_adj [OF h(2) n] forget_sel(1) [of h] h(3) by simp
  have "NodeOwner n \<in> owners h" using repr_doms [OF h(2)] n by simp
  then have "pchain (props g) (head h (NodeOwner n)) (aprops A (NodeOwner n))"
    using h(4) unfolding chains_ok_def by blast
  then have "n_payload (at (nodes (base g)) n) =
      (if aprops A (NodeOwner n) = [] then GRAPH_NONE else hd (aprops A (NodeOwner n)))"
    using node_payload [OF h(2) n] chain_head by metis
  with adj l(1) registered_lookup(3) [OF assms(2) r(2,3), of "nodes (base g)"] r(1) assms(1) show ?thesis
    by (simp add: getRelationshipLListHeadOf_def getNodePropertyLListHeadOf_def h_firstRelId_def
        only_property_def sizeof_prop_def)
qed

text \<open>
  Unregistering a graph removes it completely and nothing else: in a well-formed registry, after
  \<open>GraphStorage::remove\<close> no address leads to the graph any more and every other lookup is unchanged.
\<close>

theorem remove_isolates:
  assumes "mem_ok (mem R)"
  shows "lookupGraph (gs_remove R graph) ref = (case lookupGraph R ref of Inl e \<Rightarrow> Inl e
    | Inr g \<Rightarrow> if g = graph then Inl (AssertFail ''unknown graph storage; did you register your graph?'') else Inr g)"
  using lookup_mem_filter [OF assms] by (simp add: lookupGraph_def gs_remove_def)

text \<open>
  A persistent property graph is registered again on every call: \<open>knowsGraph\<close> compares the store
  addresses, not the graph address, so unless a store starts at the address of the graph object
  itself the guard of \<open>registerGraph\<close> never holds and each call appends three more triples.
\<close>

theorem persistent_graph_registered_again:
  assumes "persists g" and "\<not> knowsGraph R this" and "this \<notin> {node_ptr s, rel_ptr s, prop_ptr s}"
  shows "length (mem (pg_register (pg_register R this g s) this g s)) = length (mem R) + 6"
  using assms by (auto simp: pg_register_def knowsGraph_def gs_add_def Let_def)

text \<open>
  The counters agree with the graph: for an object whose graph represents an abstract graph,
  \<open>GraphStorage::nodeCount\<close> and \<open>relCount\<close> are the numbers of live nodes and relationships.
\<close>

theorem counts_are_live:
  assumes "graph_at R ref = Inr (PropertyGraph g s)" and "pg_repr g A"
    and "nodeCap (base g) < 2 ^ 31" and "relCap (base g) < 2 ^ 31"
  shows "nodeCount R ref = Inr (int (card {n. node_live (base g) n}))
    \<and> relCount R ref = Inr (int (card {i. rel_live (base g) i}))"
proof -
  obtain h where "graph_repr (base g) h" using pg_reprE [OF assms(2)] by blast
  then have p: "pool_ok (nodeMark (base g)) (nodeCap (base g)) (freeNodes (base g))"
    "pool_ok (relMark (base g)) (relCap (base g)) (freeRels (base g))"
    by (simp_all add: repr_defs)
  then show ?thesis
    using pool_count [OF p(1) assms(3)] pool_count [OF p(2) assms(4)] assms(1)
    by (simp add: nodeCount_def relCount_def h_nodeCount_def h_relCount_def liveNodes_def liveRels_def
        node_live_iff rel_live_iff)
qed

text \<open>A registry holding one property graph at address 1.\<close>

definition sample_stores :: stores where
  "sample_stores = \<lparr>node_ptr = 1000, rel_ptr = 2000, prop_ptr = 3000\<rparr>"

definition sample_registry :: "pgraph \<Rightarrow> registry" where
  "sample_registry g = pg_register \<lparr>mem = [], objs = [1 \<mapsto> PropertyGraph g sample_stores], cleanups = []\<rparr> 1 g sample_stores"

lemma sample_registered:
  assumes "pg_nodeCap g = 2" and "pg_relCap g = 2" and "propCap g = 3"
  shows "registered (sample_registry g) 1 (PropertyGraph g sample_stores) 1000 2 16"
    and "registered (sample_registry g) 1 (PropertyGraph g sample_stores) 2000 2 36"
    and "registered (sample_registry g) 1 (PropertyGraph g sample_stores) 3000 3 24"
    and "mem_ok (mem (sample_registry g))"
  using assms by (auto simp: registered_def sample_registry_def sample_stores_def pg_register_def gs_add_def
      Let_def knowsGraph_def mem_ok_def sizeof_prop_def)

theorem entry_address_round_trip_witness:
  "\<exists>g A. pg_repr g A \<and> nodeId (sample_registry g) (ptr_elem 1000 1 16) = Inr 1
    \<and> relId (sample_registry g) (ptr_elem 2000 1 36) = Inr 1 \<and> propId (sample_registry g) (ptr_elem 3000 2 24) = Inr 2"
proof -
  obtain g A where g: "pg_repr g A" "pg_nodeCap g = 2" "pg_relCap g = 2" "propCap g = 3" using sample_state by metis
  note r = sample_registered [OF g(2-4)]
  show ?thesis
    using entry_address_round_trip [of _ g sample_stores "sample_registry g" 1 2 2 3] r g
    by (auto simp: sample_stores_def sizeof_prop_def)
qed

theorem list_head_addresses_witness:
  "\<exists>g A. pg_repr g A \<and> node_live (base g) 1
    \<and> getRelationshipLListHeadOf (sample_registry g) (ptr_elem 1000 1 16) =
      Inr (ptr_elem 2000 (if aadj (ag A) 1 = [] then GRAPH_NONE else hd (aadj (ag A) 1)) 36)"
proof -
  obtain g A where g: "pg_repr g A" "node_live (base g) 1" "nodeCap (base g) = 2"
    "pg_nodeCap g = 2" "pg_relCap g = 2" "propCap g = 3" using sample_state by metis
  note r = sample_registered [OF g(4-6)]
  have st: "node_ptr sample_stores = 1000" "rel_ptr sample_stores = 2000" by (simp_all add: sample_stores_def)
  show ?thesis
    using list_head_addresses [of _ g sample_stores "sample_registry g" 1 2 A 1, OF refl, unfolded st, OF r(1) g(1-3)] g(1,2)
    by blast
qed

theorem remove_isolates_witness:
  "\<exists>g A. pg_repr g A \<and> mem_ok (mem (sample_registry g)) \<and> lookupGraph (sample_registry g) 1010 = Inr 1
    \<and> lookupGraph (gs_remove (sample_registry g) 1) 1010 =
      Inl (AssertFail ''unknown graph storage; did you register your graph?'')"
proof -
  obtain g A where g: "pg_repr g A" "pg_nodeCap g = 2" "pg_relCap g = 2" "propCap g = 3" using sample_state by metis
  note r = sample_registered [OF g(2-4)]
  have "1010 \<in> range_of (1000, 2 * 16, 1)" by (simp add: range_of_def)
  then have l: "lookupGraph (sample_registry g) 1010 = Inr 1"
    using lookup_mem_in [OF r(4), of "(1000, 2 * 16, 1)" 1010] r(1) by (simp add: registered_def lookupGraph_def)
  with remove_isolates [OF r(4), of 1 1010] r(4) g(1) show ?thesis by auto
qed

theorem persistent_graph_registered_again_witness:
  "\<exists>g. persists g \<and> length (mem (pg_register (pg_register \<lparr>mem = [], objs = Map.empty, cleanups = []\<rparr> 1 g sample_stores) 1 g sample_stores)) = 6"
proof -
  obtain g where "mk_pgraph 2 2 3 = Inr g" using sample_pgraph .
  have "length (mem (pg_register (pg_register \<lparr>mem = [], objs = Map.empty, cleanups = []\<rparr> 1 (g\<lparr>persists := True\<rparr>) sample_stores)
      1 (g\<lparr>persists := True\<rparr>) sample_stores)) = 6"
    using persistent_graph_registered_again [of "g\<lparr>persists := True\<rparr>" "\<lparr>mem = [], objs = Map.empty, cleanups = []\<rparr>" 1 sample_stores]
    by (simp add: knowsGraph_def sample_stores_def)
  then show ?thesis by (intro exI [of _ "g\<lparr>persists := True\<rparr>"]) simp
qed

theorem counts_are_live_witness:
  "\<exists>g A. pg_repr g A \<and> nodeCount (sample_registry g) 1 = Inr (int (card {n. node_live (base g) n}))"
proof -
  obtain g A where g: "pg_repr g A" "nodeCap (base g) = 2" "relCap (base g) = 2"
    "pg_nodeCap g = 2" "pg_relCap g = 2" "propCap g = 3" using sample_state by metis
  note r = sample_registered [OF g(4-6)]
  have "1 \<in> range_of (1000, 2 * 16, 1)" by (simp add: range_of_def)
  then have "graph_at (sample_registry g) 1 = Inr (PropertyGraph g sample_stores)"
    using lookup_mem_in [OF r(4), of "(1000, 2 * 16, 1)" 1] r(1)
    by (simp add: registered_def lookupGraph_def graph_at_def)
  from counts_are_live [OF this g(1)] g show ?thesis by auto
qed

end
