(* ===== verification/Variant.thy ===== *)
theory Variant
  imports Graph_Registry Graph_Index "HOL-Library.List_Lexorder" "HOL-Library.Char_ord"
begin

unbundle bit_operations_syntax

text \<open>
  The run-time representation of RDF terms in queries (\<open>src/src/gengodb/runtime/Variant.cpp\<close>): a tag and 64 bits, which
  hold a number, the address of a string, or the address of a node or relationship of a registered graph.  Addresses are resolved
  by the registry; a string is what the \<open>VarLen32\<close> at an address contains; the callbacks of \<open>PropertyGraph::Metadata\<close> belong to the
  address of their graph.  An entry is read through the registry, so that a reference into a graph that is not registered fails here
  where the code reads its memory.  Literals of rdf4cpp and their operations are a parameter.
\<close>

section \<open>Memory\<close>

record metadata =
  md_name :: "int \<Rightarrow> string res"
  md_uid :: "int \<Rightarrow> int res"
  md_type_id :: "int \<Rightarrow> int res"
  md_from_iri :: "string \<Rightarrow> int"
  md_from_literal :: "string \<Rightarrow> byte list \<Rightarrow> int"

definition new_metadata :: metadata where
  "new_metadata = \<lparr>md_name = (\<lambda>i. Inr (''v'' @ int_to_string i)), md_uid = (\<lambda>_. Inl (AssertFail ''missing index'')),
     md_type_id = (\<lambda>_. Inr (- 1)), md_from_iri = (\<lambda>_. - 1), md_from_literal = (\<lambda>_ _. - 1)\<rparr>"

text \<open>What an RDF graph installs after it was loaded; printing IRIs and literals is rdf4cpp's.\<close>

definition rdf_name :: "(string \<Rightarrow> string) \<Rightarrow> (made_literal \<Rightarrow> string) \<Rightarrow> (int \<Rightarrow> node_type) \<Rightarrow> rdf_graph \<Rightarrow> int \<Rightarrow> string res" where
  "rdf_name print_iri print_literal decode g i =
     bindE (dict_get decode (rg_nodes g) i) (\<lambda>n. case nid_type n of
       NtIRI \<Rightarrow> Inr (print_iri (nid_iri n))
     | NtBNode \<Rightarrow> Inr (''_:'' @ nid_local n)
     | NtLiteral \<Rightarrow> bindE (getLiteral decode g i) (\<lambda>l. Inr (print_literal l))
     | _ \<Rightarrow> Inr [])"

definition rdf_metadata ::
  "(string \<Rightarrow> string) \<Rightarrow> (made_literal \<Rightarrow> string) \<Rightarrow> (node_type \<Rightarrow> int) \<Rightarrow> (int \<Rightarrow> node_type) \<Rightarrow> rdf_graph \<Rightarrow> metadata \<Rightarrow> metadata" where
  "rdf_metadata print_iri print_literal code decode g md =
     md\<lparr>md_name := rdf_name print_iri print_literal decode g, md_type_id := rdf_type_id code decode g,
        md_from_iri := node_from_iri g, md_from_literal := node_from_rdf_literal g\<rparr>"

definition set_id_mapping :: "id_mapping \<Rightarrow> metadata \<Rightarrow> metadata" where
  "set_id_mapping m md = md\<lparr>md_uid := (\<lambda>i. bindE (get_global m i) (\<lambda>u. Inr (to_u64 u)))\<rparr>"

record memory =
  mm_reg :: registry
  mm_meta :: "int \<Rightarrow> metadata"
  mm_strings :: "int \<rightharpoonup> string"

definition propertyGraphOf :: "memory \<Rightarrow> int \<Rightarrow> int res" where
  "propertyGraphOf M ref = graphPtr (mm_reg M) ref"

definition pgraph_at :: "memory \<Rightarrow> int \<Rightarrow> (pgraph \<times> stores) res" where
  "pgraph_at M a = (case objs (mm_reg M) a of Some (PropertyGraph g s) \<Rightarrow> Inr (g, s) | _ \<Rightarrow> Inl OutOfBounds)"

definition node_entry_at :: "memory \<Rightarrow> int \<Rightarrow> int node_entry res" where
  "node_entry_at M ref = bindE (propertyGraphOf M ref) (\<lambda>a. bindE (pgraph_at M a) (\<lambda>(g, s). deref (nodes (base g)) (node_ptr s) 16 ref))"

definition rel_entry_at :: "memory \<Rightarrow> int \<Rightarrow> int rel_entry res" where
  "rel_entry_at M ref = bindE (propertyGraphOf M ref) (\<lambda>a. bindE (pgraph_at M a) (\<lambda>(g, s). deref (rels (base g)) (rel_ptr s) 36 ref))"

definition string_at :: "memory \<Rightarrow> 64 word \<Rightarrow> string res" where
  "string_at M payload = (case mm_strings M (uint payload) of Some s \<Rightarrow> Inr s | None \<Rightarrow> Inl OutOfBounds)"

text \<open>A \<open>VarLen32\<close> that was default constructed is empty and marked as invalid.\<close>

datatype varlen = NoString | Str string

section \<open>Literals of rdf4cpp\<close>

datatype tribool = TriErr | TriFalse | TriTrue

datatype ordering = Before | Same | After

record 'l rdf_lib =
  rl_null :: "'l \<Rightarrow> bool"
  rl_make_null :: 'l
  rl_make_typed :: "string \<Rightarrow> string \<Rightarrow> 'l res"
  rl_make_lang :: "string \<Rightarrow> string \<Rightarrow> 'l res"
  rl_from_value :: "xsd_type \<Rightarrow> any_value \<Rightarrow> 'l"
  rl_value :: "xsd_type \<Rightarrow> 'l \<Rightarrow> any_value"
  rl_datatype :: "'l \<Rightarrow> string"
  rl_lex :: "'l \<Rightarrow> string"
  rl_lang :: "'l \<Rightarrow> string"
  rl_print :: "'l \<Rightarrow> string"
  rl_eq :: "'l \<Rightarrow> 'l \<Rightarrow> tribool"
  rl_ne :: "'l \<Rightarrow> 'l \<Rightarrow> tribool"
  rl_lt :: "'l \<Rightarrow> 'l \<Rightarrow> tribool"
  rl_le :: "'l \<Rightarrow> 'l \<Rightarrow> tribool"
  rl_gt :: "'l \<Rightarrow> 'l \<Rightarrow> tribool"
  rl_ge :: "'l \<Rightarrow> 'l \<Rightarrow> tribool"
  rl_add :: "'l \<Rightarrow> 'l \<Rightarrow> 'l res"
  rl_sub :: "'l \<Rightarrow> 'l \<Rightarrow> 'l res"
  rl_mul :: "'l \<Rightarrow> 'l \<Rightarrow> 'l res"
  rl_div :: "'l \<Rightarrow> 'l \<Rightarrow> 'l res"
  rl_order :: "'l \<Rightarrow> 'l \<Rightarrow> ordering"
  rl_cast :: "'l \<Rightarrow> string \<Rightarrow> 'l"
  rl_as_double :: "'l \<Rightarrow> 64 word option"
  rl_lang_matches :: "string \<Rightarrow> string \<Rightarrow> bool"

definition triBoolToInt8 :: "tribool \<Rightarrow> int" where
  "triBoolToInt8 b = (case b of TriErr \<Rightarrow> - 1 | TriTrue \<Rightarrow> 1 | TriFalse \<Rightarrow> 0)"

definition tri_not :: "tribool \<Rightarrow> tribool" where
  "tri_not b = (case b of TriErr \<Rightarrow> TriErr | TriTrue \<Rightarrow> TriFalse | TriFalse \<Rightarrow> TriTrue)"

definition applyPredicate :: "'l rdf_lib \<Rightarrow> 'l \<Rightarrow> 'l \<Rightarrow> int \<Rightarrow> tribool" where
  "applyPredicate L lhs rhs predicate =
     (if predicate = 0 then rl_eq L lhs rhs
      else if predicate = 1 then rl_ne L lhs rhs
      else if predicate = 2 then rl_lt L lhs rhs
      else if predicate = 3 then rl_le L lhs rhs
      else if predicate = 4 then rl_gt L lhs rhs
      else if predicate = 5 then rl_ge L lhs rhs
      else TriErr)"

definition applyArith :: "'l rdf_lib \<Rightarrow> 'l \<Rightarrow> 'l \<Rightarrow> int \<Rightarrow> 'l" where
  "applyArith L lhs rhs predicate =
     (case (if predicate = 0 then rl_add L lhs rhs
            else if predicate = 1 then rl_sub L lhs rhs
            else if predicate = 2 then rl_mul L lhs rhs
            else if predicate = 3 then rl_div L lhs rhs
            else Inr (rl_make_null L)) of
        Inr l \<Rightarrow> l | Inl _ \<Rightarrow> rl_make_null L)"

definition isCustomDatatypeTag :: "int \<Rightarrow> bool" where
  "isCustomDatatypeTag tag = (case from_int32 tag of None \<Rightarrow> False | Some t \<Rightarrow> t = T_AnyLiteralNode \<or> t = T_AnyLiteralScalar)"

definition termEq :: "'l rdf_lib \<Rightarrow> 'l \<Rightarrow> 'l \<Rightarrow> tribool" where
  "termEq L lhs rhs =
     (if rl_null L lhs \<or> rl_null L rhs then TriErr
      else if rl_datatype L lhs = rl_datatype L rhs \<and> rl_lex L lhs = rl_lex L rhs then TriTrue else TriFalse)"

definition toDatatypeIri :: "xsd_type \<Rightarrow> string res" where
  "toDatatypeIri t = bindE (to_string t) (\<lambda>s. Inr (kXsdNamespace @ s))"

section \<open>Numbers\<close>

text \<open>The value at the address of 64 bits, read with the type of the tag; null for the other tags.\<close>

definition numeric_value :: "xsd_type \<Rightarrow> 64 word \<Rightarrow> any_value option" where
  "numeric_value t bits = (case t of
       T_Boolean \<Rightarrow> Some (AnyBool ((ucast bits :: 8 word) \<noteq> 0))
     | T_Byte \<Rightarrow> Some (AnyI8 (sint (ucast bits :: 8 word)))
     | T_Short \<Rightarrow> Some (AnyI16 (sint (ucast bits :: 16 word)))
     | T_Int \<Rightarrow> Some (AnyI32 (sint (ucast bits :: 32 word)))
     | T_Long \<Rightarrow> Some (AnyI64 (sint bits))
     | T_UnsignedByte \<Rightarrow> Some (AnyU8 (uint (ucast bits :: 8 word)))
     | T_UnsignedShort \<Rightarrow> Some (AnyU16 (uint (ucast bits :: 16 word)))
     | T_UnsignedInt \<Rightarrow> Some (AnyU32 (uint (ucast bits :: 32 word)))
     | T_UnsignedLong \<Rightarrow> Some (AnyU64 (uint bits))
     | T_Float \<Rightarrow> Some (AnyFloat (uint (ucast bits :: 32 word)))
     | T_Double \<Rightarrow> Some (AnyDouble bits)
     | T_Date \<Rightarrow> Some (case unpackDate bits of (y, m, d, tz) \<Rightarrow> AnyDate y m d tz)
     | T_DateTime \<Rightarrow> Some (case unpackDateTime bits of (n, tz) \<Rightarrow> AnyDateTime n tz)
     | _ \<Rightarrow> None)"

definition getLiteralFromNumeric :: "'l rdf_lib \<Rightarrow> 64 word \<Rightarrow> int \<Rightarrow> 'l" where
  "getLiteralFromNumeric L bits tag = (case from_int32 tag of
       None \<Rightarrow> rl_make_null L
     | Some t \<Rightarrow> (case numeric_value t bits of None \<Rightarrow> rl_make_null L | Some v \<Rightarrow> rl_from_value L t v))"

definition copy_to :: "byte list \<Rightarrow> byte list \<Rightarrow> byte list res" where
  "copy_to out bs = (if length out < length bs then Inl OutOfBounds else Inr (bs @ drop (length bs) out))"

text \<open>The bytes of a value of the type of the tag; \<^term>\<open>None\<close> for a tag that has no fixed width.\<close>

definition numeric_bytes :: "xsd_type \<Rightarrow> any_value \<Rightarrow> byte list res option" where
  "numeric_bytes t v = (case t of
       T_Boolean \<Rightarrow> Some (case v of AnyBool b \<Rightarrow> Inr (bool_bytes b) | _ \<Rightarrow> bad_cast)
     | T_Byte \<Rightarrow> Some (case v of AnyI8 x \<Rightarrow> Inr (le_bytes 1 x) | _ \<Rightarrow> bad_cast)
     | T_Short \<Rightarrow> Some (case v of AnyI16 x \<Rightarrow> Inr (le_bytes 2 x) | _ \<Rightarrow> bad_cast)
     | T_Int \<Rightarrow> Some (case v of AnyI32 x \<Rightarrow> Inr (le_bytes 4 x) | _ \<Rightarrow> bad_cast)
     | T_Long \<Rightarrow> Some (case v of AnyI64 x \<Rightarrow> Inr (le_bytes 8 x) | _ \<Rightarrow> bad_cast)
     | T_UnsignedByte \<Rightarrow> Some (case v of AnyU8 x \<Rightarrow> Inr (le_bytes 1 x) | _ \<Rightarrow> bad_cast)
     | T_UnsignedShort \<Rightarrow> Some (case v of AnyU16 x \<Rightarrow> Inr (le_bytes 2 x) | _ \<Rightarrow> bad_cast)
     | T_UnsignedInt \<Rightarrow> Some (case v of AnyU32 x \<Rightarrow> Inr (le_bytes 4 x) | _ \<Rightarrow> bad_cast)
     | T_UnsignedLong \<Rightarrow> Some (case v of AnyU64 x \<Rightarrow> Inr (le_bytes 8 x) | _ \<Rightarrow> bad_cast)
     | T_Float \<Rightarrow> Some (case v of AnyFloat x \<Rightarrow> Inr (le_bytes 4 x) | _ \<Rightarrow> bad_cast)
     | T_Double \<Rightarrow> Some (case v of AnyDouble x \<Rightarrow> Inr (u64_bytes x) | _ \<Rightarrow> bad_cast)
     | T_Date \<Rightarrow> Some (case v of AnyDate y m d tz \<Rightarrow> bindE (packDate y m d tz) (\<lambda>x. Inr (u64_bytes x)) | _ \<Rightarrow> bad_cast)
     | T_DateTime \<Rightarrow> Some (case v of AnyDateTime n tz \<Rightarrow> bindE (packDateTime n tz) (\<lambda>x. Inr (u64_bytes x)) | _ \<Rightarrow> bad_cast)
     | _ \<Rightarrow> None)"

definition extractNumericByTag :: "'l rdf_lib \<Rightarrow> 'l \<Rightarrow> int \<Rightarrow> byte list \<Rightarrow> (bool \<times> byte list) res" where
  "extractNumericByTag L lit tag out = (case from_int32 tag of
       None \<Rightarrow> Inr (False, out)
     | Some t \<Rightarrow> (case numeric_bytes t (rl_value L t lit) of
         None \<Rightarrow> Inr (False, out)
       | Some r \<Rightarrow> bindE r (\<lambda>bs. bindE (copy_to out bs) (\<lambda>out. Inr (True, out)))))"

datatype storage_shape = Inline32 | Int64 | UInt64 | Double | Blob

definition classifyStorage :: "xsd_type \<Rightarrow> storage_shape \<times> nat" where
  "classifyStorage t = (case t of
       T_Boolean \<Rightarrow> (Inline32, 1)
     | T_Byte \<Rightarrow> (Inline32, 1)
     | T_Short \<Rightarrow> (Inline32, 2)
     | T_Int \<Rightarrow> (Inline32, 4)
     | T_UnsignedByte \<Rightarrow> (Inline32, 1)
     | T_UnsignedShort \<Rightarrow> (Inline32, 2)
     | T_UnsignedInt \<Rightarrow> (Inline32, 4)
     | T_Float \<Rightarrow> (Inline32, 4)
     | T_Long \<Rightarrow> (Int64, 8)
     | T_Date \<Rightarrow> (Int64, 8)
     | T_DateTime \<Rightarrow> (Int64, 8)
     | T_UnsignedLong \<Rightarrow> (UInt64, 8)
     | T_Double \<Rightarrow> (Double, 8)
     | _ \<Rightarrow> (Blob, 0))"

section \<open>Literals of a graph\<close>

text \<open>A blob is the length of the language tag, the language tag and the lexical form.\<close>

definition split_blob :: "byte list \<Rightarrow> (string \<times> string) res" where
  "split_blob raw = bindE (get_at raw 0) (\<lambda>b. let langLen = unat b in
     if length raw < 1 + langLen then Inl OutOfBounds
     else Inr (map char_of_byte (take langLen (drop 1 raw)), map char_of_byte (drop (1 + langLen) raw)))"

definition strip_brackets :: "string \<Rightarrow> string" where
  "strip_brackets s = (if length s \<ge> 2 \<and> hd s = CHR ''<'' \<and> last s = CHR ''>'' then butlast (tl s) else s)"

definition reconstructBlobLiteral :: "'l rdf_lib \<Rightarrow> memory \<Rightarrow> int \<Rightarrow> 'l option res" where
  "reconstructBlobLiteral L M ref =
     bindE (node_entry_at M ref) (\<lambda>n.
     if n_payload n < 0 then Inr None
     else bindE (propertyGraphOf M ref) (\<lambda>a. bindE (pgraph_at M a) (\<lambda>(g, s).
       bindE (prop_at g (n_payload n)) (\<lambda>p.
       case from_int32 (to_i32 (p_type p)) of
         None \<Rightarrow> Inr None
       | Some t \<Rightarrow>
           bindE (blob_bytes (propData g) blob_kind (to_i32 (p_value p))) (\<lambda>raw.
           bindE (split_blob raw) (\<lambda>(lang, lex).
           if lang \<noteq> [] then bindE (rl_make_lang L lex lang) (\<lambda>l. Inr (Some l))
           else if t = T_AnyLiteralNode then
             bindE (md_name (mm_meta M a) (to_i32 (p_key p))) (\<lambda>nodeName.
             bindE (rl_make_typed L lex (strip_brackets nodeName)) (\<lambda>l. Inr (Some l)))
           else bindE (toDatatypeIri t) (\<lambda>iri. bindE (rl_make_typed L lex iri) (\<lambda>l. Inr (Some l)))))))))"

definition reconstructVarLenLiteral :: "'l rdf_lib \<Rightarrow> memory \<Rightarrow> 64 word \<Rightarrow> xsd_type \<Rightarrow> 'l option res" where
  "reconstructVarLenLiteral L M payload t =
     bindE (string_at M payload) (\<lambda>sv. bindE (toDatatypeIri t) (\<lambda>iri. bindE (rl_make_typed L sv iri) (\<lambda>l. Inr (Some l))))"

text \<open>A scalar with a datatype of its own: the length of the datatype IRI, the IRI and the lexical form.\<close>

definition split_scalar :: "string \<Rightarrow> (string \<times> string) res" where
  "split_scalar raw =
     (if length raw < 4 then Inl OutOfBounds
      else let dtLen = nat (le_int (map byte_of_char (take 4 raw))) in
        if length raw < 4 + dtLen then Inl OutOfBounds
        else Inr (take dtLen (drop 4 raw), drop (4 + dtLen) raw))"

definition reconstructScalarLiteral :: "'l rdf_lib \<Rightarrow> memory \<Rightarrow> 64 word \<Rightarrow> 'l option res" where
  "reconstructScalarLiteral L M payload =
     bindE (string_at M payload) (\<lambda>raw. bindE (split_scalar raw) (\<lambda>(dtIri, lex). bindE (rl_make_typed L lex dtIri) (\<lambda>l. Inr (Some l))))"

definition reconstructLiteral :: "'l rdf_lib \<Rightarrow> memory \<Rightarrow> 64 word \<Rightarrow> int \<Rightarrow> 'l option res" where
  "reconstructLiteral L M payload tag = (case from_int32 tag of
       None \<Rightarrow> Inr None
     | Some t \<Rightarrow>
         if t = T_Unspecified then Inr None
         else if t = T_String \<or> t = T_Integer \<or> t = T_Decimal then reconstructVarLenLiteral L M payload t
         else if t = T_AnyLiteralScalar then reconstructScalarLiteral L M payload
         else if fst (classifyStorage t) = Blob then reconstructBlobLiteral L M (uint payload)
         else let lit = getLiteralFromNumeric L payload tag in
           if rl_null L lit then Inr None else Inr (Some lit))"

section \<open>Reading references\<close>

definition node_property :: "memory \<Rightarrow> int \<Rightarrow> (int \<times> pgraph \<times> prop_record) option res" where
  "node_property M ref =
     bindE (node_entry_at M ref) (\<lambda>n.
     if n_payload n < 0 then Inr None
     else bindE (propertyGraphOf M ref) (\<lambda>a. bindE (pgraph_at M a) (\<lambda>(g, s).
       bindE (prop_at g (n_payload n)) (\<lambda>p. Inr (Some (a, g, p))))))"

definition resolveRefTag :: "memory \<Rightarrow> int \<Rightarrow> int res" where
  "resolveRefTag M ref = bindE (node_property M ref) (\<lambda>r. case r of
       None \<Rightarrow> Inr (to_int32 T_Node)
     | Some (a, g, p) \<Rightarrow> Inr (to_i32 (p_type p)))"

definition to_i64 :: "int \<Rightarrow> int" where
  "to_i64 x = (x + 2 ^ 63) mod 2 ^ 64 - 2 ^ 63"

definition resolveNodeRef :: "memory \<Rightarrow> int \<Rightarrow> int res" where
  "resolveNodeRef M ref =
     bindE (propertyGraphOf M ref) (\<lambda>a. bindE (nodeId (mm_reg M) ref) (\<lambda>localId.
     bindE (md_uid (mm_meta M a) localId) (\<lambda>u. Inr (to_i64 u))))"

definition extractNumericLiteral :: "memory \<Rightarrow> int \<Rightarrow> int \<Rightarrow> byte list \<Rightarrow> byte list res" where
  "extractNumericLiteral M ref tag out = (case from_int32 tag of
       None \<Rightarrow> bindE (node_entry_at M ref) (\<lambda>_. Inr out)
     | Some t \<Rightarrow> bindE (node_property M ref) (\<lambda>r. case r of
         None \<Rightarrow> Inr out
       | Some (a, g, p) \<Rightarrow>
           let (shape, width) = classifyStorage t; idx = to_i32 (p_value p) in
           (case shape of
              Inline32 \<Rightarrow> copy_to out (take width (u32_bytes (p_value p)))
            | Int64 \<Rightarrow> bindE (get_i64 (propData g) idx) (\<lambda>x. copy_to out (take width (u64_bytes x)))
            | UInt64 \<Rightarrow> bindE (get_ui64 (propData g) idx) (\<lambda>x. copy_to out (take width (u64_bytes x)))
            | Double \<Rightarrow> bindE (get_double (propData g) idx) (\<lambda>x. copy_to out (take width (u64_bytes x)))
            | Blob \<Rightarrow> Inr out)))"

definition extractBlobLiteral :: "memory \<Rightarrow> int \<Rightarrow> varlen res" where
  "extractBlobLiteral M ref =
     bindE (node_property M ref) (\<lambda>r. case r of
       None \<Rightarrow> Inr NoString
     | Some (a, g, p) \<Rightarrow>
         bindE (blob_bytes (propData g) blob_kind (to_i32 (p_value p))) (\<lambda>raw.
         bindE (split_blob raw) (\<lambda>(lang, lex). Inr (Str lex))))"

definition extractScalarLexical :: "memory \<Rightarrow> 64 word \<Rightarrow> varlen res" where
  "extractScalarLexical M payload = bindE (string_at M payload) (\<lambda>raw. bindE (split_scalar raw) (\<lambda>(dtIri, lex). Inr (Str lex)))"

definition toStringNumeric :: "'l rdf_lib \<Rightarrow> 64 word \<Rightarrow> int \<Rightarrow> varlen" where
  "toStringNumeric L payload tag = (let lit = getLiteralFromNumeric L payload tag in
     if rl_null L lit then NoString else Str (rl_lex L lit))"

definition node_name :: "memory \<Rightarrow> int \<Rightarrow> string res" where
  "node_name M ref = bindE (propertyGraphOf M ref) (\<lambda>a. bindE (nodeId (mm_reg M) ref) (\<lambda>localId. md_name (mm_meta M a) localId))"

definition toStringNodeRef :: "memory \<Rightarrow> int \<Rightarrow> varlen res" where
  "toStringNodeRef M ref = bindE (node_name M ref) (\<lambda>name. Inr (Str (strip_brackets name)))"

definition toStringFullNodeRef :: "memory \<Rightarrow> int \<Rightarrow> varlen res" where
  "toStringFullNodeRef M ref = bindE (node_name M ref) (\<lambda>name. Inr (Str name))"

definition toStringBlobLiteral :: "'l rdf_lib \<Rightarrow> memory \<Rightarrow> int \<Rightarrow> varlen res" where
  "toStringBlobLiteral L M ref = bindE (reconstructBlobLiteral L M ref) (\<lambda>r. case r of
     None \<Rightarrow> Inr NoString | Some lit \<Rightarrow> Inr (Str (rl_lex L lit)))"

definition toStringFull :: "'l rdf_lib \<Rightarrow> memory \<Rightarrow> 64 word \<Rightarrow> int \<Rightarrow> varlen res" where
  "toStringFull L M payload tag = bindE (reconstructLiteral L M payload tag) (\<lambda>r. case r of
     None \<Rightarrow> Inr NoString | Some lit \<Rightarrow> Inr (Str (rl_print L lit)))"

definition toStringEdgeRef :: "memory \<Rightarrow> int \<Rightarrow> varlen res" where
  "toStringEdgeRef M ref =
     bindE (propertyGraphOf M ref) (\<lambda>a. bindE (rel_entry_at M ref) (\<lambda>r.
     let name = md_name (mm_meta M a) in
     bindE (name (firstNodeId r)) (\<lambda>s. bindE (name (typeId r)) (\<lambda>p. bindE (name (secondNodeId r)) (\<lambda>ob.
     Inr (Str (s @ '' '' @ p @ '' '' @ ob)))))))"

definition langTag :: "'l rdf_lib \<Rightarrow> memory \<Rightarrow> 64 word \<Rightarrow> int \<Rightarrow> varlen res" where
  "langTag L M payload tag = bindE (reconstructLiteral L M payload tag) (\<lambda>r. case r of
     None \<Rightarrow> Inr NoString | Some lit \<Rightarrow> Inr (Str (rl_lang L lit)))"

section \<open>Comparisons\<close>

text \<open>The \<open>switch\<close> over the predicate, on the values of a linear order.\<close>

definition cmp_switch :: "int \<Rightarrow> 'a :: linorder \<Rightarrow> 'a \<Rightarrow> int" where
  "cmp_switch predicate l r =
     (if predicate = 0 then of_bool (l = r)
      else if predicate = 1 then of_bool (l \<noteq> r)
      else if predicate = 2 then of_bool (l < r)
      else if predicate = 3 then of_bool (l \<le> r)
      else if predicate = 4 then of_bool (l > r)
      else if predicate = 5 then of_bool (l \<ge> r)
      else - 1)"

definition compareNodeRefRef :: "memory \<Rightarrow> int \<Rightarrow> int \<Rightarrow> int \<Rightarrow> int res" where
  "compareNodeRefRef M lhs rhs predicate =
     bindE (resolveNodeRef M lhs) (\<lambda>lhsUid. bindE (resolveNodeRef M rhs) (\<lambda>rhsUid. Inr (cmp_switch predicate lhsUid rhsUid)))"

definition compareEdgeRefRef :: "int \<Rightarrow> int \<Rightarrow> int \<Rightarrow> int" where
  "compareEdgeRefRef lhs rhs predicate = cmp_switch predicate lhs rhs"

definition compareIriNodeRef :: "(node_type \<Rightarrow> int) \<Rightarrow> memory \<Rightarrow> string \<Rightarrow> int \<Rightarrow> int \<Rightarrow> int res" where
  "compareIriNodeRef code M iri ref predicate =
     (let other = (if predicate = 0 then 0 else if predicate = 1 then 1 else - 1) in
      bindE (node_entry_at M ref) (\<lambda>n.
      if n_payload n \<ge> 0 then Inr other
      else bindE (propertyGraphOf M ref) (\<lambda>a. bindE (nodeId (mm_reg M) ref) (\<lambda>localId.
        bindE (md_type_id (mm_meta M a) localId) (\<lambda>ty.
        if ty \<noteq> code NtIRI then Inr other
        else bindE (md_name (mm_meta M a) localId) (\<lambda>nodeName.
          Inr (cmp_switch predicate (''<'' @ iri @ ''>'') nodeName)))))))"

definition compareBlobLiteral :: "'l rdf_lib \<Rightarrow> memory \<Rightarrow> 64 word \<Rightarrow> int \<Rightarrow> 64 word \<Rightarrow> int \<Rightarrow> int \<Rightarrow> int res" where
  "compareBlobLiteral L M lhsPayload lhsTag rhsPayload rhsTag predicate =
     bindE (reconstructLiteral L M lhsPayload lhsTag) (\<lambda>lhs. bindE (reconstructLiteral L M rhsPayload rhsTag) (\<lambda>rhs.
     case (lhs, rhs) of
       (Some lhsLit, Some rhsLit) \<Rightarrow>
         if (predicate = 0 \<or> predicate = 1) \<and> (isCustomDatatypeTag lhsTag \<or> isCustomDatatypeTag rhsTag)
         then let eq = termEq L lhsLit rhsLit in Inr (triBoolToInt8 (if predicate = 0 then eq else tri_not eq))
         else Inr (triBoolToInt8 (applyPredicate L lhsLit rhsLit predicate))
     | _ \<Rightarrow> Inr (- 1)))"

definition compareNumericCross :: "'l rdf_lib \<Rightarrow> 64 word \<Rightarrow> int \<Rightarrow> 64 word \<Rightarrow> int \<Rightarrow> int \<Rightarrow> int" where
  "compareNumericCross L lhsPayload lhsTag rhsPayload rhsTag predicate =
     (let lhsLit = getLiteralFromNumeric L lhsPayload lhsTag; rhsLit = getLiteralFromNumeric L rhsPayload rhsTag in
      if rl_null L lhsLit \<or> rl_null L rhsLit then - 1
      else triBoolToInt8 (applyPredicate L lhsLit rhsLit predicate))"

definition hashNumeric :: "'l rdf_lib \<Rightarrow> 64 word \<Rightarrow> int \<Rightarrow> 64 word" where
  "hashNumeric L payload tag = (case from_int32 tag of
       None \<Rightarrow> 0
     | Some t \<Rightarrow>
         if t = T_Date \<or> t = T_DateTime then payload
         else let lit = getLiteralFromNumeric L payload tag in
           if rl_null L lit then 0
           else (case rl_as_double L lit of None \<Rightarrow> 0 | Some bits \<Rightarrow> bits))"

text \<open>The rank of a term in the order of the variants: blank node, IRI, literal.\<close>

definition rankOf :: "(node_type \<Rightarrow> int) \<Rightarrow> memory \<Rightarrow> bool \<Rightarrow> 64 word \<Rightarrow> int res" where
  "rankOf code M isNode payload =
     (if \<not> isNode then Inr 2
      else bindE (propertyGraphOf M (uint payload)) (\<lambda>a. bindE (nodeId (mm_reg M) (uint payload)) (\<lambda>localId.
        bindE (md_type_id (mm_meta M a) localId) (\<lambda>ty. Inr (if ty = code NtBNode then 0 else 1)))))"

definition compareOrder :: "'l rdf_lib \<Rightarrow> (node_type \<Rightarrow> int) \<Rightarrow> memory \<Rightarrow> 64 word \<Rightarrow> int \<Rightarrow> 64 word \<Rightarrow> int \<Rightarrow> int res" where
  "compareOrder L code M lhsPayload lhsTag rhsPayload rhsTag =
     (let lhsIsEdge = (lhsTag = to_int32 T_Edge); rhsIsEdge = (rhsTag = to_int32 T_Edge);
          lhsIsNode = (lhsTag = to_int32 T_Node); rhsIsNode = (rhsTag = to_int32 T_Node) in
      if lhsIsEdge \<or> rhsIsEdge then
        if lhsIsEdge \<noteq> rhsIsEdge then Inr (if lhsIsEdge then 1 else - 1)
        else if lhsPayload = rhsPayload then Inr 0
        else Inr (if sint lhsPayload < sint rhsPayload then - 1 else 1)
      else
        bindE (rankOf code M lhsIsNode lhsPayload) (\<lambda>lhsRank. bindE (rankOf code M rhsIsNode rhsPayload) (\<lambda>rhsRank.
        if lhsRank \<noteq> rhsRank then Inr (if lhsRank < rhsRank then - 1 else 1)
        else if lhsRank \<noteq> 2 then
          bindE (node_name M (uint lhsPayload)) (\<lambda>lhsName. bindE (node_name M (uint rhsPayload)) (\<lambda>rhsName.
          if lhsName \<noteq> rhsName then Inr (if lhsName < rhsName then - 1 else 1) else Inr 0))
        else
          bindE (reconstructLiteral L M lhsPayload lhsTag) (\<lambda>lhs. bindE (reconstructLiteral L M rhsPayload rhsTag) (\<lambda>rhs.
          case (lhs, rhs) of
            (Some lhsLit, Some rhsLit) \<Rightarrow>
              Inr (case rl_order L lhsLit rhsLit of Before \<Rightarrow> - 1 | After \<Rightarrow> 1 | Same \<Rightarrow> 0)
          | _ \<Rightarrow> Inr 0)))))"

definition langMatches :: "'l rdf_lib \<Rightarrow> memory \<Rightarrow> 64 word \<Rightarrow> int \<Rightarrow> string \<Rightarrow> int res" where
  "langMatches L M payload tag langRange = bindE (reconstructLiteral L M payload tag) (\<lambda>r. case r of
     None \<Rightarrow> Inr (- 1) | Some lit \<Rightarrow> Inr (if rl_lang_matches L (rl_lex L lit) langRange then 1 else 0))"

section \<open>Casts and arithmetic\<close>

definition castLiteral :: "'l rdf_lib \<Rightarrow> memory \<Rightarrow> 64 word \<Rightarrow> int \<Rightarrow> int \<Rightarrow> byte list \<Rightarrow> (int \<times> byte list) res" where
  "castLiteral L M payload srcTag targetTag out =
     bindE (reconstructLiteral L M payload srcTag) (\<lambda>r. case r of
       None \<Rightarrow> Inr (to_int32 T_Unspecified, out)
     | Some srcLit \<Rightarrow> (case from_int32 targetTag of
         None \<Rightarrow> Inr (to_int32 T_Unspecified, out)
       | Some targetT \<Rightarrow>
           bindE (toDatatypeIri targetT) (\<lambda>iri.
           let casted = rl_cast L srcLit iri in
           if rl_null L casted then Inr (to_int32 T_Unspecified, out)
           else let resultTag = to_int32 (from_iri (Some (rl_datatype L casted))) in
             bindE (extractNumericByTag L casted resultTag out) (\<lambda>(ok, out).
             Inr (if ok then resultTag else to_int32 T_Unspecified, out)))))"

text \<open>The result has a tag, and is in the byte buffer or, for the integers and decimals of unbounded size, a string.\<close>

definition arithBlobNumeric ::
  "'l rdf_lib \<Rightarrow> memory \<Rightarrow> 64 word \<Rightarrow> int \<Rightarrow> 64 word \<Rightarrow> int \<Rightarrow> int \<Rightarrow> byte list \<Rightarrow> varlen \<Rightarrow> (int \<times> byte list \<times> varlen) res" where
  "arithBlobNumeric L M lhsPayload lhsTag rhsPayload rhsTag predicate out outBlob =
     (let failed = Inr (to_int32 T_Unspecified, out, outBlob) in
      bindE (reconstructLiteral L M lhsPayload lhsTag) (\<lambda>lhs. bindE (reconstructLiteral L M rhsPayload rhsTag) (\<lambda>rhs.
      case (lhs, rhs) of
        (Some lhsLit, Some rhsLit) \<Rightarrow>
          (let result = applyArith L lhsLit rhsLit predicate in
           if rl_null L result then failed
           else let resultTag = to_int32 (from_iri (Some (rl_datatype L result))) in
             (case from_int32 resultTag of
                None \<Rightarrow> failed
              | Some resultT \<Rightarrow>
                  if resultT = T_Integer \<or> resultT = T_Decimal then Inr (resultTag, out, Str (rl_lex L result))
                  else bindE (extractNumericByTag L result resultTag out) (\<lambda>(ok, out).
                    Inr (if ok then resultTag else to_int32 T_Unspecified, out, outBlob))))
      | _ \<Rightarrow> failed)))"

section \<open>Back to identifiers\<close>

definition resolveEdge :: "memory \<Rightarrow> int \<Rightarrow> int \<Rightarrow> 64 word \<Rightarrow> int res" where
  "resolveEdge M graph tag payload =
     (if tag \<noteq> to_int32 T_Edge then Inl (RuntimeError ''unsupported: variant must be a reference to an edge'')
      else bindE (graphPtr (mm_reg M) (uint payload)) (\<lambda>a. bindE (graphPtr (mm_reg M) graph) (\<lambda>b.
        if a \<noteq> b then Inl (RuntimeError ''unsupported: cross graph edge resolving from variant'')
        else relId (mm_reg M) (uint payload))))"

definition resolve_ref :: "memory \<Rightarrow> int \<Rightarrow> int \<Rightarrow> int res" where
  "resolve_ref M pgraph ref =
     bindE (propertyGraphOf M ref) (\<lambda>other. bindE (nodeId (mm_reg M) ref) (\<lambda>localId.
     if other = pgraph then Inr localId else Inl (RuntimeError ''unsupported: cross graph node resolving from variant'')))"

definition hasNodePayload :: "xsd_type \<Rightarrow> bool" where
  "hasNodePayload t \<longleftrightarrow> t \<notin> set [T_Unspecified, T_String, T_Integer, T_Decimal, T_AnyLiteralScalar] \<and> fst (classifyStorage t) = Blob"

definition resolveNode :: "memory \<Rightarrow> int \<Rightarrow> int \<Rightarrow> 64 word \<Rightarrow> int res" where
  "resolveNode M graph tag payload =
     bindE (graphPtr (mm_reg M) graph) (\<lambda>pgraph.
     let md = mm_meta M pgraph in
     if tag = to_int32 T_Node then resolve_ref M pgraph (uint payload)
     else if tag = to_int32 T_AnyIRI then bindE (string_at M payload) (\<lambda>sv. Inr (md_from_iri md sv))
     else case from_int32 tag of
       None \<Rightarrow> Inr (- 1)
     | Some t \<Rightarrow>
         if t = T_Unspecified then Inr (- 1)
         else if hasNodePayload t then resolve_ref M pgraph (uint payload)
         else if t = T_String \<or> t = T_Integer \<or> t = T_Decimal then
           bindE (string_at M payload) (\<lambda>sv. bindE (toDatatypeIri t) (\<lambda>iri.
           Inr (md_from_literal md iri (0 # map byte_of_char sv))))
         else if t = T_AnyLiteralScalar then
           bindE (string_at M payload) (\<lambda>raw. bindE (split_scalar raw) (\<lambda>(dtIri, lex).
           Inr (md_from_literal md dtIri (0 # map byte_of_char lex))))
         else bindE (toDatatypeIri t) (\<lambda>iri.
           case classifyStorage t of
             (Inline32, width) \<Rightarrow> Inr (md_from_literal md iri (take width (u64_bytes payload) @ replicate (4 - width) 0))
           | _ \<Rightarrow> Inr (md_from_literal md iri (u64_bytes payload))))"

section \<open>Variants of nodes\<close>

text \<open>
  The code that the compiler emits to turn a reference to a node into a variant (\<open>CreateNodeRefOpLowering\<close>): numbers are copied into eight
  bytes on the stack, whose previous content is arbitrary, and loaded as 64 bits; strings and unbounded numbers are put into a
  new slot; for everything else the payload is the reference.
\<close>

definition isNumericFamily :: "int \<Rightarrow> bool" where
  "isNumericFamily tag \<longleftrightarrow> tag \<in> set (map to_int32 [T_Boolean, T_Long, T_Double, T_Byte, T_Short, T_Int, T_UnsignedByte, T_UnsignedShort,
     T_UnsignedInt, T_UnsignedLong, T_Float, T_Date, T_DateTime])"

definition isByteString :: "int \<Rightarrow> bool" where
  "isByteString tag \<longleftrightarrow> tag \<in> set (map to_int32 [T_String, T_Integer, T_Decimal])"

definition createNodeRef :: "memory \<Rightarrow> byte list \<Rightarrow> 64 word \<Rightarrow> 64 word \<Rightarrow> ((int \<times> 64 word) \<times> memory) res" where
  "createNodeRef M scratch slot ref =
     bindE (resolveRefTag M (uint ref)) (\<lambda>tag.
     if isNumericFamily tag then
       bindE (extractNumericLiteral M (uint ref) tag scratch) (\<lambda>bytes. Inr ((tag, word_of_int (le_int (take 8 bytes))), M))
     else if tag = to_int32 T_Node then Inr ((tag, ref), M)
     else if isByteString tag then
       bindE (extractBlobLiteral M (uint ref)) (\<lambda>strVal.
       Inr ((tag, slot), M\<lparr>mm_strings := (mm_strings M)(uint slot \<mapsto> (case strVal of NoString \<Rightarrow> [] | Str s \<Rightarrow> s))\<rparr>))
     else Inr ((tag, ref), M))"

end
