(* ===== verification/Rdf_Tags.thy ===== *)
theory Rdf_Tags
  imports Rdf_Triples Variant
begin

text \<open>
  What the nodes of an RDF graph look like to the variants: the node of a literal has a property whose type is the tag of the literal's
  datatype, whose key is the only number of that datatype and whose inlined value fits the width of the tag; no other node has a
  property.  Every way of adding triples keeps this.
\<close>

definition fits :: "string \<Rightarrow> int \<Rightarrow> bool" where
  "fits iri v \<longleftrightarrow> (isInlined iri \<longrightarrow> 0 \<le> v \<and> v < 256 ^ snd (classifyStorage (from_iri (Some iri))))"

definition tag_ok :: "rdf_graph \<Rightarrow> int \<Rightarrow> bool" where
  "tag_ok g i \<longleftrightarrow>
     (if nid_type (at (ids g) i) = NtLiteral
      then \<exists>r dt. literal_prop g i = Inr r \<and> p_key r = to_u32 dt \<and> first_at (ids g) (at (ids g) dt) = Some dt
        \<and> p_type r = to_u32 (to_int32 (from_iri (Some (nid_iri (at (ids g) dt))))) \<and> fits (nid_iri (at (ids g) dt)) (p_value r)
      else n_payload (at (nodes (base (pg g))) i) = GRAPH_NONE)"

definition tagged :: "rdf_graph \<Rightarrow> bool" where
  "tagged g \<longleftrightarrow> (\<forall>i. in_range (ids g) i \<longrightarrow> tag_ok g i)"

lemma tag_ok_ext:
  assumes "rdf_ext g g'" and "rdf_inv decode g" and "in_range (ids g) i" and "tag_ok g i"
  shows "tag_ok g' i"
proof -
  note iv = rdf_invD [OF assms(2)]
  have e: "pg_ext (pg g) (pg g')" using assms(1) by (simp add: rdf_ext_def)
  have a: "at (ids g') i = at (ids g) i" using at_ids_ext [OF assms(1,3)] by simp
  have f: "first_at (ids g') n = Some j" if "first_at (ids g) n = Some j" for n j
    using that assms(1) first_at_append_Some by (auto simp: rdf_ext_def)
  show ?thesis
  proof (cases "nid_type (at (ids g) i) = NtLiteral")
    case True
    then obtain r dt where r: "literal_prop g i = Inr r" "p_key r = to_u32 dt" "first_at (ids g) (at (ids g) dt) = Some dt"
      "p_type r = to_u32 (to_int32 (from_iri (Some (nid_iri (at (ids g) dt)))))" "fits (nid_iri (at (ids g) dt)) (p_value r)"
      using assms(4) unfolding tag_ok_def by auto
    have "at (ids g') dt = at (ids g) dt" using first_at_Some [OF r(3)] at_ids_ext [OF assms(1)] by simp
    then show ?thesis using True a r literal_prop_ext [OF e iv(2) r(1)] f [OF r(3)] unfolding tag_ok_def by auto
  next
    case False
    moreover have "n_payload (at (nodes (base (pg g'))) i) = n_payload (at (nodes (base (pg g))) i)"
      using e assms(3) iv(3) by (simp add: pg_ext_def in_range_def dict_size_def)
    ultimately show ?thesis using a assms(4) by (simp add: tag_ok_def)
  qed
qed

lemma tagged_grow:
  assumes "tagged g" and "rdf_ext g g'" and "rdf_inv decode g"
    and "\<And>i. in_range (ids g') i \<Longrightarrow> \<not> in_range (ids g) i \<Longrightarrow> tag_ok g' i"
  shows "tagged g'"
  using assms tag_ok_ext unfolding tagged_def by metis

lemma tagged_same:
  assumes "tagged g" and "rdf_ext g g'" and "rdf_inv decode g" and "ids g' = ids g"
  shows "tagged g'"
  using assms(4) by (intro tagged_grow [OF assms(1-3)]) simp

section \<open>New nodes\<close>

lemma resolve_term_tagged:
  assumes "tagged g" and "rdf_inv decode g" and "resolve_term g n = Inr (i, g')" and "nid_type (node_id n) \<noteq> NtLiteral"
  shows "tagged g'"
proof -
  obtain d where d: "get_or_insert (rg_nodes g) n = (i, d)" and e: "ensureNode (g\<lparr>rg_nodes := d\<rparr>) = Inr g'"
    using assms(3) by (auto simp: resolve_term_def bindE_eq_Inr_iff split: prod.splits)
  note k = get_or_insert_ok [OF rdf_invD(1) [OF assms(2)] d rdf_inv_bound [OF assms(2)]]
  let ?ms = "if node_id n \<in> set (ids g) then [] else [node_id n]"
  have "length ?ms \<le> 1" by simp
  note ef = ensureNode_effect [OF assms(2) k(1,3) this e]
  have ids: "ids g' = ids g @ ?ms" using arg_cong [OF ef(1), of rg_nodes] k(3) by (simp add: set_pg_def)
  have "tag_ok g' j" if j: "in_range (ids g') j" "\<not> in_range (ids g) j" for j
  proof -
    have m: "node_id n \<notin> set (ids g)" "j = dict_size (rg_nodes g)"
      using j ids by (auto simp: in_range_def dict_size_def split: if_splits)
    then have "at (ids g') j = node_id n" using ids by (simp add: at_def dict_size_def)
    then show ?thesis using ef(7) m assms(4) by (simp add: tag_ok_def)
  qed
  then show ?thesis by (intro tagged_grow [OF assms(1) ef(2) assms(2)])
qed

lemma from_iri_xsd: "(t, n) \<in> set xsd_names \<Longrightarrow> from_iri (Some (XSD @ n)) = t"
  using from_string_iff [of n t] xsd_names_nonempty [of t n] xsd_iri_not_lang [of n]
  by (simp add: from_iri_def starts_with_def XSD_def kXsdNamespace_def)

lemma inlined_widths:
  "snd (classifyStorage (from_iri (Some (XSD @ ''boolean'')))) = 1" "snd (classifyStorage (from_iri (Some (XSD @ ''byte'')))) = 1"
  "snd (classifyStorage (from_iri (Some (XSD @ ''float'')))) = 4" "snd (classifyStorage (from_iri (Some (XSD @ ''int'')))) = 4"
  "snd (classifyStorage (from_iri (Some (XSD @ ''short'')))) = 2" "snd (classifyStorage (from_iri (Some (XSD @ ''unsignedByte'')))) = 1"
  "snd (classifyStorage (from_iri (Some (XSD @ ''unsignedInt'')))) = 4" "snd (classifyStorage (from_iri (Some (XSD @ ''unsignedShort'')))) = 2"
  by code_simp+

lemma inline_fits:
  assumes "literal_data l = Inr (data, sv)" and "value_at pd v data sv"
  shows "fits (lit_datatype l) v"
proof (cases "isInlined (lit_datatype l)")
  case True
  then obtain bits where b: "inlineValue (lit_value l) (lit_datatype l) = Inr bits" "v = bits"
    using assms by (auto simp: literal_data_def bindE_eq_Inr_iff value_at_def)
  then show ?thesis
    unfolding inlineValue_def fits_def
    by (auto split: if_split_asm any_value.split_asm simp: inlined_widths)
qed (simp add: fits_def)

lemma resolve_literal_tagged:
  assumes "tagged g" and "rdf_inv decode g" and "resolve_literal g l = Inr (i, g')"
  shows "tagged g'"
proof -
  obtain data sv dt g1 where ld: "literal_data l = Inr (data, sv)" and r: "resolve_iri g (lit_datatype l) = Inr (dt, g1)"
    and rest: "(case rg_literals g1 (data, dt) of Some i \<Rightarrow> Inr (i, g1) | None \<Rightarrow>
         let (i, d) = dict_insert (rg_nodes g1) (NodeLiteral l) in
         bindE (ensureNode (g1\<lparr>rg_nodes := d\<rparr>)) (\<lambda>g.
         bindE (store_value (pg g) data sv) (\<lambda>(value, p).
         bindE (addNodeProperty p i (to_u32 dt) (to_u32 (to_int32 (from_iri (Some (lit_datatype l))))) value) (\<lambda>(_, p).
         Inr (i, addLiteralNode (set_pg g p) (data, dt) i))))) = Inr (i, g')"
    using assms(3) by (auto simp: resolve_literal_def bindE_eq_Inr_iff)
  have ty: "nid_type (node_id (NodeIri (lit_datatype l))) \<noteq> NtLiteral" by (simp add: node_id_def)
  note t = resolve_term_ok [OF assms(2) r [unfolded resolve_iri_def] ty]
  have t1: "tagged g1" using resolve_term_tagged [OF assms(1,2) r [unfolded resolve_iri_def] ty] .
  have inv1: "rdf_inv decode g1" and den: "denotes decode g1 dt (NodeIri (lit_datatype l))" using t(1) by (auto simp: resolved_def)
  show ?thesis
  proof (cases "rg_literals g1 (data, dt)")
    case None
    obtain d g2 v p3 j p4 where d: "dict_insert (rg_nodes g1) (NodeLiteral l) = (i, d)"
      and e: "ensureNode (g1\<lparr>rg_nodes := d\<rparr>) = Inr g2" and s: "store_value (pg g2) data sv = Inr (v, p3)"
      and a: "addNodeProperty p3 i (to_u32 dt) (to_u32 (to_int32 (from_iri (Some (lit_datatype l))))) v = Inr (j, p4)"
      and g': "g' = addLiteralNode (set_pg g2 p4) (data, dt) i"
      using rest None by (auto simp: bindE_eq_Inr_iff split: prod.splits)
    have dt: "in_range (ids g1) dt" "at (ids g1) dt = node_id (NodeIri (lit_datatype l))" using den by (auto simp: denotes_def)
    note la = literal_added [OF inv1 ld dt None d e s a g']
    have at': "at (ids g') dt = node_id (NodeIri (lit_datatype l))" using at_ids_ext [OF la(2) dt(1)] dt(2) by simp
    have f: "first_at (ids g') (at (ids g') dt) = Some dt" using first_at_append_Some [OF t(4)] unfolding at' unfolding la(7) .
    have "tag_ok g' k" if k: "in_range (ids g') k" "\<not> in_range (ids g1) k" for k
    proof -
      have "i = dict_size (rg_nodes g1)" using dict_insert_ok(2) [OF rdf_invD(1) [OF inv1] d rdf_inv_bound [OF inv1]] .
      moreover have "k = dict_size (rg_nodes g1)" using k la(7) by (auto simp: in_range_def dict_size_def)
      moreover have "nid_iri (at (ids g') dt) = lit_datatype l" unfolding at' by (simp add: node_id_def)
      moreover have "nid_type (at (ids g') i) = NtLiteral" using la(3) by (simp add: denotes_def node_id_def)
      ultimately show ?thesis
        using la(8) f inline_fits [OF ld] unfolding tag_ok_def by (elim exE conjE) (simp, rule exI [of _ dt], simp)
    qed
    then show ?thesis by (intro tagged_grow [OF t1 la(2) inv1])
  qed (use rest t1 in simp)
qed

lemma resolve_tagged:
  assumes "tagged g" and "rdf_inv decode g" and "resolve g n = Inr (i, g')" and "\<And>v. n \<noteq> NodeVariable v"
  shows "tagged g'"
  using assms resolve_literal_tagged [OF assms(1,2)] resolve_term_tagged [OF assms(1,2)]
  by (cases n) (auto simp: resolve_def node_id_def)

section \<open>Triples\<close>

lemma addTriple_tagged:
  assumes "tagged g" and "rdf_inv decode g" and "addTriple g s p ob truth = Inr g'"
  shows "tagged g'"
proof -
  obtain pred i g4 where a: "add_resolved g s pred ob = Inr (i, g4)"
    and t: "setTruth g4 i (if rg_fuzzy g4 then truth else float_one) = Inr g'"
    and v: "\<And>v. s \<noteq> NodeVariable v" "\<And>v. ob \<noteq> NodeVariable v"
    using assms(3) by (auto simp: addTriple_def bindE_eq_Inr_iff split: node.splits)
  obtain a' g1 b g2 ty g3 q where r: "resolve g s = Inr (a', g1)" "resolve g1 ob = Inr (b, g2)"
    "resolve_iri g2 pred = Inr (ty, g3)" "pg_addRelationship (pg g3) a' b (to_u32 ty) = Inr (i, q)" "g4 = set_pg g3 q"
    using a by (auto simp: add_resolved_def bindE_eq_Inr_iff)
  have i1: "rdf_inv decode g1" using resolve_ok [OF assms(2) r(1) v(1)] by (simp add: resolved_def)
  have i2: "rdf_inv decode g2" using resolve_ok [OF i1 r(2) v(2)] by (simp add: resolved_def)
  have ty: "nid_type (node_id (NodeIri pred)) \<noteq> NtLiteral" by (simp add: node_id_def)
  have i3: "rdf_inv decode g3" using resolve_term_ok(1) [OF i2 r(3) [unfolded resolve_iri_def] ty] by (simp add: resolved_def)
  have t3: "tagged g3"
    using resolve_term_tagged [OF _ i2 r(3) [unfolded resolve_iri_def] ty] resolve_tagged [OF _ i1 r(2) v(2)] resolve_tagged [OF assms(1,2) r(1) v(1)] by blast
  note e = pg_addRelationship_effect [OF rdf_invD(2) [OF i3] r(4)]
  note s4 = rdf_inv_rels [OF i3 e(3,2,8)]
  have t4: "tagged g4" using tagged_same [OF t3 s4(2) i3] r(5) by (simp add: set_pg_def)
  have i4: "rdf_inv decode g4" using s4(1) r(5) by simp
  have "ids g' = ids g4" using t by (auto simp: setTruth_def bindE_eq_Inr_iff set_pg_def)
  then show ?thesis using tagged_same [OF t4 setTruth_ok(2) [OF i4 t] i4] by simp
qed

lemma addTriples_tagged: "tagged g \<Longrightarrow> rdf_inv decode g \<Longrightarrow> addTriples g ts = Inr g' \<Longrightarrow> tagged g'"
proof (induction ts arbitrary: g)
  case (Cons t ts)
  obtain s p ob d where t: "t = ((s, p, ob), d)" by (metis prod.exhaust)
  obtain g1 where g1: "addTriple g s p ob d = Inr g1" "addTriples g1 ts = Inr g'"
    using Cons.prems(3) by (auto simp: t bindE_eq_Inr_iff)
  show ?case using Cons.IH [OF addTriple_tagged [OF Cons.prems(1,2) g1(1)] addTriple_ok(1) [OF Cons.prems(2) g1(1)] g1(2)] .
qed simp

lemma made_tagged: "made g \<Longrightarrow> tagged g"
proof -
  assume "made g"
  then obtain name iri src nc rc pc g0 ts where g0: "rdf_create name iri src nc rc pc = Inr g0" "is_i32 nc" "is_i32 rc" "is_i32 pc"
    and ts: "addTriples g0 ts = Inr g" unfolding made_def by blast
  have "ids g0 = []" using g0(1) by (auto simp: rdf_create_def mk_rdfGraph_def bindE_eq_Inr_iff empty_dict_def)
  then have "tagged g0" by (auto simp: tagged_def in_range_def)
  then show "tagged g" using addTriples_tagged [OF _ rdf_create_inv(1) [OF g0] ts] by blast
qed

end
