(* ===== verification/Variant_Nodes.thy ===== *)
theory Variant_Nodes
  imports Rdf_Tags
begin

unbundle bit_operations_syntax

text \<open>
  Variants and the graphs they refer to: turning a node into a variant and resolving the variant gives the node back, nodes of several
  graphs compare equal exactly when they stand for the same term, and how far the order of the variants is an order.
\<close>

section \<open>References to the nodes of a registered graph\<close>

definition graph_in :: "memory \<Rightarrow> int \<Rightarrow> rdf_graph \<Rightarrow> stores \<Rightarrow> bool" where
  "graph_in M a g s \<longleftrightarrow> registered (mm_reg M) a (PropertyGraph (pg g) s) (node_ptr s) (nodeCap (base (pg g))) 16"

definition node_ref :: "stores \<Rightarrow> int \<Rightarrow> 64 word" where
  "node_ref s i = word_of_int (ptr_elem (node_ptr s) i 16)"

lemma uint_node_ref [simp]: "uint (node_ref s i) = ptr_elem (node_ptr s) i 16"
  by (simp add: node_ref_def ptr_elem_def to_u64_def uint_word_of_int)

lemma graph_in_self: "graph_in M a g s \<Longrightarrow> graphPtr (mm_reg M) a = Inr a"
  using lookup_mem_in [of "mem (mm_reg M)" "(node_ptr s, nodeCap (base (pg g)) * 16, a)" a]
  by (simp add: graph_in_def registered_def graphPtr_def lookupGraph_def range_of_def)

lemma graph_in_obj: "graph_in M a g s \<Longrightarrow> pgraph_at M a = Inr (pg g, s)"
  by (simp add: graph_in_def registered_def pgraph_at_def)

lemma graph_in_ref:
  assumes "graph_in M a g s" and "0 \<le> i" and "i < nodeCap (base (pg g))"
  shows "propertyGraphOf M (uint (node_ref s i)) = Inr a" and "nodeId (mm_reg M) (uint (node_ref s i)) = Inr i"
    and "node_entry_at M (uint (node_ref s i)) = get_at (nodes (base (pg g))) i"
proof -
  note r = assms(1) [unfolded graph_in_def] and l = registered_lookup [OF assms(1) [unfolded graph_in_def] assms(2,3)]
  have "ptr_elem (node_ptr s) i 16 \<in> range_of (node_ptr s, nodeCap (base (pg g)) * 16, a)"
    using ptr_elem_in [OF assms(2,3), of 16 "node_ptr s"] r by (simp add: range_of_def registered_def)
  then show p: "propertyGraphOf M (uint (node_ref s i)) = Inr a"
    using lookup_mem_in r by (fastforce simp: propertyGraphOf_def graphPtr_def lookupGraph_def registered_def)
  show "nodeId (mm_reg M) (uint (node_ref s i)) = Inr i" using l by (simp add: nodeId_def)
  show "node_entry_at M (uint (node_ref s i)) = get_at (nodes (base (pg g))) i"
    using p l graph_in_obj [OF assms(1)] by (simp add: node_entry_at_def)
qed

lemma denoted_node:
  assumes "rdf_inv decode g" and "denotes decode g i n"
  shows "0 \<le> i" and "i < nodeMark (base (pg g))" and "i < nodeCap (base (pg g))" and "in_range (nodes (base (pg g))) i"
  using rdf_invD(2,3) [OF assms(1)] assms(2) by (auto simp: denotes_def in_range_def dict_size_def pg_wf_def)

lemma node_property_literal:
  assumes "graph_in M a g s" and "0 \<le> i" and "i < nodeCap (base (pg g))" and "literal_prop g i = Inr r"
  shows "node_property M (uint (node_ref s i)) = Inr (Some (a, pg g, r))"
proof -
  obtain n where n: "get_at (nodes (base (pg g))) i = Inr n" "n_payload n \<ge> 0" "prop_at (pg g) (n_payload n) = Inr r"
    using assms(4) by (auto simp: literal_prop_def node_def bindE_eq_Inr_iff assertE_eq_Inr_iff)
  then show ?thesis
    using graph_in_ref [OF assms(1-3)] graph_in_obj [OF assms(1)] unfolding node_property_def by simp
qed

lemma node_property_term:
  assumes "graph_in M a g s" and "0 \<le> i" and "i < nodeCap (base (pg g))" and "in_range (nodes (base (pg g))) i"
    and "n_payload (at (nodes (base (pg g))) i) = GRAPH_NONE"
  shows "node_property M (uint (node_ref s i)) = Inr None"
  using graph_in_ref(3) [OF assms(1-3)] assms(4,5) by (simp add: node_property_def get_at_def)

lemma resolve_node_ref:
  assumes "graph_in M a g s" and "0 \<le> i" and "i < nodeCap (base (pg g))"
  shows "resolve_ref M a (uint (node_ref s i)) = Inr i"
  using graph_in_ref [OF assms] by (simp add: resolve_ref_def del: uint_node_ref)

section \<open>How a datatype is stored\<close>

definition kind_of_tag :: "xsd_type \<Rightarrow> fixed_kind option" where
  "kind_of_tag t = (case t of T_Long \<Rightarrow> Some KInt64 | T_UnsignedLong \<Rightarrow> Some KUInt64 | T_Double \<Rightarrow> Some KDouble
     | T_Date \<Rightarrow> Some KDate | T_DateTime \<Rightarrow> Some KDateTime | _ \<Rightarrow> None)"

lemma storage_of_names:
  "list_all (\<lambda>(t, n). (isInlined (XSD @ n) \<longleftrightarrow> fst (classifyStorage t) = Inline32) \<and> kindOf (XSD @ n) = kind_of_tag t) xsd_names"
  by code_simp

lemma from_iri_name:
  assumes "from_iri (Some iri) = t" and "t \<noteq> T_LangString" and "t \<noteq> T_AnyLiteralNode"
  shows "\<exists>n. (t, n) \<in> set xsd_names \<and> iri = XSD @ n"
proof -
  have s: "starts_with iri kXsdNamespace" and m: "from_string (drop (length kXsdNamespace) iri) = Some t"
    using assms by (auto simp: from_iri_def Let_def split: if_splits option.splits)
  have "iri = XSD @ drop (length kXsdNamespace) iri"
    using s append_take_drop_id [of "length kXsdNamespace" iri] by (simp add: starts_with_def XSD_def kXsdNamespace_def)
  then show ?thesis using m by (auto simp: from_string_iff)
qed

lemma datatype_storage:
  assumes "from_iri (Some iri) = t" and "t \<noteq> T_LangString" and "t \<noteq> T_AnyLiteralNode"
  shows "toDatatypeIri t = Inr iri" and "isInlined iri \<longleftrightarrow> fst (classifyStorage t) = Inline32" and "kindOf iri = kind_of_tag t"
proof -
  obtain n where n: "(t, n) \<in> set xsd_names" "iri = XSD @ n" using from_iri_name [OF assms] by blast
  then show "toDatatypeIri t = Inr iri" using to_string_iff [of t n] by (simp add: toDatatypeIri_def XSD_def kXsdNamespace_def)
  show "isInlined iri \<longleftrightarrow> fst (classifyStorage t) = Inline32" "kindOf iri = kind_of_tag t"
    using n storage_of_names by (auto simp: list_all_iff)
qed

lemma from_iri_decodes: "from_int32 (to_int32 (from_iri iri)) = Some (from_iri iri)"
proof -
  have "from_string n = Some t \<Longrightarrow> t \<notin> {T_Node, T_AnyIRI, T_Edge}" for n t
    using from_string_iff [of n t] xsd_names_dom [of t] by blast
  then have "from_iri iri \<notin> {T_Node, T_AnyIRI, T_Edge}"
    by (auto simp: from_iri_def Let_def split: option.splits if_splits)
  then show ?thesis by (simp add: from_int32_iff)
qed

lemma is_i32_tag: "is_i32 (to_int32 t)"
  by (cases t) (simp_all add: is_i32_def)

section \<open>Bytes\<close>

lemma le_bytes_int: "le_bytes (length bs) (le_int bs) = bs"
proof (induction bs)
  case (Cons b bs)
  have u: "0 \<le> uint b" "uint b < 256" using uint_range_size [of b] by (simp_all add: word_size)
  have "(word_of_int (uint b + 256 * le_int bs) :: byte) = b" using u by (simp only: word_uint_eq_iff uint_word_of_int) simp
  moreover have "(uint b + 256 * le_int bs) div 256 = le_int bs" using u by simp
  ultimately show ?case using Cons unfolding list.size le_int.simps add_Suc_right add_0_right le_bytes.simps by simp
qed simp

lemma u64_bytes_load:
  assumes "length bs = 8"
  shows "u64_bytes (word_of_int (le_int bs)) = bs"
proof -
  have "uint (word_of_int (le_int bs) :: 64 word) = le_int bs"
    using le_int_range [of bs] assms by (simp add: uint_word_of_int)
  then show ?thesis using le_bytes_int [of bs] assms by (simp add: u64_bytes_def)
qed

lemma le_bytes_small: "0 \<le> x \<Longrightarrow> x < 256 ^ w \<Longrightarrow> le_bytes (w + k) x = le_bytes w x @ replicate k 0"
proof (induction w arbitrary: x)
  case 0
  then have "x = 0" by simp
  moreover have "le_bytes k 0 = replicate k 0" by (induction k) simp_all
  ultimately show ?case by simp
next
  case (Suc w)
  have "0 \<le> x div 256" "x div 256 < 256 ^ w" using Suc.prems by (simp_all add: div_less_iff_less_mult mult.commute)
  then show ?case using Suc.IH by simp
qed

lemma take_le_bytes: "take w (le_bytes (w + k) x) = le_bytes w x"
  by (induction w arbitrary: x) simp_all

lemma inline_bytes:
  assumes "0 \<le> x" and "x < 256 ^ w" and "w \<le> 4"
  shows "take w (u32_bytes x) @ replicate (4 - w) 0 = u32_bytes x"
  using le_bytes_small [OF assms(1,2), of "4 - w"] take_le_bytes [of w "4 - w" x] assms(3) by (simp add: u32_bytes_def)

section \<open>From a node to a variant and back\<close>

text \<open>
  Left out are literals of the two datatypes that only exist inside of the engine, and literals of \<open>xsd:string\<close>, \<open>xsd:integer\<close> and
  \<open>xsd:decimal\<close> with a language tag, which RDF does not have.
\<close>

definition ordinary :: "node \<Rightarrow> bool" where
  "ordinary n = (case n of
       NodeLiteral l \<Rightarrow> from_iri (Some (lit_datatype l)) \<notin> {T_Unspecified, T_AnyLiteralScalar}
         \<and> (from_iri (Some (lit_datatype l)) \<in> {T_String, T_Integer, T_Decimal} \<longrightarrow> lit_lang l = [])
     | _ \<Rightarrow> True)"

definition resolves_back :: "memory \<Rightarrow> int \<Rightarrow> byte list \<Rightarrow> 64 word \<Rightarrow> 64 word \<Rightarrow> int \<Rightarrow> bool" where
  "resolves_back M a scratch slot ref i \<longleftrightarrow>
     okE (\<lambda>((tag, payload), M'). resolveNode M' a tag payload = Inr i) (createNodeRef M scratch slot ref)"

lemma term_resolves_back:
  assumes "graph_in M a g s" and "0 \<le> i" and "i < nodeCap (base (pg g))" and "node_property M (uint (node_ref s i)) = Inr None"
  shows "resolves_back M a scratch slot (node_ref s i) i"
  using assms(4) resolve_node_ref [OF assms(1-3)] graph_in_self [OF assms(1)]
  by (simp add: resolves_back_def createNodeRef_def resolveRefTag_def isNumericFamily_def resolveNode_def okE_def del: uint_node_ref)

text \<open>What is known of the node of a literal: its property, and that its bytes lead back to it.\<close>

lemma literal_node:
  assumes "rdf_inv decode g" and "tagged g" and "denotes decode g i (NodeLiteral l)"
  shows "\<exists>r data sv. literal_prop g i = Inr r \<and> literal_data l = Inr (data, sv)
    \<and> to_i32 (p_type r) = to_int32 (from_iri (Some (lit_datatype l))) \<and> fits (lit_datatype l) (p_value r)
    \<and> literal_bytes (propData (pg g)) (p_value r) (lit_datatype l) = Inr data
    \<and> node_from_rdf_literal g (lit_datatype l) data = i"
proof -
  note iv = rdf_invD [OF assms(1)]
  obtain data sv dt where d: "in_range (ids g) i" "at (ids g) i = node_id (NodeLiteral l)" "literal_data l = Inr (data, sv)"
    "lit_ok decode g i (data, dt)" "at (ids g) dt = node_id (NodeIri (lit_datatype l))"
    using assms(3) by (auto simp: denotes_def)
  have ty: "nid_type (at (ids g) i) = NtLiteral" using d(2) by (simp add: node_id_def)
  obtain r where r: "literal_prop g i = Inr r" "dt = to_i32 (p_key r)" "in_range (ids g) dt"
    "literal_bytes (propData (pg g)) (p_value r) (lit_datatype l) = Inr data"
    using d(4,5) unfolding literalKeyFor_iff by (auto simp: node_id_def)
  obtain r' dt' where t: "literal_prop g i = Inr r'" "p_key r' = to_u32 dt'" "first_at (ids g) (at (ids g) dt') = Some dt'"
    "p_type r' = to_u32 (to_int32 (from_iri (Some (nid_iri (at (ids g) dt')))))" "fits (nid_iri (at (ids g) dt')) (p_value r')"
    using assms(2) [unfolded tagged_def, rule_format, OF d(1)] unfolding tag_ok_def if_P [OF ty] by blast
  have "is_i32 dt'" using first_at_Some [OF t(3)] rdf_inv_bound [OF assms(1)] by (auto simp: in_range_def is_i32_def dict_size_def)
  then have e: "r' = r" "dt' = dt" using r(1,2) t(1,2) by simp_all
  have iri: "nid_iri (at (ids g) dt) = lit_datatype l" using d(5) by (simp add: node_id_def)
  have "rg_literals g (data, dt) = Some i" using iv(4) [OF d(1) ty] d(4) by (auto simp: lit_ok_def)
  moreover have "get_safe (rg_nodes g) (NodeIri (lit_datatype l)) = dt"
    using t(3) e(2) d(5) iv(1) by (simp add: get_safe_def dict_ok_def)
  moreover have "0 \<le> dt" using r(3) by (simp add: in_range_def)
  ultimately have "node_from_rdf_literal g (lit_datatype l) data = i" by (simp add: node_from_rdf_literal_def)
  then show ?thesis using r d(3) t(4,5) e iri is_i32_tag by auto
qed

text \<open>The three ways a literal travels: as a number, as a string, and as a reference to its node.\<close>

lemma extracted_bytes:
  assumes p: "node_property M ref = Inr (Some (a, pg g, r))" and t: "from_iri (Some iri) = t" "fst (classifyStorage t) \<noteq> Blob"
    and b: "literal_bytes (propData (pg g)) (p_value r) iri = Inr data" "fits iri (p_value r)" and "length scratch = 8"
  shows "\<exists>bs. extractNumericLiteral M ref (to_int32 t) scratch = Inr bs \<and> length bs = 8
    \<and> (case classifyStorage t of (Inline32, width) \<Rightarrow> take width bs @ replicate (4 - width) 0 | _ \<Rightarrow> bs) = data"
proof -
  have ne: "t \<noteq> T_LangString" "t \<noteq> T_AnyLiteralNode" using t(2) by (auto simp: classifyStorage_def)
  note st = datatype_storage [OF t(1) ne]
  have dec: "from_int32 (to_int32 t) = Some t" using from_iri_decodes t(1) by metis
  show ?thesis
  proof (cases "fst (classifyStorage t) = Inline32")
    case True
    then obtain w where w: "classifyStorage t = (Inline32, w)" "w \<le> 4" by (cases t) (simp_all add: classifyStorage_def)
    have "isInlined iri" using st(2) w(1) by simp
    then have data: "data = u32_bytes (p_value r)" and "0 \<le> p_value r" "p_value r < 256 ^ w"
      using b t(1) w(1) by (simp_all add: literal_bytes_def fits_def)
    moreover have "length (u32_bytes (p_value r)) = 4" by (simp add: u32_bytes_def)
    ultimately show ?thesis
      using p dec w assms(6) inline_bytes [of "p_value r" w] by (simp add: extractNumericLiteral_def copy_to_def min_def)
  next
    case False
    moreover have "length (u64_bytes x) = 8" for x by (simp add: u64_bytes_def)
    moreover have "\<not> isInlined iri" "kindOf iri = kind_of_tag t" using False st(2,3) by simp_all
    ultimately show ?thesis
      using p dec b(1) t(2) assms(6)
      by (cases t) (auto simp: classifyStorage_def kind_of_tag_def literal_bytes_def extractNumericLiteral_def copy_to_def bindE_eq_Inr_iff)
  qed
qed

lemma number_resolves_back:
  assumes "graph_in M a g s" and "0 \<le> i" and "i < nodeCap (base (pg g))" and "length scratch = 8" and "md_from_literal (mm_meta M a) = node_from_rdf_literal g"
    and p: "node_property M (uint (node_ref s i)) = Inr (Some (a, pg g, r))" and ty: "to_i32 (p_type r) = to_int32 t"
    and t: "from_iri (Some iri) = t" "fst (classifyStorage t) \<noteq> Blob"
    and b: "literal_bytes (propData (pg g)) (p_value r) iri = Inr data" "fits iri (p_value r)" "node_from_rdf_literal g iri data = i"
  shows "resolves_back M a scratch slot (node_ref s i) i"
proof -
  have ne: "t \<noteq> T_LangString" "t \<noteq> T_AnyLiteralNode" using t(2) by (auto simp: classifyStorage_def)
  note st = datatype_storage [OF t(1) ne]
  have dec: "from_int32 (to_int32 t) = Some t" using from_iri_decodes t(1) by metis
  have num: "isNumericFamily (to_int32 t)" using t(2) by (cases t) (simp_all add: classifyStorage_def isNumericFamily_def)
  have tn: "to_int32 t \<noteq> to_int32 T_Node" "to_int32 t \<noteq> to_int32 T_AnyIRI" "t \<noteq> T_Unspecified" "\<not> hasNodePayload t"
    "\<not> (t = T_String \<or> t = T_Integer \<or> t = T_Decimal)" "t \<noteq> T_AnyLiteralScalar"
    using t(2) by (cases t, simp_all add: classifyStorage_def hasNodePayload_def)+
  obtain bs where bs: "extractNumericLiteral M (uint (node_ref s i)) (to_int32 t) scratch = Inr bs" "length bs = 8"
    and bk: "(case classifyStorage t of (Inline32, width) \<Rightarrow> take width bs @ replicate (4 - width) 0 | _ \<Rightarrow> bs) = data"
    using extracted_bytes [OF p t b(1,2) assms(4)] by blast
  have "u64_bytes (word_of_int (le_int (take 8 bs))) = bs" using u64_bytes_load [OF bs(2)] bs(2) by simp
  then have "resolveNode M a (to_int32 t) (word_of_int (le_int (take 8 bs))) = Inr i"
    using graph_in_self [OF assms(1)] tn dec st(1) bk b(3) assms(5)
    by (auto simp: resolveNode_def split: prod.splits storage_shape.splits)
  then show ?thesis
    using p ty num bs(1) by (simp add: resolves_back_def createNodeRef_def resolveRefTag_def okE_def del: uint_node_ref)
qed

lemma string_resolves_back:
  assumes "graph_in M a g s" and "0 \<le> i" and "i < nodeCap (base (pg g))" and "md_from_literal (mm_meta M a) = node_from_rdf_literal g"
    and p: "node_property M (uint (node_ref s i)) = Inr (Some (a, pg g, r))" and ty: "to_i32 (p_type r) = to_int32 t"
    and t: "from_iri (Some iri) = t" "t \<in> {T_String, T_Integer, T_Decimal}"
    and b: "literal_bytes (propData (pg g)) (p_value r) iri = Inr (0 # map byte_of_char lx)" "node_from_rdf_literal g iri (0 # map byte_of_char lx) = i"
  shows "resolves_back M a scratch slot (node_ref s i) i"
proof -
  have ne: "t \<noteq> T_LangString" "t \<noteq> T_AnyLiteralNode" using t(2) by auto
  note st = datatype_storage [OF t(1) ne]
  have dec: "from_int32 (to_int32 t) = Some t" using from_iri_decodes t(1) by metis
  have "blob_bytes (propData (pg g)) blob_kind (to_i32 (p_value r)) = Inr (0 # map byte_of_char lx)"
    using b(1) st(2,3) t(2) by (auto simp: literal_bytes_def classifyStorage_def kind_of_tag_def)
  moreover have "split_blob (0 # map byte_of_char lx) = Inr ([], lx)"
    by (simp add: split_blob_def get_at_def in_range_def at_def comp_def)
  ultimately have x: "extractBlobLiteral M (uint (node_ref s i)) = Inr (Str lx)"
    using p by (simp add: extractBlobLiteral_def del: uint_node_ref)
  let ?M = "M\<lparr>mm_strings := (mm_strings M)(uint slot \<mapsto> lx)\<rparr>"
  have "resolveNode ?M a (to_int32 t) slot = Inr i"
    using graph_in_self [OF assms(1)] t(2) dec st(1) b(2) assms(4) by (auto simp: resolveNode_def hasNodePayload_def string_at_def)
  then show ?thesis
    using p ty t(2) x by (auto simp: resolves_back_def createNodeRef_def resolveRefTag_def okE_def isNumericFamily_def isByteString_def simp del: uint_node_ref)
qed

lemma reference_resolves_back:
  assumes "graph_in M a g s" and "0 \<le> i" and "i < nodeCap (base (pg g))"
    and p: "node_property M (uint (node_ref s i)) = Inr (Some (a, pg g, r))" and ty: "to_i32 (p_type r) = to_int32 t"
    and t: "from_iri (Some iri) = t" "fst (classifyStorage t) = Blob" "t \<notin> {T_Unspecified, T_AnyLiteralScalar, T_String, T_Integer, T_Decimal}"
  shows "resolves_back M a scratch slot (node_ref s i) i"
proof -
  have dec: "from_int32 (to_int32 t) = Some t" using from_iri_decodes t(1) by metis
  have n: "\<not> isNumericFamily (to_int32 t)" "\<not> isByteString (to_int32 t)" using t(2,3) by (cases t, simp_all add: isNumericFamily_def isByteString_def classifyStorage_def)+
  have "hasNodePayload t" using t(2,3) by (simp add: hasNodePayload_def)
  moreover have tn: "to_int32 t \<noteq> to_int32 T_Node" "to_int32 t \<noteq> to_int32 T_AnyIRI"
    using dec unfolding from_int32_iff to_int32_inject by auto
  ultimately have "resolveNode M a (to_int32 t) (node_ref s i) = Inr i"
    using graph_in_self [OF assms(1)] resolve_node_ref [OF assms(1-3)] dec t(3)
    by (simp add: resolveNode_def Let_def del: uint_node_ref)
  then show ?thesis
    using p ty n tn by (simp add: resolves_back_def createNodeRef_def resolveRefTag_def okE_def del: uint_node_ref)
qed

lemma literal_resolves_back:
  assumes "graph_in M a g s" and "rdf_inv decode g" and "tagged g" and "denotes decode g i (NodeLiteral l)" and "ordinary (NodeLiteral l)"
    and "md_from_literal (mm_meta M a) = node_from_rdf_literal g" and "length scratch = 8"
  shows "resolves_back M a scratch slot (node_ref s i) i"
proof -
  note dn = denoted_node [OF assms(2,4)]
  define t where "t = from_iri (Some (lit_datatype l))"
  obtain r data sv where r: "literal_prop g i = Inr r" "literal_data l = Inr (data, sv)" "to_i32 (p_type r) = to_int32 t"
    "fits (lit_datatype l) (p_value r)" "literal_bytes (propData (pg g)) (p_value r) (lit_datatype l) = Inr data"
    "node_from_rdf_literal g (lit_datatype l) data = i"
    using literal_node [OF assms(2-4)] unfolding t_def by blast
  note p = node_property_literal [OF assms(1) dn(1,3) r(1)]
  consider "fst (classifyStorage t) \<noteq> Blob" | "t \<in> {T_String, T_Integer, T_Decimal}"
    | "fst (classifyStorage t) = Blob" "t \<notin> {T_Unspecified, T_AnyLiteralScalar, T_String, T_Integer, T_Decimal}"
    using assms(5) by (auto simp: ordinary_def t_def)
  then show ?thesis
  proof cases
    case 1
    then show ?thesis using number_resolves_back [OF assms(1) dn(1,3) assms(7,6) p r(3) t_def [symmetric] _ r(5,4,6)] by blast
  next
    case 2
    then have "lit_lang l = []" "t \<noteq> T_LangString" "t \<noteq> T_AnyLiteralNode" using assms(5) by (auto simp: ordinary_def t_def)
    then have "data = 0 # map byte_of_char (lit_lex l)"
      using r(2) datatype_storage(2,3) [OF t_def [symmetric]] 2
      by (auto simp: literal_data_def bindE_eq_Inr_iff classifyStorage_def kind_of_tag_def)
    then show ?thesis using string_resolves_back [OF assms(1) dn(1,3) assms(6) p r(3) t_def [symmetric] 2] r(5,6) by blast
  next
    case 3
    then show ?thesis using reference_resolves_back [OF assms(1) dn(1,3) p r(3) t_def [symmetric]] by blast
  qed
qed

section \<open>Comparing nodes\<close>

lemma global_number:
  assumes "numbers K x t" and "int (length K) \<le> 2 ^ 32 * int n" and "n \<le> 2 ^ 30"
  shows "to_i64 (to_u64 x) = x"
proof -
  have "0 \<le> x" "x < 2 ^ 32 * 2 ^ 30" using assms by (auto simp: numbers_def in_range_def)
  then show ?thesis by (simp add: to_i64_def to_u64_def)
qed

lemma uid_of_node:
  assumes "graph_in M a g s" and "0 \<le> i" and "i < nodeCap (base (pg g))" and "mm_meta M a = set_id_mapping m md"
    and "get_global m i = Inr x" and "to_i64 (to_u64 x) = x"
  shows "resolveNodeRef M (uint (node_ref s i)) = Inr x"
  using graph_in_ref(1,2) [OF assms(1-3)] assms(4-6) by (simp add: resolveNodeRef_def set_id_mapping_def del: uint_node_ref)

section \<open>Properties\<close>

text \<open>
  C3. Nodes survive the way through a query: for every node of an RDF graph made by adding triples, the variant that the generated code
  creates from a reference to the node is resolved to that node again, whatever the previous content of the scratch buffer: numbers by
  their bits, strings by their text, everything else by the reference.
\<close>

theorem node_survives_variant:
  assumes "made g" and "denotes decode g i n" and "ordinary n" and "graph_in M a g s"
    and "mm_meta M a = rdf_metadata print_iri print_literal code decode g md" and "length scratch = 8"
  shows "\<exists>tag payload M'. createNodeRef M scratch slot (node_ref s i) = Inr ((tag, payload), M') \<and> resolveNode M' a tag payload = Inr i"
proof -
  note iv = made_inv [OF assms(1), of decode] and tg = made_tagged [OF assms(1)]
  note dn = denoted_node [OF iv assms(2)]
  have "resolves_back M a scratch slot (node_ref s i) i"
  proof (cases "\<exists>l. n = NodeLiteral l")
    case True
    then show ?thesis
      using literal_resolves_back [OF assms(4) iv tg] assms(2,3,5,6) by (auto simp: rdf_metadata_def)
  next
    case False
    have "in_range (ids g) i" "nid_type (at (ids g) i) \<noteq> NtLiteral"
      using assms(2) False by (auto simp: denotes_def node_id_type_literal)
    then have "n_payload (at (nodes (base (pg g))) i) = GRAPH_NONE" using tg by (auto simp: tagged_def tag_ok_def)
    then show ?thesis using term_resolves_back [OF assms(4) dn(1,3)] node_property_term [OF assms(4) dn(1,3,4)] by blast
  qed
  then show ?thesis by (auto simp: resolves_back_def okE_iff)
qed

definition two_stores :: "int \<Rightarrow> stores" where
  "two_stores p = \<lparr>node_ptr = p, rel_ptr = 0, prop_ptr = 0\<rparr>"

definition sample_memory :: "rdf_graph \<Rightarrow> metadata \<Rightarrow> metadata \<Rightarrow> memory" where
  "sample_memory g md md' = (let size = nodeCap (base (pg g)) * 16 in
     \<lparr>mm_reg = \<lparr>mem = [(0, size, 2 ^ 63), (size, size, 2 ^ 63 + 1)],
        objs = [2 ^ 63 \<mapsto> PropertyGraph (pg g) (two_stores 0), 2 ^ 63 + 1 \<mapsto> PropertyGraph (pg g) (two_stores size)], cleanups = []\<rparr>,
      mm_meta = (\<lambda>a. if a = 2 ^ 63 then md else md'), mm_strings = Map.empty\<rparr>)"

lemma sample_graph_in:
  assumes "made g"
  shows "graph_in (sample_memory g md md') (2 ^ 63) g (two_stores 0)"
    and "graph_in (sample_memory g md md') (2 ^ 63 + 1) g (two_stores (nodeCap (base (pg g)) * 16))"
proof -
  have "0 \<le> nodeCap (base (pg g))" "nodeCap (base (pg g)) < 2 ^ 31"
    using rdf_invD(2) [OF made_inv [OF assms]] by (auto simp: pg_wf_def)
  then show "graph_in (sample_memory g md md') (2 ^ 63) g (two_stores 0)"
    "graph_in (sample_memory g md md') (2 ^ 63 + 1) g (two_stores (nodeCap (base (pg g)) * 16))"
    by (auto simp: graph_in_def registered_def sample_memory_def two_stores_def Let_def mem_ok_def range_of_def)
qed

lemma sample_ordinary: "ordinary (NodeLiteral sample_literal)"
  using from_iri_xsd [of T_Int "''int''"] by (simp add: ordinary_def sample_literal_def xsd_names_def)

theorem node_survives_variant_witness:
  "\<exists>g i tag payload M'. denotes sample_decode g i (NodeLiteral sample_literal)
    \<and> createNodeRef (sample_memory g (rdf_metadata id (\<lambda>_. []) sample_code sample_decode g new_metadata) new_metadata) (replicate 8 255) 0
        (node_ref (two_stores 0) i) = Inr ((tag, payload), M')
    \<and> resolveNode M' (2 ^ 63) tag payload = Inr i"
proof -
  obtain g i where g: "made g" "denotes sample_decode g i (NodeLiteral sample_literal)" using sample_made by blast
  let ?md = "rdf_metadata id (\<lambda>_. []) sample_code sample_decode g new_metadata"
  have "mm_meta (sample_memory g ?md new_metadata) (2 ^ 63) = ?md" by (simp add: sample_memory_def Let_def)
  from node_survives_variant [OF g sample_ordinary sample_graph_in(1) [OF g(1), of ?md new_metadata] this, of "replicate 8 255" 0]
  obtain tag payload M' where "createNodeRef (sample_memory g ?md new_metadata) (replicate 8 255) 0 (node_ref (two_stores 0) i) = Inr ((tag, payload), M')"
    "resolveNode M' (2 ^ 63) tag payload = Inr i" by auto
  with g(2) show ?thesis by blast
qed

text \<open>
  C13. Comparing nodes of different graphs: with the metadata that the node index installs, \<open>compareNodeRefRef\<close> with the predicate for equality
  says that two nodes are equal exactly when they stand for the same IRI or for literals with the same datatype and bytes,
  and with the one for inequality the opposite.
\<close>

theorem node_comparison_identifies_terms:
  assumes "\<forall>e \<in> set es. made (snd e)" and "distinct (map index_key es)" and "build decode es = Inr index" and "length es \<le> 2 ^ 30"
    and "k < length es" and "l < length es" and "denotes decode (snd (es ! k)) i n" and "denotes decode (snd (es ! l)) j n'"
    and "graph_in M a (snd (es ! k)) s" and "graph_in M b (snd (es ! l)) s'"
    and "getIndex index (index_key (es ! k)) = Inr m" and "mm_meta M a = set_id_mapping m md"
    and "getIndex index (index_key (es ! l)) = Inr m'" and "mm_meta M b = set_id_mapping m' md'"
  shows "compareNodeRefRef M (uint (node_ref s i)) (uint (node_ref s' j)) 0 = Inr (of_bool (same_term (k, i, n) (l, j, n')))
    \<and> compareNodeRefRef M (uint (node_ref s i)) (uint (node_ref s' j)) 1 = Inr (of_bool (\<not> same_term (k, i, n) (l, j, n')))"
proof -
  obtain K where len: "int (length K) \<le> 2 ^ 32 * int (length es)" and K: "distinct K" "\<And>k i n. k < length es \<Longrightarrow> denotes decode (snd (es ! k)) i n \<Longrightarrow>
      \<exists>m x. getIndex index (index_key (es ! k)) = Inr m \<and> get_global m i = Inr x \<and> numbers K x (global_term decode k (snd (es ! k)) i)"
    using index_numbers [OF assms(1,2), of decode] unfolding assms(3) sum.inject by blast
  obtain x where x: "get_global m i = Inr x" "numbers K x (global_term decode k (snd (es ! k)) i)" using K(2) [OF assms(5,7)] assms(11) by auto
  obtain y where y: "get_global m' j = Inr y" "numbers K y (global_term decode l (snd (es ! l)) j)" using K(2) [OF assms(6,8)] assms(13) by auto
  have "rdf_inv decode (snd (es ! k))" "rdf_inv decode (snd (es ! l))" using assms(1,5,6) made_inv by simp_all
  note dn = denoted_node(1,3) [OF this(1) assms(7)] denoted_node(1,3) [OF this(2) assms(8)]
  have "x = y \<longleftrightarrow> same_term (k, i, n) (l, j, n')"
    using numbers_inj [OF K(1)] numbers_functional same_global_term [OF assms(7,8), of k l] x(2) y(2) by metis
  moreover have "resolveNodeRef M (uint (node_ref s i)) = Inr x"
    using uid_of_node [OF assms(9) dn(1,2) assms(12) x(1)] global_number [OF x(2) len assms(4)] by blast
  moreover have "resolveNodeRef M (uint (node_ref s' j)) = Inr y"
    using uid_of_node [OF assms(10) dn(3,4) assms(14) y(1)] global_number [OF y(2) len assms(4)] by blast
  ultimately show ?thesis by (simp add: compareNodeRefRef_def cmp_switch_def del: uint_node_ref)
qed

theorem node_comparison_identifies_terms_witness:
  "\<exists>g i m m'. denotes sample_decode g i (NodeLiteral sample_literal)
    \<and> compareNodeRefRef (sample_memory g (set_id_mapping m new_metadata) (set_id_mapping m' new_metadata))
        (uint (node_ref (two_stores 0) i)) (uint (node_ref (two_stores (nodeCap (base (pg g)) * 16)) i)) 0 = Inr 1"
proof -
  obtain g i where g: "made g" and i: "denotes sample_decode g i (NodeLiteral sample_literal)" using sample_made by blast
  let ?es = "[(''x'', g), (''y'', g)]"
  have es: "\<forall>e \<in> set ?es. made (snd e)" "distinct (map index_key ?es)" "length ?es \<le> 2 ^ 30" "0 < length ?es" "1 < length ?es"
    using g by (simp_all add: index_key_def)
  obtain index m m' where x: "build sample_decode ?es = Inr index" "getIndex index (index_key (?es ! 0)) = Inr m"
      "getIndex index (index_key (?es ! 1)) = Inr m'"
    using index_numbers [OF es(1,2), of sample_decode] i es(4,5) by (fastforce dest: spec [of _ 0] spec [of _ 1])
  let ?M = "sample_memory g (set_id_mapping m new_metadata) (set_id_mapping m' new_metadata)"
  have md: "mm_meta ?M (2 ^ 63) = set_id_mapping m new_metadata" "mm_meta ?M (2 ^ 63 + 1) = set_id_mapping m' new_metadata"
    by (simp_all add: sample_memory_def Let_def)
  note gi = sample_graph_in [OF g, of "set_id_mapping m new_metadata" "set_id_mapping m' new_metadata"]
  have "same_term (0, i, NodeLiteral sample_literal) (1, i, NodeLiteral sample_literal)" by (simp add: same_term_def)
  then have "compareNodeRefRef ?M (uint (node_ref (two_stores 0) i)) (uint (node_ref (two_stores (nodeCap (base (pg g)) * 16)) i)) 0 = Inr 1"
    using node_comparison_identifies_terms [of ?es sample_decode index 0 1 i "NodeLiteral sample_literal" i "NodeLiteral sample_literal" ?M "2 ^ 63"
        "two_stores 0" "2 ^ 63 + 1" "two_stores (nodeCap (base (pg g)) * 16)" m new_metadata m' new_metadata] es x i md gi by simp
  with i show ?thesis by blast
qed

definition flip :: "ordering \<Rightarrow> ordering" where
  "flip d = (case d of Before \<Rightarrow> After | Same \<Rightarrow> Same | After \<Rightarrow> Before)"

text \<open>
  C38. The order of the variants is symmetric as long as the order of the literals is: comparing in the other direction fails in the same cases or
  gives the opposite sign.
\<close>

theorem compareOrder_antisymmetric:
  assumes "\<forall>x y. rl_order L y x = flip (rl_order L x y)" and "compareOrder L code M p t p' t' = Inr c"
  shows "compareOrder L code M p' t' p t = Inr (- c)"
proof -
  have "sint p = sint p' \<Longrightarrow> p = p'" using signed_word_eqI by blast
  then have w: "\<not> sint p < sint p' \<Longrightarrow> p \<noteq> p' \<Longrightarrow> sint p' < sint p" by linarith
  show ?thesis
  proof (cases "t = to_int32 T_Edge \<or> t' = to_int32 T_Edge")
    case True
    then show ?thesis using assms(2) w by (auto simp: compareOrder_def split: if_splits)
  next
    case False
    then obtain r r' where r: "rankOf code M (t = to_int32 T_Node) p = Inr r" "rankOf code M (t' = to_int32 T_Node) p' = Inr r'"
      using assms(2) by (auto simp: compareOrder_def Let_def bindE_eq_Inr_iff simp del: to_int32.simps)
    show ?thesis
    proof (cases "r = 2 \<and> r' = 2")
      case lit: True
      obtain x y where xy: "reconstructLiteral L M p t = Inr x" "reconstructLiteral L M p' t' = Inr y"
        using assms(2) False r lit by (auto simp: compareOrder_def Let_def bindE_eq_Inr_iff simp del: to_int32.simps)
      then show ?thesis
        using assms(2) False r lit assms(1) [rule_format, of "the y" "the x"]
        by (cases x; cases y; cases "rl_order L (the x) (the y)") (simp_all add: compareOrder_def Let_def flip_def del: to_int32.simps)
    next
      case trm: False
      show ?thesis
      proof (cases "r = r'")
        case True
        then obtain x y where "node_name M (uint p) = Inr x" "node_name M (uint p') = Inr y"
          using assms(2) False r trm by (auto simp: compareOrder_def Let_def bindE_eq_Inr_iff simp del: to_int32.simps)
        then show ?thesis
          using assms(2) False r trm True
          by (cases x y rule: linorder_cases) (simp_all add: compareOrder_def Let_def del: to_int32.simps split: if_splits)
      qed (use assms(2) False r trm in \<open>auto simp: compareOrder_def Let_def simp del: to_int32.simps split: if_splits\<close>)
    qed
  qed
qed

text \<open>A library whose literals are integers, ordered by size.\<close>

definition int_lib :: "int rdf_lib" where
  "int_lib = \<lparr>rl_null = (\<lambda>_. False), rl_make_null = 0, rl_make_typed = (\<lambda>_ _. Inr 0), rl_make_lang = (\<lambda>_ _. Inr 0),
     rl_from_value = (\<lambda>t v. case v of AnyI32 x \<Rightarrow> x | _ \<Rightarrow> 0), rl_value = (\<lambda>t x. AnyI32 x), rl_datatype = (\<lambda>_. XSD @ ''int''),
     rl_lex = int_to_string, rl_lang = (\<lambda>_. []), rl_print = int_to_string,
     rl_eq = (\<lambda>x y. if x = y then TriTrue else TriFalse), rl_ne = (\<lambda>x y. if x \<noteq> y then TriTrue else TriFalse),
     rl_lt = (\<lambda>x y. if x < y then TriTrue else TriFalse), rl_le = (\<lambda>x y. if x \<le> y then TriTrue else TriFalse),
     rl_gt = (\<lambda>x y. if x > y then TriTrue else TriFalse), rl_ge = (\<lambda>x y. if x \<ge> y then TriTrue else TriFalse),
     rl_add = (\<lambda>x y. Inr (x + y)), rl_sub = (\<lambda>x y. Inr (x - y)), rl_mul = (\<lambda>x y. Inr (x * y)), rl_div = (\<lambda>x y. Inl InvalidArgument),
     rl_order = (\<lambda>x y. if x < y then Before else if x = y then Same else After), rl_cast = (\<lambda>x _. x), rl_as_double = (\<lambda>_. None),
     rl_lang_matches = (\<lambda>_ _. False)\<rparr>"

lemma int_lib_literal: "reconstructLiteral int_lib M p (to_int32 T_Int) = Inr (Some (sint (ucast p :: 32 word)))"
proof -
  have "from_int32 (to_int32 T_Int) = Some T_Int" by (simp add: from_int32_iff)
  then show ?thesis
    by (simp add: reconstructLiteral_def getLiteralFromNumeric_def numeric_value_def classifyStorage_def int_lib_def del: to_int32.simps)
qed

definition empty_memory :: memory where
  "empty_memory = \<lparr>mm_reg = \<lparr>mem = [], objs = Map.empty, cleanups = []\<rparr>, mm_meta = (\<lambda>_. new_metadata), mm_strings = Map.empty\<rparr>"

theorem compareOrder_antisymmetric_witness:
  "compareOrder int_lib sample_code empty_memory 3 (to_int32 T_Int) 5 (to_int32 T_Int) = Inr (- 1)
   \<and> compareOrder int_lib sample_code empty_memory 5 (to_int32 T_Int) 3 (to_int32 T_Int) = Inr 1"
proof -
  have before: "compareOrder int_lib sample_code empty_memory 3 (to_int32 T_Int) 5 (to_int32 T_Int) = Inr (- 1)"
    using int_lib_literal [of empty_memory 3] int_lib_literal [of empty_memory 5] by (simp add: compareOrder_def rankOf_def int_lib_def)
  have "\<forall>x y. rl_order int_lib y x = flip (rl_order int_lib x y)" by (simp add: int_lib_def flip_def)
  from compareOrder_antisymmetric [OF this before] before show ?thesis by simp
qed

text \<open>
  C39. It is no order on all variants, though: an unbound variant is equal to every literal, while literals differ among themselves.
\<close>

theorem unbound_equals_every_literal:
  assumes "reconstructLiteral L M p t = Inr (Some x)" and "reconstructLiteral L M p' t' = Inr (Some y)" and "rl_order L x y = Before"
    and "t \<notin> {to_int32 T_Node, to_int32 T_Edge}" and "t' \<notin> {to_int32 T_Node, to_int32 T_Edge}"
  shows "compareOrder L code M p t 0 (to_int32 T_Unspecified) = Inr 0 \<and> compareOrder L code M 0 (to_int32 T_Unspecified) p' t' = Inr 0
    \<and> compareOrder L code M p t p' t' = Inr (- 1)"
proof -
  have "from_int32 0 = Some T_Unspecified" by (simp add: from_int32_iff)
  then have "reconstructLiteral L M q 0 = Inr None" for q by (simp add: reconstructLiteral_def)
  then show ?thesis using assms by (simp add: compareOrder_def rankOf_def)
qed

theorem unbound_equals_every_literal_witness:
  "compareOrder int_lib sample_code empty_memory 3 (to_int32 T_Int) 0 (to_int32 T_Unspecified) = Inr 0"
  using unbound_equals_every_literal [OF int_lib_literal [of empty_memory 3] int_lib_literal [of empty_memory 5], of sample_code]
  by (simp add: int_lib_def)

end
