(* ===== verification/Graph_Data.thy ===== *)
theory Graph_Data
  imports Variant Catalog_Store
begin

text \<open>
  The entry points through which generated code gets graphs and prints their parts (the rest of
  \<open>src/src/gengodb/runtime/GraphData.cpp\<close>): the built-in sample graphs, empty graphs, a graph of the catalog, and the printed form
  of properties, nodes and relationships.  The address of a new object and of its stores are arguments.
\<close>

section \<open>Graphs for generated code\<close>

text \<open>A call whose result is not used, and calls in a row.\<close>

definition discard :: "('a \<times> 's) res \<Rightarrow> 's res" where
  "discard r = bindE r (\<lambda>(_, s). Inr s)"

primrec timesE :: "nat \<Rightarrow> ('s \<Rightarrow> 's res) \<Rightarrow> 's \<Rightarrow> 's res" where
  "timesE 0 f s = Inr s"
| "timesE (Suc n) f s = bindE (f s) (timesE n f)"

definition alignment_sample :: "align_graph res" where
  "alignment_sample =
     bindE (mk_alignGraph 16 256) (\<lambda>g.
     bindE (timesE 5 (\<lambda>g. discard (align_addNode g)) g) (\<lambda>g.
     foldE (\<lambda>g (a, b). discard (align_addRelationship g a b)) g [(0, 1), (1, 2), (2, 4), (3, 4), (4, 1), (0, 3)]))"

definition property_sample :: "pgraph res" where
  "property_sample =
     bindE (mk_pgraph 16 256 256) (\<lambda>g.
     bindE (timesE 6 (\<lambda>g. discard (pg_addNode g)) g) (\<lambda>g.
     bindE (foldE (\<lambda>g (a, b). discard (pg_addRelationship g a b 0)) g [(0, 2), (1, 0), (1, 2), (1, 4), (2, 4), (2, 3)]) (\<lambda>g.
     bindE (foldE (\<lambda>g (n, key, t, value). discard (addNodeProperty g n key (to_int32 t) value)) g
       [(0, 0, T_Int, 424), (1, 11, T_Int, 100), (1, 11, T_Short, 101), (1, 11, T_Boolean, 0xffffffff), (2, 22, T_Int, 200),
        (3, 33, T_Int, 300), (5, 55, T_Int, 501), (5, 55, T_Int, 502)]) (\<lambda>g.
     foldE (\<lambda>g (r, key, t, value). discard (addRelProperty g r key t value)) g
       [(0, 0, 0, 4242), (1, 11, 11, 1000), (2, 22, 22, 2000), (3, 33, 33, 3000)]))))"

definition simple_sample :: "simple_graph res" where
  "simple_sample =
     bindE (mk_simpleGraph 16 256) (\<lambda>g.
     bindE (timesE 6 (\<lambda>g. discard (sg_addNode g 0)) g) (\<lambda>g.
     bindE (foldE (\<lambda>g (a, b). discard (sg_addRelationship g a b 0)) g [(0, 2), (1, 0), (1, 2), (1, 4), (2, 4), (2, 3)]) (\<lambda>g.
     bindE (foldE (\<lambda>g (r, v). setRelValue g r v) g [(0, 4242), (1, 111), (2, 222), (3, 333), (4, 444), (5, 555)]) (\<lambda>g.
     foldE (\<lambda>g (n, v). setNodeValue g n v) g [(0, 42), (1, 11), (2, 22), (3, 33), (4, 44), (5, 55)]))))"

definition new_object :: "registry \<Rightarrow> int \<Rightarrow> builtin \<Rightarrow> registry" where
  "new_object R this b = R\<lparr>objs := (objs R)(this \<mapsto> b)\<rparr>"

definition allocAndPopulateBuiltinGraph :: "registry \<Rightarrow> int \<Rightarrow> stores \<Rightarrow> int \<Rightarrow> registry res" where
  "allocAndPopulateBuiltinGraph R this s builtin =
     (if builtin = 1 then bindE alignment_sample (\<lambda>g. Inr (align_register (new_object R this (AlignmentGraph g s)) this g s))
      else if builtin = 2 then bindE property_sample (\<lambda>g. Inr (pg_register (new_object R this (PropertyGraph g s)) this g s))
      else bindE simple_sample (\<lambda>g. Inr (sg_register (new_object R this (SimpleGraph g s)) this g s)))"

definition allocPropertyGraphState :: "registry \<Rightarrow> int \<Rightarrow> stores \<Rightarrow> int \<Rightarrow> int \<Rightarrow> int \<Rightarrow> registry res" where
  "allocPropertyGraphState R this s nodeBufLen relBufLen propBufLen =
     bindE (mk_pgraph (to_i32 nodeBufLen) (to_i32 relBufLen) (to_i32 propBufLen)) (\<lambda>g.
     Inr (pg_register (new_object R this (PropertyGraph g s)) this g s))"

definition allocSimpleGraphState :: "registry \<Rightarrow> int \<Rightarrow> stores \<Rightarrow> int \<Rightarrow> int \<Rightarrow> registry res" where
  "allocSimpleGraphState R this s nodeBufLen relBufLen =
     bindE (mk_simpleGraph (to_i32 nodeBufLen) (to_i32 relBufLen)) (\<lambda>g.
     Inr (sg_register (new_object R this (SimpleGraph g s)) this g s))"

text \<open>
  A graph of the catalog is loaded, marked as persisting and registered.  Its storage object has a fixed address, here the argument \<open>this\<close>.
\<close>

definition getGraph ::
  "(int \<Rightarrow> node_type) \<Rightarrow> (string \<Rightarrow> quad_item list) \<Rightarrow> (string \<Rightarrow> quad_item list) \<Rightarrow> file_system \<Rightarrow> db_entry catalog \<Rightarrow> registry \<Rightarrow> int \<Rightarrow> stores
    \<Rightarrow> string \<Rightarrow> string \<Rightarrow> (registry \<times> db_entry catalog) res option" where
  "getGraph decode parse parse_file fs c R this s name iri = (case entries c name of
       Some (GraphEntry e) \<Rightarrow>
         bindOE (entry_ensureFullyLoaded decode parse parse_file fs e) (\<lambda>e.
         if rg_iri (re_graph e) \<noteq> iri then Some (Inl (RuntimeError ''Found graph record but IRIs do not match!''))
         else let p = (pg (re_graph e))\<lparr>persists := True\<rparr> in
           Some (Inr (pg_register (new_object R this (PropertyGraph p s)) this p s,
             c\<lparr>entries := (entries c)(name \<mapsto> GraphEntry (e\<lparr>re_graph := set_pg (re_graph e) p\<rparr>))\<rparr>)))
     | _ \<Rightarrow> Some (Inl (RuntimeError ''could not find graph'')))"

section \<open>Printing\<close>

definition prop_entry_at :: "memory \<Rightarrow> int \<Rightarrow> (int \<times> pgraph \<times> prop_record) res" where
  "prop_entry_at M ref = bindE (propertyGraphOf M ref) (\<lambda>a. bindE (pgraph_at M a) (\<lambda>(g, s).
     bindE (deref (props g) (prop_ptr s) sizeof_prop ref) (\<lambda>p. Inr (a, g, p))))"

definition lookupStr :: "memory \<Rightarrow> int \<Rightarrow> string res" where
  "lookupStr M ref = bindE (prop_entry_at M ref) (\<lambda>(a, g, p).
     if p_type p \<noteq> to_int32 T_String then Inr []
     else bindE (blob_bytes (propData g) blob_kind (to_i32 (p_value p))) (\<lambda>data. Inr (map char_of_byte data)))"

text \<open>The name of the type with the printed value in parentheses.\<close>

definition from_inlined :: "xsd_type \<Rightarrow> string \<Rightarrow> string res" where
  "from_inlined t printed = bindE (to_string t) (\<lambda>name. Inr (name @ ''('' @ printed @ '')''))"

definition from_bool :: "int \<Rightarrow> string" where
  "from_bool value = ''boolean('' @ (if low_unsigned 8 value \<noteq> 0 then ''true'' else ''false'') @ '')''"

definition print_inlined :: "xsd_type \<Rightarrow> int \<Rightarrow> string res" where
  "print_inlined t value =
     (if t = T_Boolean then Inr (from_bool value)
      else if t = T_Float then from_inlined t (float_to_string (low_unsigned 32 value))
      else if t = T_Int then from_inlined t (int_to_string (low_unsigned 32 value))
      else if t = T_Short then from_inlined t (int_to_string (low_signed 16 value))
      else if t = T_Byte then from_inlined t (int_to_string (low_signed 8 value))
      else if t = T_UnsignedInt then from_inlined t (int_to_string (low_signed 32 value))
      else if t = T_UnsignedShort then from_inlined t (int_to_string (low_unsigned 16 value))
      else if t = T_UnsignedByte then from_inlined t (int_to_string (low_unsigned 8 value))
      else Inr ''<<UNKNOWN TYPE>>'')"

definition fromProp :: "memory \<Rightarrow> int \<Rightarrow> string res" where
  "fromProp M ref = bindE (prop_entry_at M ref) (\<lambda>(a, g, p).
     case from_int32 (to_i32 (p_type p)) of
       None \<Rightarrow> Inl (AssertFail ''should not happen'')
     | Some t \<Rightarrow> print_inlined t (p_value p))"

definition fromNode :: "memory \<Rightarrow> int \<Rightarrow> string res" where
  "fromNode M ref = node_name M ref"

definition fromRel :: "memory \<Rightarrow> int \<Rightarrow> string res" where
  "fromRel M ref = bindE (propertyGraphOf M ref) (\<lambda>a. bindE (rel_entry_at M ref) (\<lambda>r. md_name (mm_meta M a) (typeId r)))"

section \<open>The sample graphs\<close>

text \<open>The graphs without properties are made, with the nodes and relationships the calls ask for.\<close>

lemma samples_made:
  "okE (\<lambda>g. nodeMark g = 5 \<and> relMark g = 6) alignment_sample"
  "okE (\<lambda>g. nodeMark g = 6 \<and> relMark g = 6) simple_sample"
  by code_simp+

section \<open>Properties\<close>

text \<open>The printed form of a property whose value is the lexical form \<open>lx\<close>.\<close>

definition printed_as :: "xsd_type \<Rightarrow> string \<Rightarrow> string res \<Rightarrow> bool" where
  "printed_as t lx r \<longleftrightarrow> (\<exists>name. to_string t = Inr name \<and> r = Inr (name @ ''('' @ lx @ '')''))"

lemma inlined_names:
  "to_string T_Boolean = Inr ''boolean''" "to_string T_Float = Inr ''float''" "to_string T_Int = Inr ''int''" "to_string T_Short = Inr ''short''"
  "to_string T_Byte = Inr ''byte''" "to_string T_UnsignedInt = Inr ''unsignedInt''" "to_string T_UnsignedShort = Inr ''unsignedShort''"
  "to_string T_UnsignedByte = Inr ''unsignedByte''"
  by code_simp+

text \<open>
  C40. How an inlined property is printed: values of the types boolean, float, byte, short, unsignedByte and unsignedShort by their lexical form, but
  an int as if it were unsigned and an unsignedInt as if it were signed.
\<close>

theorem inlined_properties_printed:
  assumes "prop_entry_at M ref = Inr (a, g, p)" and "to_i32 (p_type p) = to_int32 t"
  shows "(\<forall>name lx. to_string t = Inr name \<and> t \<in> {T_Boolean, T_Float, T_Byte, T_Short, T_UnsignedByte, T_UnsignedShort}
        \<and> toLexicalForm (p_value p) (XSD @ name) = Inr lx \<longrightarrow> printed_as t lx (fromProp M ref))
    \<and> (t = T_Int \<longrightarrow> printed_as t (int_to_string (low_unsigned 32 (p_value p))) (fromProp M ref))
    \<and> (t = T_UnsignedInt \<longrightarrow> printed_as t (int_to_string (low_signed 32 (p_value p))) (fromProp M ref))"
proof -
  have "fromProp M ref = print_inlined t (p_value p)" if "t \<notin> {T_Node, T_AnyIRI, T_Edge}"
    using that assms by (simp add: fromProp_def from_int32_iff [THEN iffD2])
  then show ?thesis
    by (cases t) (auto simp: print_inlined_def printed_as_def from_inlined_def from_bool_def toLexicalForm_def inlined_names)
qed

text \<open>A graph with one property, the int minus one.\<close>

definition minus_one :: "pgraph \<Rightarrow> memory" where
  "minus_one g = \<lparr>mm_reg = \<lparr>mem = [(0, 24, 2 ^ 63)], objs = [2 ^ 63 \<mapsto> PropertyGraph (g\<lparr>props := [\<lparr>nextPropId = - 1, prevPropId = - 1,
        p_key = 0, p_type = to_int32 T_Int, p_value = 2 ^ 32 - 1, p_inUse = True\<rparr>]\<rparr>) \<lparr>node_ptr = 0, rel_ptr = 0, prop_ptr = 0\<rparr>], cleanups = []\<rparr>,
     mm_meta = (\<lambda>_. new_metadata), mm_strings = Map.empty\<rparr>"

theorem inlined_properties_printed_witness:
  "\<forall>g. fromProp (minus_one g) 0 = Inr (''int('' @ int_to_string (2 ^ 32 - 1) @ '')'')"
proof
  fix g
  obtain q p where p: "prop_entry_at (minus_one g) 0 = Inr (2 ^ 63, q, p)" "p_value p = 2 ^ 32 - 1" "to_i32 (p_type p) = to_int32 T_Int"
    by (simp add: prop_entry_at_def minus_one_def propertyGraphOf_def graphPtr_def lookupGraph_def pgraph_at_def deref_def get_at_def in_range_def
        at_def to_i32_def)
  show "fromProp (minus_one g) 0 = Inr (''int('' @ int_to_string (2 ^ 32 - 1) @ '')'')"
    using inlined_properties_printed [OF p(1,3)] p(2) by (simp add: printed_as_def inlined_names low_unsigned_def)
qed

end
