(* ===== verification/Serial_Types.thy ===== *)
theory Serial_Types
  imports Serialization
begin

text \<open>
  The types that LingoDB's serialisation framework accepts (\<open>src/include/lingodb/utility/Serialization.h\<close>), as a datatype, and the
  choice of the overload of \<open>writeValue\<close> and the specialisation of \<open>read\<close> by the type, as recursion over it.  It makes the
  statements about all nestings of the templates possible: what was written is read back, and truncated data is reported.
\<close>

section \<open>Types and values\<close>

text \<open>
  An object is a class with \<open>serialize\<close> and \<open>deserialize\<close>: the numbers and types of the properties it writes and reads, in order.  A pointer, unique
  or shared, points to an object.  A scoped enumeration is its underlying integer, of two bytes (\<open>True\<close>) or of one.
\<close>

datatype sty = TyBool | TyU8 | TyU16 | TyInt | TyFloat | TyDouble | TySize | TyI64 | TyString | TyEnum bool
  | TyOptional sty | TyVector sty | TyPair sty sty | TyMap sty sty | TyObject "(int \<times> sty) list" | TyPtr "(int \<times> sty) list"

text \<open>Floats and doubles are their bits; a hash table is its entries in the order of iteration.\<close>

datatype sval = VBool bool | VInt int | VDouble "64 word" | VString string | VOptional "sval option" | VVector "sval list"
  | VPair sval sval | VMap "(sval \<times> sval) list" | VObject "sval list"

text \<open>The key types of hash tables in use: comparing keys is comparing bits.\<close>

definition key_type :: "sty \<Rightarrow> bool" where
  "key_type t \<longleftrightarrow> (case t of TyBool \<Rightarrow> True | TyU8 \<Rightarrow> True | TyU16 \<Rightarrow> True | TyInt \<Rightarrow> True | TySize \<Rightarrow> True | TyI64 \<Rightarrow> True | TyString \<Rightarrow> True
     | TyEnum _ \<Rightarrow> True | _ \<Rightarrow> False)"

definition fields_of :: "(int \<times> (sval \<Rightarrow> bool)) list \<Rightarrow> sval list \<Rightarrow> bool" where
  "fields_of fs vs \<longleftrightarrow> list_all2 (\<lambda>(i, ok) v. 0 \<le> i \<and> i < 2 ^ 16 \<and> ok v) fs vs"

primrec wt :: "sty \<Rightarrow> sval \<Rightarrow> bool" where
  "wt TyBool v = (\<exists>b. v = VBool b)"
| "wt TyU8 v = (\<exists>x. v = VInt x \<and> 0 \<le> x \<and> x < 2 ^ 8)"
| "wt TyU16 v = (\<exists>x. v = VInt x \<and> 0 \<le> x \<and> x < 2 ^ 16)"
| "wt TyInt v = (\<exists>x. v = VInt x \<and> is_i32 x)"
| "wt TyFloat v = (\<exists>x. v = VInt x \<and> is_u32 x)"
| "wt TyDouble v = (\<exists>x. v = VDouble x)"
| "wt TySize v = (\<exists>x. v = VInt x \<and> 0 \<le> x \<and> x < 2 ^ 64)"
| "wt TyI64 v = (\<exists>x. v = VInt x \<and> is_i64 x)"
| "wt TyString v = (\<exists>s. v = VString s \<and> len64 s)"
| "wt (TyEnum wide) v = (\<exists>x. v = VInt x \<and> 0 \<le> x \<and> x < (if wide then 2 ^ 16 else 2 ^ 8))"
| "wt (TyOptional t) v = (\<exists>x. v = VOptional x \<and> pred_option (wt t) x)"
| "wt (TyVector t) v = (\<exists>xs. v = VVector xs \<and> list_all (wt t) xs \<and> len64 xs)"
| "wt (TyPair a b) v = (\<exists>x y. v = VPair x y \<and> wt a x \<and> wt b y)"
| "wt (TyMap k t) v = (\<exists>m. v = VMap m \<and> key_type k \<and> list_all (\<lambda>(x, y). wt k x \<and> wt t y) m \<and> distinct (map fst m) \<and> len64 m)"
| "wt (TyObject fs) v = (\<exists>vs. v = VObject vs \<and> fields_of (map (map_prod id wt) fs) vs)"
| "wt (TyPtr fs) v = (\<exists>x. v = VOptional x \<and> pred_option (\<lambda>w. \<exists>vs. w = VObject vs \<and> fields_of (map (map_prod id wt) fs) vs) x)"

section \<open>Writing\<close>

primrec the_fields :: "sval \<Rightarrow> sval list" where
  "the_fields (VObject vs) = vs"

text \<open>The body of \<open>serialize\<close>: its properties, one after the other.\<close>

definition ser_fields :: "(int \<times> (sval \<Rightarrow> byte list)) list \<Rightarrow> sval list \<Rightarrow> byte list" where
  "ser_fields fs vs = concat (map (\<lambda>((i, wr), v). writeProperty i wr v) (zip fs vs))"

primrec ser_val :: "sty \<Rightarrow> sval \<Rightarrow> byte list" where
  "ser_val TyBool = (\<lambda>v. case v of VBool b \<Rightarrow> ser_bool b | _ \<Rightarrow> [])"
| "ser_val TyU8 = (\<lambda>v. case v of VInt x \<Rightarrow> ser_u8 x | _ \<Rightarrow> [])"
| "ser_val TyU16 = (\<lambda>v. case v of VInt x \<Rightarrow> ser_u16 x | _ \<Rightarrow> [])"
| "ser_val TyInt = (\<lambda>v. case v of VInt x \<Rightarrow> ser_int x | _ \<Rightarrow> [])"
| "ser_val TyFloat = (\<lambda>v. case v of VInt x \<Rightarrow> ser_float x | _ \<Rightarrow> [])"
| "ser_val TyDouble = (\<lambda>v. case v of VDouble x \<Rightarrow> ser_double x | _ \<Rightarrow> [])"
| "ser_val TySize = (\<lambda>v. case v of VInt x \<Rightarrow> ser_size x | _ \<Rightarrow> [])"
| "ser_val TyI64 = (\<lambda>v. case v of VInt x \<Rightarrow> ser_i64 x | _ \<Rightarrow> [])"
| "ser_val TyString = (\<lambda>v. case v of VString s \<Rightarrow> ser_string s | _ \<Rightarrow> [])"
| "ser_val (TyEnum wide) = (\<lambda>v. case v of VInt x \<Rightarrow> ser_enum wide (\<lambda>x. x) x | _ \<Rightarrow> [])"
| "ser_val (TyOptional t) = (\<lambda>v. case v of VOptional x \<Rightarrow> ser_opt (ser_val t) x | _ \<Rightarrow> [])"
| "ser_val (TyVector t) = (\<lambda>v. case v of VVector xs \<Rightarrow> ser_vec (ser_val t) xs | _ \<Rightarrow> [])"
| "ser_val (TyPair a b) = (\<lambda>v. case v of VPair x y \<Rightarrow> ser_pair (ser_val a) (ser_val b) (x, y) | _ \<Rightarrow> [])"
| "ser_val (TyMap k t) = (\<lambda>v. case v of VMap m \<Rightarrow> ser_map (ser_val k) (ser_val t) m | _ \<Rightarrow> [])"
| "ser_val (TyObject fs) = (\<lambda>v. case v of VObject vs \<Rightarrow> ser_object (ser_fields (map (map_prod id ser_val) fs)) vs | _ \<Rightarrow> [])"
| "ser_val (TyPtr fs) = (\<lambda>v. case v of VOptional x \<Rightarrow> ser_ptr (\<lambda>w. ser_fields (map (map_prod id ser_val) fs) (the_fields w)) x | _ \<Rightarrow> [])"

section \<open>Reading\<close>

definition wrap :: "('a \<Rightarrow> 'b) \<Rightarrow> 'a reader \<Rightarrow> 'b reader" where
  "wrap c rd f = bindR (rd f) (\<lambda>x f. Inr (c x, f))"

text \<open>The entries of a hash table in the order of insertion; an insertion under a key that is there has no effect.\<close>

definition alist_insert :: "('k \<times> 'v) list \<Rightarrow> 'k \<times> 'v \<Rightarrow> ('k \<times> 'v) list" where
  "alist_insert m e = (if fst e \<in> fst ` set m then m else m @ [e])"

definition de_entries :: "'k reader \<Rightarrow> 'v reader \<Rightarrow> ('k \<times> 'v) list reader" where
  "de_entries rk rv f = bindR (de_size f) (\<lambda>n f. bindR (read_n (de_pair rk rv) (nat n) f) (\<lambda>es f. Inr (foldl alist_insert [] es, f)))"

primrec de_fields :: "(int \<times> sval reader) list \<Rightarrow> sval list reader" where
  "de_fields [] f = Inr ([], f)"
| "de_fields (e # fs) f = bindR (readProperty (fst e) (snd e) f) (\<lambda>v f. bindR (de_fields fs f) (\<lambda>vs f. Inr (v # vs, f)))"

primrec de_val :: "sty \<Rightarrow> sval reader" where
  "de_val TyBool = wrap VBool de_bool"
| "de_val TyU8 = wrap VInt de_u8"
| "de_val TyU16 = wrap VInt de_u16"
| "de_val TyInt = wrap VInt de_int"
| "de_val TyFloat = wrap VInt de_float"
| "de_val TyDouble = wrap VDouble de_double"
| "de_val TySize = wrap VInt de_size"
| "de_val TyI64 = wrap VInt de_i64"
| "de_val TyString = wrap VString de_string"
| "de_val (TyEnum wide) = wrap VInt (de_enum wide (\<lambda>x. x))"
| "de_val (TyOptional t) = wrap VOptional (de_opt (de_val t))"
| "de_val (TyVector t) = wrap VVector (de_vec (de_val t))"
| "de_val (TyPair a b) = wrap (\<lambda>(x, y). VPair x y) (de_pair (de_val a) (de_val b))"
| "de_val (TyMap k t) = wrap VMap (de_entries (de_val k) (de_val t))"
| "de_val (TyObject fs) = wrap VObject (de_object (de_fields (map (map_prod id de_val) fs)))"
| "de_val (TyPtr fs) = wrap VOptional (de_ptr (wrap VObject (de_fields (map (map_prod id de_val) fs))))"

text \<open>As a map, the entries are what \<open>de_map\<close> reads.\<close>

lemma alist_insert_map: "map_of (alist_insert m e) = map_insert (map_of m) e"
  by (cases e) (auto simp: alist_insert_def map_insert_def map_add_def fun_eq_iff dom_def split: option.split
      dest: map_of_SomeD weak_map_of_SomeI)

lemma de_map_entries: "de_map rk rv f = bindR (de_entries rk rv f) (\<lambda>m f. Inr (map_of m, f))"
proof -
  have "map_of (foldl alist_insert m es) = foldl map_insert (map_of m) es" for m :: "('a \<times> 'b) list" and es
    by (induction es arbitrary: m) (simp_all add: alist_insert_map)
  from this [of "[]"] show ?thesis
    by (simp add: de_map_def de_entries_def bindR_def bindE_assoc case_prod_unfold)
qed

section \<open>Reading back what was written\<close>

lemma codec_wrap:
  assumes "codec wr rd ok view" and "\<And>v. ok' v \<Longrightarrow> \<exists>x. ok x \<and> w v = wr x \<and> c (view x) = v"
  shows "codec w (wrap c rd) ok' (\<lambda>x. x)"
  by unfold_locales (use assms(2) in \<open>force simp: wrap_def codec.rd_wr [OF assms(1)]\<close>)

lemma distinct_insert_all:
  "distinct (map fst es) \<Longrightarrow> fst ` set m \<inter> fst ` set es = {} \<Longrightarrow> foldl alist_insert m es = m @ es"
proof (induction es arbitrary: m)
  case (Cons e es)
  then have "alist_insert m e = m @ [e]" "fst ` set (m @ [e]) \<inter> fst ` set es = {}" by (auto simp: alist_insert_def)
  then show ?case using Cons by simp
qed simp

lemma codec_entries:
  assumes "codec wk rk okk (\<lambda>x. x)" and "codec wv rv okv (\<lambda>x. x)"
  shows "codec (ser_map wk wv) (de_entries rk rv) (\<lambda>m. list_all (\<lambda>(k, v). okk k \<and> okv v) m \<and> distinct (map fst m) \<and> len64 m) (\<lambda>m. m)"
proof
  fix m :: "('a \<times> 'b) list" and rest
  assume m: "list_all (\<lambda>(k, v). okk k \<and> okv v) m \<and> distinct (map fst m) \<and> len64 m"
  have p: "concat (map (\<lambda>(k, v). wk k @ wv v) m) = concat (map (ser_pair wk wv) m)"
    by (simp add: ser_pair_def [abs_def] case_prod_unfold)
  have "list_all (\<lambda>v. okk (fst v) \<and> okv (snd v)) m" using m by (auto simp: list_all_iff)
  note r = codec.read_n_wr [OF codec_pair [OF assms(1,2)] this]
  show "de_entries rk rv (ser_map wk wv m @ rest) = Inr (m, rest)"
    using m distinct_insert_all [of m "[]"] by (simp add: ser_map_def de_entries_def codec.rd_wr [OF codec_size] p r map_prod_ident)
qed

lemma codec_fields:
  assumes "\<And>i t. (i, t) \<in> set fs \<Longrightarrow> codec (ser_val t) (de_val t) (wt t) (\<lambda>x. x)"
  shows "codec (ser_fields (map (map_prod id ser_val) fs)) (de_fields (map (map_prod id de_val) fs)) (fields_of (map (map_prod id wt) fs)) (\<lambda>x. x)"
  using assms
proof (induction fs)
  case Nil
  show ?case by unfold_locales (simp add: ser_fields_def fields_of_def)
next
  case (Cons e fs)
  obtain i t where e: "e = (i, t)" by fastforce
  have ih: "codec (ser_fields (map (map_prod id ser_val) fs)) (de_fields (map (map_prod id de_val) fs)) (fields_of (map (map_prod id wt) fs)) (\<lambda>x. x)"
    using Cons by (metis list.set_intros(2))
  have c: "codec (ser_val t) (de_val t) (wt t) (\<lambda>x. x)" by (rule Cons.prems [of i]) (simp add: e)
  show ?case
  proof
    fix vs rest assume "fields_of (map (map_prod id wt) (e # fs)) vs"
    then obtain v us where v: "vs = v # us" "0 \<le> i" "i < 2 ^ 16" "wt t v" "fields_of (map (map_prod id wt) fs) us"
      by (auto simp: fields_of_def e list_all2_Cons1)
    then show "de_fields (map (map_prod id de_val) (e # fs)) (ser_fields (map (map_prod id ser_val) (e # fs)) vs @ rest) = Inr (vs, rest)"
      using codec.rd_wr [OF codec_property [OF c v(2,3)] v(4)] codec.rd_wr [OF ih v(5)] by (simp add: e ser_fields_def)
  qed
qed

lemma codec_val: "codec (ser_val t) (de_val t) (wt t) (\<lambda>x. x)"
proof (induction t)
  case (TyObject fs)
  then have "codec (ser_fields (map (map_prod id ser_val) fs)) (de_fields (map (map_prod id de_val) fs)) (fields_of (map (map_prod id wt) fs)) (\<lambda>x. x)"
    by (intro codec_fields) (auto simp: snds.simps)
  then show ?case unfolding de_val.simps by (rule codec_wrap [OF codec_object]) auto
next
  case (TyPtr fs)
  then have f: "codec (ser_fields (map (map_prod id ser_val) fs)) (de_fields (map (map_prod id de_val) fs)) (fields_of (map (map_prod id wt) fs)) (\<lambda>x. x)"
    by (intro codec_fields) (auto simp: snds.simps)
  have "codec (\<lambda>w. ser_fields (map (map_prod id ser_val) fs) (the_fields w)) (wrap VObject (de_fields (map (map_prod id de_val) fs)))
      (\<lambda>w. \<exists>vs. w = VObject vs \<and> fields_of (map (map_prod id wt) fs) vs) (\<lambda>x. x)"
    by (rule codec_wrap [OF f]) auto
  from codec_ptr [OF this] show ?case unfolding de_val.simps by (rule codec_wrap) (auto simp: map_option_ident)
next
  case (TyMap k t)
  then show ?case unfolding de_val.simps by (intro codec_wrap [OF codec_entries]) auto
next
  case (TyPair a b)
  then show ?case unfolding de_val.simps by (intro codec_wrap [OF codec_pair]) (auto simp: map_prod_ident)
next
  case (TyVector t)
  then show ?case unfolding de_val.simps by (intro codec_wrap [OF codec_vec]) auto
next
  case (TyOptional t)
  then show ?case unfolding de_val.simps by (intro codec_wrap [OF codec_opt]) (auto simp: map_option_ident)
next
  case (TyEnum wide)
  show ?case unfolding de_val.simps by (rule codec_wrap [OF codec_enum]) auto
qed (unfold de_val.simps, (rule codec_wrap [OF codec_bool] codec_wrap [OF codec_u8] codec_wrap [OF codec_u16] codec_wrap [OF codec_int]
  codec_wrap [OF codec_float] codec_wrap [OF codec_double] codec_wrap [OF codec_size] codec_wrap [OF codec_i64] codec_wrap [OF codec_string], force)+)

section \<open>Truncated data\<close>

lemma local_wrap: "local_reader rd \<Longrightarrow> local_reader (wrap c rd)"
  unfolding wrap_def [abs_def] by (intro local_rules)

lemma local_entries: "local_reader rk \<Longrightarrow> local_reader rv \<Longrightarrow> local_reader (de_entries rk rv)"
  unfolding de_entries_def [abs_def] by (intro local_rules local_scalars local_read_n local_pair)

lemma local_ptr: "local_reader rd \<Longrightarrow> local_reader (de_ptr rd)"
  unfolding de_ptr_def [abs_def] startObject_def endObject_def by (intro local_rules local_marker local_scalars)

lemma local_enum: "local_reader (de_enum wide decode)"
  unfolding de_enum_def [abs_def] by (intro local_rules local_scalars)

lemma local_fields: "(\<And>i rd. (i, rd) \<in> set fs \<Longrightarrow> local_reader rd) \<Longrightarrow> local_reader (de_fields fs)"
proof (induction fs)
  case Nil
  have "de_fields [] = (\<lambda>f. Inr ([], f))" by (rule ext) simp
  then show ?case by (simp add: local_rules)
next
  case (Cons e fs)
  have "de_fields (e # fs) = (\<lambda>f. bindR (readProperty (fst e) (snd e) f) (\<lambda>v f. bindR (de_fields fs f) (\<lambda>vs f. Inr (v # vs, f))))"
    by (rule ext) simp
  moreover have "local_reader (snd e)" using Cons.prems [of "fst e" "snd e"] by simp
  moreover have "local_reader (de_fields fs)" by (rule Cons.IH, rule Cons.prems, rule list.set_intros(2))
  ultimately show ?case by (auto intro!: local_rules local_property)
qed

lemma local_val: "local_reader (de_val t)"
proof (induction t)
  case (TyObject fs)
  then show ?case unfolding de_val.simps by (intro local_wrap local_object local_fields) (auto simp: snds.simps)
next
  case (TyPtr fs)
  then show ?case unfolding de_val.simps by (intro local_wrap local_ptr local_fields) (auto simp: snds.simps)
qed (unfold de_val.simps, (intro local_wrap local_scalars local_string local_enum local_opt local_vec local_pair local_entries; assumption)+)

interpretation typed_codec: codec "ser_val t" "de_val t" "wt t" "\<lambda>x. x" for t
  by (rule codec_val)

interpretation typed_reader: local_reader "de_val t" for t
  by (rule local_val)

section \<open>Properties\<close>

text \<open>
  C25. What was serialised is read back, at every type the framework accepts: scalars, strings, enumerations, and optionals, vectors, pairs, hash tables,
  objects and pointers of them, nested in any way.  A well-typed value is read back from its bytes, whatever follows them; a hash table with the
  entries it had, whatever the order in which it enumerated them.
\<close>

theorem serialised_read_back:
  assumes "wt t v"
  shows "de_val t (ser_val t v @ rest) = Inr (v, rest)"
  using typed_codec.rd_wr [OF assms] .

abbreviation sample_type :: sty where
  "sample_type \<equiv> TyMap TyString (TyVector (TyOptional (TyObject [(1, TyI64), (2, TyPtr [(7, TyBool)])])))"

abbreviation sample_value :: sval where
  "sample_value \<equiv> VMap [(VString ''b'', VVector [VOptional (Some (VObject [VInt (- 7), VOptional (Some (VObject [VBool True]))])), VOptional None]),
     (VString ''a'', VVector [])]"

lemma sample_value_wt: "wt sample_type sample_value"
  by (auto simp: key_type_def fields_of_def is_i64_def)

theorem serialised_read_back_witness:
  "de_val sample_type (ser_val sample_type sample_value @ [5]) = Inr (sample_value, [5])"
  by (rule serialised_read_back [OF sample_value_wt])

text \<open>
  C26. Truncated data is always reported: reading a property of any type from a proper prefix of its bytes raises an error instead of returning a
  value.
\<close>

theorem truncated_data_reported:
  assumes "wt t v" and "0 \<le> i" and "i < 2 ^ 16" and "n < length (writeProperty i (ser_val t) v)"
  shows "\<exists>e. readProperty i (de_val t) (take n (writeProperty i (ser_val t) v)) = Inl e"
  by (rule local_reader.truncated [OF local_property [OF local_val] codec_property [OF codec_val assms(2,3)] assms(1,4)])

theorem truncated_data_reported_witness:
  "\<exists>e. readProperty 1 (de_val sample_type) (take 17 (writeProperty 1 (ser_val sample_type) sample_value)) = Inl e"
proof -
  have "length (writeProperty 1 (ser_val sample_type) sample_value) > 17" by code_simp
  then show ?thesis by (intro truncated_data_reported [OF sample_value_wt]) simp_all
qed

end
