(* ===== verification/Spec2Isabelle.thy ===== *)
theory Spec2Isabelle
  imports Sparql_Endpoint Variant_Nodes Graph_Data Serial_Types
begin

text \<open>
  \<^bold>\<open>A verification library for the graph engine of GengoDB.\<close>

  GengoDB extends the relational engine LingoDB by RDF graphs and SPARQL.  This library models the part that GengoDB adds, from the memory
  layout of a graph up to the HTTP endpoint, together with the serialisation framework and the catalog of LingoDB that it
  rests on.  Paths below are relative to \<open>src/\<close>; \<open>include/\<close> and \<open>src/\<close> stand for \<open>src/include/\<close> and \<open>src/src/\<close>.

  \<^bold>\<open>How the parts interact.\<close>  A statement arrives at the endpoint or the shell, is cut out of the input and classified.  \<open>LOAD\<close> makes a
  graph entry in the catalog and reads its source; a settings directive changes the engine, builds the index of the nodes of all graphs or
  writes the catalog and reopens the session.  An RDF graph numbers its terms with a dictionary and stores them in a property graph, which is a
  generic graph with chains of properties and out-of-line values.  A property graph is written to a graph file and read back.  A query
  is compiled to code that works on variants: a tag and 64 bits that are a number, a string or the address of an entry of a
  registered graph.

  \<^bold>\<open>Conventions\<close> (\<open>Prelude\<close>).  A call that can fail has the result type \<open>'a res\<close>, an error or a value; the errors tell a failed
  assertion, \<open>std::terminate\<close>, an access outside of a buffer, running out of memory and the C++ exceptions apart.  A loop whose end depends on the data is a
  \<open>partial_function (option)\<close> or takes fuel, so that not returning is the value \<open>None\<close>.  32-bit integers are integers with
  the wrap-around written out, 64-bit values, bytes and packed dates are words, strings are lists of characters, files lists of bytes, and hash
  tables maps, with the order of their enumeration as a parameter where it is visible.

  \<^bold>\<open>Graphs in memory.\<close>
  \<^item> \<open>Slot_Pool\<close>, \<open>Linked_Chain\<close>: the two contracts, as locales: a pool of slots with a free list (interpreted on the allocation of
    nodes, relationships and properties), and doubly linked chains.
  \<^item> \<open>Graph_Store\<close> (\<open>include/gengodb/runtime/Graph.h\<close>): entries, buffers, linking and unlinking; \<open>Graph_Refine\<close>, \<open>Graph_Machine\<close>: the
    abstract graph, a step relation of all operations, and that every run of them refines the abstract one; \<open>removeNode\<close> terminates
    and detaches the node; a scan of a neighbourhood is complete.
  \<^item> \<open>Blob_Table\<close>, \<open>Byte_Codec\<close>, \<open>Prop_Data\<close>, \<open>Prop_Graph\<close> (\<open>include/gengodb/runtime/BuiltinGraphs.h\<close>, \<open>src/gengodb/runtime/BuiltinGraphs.cpp\<close>): the
    values and the property graph; \<open>Prop_Refine\<close>, \<open>Pg_Refine\<close>, \<open>Pg_Machine\<close>: property chains never overlap, nothing leaks, runs refine.
  \<^item> \<open>Graph_Registry\<close> (\<open>src/gengodb/runtime/Graph.cpp\<close>): graphs by address, entry addresses and identifiers, iterators.
  \<^item> \<open>Graph_Data\<close> (\<open>src/gengodb/runtime/GraphData.cpp\<close>): how generated code gets graphs and prints their parts.
  \<^item> \<open>Variant\<close> (\<open>src/gengodb/runtime/Variant.cpp\<close>): the variants; \<open>Rdf_Tags\<close>, \<open>Variant_Nodes\<close>: a node made into a variant is resolved to
    the same node, comparison across graphs is equality of terms, and where the order of variants is not one.

  \<^bold>\<open>Graphs on disk.\<close>
  \<^item> \<open>Neo4J_Format\<close>, \<open>Graph_File\<close> (\<open>include/gengodb/runtime/GraphData.h\<close>, \<open>src/gengodb/runtime/GengoDBGraph.cpp\<close>): the packed image, flushing and
    loading over an explicit file system; what is flushed is loaded as the same abstract graph, but the loaded graph does not know which of its slots
    are free.
  \<^item> \<open>Serialization\<close> (\<open>include/lingodb/utility/Serialization.h\<close>): writers and readers as a \<open>codec\<close> contract, one interpretation for every overload;
    \<open>Serial_Types\<close>: the types that can be composed of them; a value of any such type is read back, and a proper prefix of its bytes is reported.

  \<^bold>\<open>RDF.\<close>
  \<^item> \<open>Xsd_Types\<close>, \<open>Std_Text\<close>, \<open>Rdf_Values\<close> (\<open>include/gengodb/semantics/Datatypes.h\<close>, \<open>RdfGraph.h\<close>): datatype tags, numerals, packed values and dates.
  \<^item> \<open>Identifiers\<close> (\<open>Identifiers.h\<close>, \<open>Identifiers.cpp\<close>): the node dictionary and the mapping to global numbers.
  \<^item> \<open>Rdf_Graph\<close>, \<open>Rdf_Refine\<close>, \<open>Rdf_Triples\<close> (\<open>RdfGraph.cpp\<close>): the RDF graph, its invariant, and that triples, literals and the literal table are
    what was added.
  \<^item> \<open>Graph_Index\<close>: nodes of several graphs get the same number exactly when they stand for the same term.
  \<^item> \<open>Fuzzy_Lexer\<close>, \<open>Fuzzy_Parser\<close>, \<open>Fuzzy_Turtle\<close> (\<open>FuzzyTurtle.cpp\<close>): the reader of Turtle with truth degrees returns on every
    input, blanks exactly the degree tokens of an input it accepts, and delivers their degrees, which lie between zero and one.

  \<^bold>\<open>Catalog and SPARQL.\<close>
  \<^item> \<open>Catalog_Types\<close>, \<open>Graph_Catalog\<close>, \<open>Catalog_Store\<close> (\<open>src/catalog/\<close>, \<open>src/gengodb/catalog/\<close>): types and definitions, graph entries, and the catalog over
    a contract of its entries (\<open>stored_entries\<close>), interpreted on the entries of the program; graphs survive a restart.
  \<^item> \<open>Std_Regex\<close>, \<open>Sparql_Statements\<close>, \<open>Sparql_Engine\<close>, \<open>Sparql_Session\<close> (\<open>src/gengodb/execution/SparqlEngine.cpp\<close>, \<open>src/tools/sparql.cpp\<close>): statements,
    directives, the engine; when pointers to loaded graphs stay valid, and that persisting keeps the session.
  \<^item> \<open>Sparql_Results\<close>, \<open>Sparql_Endpoint\<close> (\<open>src/tools/sparql-endpoint.cpp\<close>): forms, result formats and routes; results are read back, only
    the translation and the execution of a query can keep a request from ending, and updates have the same effect on both routes.

  \<^bold>\<open>Bounds and fuel.\<close>  The fuzzy Turtle parser takes fuel computed from the length of the input, and the property that it returns on every input
  shows that the fuel is enough.  The iteration over the matches of a regular expression is bounded by the length of the text, which loses nothing
  because every match of the patterns in use consumes a character.  The reader of CSV, which exists for the statement of the
  round trip only, is bounded by the length of its input.  The loops over chains have no bound: that they return is part of the
  refinement.  Capacities are assumed to be 32-bit integers, and the number of graphs in an index to be at most \<open>2 ^ 30\<close> where its
  numbers must fit 64 bits.

  \<^bold>\<open>Parameters.\<close>  What is not in the repository is an argument: what rdf4cpp parses out of a text, how it prints, compares, casts and computes with
  literals and which IRIs it accepts; the Arrow data of table entries; the printer of JSON, which may throw; the codes of rdf4cpp's node types; the order
  in which a hash table is enumerated.  The translation and the execution of queries are in the repository, but rest on MLIR and LLVM: they are not
  modelled and are arguments of the engine too, which may fail and may not return.

  \<^bold>\<open>Not modelled.\<close>
  \<^item> The compiler (dialects, lowerings, optimisations), the SPARQL translator and the SQL frontend: rewrites of MLIR, whose meaning is given by the MLIR
    library.  The code emitted for a reference to a node is the exception.
  \<^item> The execution backends, the run time for relational queries, table storage and hash indexes: LLVM, Arrow, and concurrent buffers used by
    generated code only.
  \<^item> The scheduler, sockets, threads and the HTTP library; console output; settings and tracing.
  \<^item> The state after a statement that threw; the back pointer of catalog entries, through which the index entry reaches all graphs
    when it is added to a catalog (what it installs in one graph is modelled); the table of loaded function libraries.
\<close>

end
